(* ===== verification/Prelude.thy ===== *)
theory Prelude
  imports Main "HOL-Library.Word"
begin

text \<open>
  Shared vocabulary of the development: the machine types of the Rust sources, Rust's
  \<^verbatim>\<open>Result\<close> as a sum type with the \<^verbatim>\<open>?\<close> operator as a bind, big-endian integers,
  byte-string literals, the UTF-8 well-formedness check of \<^verbatim>\<open>std::str::from_utf8\<close>,
  the slice operations the sources use (\<^verbatim>\<open>split\<close>, \<^verbatim>\<open>strip_prefix\<close>, \<^verbatim>\<open>starts_with\<close>),
  and the generic lemmas on lists and words that the component theories share.

  \<^item> \<^verbatim>\<open>u8\<close>, \<^verbatim>\<open>u32\<close> and \<^verbatim>\<open>u64\<close> are words of their width; \<^verbatim>\<open>usize\<close> values are
    lengths of in-memory slices and are natural numbers.
  \<^item> \<^verbatim>\<open>&[u8]\<close>, \<^verbatim>\<open>Vec<u8>\<close> and \<^verbatim>\<open>&str\<close> are byte lists (a Rust \<^verbatim>\<open>str\<close> is its UTF-8 bytes).
  \<^item> \<^verbatim>\<open>Result<T, E>\<close> is \<open>'e + 'a\<close>, with \<open>Inl\<close> for \<^verbatim>\<open>Err\<close> and \<open>Inr\<close> for \<^verbatim>\<open>Ok\<close>.
\<close>

named_theorems result_simps \<open>unfolding of the Result combinators\<close>
named_theorems be_simps \<open>big-endian encoding and decoding\<close>

section \<open>Types\<close>

type_synonym u8 = "8 word"
type_synonym u16 = "16 word"
type_synonym u32 = "32 word"
type_synonym u64 = "64 word"
type_synonym bytes = "8 word list"
type_synonym ('e, 'a) result = "'e + 'a"

abbreviation u32_max :: nat where
  "u32_max \<equiv> 4294967295"

abbreviation u64_max :: nat where
  "u64_max \<equiv> 18446744073709551615"

section \<open>Result\<close>

text \<open>The \<^verbatim>\<open>?\<close> operator: an error ends the function, a value goes on.\<close>

definition try_bind :: "('e, 'a) result \<Rightarrow> ('a \<Rightarrow> ('e, 'b) result) \<Rightarrow> ('e, 'b) result" where
  "try_bind m k = (case m of Inl e \<Rightarrow> Inl e | Inr x \<Rightarrow> k x)"

definition map_err :: "('e \<Rightarrow> 'f) \<Rightarrow> ('e, 'a) result \<Rightarrow> ('f, 'a) result" where
  "map_err f m = (case m of Inl e \<Rightarrow> Inl (f e) | Inr x \<Rightarrow> Inr x)"

definition ok_or :: "'e \<Rightarrow> 'a option \<Rightarrow> ('e, 'a) result" where
  "ok_or e m = (case m of None \<Rightarrow> Inl e | Some x \<Rightarrow> Inr x)"

definition res_ok :: "('e, 'a) result \<Rightarrow> 'a option" where
  "res_ok m = (case m of Inl _ \<Rightarrow> None | Inr x \<Rightarrow> Some x)"

lemma try_bind_simps [simp, result_simps]:
  "try_bind (Inl e) k = Inl e" "try_bind (Inr x) k = k x"
  by (simp_all add: try_bind_def)

lemma try_bind_Inr_iff:
  "try_bind m k = Inr y \<longleftrightarrow> (\<exists>x. m = Inr x \<and> k x = Inr y)"
  by (cases m) simp_all

lemma try_bind_Inl_iff:
  "try_bind m k = Inl e \<longleftrightarrow> m = Inl e \<or> (\<exists>x. m = Inr x \<and> k x = Inl e)"
  by (cases m) simp_all

lemma try_bind_Inr_iff':
  "Inr y = try_bind m k \<longleftrightarrow> (\<exists>x. m = Inr x \<and> k x = Inr y)"
  by (cases m) auto

lemma try_bind_Inl_iff':
  "Inl e = try_bind m k \<longleftrightarrow> m = Inl e \<or> (\<exists>x. m = Inr x \<and> k x = Inl e)"
  by (cases m) auto

lemma try_bind_InrE:
  assumes "try_bind m k = Inr y"
  obtains x where "m = Inr x" "k x = Inr y"
  using assms by (cases m) auto

lemmas try_bind_iff = try_bind_Inr_iff try_bind_Inl_iff try_bind_Inr_iff' try_bind_Inl_iff'

lemma map_err_simps [simp, result_simps]:
  "map_err f (Inl e) = Inl (f e)" "map_err f (Inr x) = Inr x"
  by (simp_all add: map_err_def)

lemma map_err_Inr_iff [simp]: "map_err f m = Inr x \<longleftrightarrow> m = Inr x"
  by (cases m) simp_all

lemma ok_or_simps [simp, result_simps]: "ok_or e None = Inl e" "ok_or e (Some x) = Inr x"
  by (simp_all add: ok_or_def)

lemma ok_or_Inr_iff [simp]: "ok_or e m = Inr x \<longleftrightarrow> m = Some x"
  by (cases m) simp_all

lemma res_ok_simps [simp, result_simps]: "res_ok (Inl e) = None" "res_ok (Inr x) = Some x"
  by (simp_all add: res_ok_def)

lemma res_ok_Some_iff [simp]: "res_ok m = Some x \<longleftrightarrow> m = Inr x"
  by (cases m) simp_all

section \<open>Big-endian integers\<close>

text \<open>\<^verbatim>\<open>to_be_bytes\<close> and \<^verbatim>\<open>from_be_bytes\<close>, for a width of \<open>k\<close> bytes.\<close>

fun be_enc :: "nat \<Rightarrow> nat \<Rightarrow> bytes" where
  "be_enc 0 n = []"
| "be_enc (Suc k) n = word_of_nat (n div 256 ^ k) # be_enc k n"

definition be_dec :: "bytes \<Rightarrow> nat" where
  "be_dec bs = foldl (\<lambda>a b. a * 256 + unat b) 0 bs"

definition u32_to_be_bytes :: "u32 \<Rightarrow> bytes" where
  "u32_to_be_bytes v = be_enc 4 (unat v)"

definition u32_from_be_bytes :: "bytes \<Rightarrow> u32" where
  "u32_from_be_bytes bs = word_of_nat (be_dec bs)"

definition u64_to_be_bytes :: "u64 \<Rightarrow> bytes" where
  "u64_to_be_bytes v = be_enc 8 (unat v)"

definition u64_from_be_bytes :: "bytes \<Rightarrow> u64" where
  "u64_from_be_bytes bs = word_of_nat (be_dec bs)"

lemma length_be_enc [simp]: "length (be_enc k n) = k"
  by (induction k) simp_all

lemma be_enc_4: "be_enc 4 n =
    [word_of_nat (n div 16777216), word_of_nat (n div 65536), word_of_nat (n div 256), word_of_nat n]"
proof -
  have "be_enc 4 n = be_enc (Suc (Suc (Suc (Suc 0)))) n" by (rule arg_cong[where f = "\<lambda>k. be_enc k n"]) simp
  then show ?thesis by simp
qed

lemma be_dec_Nil [simp]: "be_dec [] = 0"
  by (simp add: be_dec_def)

lemma foldl_be_dec:
  "foldl (\<lambda>a b. a * 256 + unat b) a (bs :: bytes) = a * 256 ^ length bs + be_dec bs"
proof (induction bs arbitrary: a)
  case Nil
  then show ?case by simp
next
  case (Cons b bs)
  have "be_dec (b # bs) = unat b * 256 ^ length bs + be_dec bs"
    using Cons[of "unat b"] by (simp add: be_dec_def)
  then show ?case
    using Cons[of "a * 256 + unat b"] by (simp add: algebra_simps)
qed

lemma be_dec_Cons [simp]: "be_dec (b # bs) = unat b * 256 ^ length bs + be_dec bs"
  using foldl_be_dec[of "unat b" bs] by (simp add: be_dec_def)

lemma unat_u8_less [simp]: "unat (b :: u8) < 256"
  using unsigned_less[where ?'a = nat and w = b] by simp

lemma be_dec_less: "be_dec bs < 256 ^ length bs"
proof (induction bs)
  case Nil
  then show ?case by simp
next
  case (Cons b bs)
  have "unat b * 256 ^ length bs + be_dec bs < Suc (unat b) * 256 ^ length bs"
    using Cons by simp
  also have "\<dots> \<le> 256 * 256 ^ length bs"
    by (intro mult_le_mono1) (simp only: Suc_le_eq unat_u8_less)
  finally show ?case by simp
qed

lemma be_dec_be_enc [be_simps]: "be_dec (be_enc k n) = n mod 256 ^ k"
proof (induction k)
  case 0
  then show ?case by simp
next
  case (Suc k)
  have "n mod (256 ^ k * 256) = 256 ^ k * (n div 256 ^ k mod 256) + n mod 256 ^ k"
    by (rule mod_mult2_eq)
  then show ?case
    using Suc by (simp add: unat_of_nat mult.commute)
qed

lemma be_enc_mod: "be_enc k (n mod 256 ^ k) = be_enc k n"
proof -
  have "be_enc j (n mod 256 ^ k) = be_enc j n" if "j \<le> k" for j
    using that
  proof (induction j)
    case 0
    then show ?case by simp
  next
    case (Suc j)
    then have k: "256 ^ k = 256 ^ j * (256 :: nat) ^ (k - j)"
      by (simp flip: power_add)
    have "n mod 256 ^ k div 256 ^ j = n div 256 ^ j mod 256 ^ (k - j)"
      unfolding k by (simp add: mod_mult2_eq)
    moreover have "(word_of_nat (m mod 256 ^ (k - j)) :: u8) = word_of_nat m" for m
      using Suc.prems by (simp add: word_of_nat_eq_iff take_bit_eq_mod mod_mod_cancel dvd_power)
    ultimately show ?case using Suc by simp
  qed
  then show ?thesis by simp
qed

lemma be_enc_be_dec [be_simps]: "be_enc (length bs) (be_dec bs) = bs"
proof (induction bs)
  case Nil
  then show ?case by simp
next
  case (Cons b bs)
  have "be_enc (length bs) (unat b * 256 ^ length bs + be_dec bs)
      = be_enc (length bs) ((unat b * 256 ^ length bs + be_dec bs) mod 256 ^ length bs)"
    by (simp only: be_enc_mod)
  also have "\<dots> = bs"
    using Cons be_dec_less[of bs] by simp
  finally show ?case
    using be_dec_less[of bs] by simp
qed

lemma length_to_be_bytes [simp]:
  "length (u32_to_be_bytes v) = 4" "length (u64_to_be_bytes x) = 8"
  by (simp_all add: u32_to_be_bytes_def u64_to_be_bytes_def)

lemma u32_from_to_be_bytes [simp, be_simps]: "u32_from_be_bytes (u32_to_be_bytes v) = v"
proof -
  have "unat v < 256 ^ 4"
    using unsigned_less[where ?'a = nat and w = v] by simp
  then show ?thesis
    by (simp add: u32_from_be_bytes_def u32_to_be_bytes_def be_dec_be_enc)
qed

lemma u64_from_to_be_bytes [simp, be_simps]: "u64_from_be_bytes (u64_to_be_bytes v) = v"
proof -
  have "unat v < 256 ^ 8"
    using unsigned_less[where ?'a = nat and w = v] by simp
  then show ?thesis
    by (simp add: u64_from_be_bytes_def u64_to_be_bytes_def be_dec_be_enc)
qed

lemma u32_to_from_be_bytes [be_simps]:
  assumes "length bs = 4"
  shows "u32_to_be_bytes (u32_from_be_bytes bs) = bs"
proof -
  have "be_dec bs < 2 ^ 32"
    using be_dec_less[of bs] assms by simp
  then have "unat (word_of_nat (be_dec bs) :: u32) = be_dec bs"
    by (simp add: unat_of_nat)
  then show ?thesis
    using be_enc_be_dec[of bs] assms by (simp add: u32_to_be_bytes_def u32_from_be_bytes_def)
qed

lemma u64_to_from_be_bytes [be_simps]:
  assumes "length bs = 8"
  shows "u64_to_be_bytes (u64_from_be_bytes bs) = bs"
proof -
  have "be_dec bs < 2 ^ 64"
    using be_dec_less[of bs] assms by simp
  then have "unat (word_of_nat (be_dec bs) :: u64) = be_dec bs"
    by (simp add: unat_of_nat)
  then show ?thesis
    using be_enc_be_dec[of bs] assms by (simp add: u64_to_be_bytes_def u64_from_be_bytes_def)
qed

lemma unat_u32_of_nat [simp]: "n \<le> u32_max \<Longrightarrow> unat (word_of_nat n :: u32) = n"
  by (simp add: unat_of_nat)

lemma unat_u32_le [simp]: "unat (v :: u32) \<le> u32_max"
  using unsigned_less[where ?'a = nat and w = v] by simp

lemma unat_ucast_u32_u64 [simp]: "unat (ucast (v :: u32) :: u64) = unat v"
proof -
  have "unat v < 2 ^ 64"
    using unsigned_less[where ?'a = nat and w = v] by simp
  then show ?thesis by (simp add: unsigned_ucast_eq take_bit_nat_eq_self)
qed

section \<open>Byte strings\<close>

text \<open>The bytes of an ASCII literal such as \<^verbatim>\<open>b"none"\<close>.\<close>

definition ascii :: "string \<Rightarrow> bytes" where
  "ascii s = map of_char s"

definition starts_with :: "'a list \<Rightarrow> 'a list \<Rightarrow> bool" where
  "starts_with p xs \<longleftrightarrow> take (length p) xs = p"

definition strip_prefix :: "'a list \<Rightarrow> 'a list \<Rightarrow> 'a list option" where
  "strip_prefix p xs = (if starts_with p xs then Some (drop (length p) xs) else None)"

text \<open>\<^verbatim>\<open>slice::split\<close>: the maximal runs between separators, empty runs included.\<close>

fun split_on :: "'a \<Rightarrow> 'a list \<Rightarrow> 'a list list" where
  "split_on d [] = [[]]"
| "split_on d (x # xs) =
     (if x = d then [] # split_on d xs
      else case split_on d xs of [] \<Rightarrow> [[x]] | y # ys \<Rightarrow> (x # y) # ys)"

fun join_with :: "'a \<Rightarrow> 'a list list \<Rightarrow> 'a list" where
  "join_with d [] = []"
| "join_with d [x] = x"
| "join_with d (x # y # ys) = x @ d # join_with d (y # ys)"

lemma length_ascii [simp]: "length (ascii s) = length s"
  by (simp add: ascii_def)

lemma strip_prefix_Some_iff: "strip_prefix p xs = Some ys \<longleftrightarrow> xs = p @ ys"
  by (auto simp: strip_prefix_def starts_with_def split: if_splits)
    (metis append_take_drop_id)

lemma starts_with_append [simp]: "starts_with p (p @ xs)"
  by (simp add: starts_with_def)

lemma split_on_nonempty [simp]: "split_on d xs \<noteq> []"
  by (induction xs) (auto split: list.splits)

lemma join_with_Cons: "ys \<noteq> [] \<Longrightarrow> join_with d (x # ys) = x @ d # join_with d ys"
  by (cases ys) simp_all

lemma join_split [simp]: "join_with d (split_on d xs) = xs"
proof (induction xs)
  case Nil
  then show ?case by simp
next
  case (Cons x xs)
  obtain y ys where "split_on d xs = y # ys"
    by (meson neq_Nil_conv split_on_nonempty)
  then show ?case
    using Cons by (cases ys) (auto simp: join_with_Cons)
qed

lemma split_on_no_sep: "d \<notin> set xs \<Longrightarrow> split_on d xs = [xs]"
  by (induction xs) auto

lemma split_on_append_sep: "d \<notin> set xs \<Longrightarrow> split_on d (xs @ d # ys) = xs # split_on d ys"
  by (induction xs) auto

lemma split_join: "xss \<noteq> [] \<Longrightarrow> \<forall>xs\<in>set xss. d \<notin> set xs \<Longrightarrow> split_on d (join_with d xss) = xss"
proof (induction d xss rule: join_with.induct)
  case (1 d)
  then show ?case by simp
next
  case (2 d x)
  then show ?case by (simp add: split_on_no_sep)
next
  case (3 d x y ys)
  then show ?case by (simp add: split_on_append_sep)
qed

lemma split_on_no_sep_elem: "xs \<in> set (split_on d ys) \<Longrightarrow> d \<notin> set xs"
  by (induction ys arbitrary: xs) (auto split: if_splits list.splits)

section \<open>UTF-8\<close>

text \<open>
  Well-formedness as \<^verbatim>\<open>std::str::from_utf8\<close> checks it (Unicode Table 3-7): no overlong
  form, no surrogate, nothing above U+10FFFF.
\<close>

definition utf8_cont :: "u8 \<Rightarrow> bool" where
  "utf8_cont b \<longleftrightarrow> 0x80 \<le> b \<and> b \<le> 0xBF"

fun utf8_valid :: "bytes \<Rightarrow> bool" where
  "utf8_valid [] = True"
| "utf8_valid (b # r) =
     (if b < 0x80 then utf8_valid r
      else if 0xC2 \<le> b \<and> b \<le> 0xDF then
        (case r of c # r' \<Rightarrow> utf8_cont c \<and> utf8_valid r' | [] \<Rightarrow> False)
      else if 0xE0 \<le> b \<and> b \<le> 0xEF then
        (case r of
           c # d # r' \<Rightarrow>
             (if b = 0xE0 then 0xA0 \<le> c \<and> c \<le> 0xBF
              else if b = 0xED then 0x80 \<le> c \<and> c \<le> 0x9F
              else utf8_cont c) \<and> utf8_cont d \<and> utf8_valid r'
         | _ \<Rightarrow> False)
      else if 0xF0 \<le> b \<and> b \<le> 0xF4 then
        (case r of
           c # d # e # r' \<Rightarrow>
             (if b = 0xF0 then 0x90 \<le> c \<and> c \<le> 0xBF
              else if b = 0xF4 then 0x80 \<le> c \<and> c \<le> 0x8F
              else utf8_cont c) \<and> utf8_cont d \<and> utf8_cont e \<and> utf8_valid r'
         | _ \<Rightarrow> False)
      else False)"

definition is_ascii_graphic :: "u8 \<Rightarrow> bool" where
  "is_ascii_graphic b \<longleftrightarrow> 0x21 \<le> b \<and> b \<le> 0x7E"

lemma utf8_valid_ascii: "\<forall>b\<in>set bs. b < 0x80 \<Longrightarrow> utf8_valid bs"
  by (induction bs) auto

lemma is_ascii_graphic_less: "is_ascii_graphic b \<Longrightarrow> b < 0x80"
  unfolding is_ascii_graphic_def by (rule order.strict_trans1) auto

lemma utf8_valid_graphic: "\<forall>b\<in>set bs. is_ascii_graphic b \<Longrightarrow> utf8_valid bs"
  by (auto intro!: utf8_valid_ascii is_ascii_graphic_less)

end
