(* ===== verification/Str.thy ===== *)
theory Str
  imports Prelude
begin

text \<open>
  The operations of Rust's \<^verbatim>\<open>str\<close> that the key-file parsers use, on UTF-8 bytes: \<^verbatim>\<open>lines\<close>,
  \<^verbatim>\<open>trim\<close>, \<^verbatim>\<open>split_whitespace\<close>, and \<^verbatim>\<open>u8::is_ascii_whitespace\<close>. White space is Unicode's
  White_Space property, recognised by its UTF-8 encodings; since none of the lead bytes is a
  continuation byte, scanning byte by byte finds exactly the white-space characters of a valid
  string.
\<close>

definition is_ascii_whitespace :: "u8 \<Rightarrow> bool" where
  "is_ascii_whitespace b \<longleftrightarrow> b \<in> {0x20, 0x09, 0x0A, 0x0C, 0x0D}"

text \<open>The length of the white-space character a byte string starts with, 0 if it starts with none.\<close>

fun ws_len :: "bytes \<Rightarrow> nat" where
  "ws_len [] = 0"
| "ws_len (b # r) =
     (if b = 0x20 \<or> 0x09 \<le> b \<and> b \<le> 0x0D then 1
      else if b = 0xC2 then (case r of c # _ \<Rightarrow> if c = 0x85 \<or> c = 0xA0 then 2 else 0 | [] \<Rightarrow> 0)
      else case r of
        c # d # _ \<Rightarrow>
          if b = 0xE1 \<and> c = 0x9A \<and> d = 0x80 \<or>
             b = 0xE2 \<and> c = 0x80 \<and> (0x80 \<le> d \<and> d \<le> 0x8A \<or> d = 0xA8 \<or> d = 0xA9 \<or> d = 0xAF) \<or>
             b = 0xE2 \<and> c = 0x81 \<and> d = 0x9F \<or>
             b = 0xE3 \<and> c = 0x80 \<and> d = 0x80
          then 3 else 0
      | _ \<Rightarrow> 0)"

lemma ws_len_le: "ws_len xs \<le> length xs"
  by (cases xs) (auto split: list.splits)

text \<open>The same for the character a string ends with.\<close>

definition ws_len_end :: "bytes \<Rightarrow> nat" where
  "ws_len_end xs =
     (if xs \<noteq> [] \<and> ws_len [last xs] = 1 then 1
      else if length xs \<ge> 2 \<and> ws_len (drop (length xs - 2) xs) = 2 then 2
      else if length xs \<ge> 3 \<and> ws_len (drop (length xs - 3) xs) = 3 then 3
      else 0)"

lemma ws_len_end_le: "ws_len_end xs \<le> length xs"
proof -
  have "xs \<noteq> [] \<Longrightarrow> 1 \<le> length xs" by (cases xs) simp_all
  then show ?thesis unfolding ws_len_end_def by (simp only: split: if_splits) blast
qed

function str_trim_start :: "bytes \<Rightarrow> bytes" where
  "str_trim_start xs = (if ws_len xs = 0 then xs else str_trim_start (drop (ws_len xs) xs))"
  by auto
termination
proof (relation "measure length")
  fix xs :: bytes
  assume "ws_len xs \<noteq> 0"
  then show "(drop (ws_len xs) xs, xs) \<in> measure length"
    using ws_len_le[of xs] by simp
qed simp

declare str_trim_start.simps [simp del]

function str_trim_end :: "bytes \<Rightarrow> bytes" where
  "str_trim_end xs =
     (if ws_len_end xs = 0 then xs else str_trim_end (take (length xs - ws_len_end xs) xs))"
  by auto
termination
proof (relation "measure length")
  fix xs :: bytes
  assume "ws_len_end xs \<noteq> 0"
  then show "(take (length xs - ws_len_end xs) xs, xs) \<in> measure length"
    using ws_len_end_le[of xs] by simp
qed simp

declare str_trim_end.simps [simp del]

definition str_trim :: "bytes \<Rightarrow> bytes" where
  "str_trim xs = str_trim_end (str_trim_start xs)"

text \<open>\<^verbatim>\<open>split_whitespace\<close>: the maximal runs of other characters; \<open>cur\<close> is the current run, reversed.\<close>

function split_ws :: "bytes \<Rightarrow> bytes \<Rightarrow> bytes list" where
  "split_ws cur xs =
     (if xs = [] then (if cur = [] then [] else [rev cur])
      else if ws_len xs = 0 then split_ws (hd xs # cur) (tl xs)
      else (if cur = [] then [] else [rev cur]) @ split_ws [] (drop (ws_len xs) xs))"
  by auto
termination
proof (relation "measure (\<lambda>(_, xs). length xs)")
  fix cur xs :: bytes
  assume "xs \<noteq> []" and "ws_len xs \<noteq> 0"
  then show "(([], drop (ws_len xs) xs), (cur, xs)) \<in> measure (\<lambda>(_, xs). length xs)"
    using ws_len_le[of xs] by (cases xs) auto
qed (auto simp: length_greater_0_conv)

declare split_ws.simps [simp del]

definition str_split_whitespace :: "bytes \<Rightarrow> bytes list" where
  "str_split_whitespace xs = split_ws [] xs"

text \<open>\<^verbatim>\<open>str::lines\<close>: a line feed ends a line, with a carriage return before it removed; the text
  after the last line feed is a line unless empty.\<close>

definition strip_cr :: "bytes \<Rightarrow> bytes" where
  "strip_cr l = (if l \<noteq> [] \<and> last l = 0x0D then butlast l else l)"

definition str_lines :: "bytes \<Rightarrow> bytes list" where
  "str_lines xs =
     (let parts = split_on 0x0A xs in
      map strip_cr (butlast parts) @ (if last parts = [] then [] else [last parts]))"

section \<open>Lemmas\<close>

text \<open>A printable token: no byte of it is part of a white-space character.\<close>

lemma ws_len_graphic: "is_ascii_graphic b \<Longrightarrow> ws_len (b # r) = 0"
proof -
  assume g: "is_ascii_graphic b"
  have "b < 0x80" using g by (rule is_ascii_graphic_less)
  then have "b \<noteq> 0xC2" "b \<noteq> 0xE1" "b \<noteq> 0xE2" "b \<noteq> 0xE3" by auto
  moreover have "\<not> (b = 0x20 \<or> 0x09 \<le> b \<and> b \<le> 0x0D)"
    using g unfolding is_ascii_graphic_def by (auto simp: word_le_nat_alt)
  ultimately show ?thesis by (auto split: list.splits)
qed

lemma trim_start_graphic: "is_ascii_graphic b \<Longrightarrow> str_trim_start (b # r) = b # r"
  by (subst str_trim_start.simps) (simp only: ws_len_graphic if_True refl)

lemma ws_len_end_graphic:
  assumes "is_ascii_graphic b"
  shows "ws_len_end (r @ [b]) = 0"
proof -
  have one: "ws_len [b] = 0" using assms by (rule ws_len_graphic)
  have lt: "b < 0x80" using assms by (rule is_ascii_graphic_less)
  have two: "ws_len [c, b] \<noteq> 2" for c
  proof -
    have "b \<noteq> 0x85" "b \<noteq> 0xA0" using lt by auto
    then show ?thesis by simp
  qed
  have three: "ws_len [c, d, b] \<noteq> 3" for c d
  proof -
    have "\<not> 0x80 \<le> b" "b \<noteq> 0x80" "b \<noteq> 0xA8" "b \<noteq> 0xA9" "b \<noteq> 0xAF" "b \<noteq> 0x9F"
      using lt by auto
    then show ?thesis by simp
  qed
  have "ws_len (drop (length (r @ [b]) - 2) (r @ [b])) \<noteq> 2" if "length (r @ [b]) \<ge> 2"
  proof -
    have "r \<noteq> []" using that by auto
    then obtain r' c where "r = r' @ [c]" by (cases r rule: rev_cases) simp_all
    then show ?thesis using two by simp
  qed
  moreover have "ws_len (drop (length (r @ [b]) - 3) (r @ [b])) \<noteq> 3" if "length (r @ [b]) \<ge> 3"
  proof -
    have "r \<noteq> []" using that by auto
    then obtain r' d where r: "r = r' @ [d]" by (cases r rule: rev_cases) simp_all
    then have "r' \<noteq> []" using that by auto
    then obtain r'' c where "r' = r'' @ [c]" by (cases r' rule: rev_cases) simp_all
    then show ?thesis using three r by simp
  qed
  ultimately show ?thesis using one by (simp add: ws_len_end_def)
qed

lemma trim_graphic:
  assumes "\<forall>b\<in>set xs. is_ascii_graphic b"
  shows "str_trim xs = xs"
proof (cases xs)
  case Nil
  then show ?thesis
    by (simp add: str_trim_def) (subst str_trim_start.simps, simp, subst str_trim_end.simps, simp add: ws_len_end_def)
next
  case (Cons b r)
  have "is_ascii_graphic (last xs)" using assms Cons by (metis last_in_set list.discI)
  then have "ws_len_end (butlast xs @ [last xs]) = 0" by (rule ws_len_end_graphic)
  moreover have "butlast xs @ [last xs] = xs" using Cons by (intro append_butlast_last_id) simp
  ultimately have "ws_len_end xs = 0" by (simp only:)
  then have "str_trim_end xs = xs" by (subst str_trim_end.simps) simp
  then show ?thesis using assms Cons by (simp add: str_trim_def trim_start_graphic)
qed

lemma split_ws_graphic:
  assumes "\<forall>b\<in>set xs. is_ascii_graphic b"
  shows "split_ws cur (xs @ r) = split_ws (rev xs @ cur) r"
  using assms
proof (induction xs arbitrary: cur)
  case Nil
  then show ?case by simp
next
  case (Cons b xs)
  then have "split_ws cur (b # xs @ r) = split_ws (b # cur) (xs @ r)"
    by (subst split_ws.simps) (simp add: ws_len_graphic del: ws_len.simps)
  then show ?case using Cons by simp
qed

lemma split_ws_end: "split_ws cur [] = (if cur = [] then [] else [rev cur])"
  by (subst split_ws.simps) simp

lemma split_ws_space: "split_ws cur (0x20 # r) = (if cur = [] then [] else [rev cur]) @ split_ws [] r"
  by (subst split_ws.simps) simp

lemma str_lines_line:
  "0x0A \<notin> set l \<Longrightarrow> str_lines (l @ 0x0A # r) = strip_cr l # str_lines r"
  by (simp add: str_lines_def split_on_append_sep Let_def)

lemma str_lines_Nil [simp]: "str_lines [] = []"
  by (simp add: str_lines_def)

lemma strip_cr_graphic: "\<forall>b\<in>set l. is_ascii_graphic b \<Longrightarrow> strip_cr l = l"
proof -
  assume g: "\<forall>b\<in>set l. is_ascii_graphic b"
  have "\<not> is_ascii_graphic 0x0D" by (simp add: is_ascii_graphic_def)
  then have "\<not> (l \<noteq> [] \<and> last l = 0x0D)" using g last_in_set by metis
  then show ?thesis unfolding strip_cr_def by (rule if_not_P)
qed

section \<open>Numbers\<close>

text \<open>Decimal rendering of an integer (\<^verbatim>\<open>to_string\<close>).\<close>

fun decimal :: "nat \<Rightarrow> bytes" where
  "decimal n = (if n < 10 then [0x30 + word_of_nat n] else decimal (n div 10) @ [0x30 + word_of_nat (n mod 10)])"

declare decimal.simps [simp del]

end
