(* ===== verification/Wire.thy ===== *)
theory Wire
  imports Prelude "HOL-Library.While_Combinator"
begin

text \<open>
  \<^verbatim>\<open>crates/quantumssh-core/src/wire.rs\<close>: the sshtype primitives of RFC 4251 (the bounded
  \<^verbatim>\<open>Reader\<close> and the \<^verbatim>\<open>Writer\<close>), the unencrypted Binary Packet Protocol framing, and the
  identification line.

  A \<^verbatim>\<open>Reader\<close> is the unread input; a read returns the value and the input that is left.
  After an error no caller uses the reader again, so an error carries no reader.
  A \<^verbatim>\<open>Writer\<close> is the buffer built so far, or \<open>None\<close> once a write has panicked: the only
  panic is a string longer than \<^verbatim>\<open>u32::MAX\<close> bytes. \<open>run_writer\<close> applies a list of writes in
  source order and is \<^verbatim>\<open>into_bytes\<close> of the result.
  The operating system's random source (\<^verbatim>\<open>getrandom::fill\<close>) is a parameter \<open>fill\<close> that
  yields the filled buffer for a length, or \<open>None\<close> on failure.
\<close>

unbundle bit_operations_syntax

named_theorems reader_simps \<open>evaluation of the reader operations\<close>
named_theorems writer_simps \<open>evaluation of the writer operations\<close>

section \<open>Constants and errors\<close>

definition MAX_PACKET :: u32 where "MAX_PACKET = 35000"
definition MIN_PADDING :: u8 where "MIN_PADDING = 4"
definition PLAINTEXT_BLOCK :: nat where "PLAINTEXT_BLOCK = 8"
definition SERVER_ID :: bytes where "SERVER_ID = ascii ''SSH-2.0-quantumssh_0.2.0''"
definition MAX_ID_LINE :: nat where "MAX_ID_LINE = 255"

datatype wire_error =
    Truncated
  | Oversized nat nat \<comment> \<open>declared, bound\<close>
  | BadPacketLength u32
  | BadPadding
  | TrailingBytes nat
  | BadMpint
  | BadNameList
  | BadIdentification

section \<open>Reader\<close>

type_synonym ('e, 'a) reader = "bytes \<Rightarrow> ('e, 'a \<times> bytes) result"

definition rd_return :: "'a \<Rightarrow> ('e, 'a) reader" where
  "rd_return x = (\<lambda>r. Inr (x, r))"

definition rd_fail :: "'e \<Rightarrow> ('e, 'a) reader" where
  "rd_fail e = (\<lambda>r. Inl e)"

definition rd_bind :: "('e, 'a) reader \<Rightarrow> ('a \<Rightarrow> ('e, 'b) reader) \<Rightarrow> ('e, 'b) reader" where
  "rd_bind p k = (\<lambda>r. try_bind (p r) (\<lambda>(x, r'). k x r'))"

definition rd_map_err :: "('e \<Rightarrow> 'f) \<Rightarrow> ('e, 'a) reader \<Rightarrow> ('f, 'a) reader" where
  "rd_map_err f p = (\<lambda>r. map_err f (p r))"

definition reader_remaining :: "bytes \<Rightarrow> nat" where
  "reader_remaining inp = length inp"

definition reader_take :: "nat \<Rightarrow> (wire_error, bytes) reader" where
  "reader_take n = (\<lambda>inp. if length inp < n then Inl Truncated else Inr (take n inp, drop n inp))"

definition reader_byte :: "(wire_error, u8) reader" where
  "reader_byte = rd_bind (reader_take 1) (\<lambda>b. rd_return (b ! 0))"

definition reader_boolean :: "(wire_error, bool) reader" where
  "reader_boolean = rd_bind reader_byte (\<lambda>b. rd_return (b \<noteq> 0))"

definition reader_uint32 :: "(wire_error, u32) reader" where
  "reader_uint32 = rd_bind (reader_take 4) (\<lambda>b. rd_return (u32_from_be_bytes b))"

definition reader_uint64 :: "(wire_error, u64) reader" where
  "reader_uint64 = rd_bind (reader_take 8) (\<lambda>b. rd_return (u64_from_be_bytes b))"

definition reader_bytes :: "nat \<Rightarrow> (wire_error, bytes) reader" where
  "reader_bytes n = reader_take n"

definition reader_string :: "nat \<Rightarrow> (wire_error, bytes) reader" where
  "reader_string bound = rd_bind reader_uint32 (\<lambda>v.
     let declared = unat v in
     if declared > bound then rd_fail (Oversized declared bound) else reader_take declared)"

datatype name_list = NameList (raw: bytes)

text \<open>The byte loop of \<^verbatim>\<open>name_list\<close>: \<open>None\<close> where it returns \<^verbatim>\<open>BadNameList\<close>, else the final
  \<^verbatim>\<open>previous_was_comma\<close>.\<close>

fun name_list_scan :: "bool \<Rightarrow> bytes \<Rightarrow> bool option" where
  "name_list_scan previous_was_comma [] = Some previous_was_comma"
| "name_list_scan previous_was_comma (b # bs) =
     (if b = 0x2C then (if previous_was_comma then None else name_list_scan True bs)
      else if 0x21 \<le> b \<and> b \<le> 0x7E then name_list_scan False bs
      else None)"

definition reader_name_list :: "nat \<Rightarrow> (wire_error, name_list) reader" where
  "reader_name_list bound = rd_bind (reader_string bound) (\<lambda>rw.
     if rw = [] then rd_return (NameList [])
     else case name_list_scan True rw of
       None \<Rightarrow> rd_fail BadNameList
     | Some previous_was_comma \<Rightarrow>
         if previous_was_comma then rd_fail BadNameList else rd_return (NameList rw))"

definition reader_mpint :: "nat \<Rightarrow> (wire_error, bytes) reader" where
  "reader_mpint bound = rd_bind (reader_string bound) (\<lambda>rw.
     case rw of
       [] \<Rightarrow> rd_return rw
     | first # rest \<Rightarrow>
         if first = 0 \<and> rest = [] then rd_fail BadMpint
         else if first = 0 \<and> hd rest AND 0x80 = 0 then rd_fail BadMpint
         else if first AND 0x80 \<noteq> 0 then rd_fail BadMpint
         else rd_return rw)"

definition reader_finish :: "(wire_error, unit) reader" where
  "reader_finish = (\<lambda>inp. if inp = [] then Inr ((), []) else Inl (TrailingBytes (length inp)))"

definition name_list_names :: "name_list \<Rightarrow> bytes list" where
  "name_list_names l =
     map (\<lambda>name. if utf8_valid name then name else [])
       (filter (\<lambda>name. name \<noteq> []) (split_on 0x2C (raw l)))"

definition name_list_contains :: "name_list \<Rightarrow> bytes \<Rightarrow> bool" where
  "name_list_contains l name \<longleftrightarrow> list_ex (\<lambda>n. n = name) (name_list_names l)"

section \<open>Writer\<close>

type_synonym writer = "bytes option"

definition writer_new :: writer where
  "writer_new = Some []"

definition put_bytes :: "bytes \<Rightarrow> writer \<Rightarrow> writer" where
  "put_bytes v w = map_option (\<lambda>buf. buf @ v) w"

definition put_byte :: "u8 \<Rightarrow> writer \<Rightarrow> writer" where
  "put_byte v w = map_option (\<lambda>buf. buf @ [v]) w"

definition put_boolean :: "bool \<Rightarrow> writer \<Rightarrow> writer" where
  "put_boolean v w = map_option (\<lambda>buf. buf @ [if v then 1 else 0]) w"

definition put_uint32 :: "u32 \<Rightarrow> writer \<Rightarrow> writer" where
  "put_uint32 v w = map_option (\<lambda>buf. buf @ u32_to_be_bytes v) w"

definition put_uint64 :: "u64 \<Rightarrow> writer \<Rightarrow> writer" where
  "put_uint64 v w = map_option (\<lambda>buf. buf @ u64_to_be_bytes v) w"

definition put_string :: "bytes \<Rightarrow> writer \<Rightarrow> writer" where
  "put_string v w =
     (if length v > u32_max then None
      else put_bytes v (put_uint32 (word_of_nat (length v)) w))"

definition put_name_list :: "bytes \<Rightarrow> writer \<Rightarrow> writer" where
  "put_name_list joined w = put_string joined w"

definition put_mpint :: "bytes \<Rightarrow> writer \<Rightarrow> writer" where
  "put_mpint magnitude w =
     (let stripped = dropWhile (\<lambda>b. b = 0) magnitude in
      case stripped of
        [] \<Rightarrow> put_uint32 0 w
      | first # _ \<Rightarrow>
          if first AND 0x80 \<noteq> 0 then
            (if length stripped + 1 > u32_max then None
             else put_bytes stripped (put_byte 0 (put_uint32 (word_of_nat (length stripped + 1)) w)))
          else put_string stripped w)"

definition run_writer :: "(writer \<Rightarrow> writer) list \<Rightarrow> bytes option" where
  "run_writer ops = fold (\<lambda>op w. op w) ops writer_new"

section \<open>Packet framing\<close>

text \<open>The padding loop shared by \<^verbatim>\<open>encode_packet\<close> here and \<^verbatim>\<open>padded_body\<close> in \<^verbatim>\<open>cipher.rs\<close>:
  the distance to the next block boundary, grown by whole blocks to the minimum.\<close>

definition choose_padding :: "nat \<Rightarrow> nat \<Rightarrow> nat" where
  "choose_padding block unpadded =
     while (\<lambda>padding. padding < unat MIN_PADDING) (\<lambda>padding. padding + block)
       (block - unpadded mod block)"

definition encode_packet :: "(nat \<Rightarrow> bytes option) \<Rightarrow> bytes \<Rightarrow> (wire_error, bytes) result" where
  "encode_packet fill payload =
     (let unpadded = 4 + 1 + length payload;
          padding = choose_padding PLAINTEXT_BLOCK unpadded;
          packet_length = 1 + length payload + padding in
      if packet_length > u32_max then Inl (BadPacketLength (word_of_nat u32_max))
      else if packet_length > unat MAX_PACKET then Inl (BadPacketLength (word_of_nat packet_length))
      else if padding > 255 then Inl BadPadding
      else case fill padding of
        None \<Rightarrow> Inl Truncated
      | Some pad \<Rightarrow>
          Inr (u32_to_be_bytes (word_of_nat packet_length) @ [word_of_nat padding] @ payload @ pad))"

definition validate_packet_length :: "u32 \<Rightarrow> (wire_error, nat) result" where
  "validate_packet_length packet_length =
     (if packet_length = 0 \<or> packet_length > MAX_PACKET then Inl (BadPacketLength packet_length)
      else if (4 + unat packet_length) mod PLAINTEXT_BLOCK \<noteq> 0 then Inl BadPadding
      else Inr (unat packet_length))"

definition decode_packet_body :: "bytes \<Rightarrow> (wire_error, bytes) result" where
  "decode_packet_body body =
     (case body of
        [] \<Rightarrow> Inl Truncated
      | padding_length # rest \<Rightarrow>
          if padding_length < MIN_PADDING then Inl BadPadding
          else if length rest < unat padding_length then Inl BadPadding
          else Inr (take (length rest - unat padding_length) rest))"

section \<open>Identification line\<close>

record peer_id =
  protoversion :: bytes
  softwareversion :: bytes

definition parse_peer_id :: "bytes \<Rightarrow> (wire_error, peer_id) result" where
  "parse_peer_id line =
     (if length line > MAX_ID_LINE then Inl BadIdentification
      else if \<not> utf8_valid line then Inl BadIdentification
      else case strip_prefix (ascii ''SSH-2.0-'') line of
        None \<Rightarrow> Inl BadIdentification
      | Some rest \<Rightarrow>
          let sv = hd (split_on 0x20 rest) in
          if sv = [] \<or> \<not> list_all is_ascii_graphic sv then Inl BadIdentification
          else Inr \<lparr>protoversion = ascii ''2.0'', softwareversion = sv\<rparr>)"

section \<open>Evaluation of readers and writers\<close>

lemma rd_bind_Inr_iff [reader_simps]:
  "rd_bind p k inp = Inr y \<longleftrightarrow> (\<exists>x r. p inp = Inr (x, r) \<and> k x r = Inr y)"
  by (auto simp: rd_bind_def try_bind_Inr_iff)

lemma rd_bind_step [reader_simps]: "p inp = Inr (x, r) \<Longrightarrow> rd_bind p k inp = k x r"
  by (simp add: rd_bind_def)

lemma rd_bind_stop [reader_simps]: "p inp = Inl e \<Longrightarrow> rd_bind p k inp = Inl e"
  by (simp add: rd_bind_def)

lemma rd_return_apply [simp, reader_simps]: "rd_return x r = Inr (x, r)"
  by (simp add: rd_return_def)

lemma rd_fail_apply [simp, reader_simps]: "rd_fail e r = Inl e"
  by (simp add: rd_fail_def)

lemma rd_map_err_Inr_iff [simp, reader_simps]: "rd_map_err f p r = Inr y \<longleftrightarrow> p r = Inr y"
  by (simp add: rd_map_err_def)

lemma reader_take_Inr_iff [reader_simps]:
  "reader_take n inp = Inr (x, r) \<longleftrightarrow> inp = x @ r \<and> length x = n"
  by (auto simp: reader_take_def)

lemma reader_finish_Inr_iff [simp, reader_simps]: "reader_finish inp = Inr (u, r) \<longleftrightarrow> inp = [] \<and> r = []"
  by (auto simp: reader_finish_def)

lemma writer_append [writer_simps]:
  "put_bytes v (Some b) = Some (b @ v)"
  "put_byte x (Some b) = Some (b @ [x])"
  "put_boolean t (Some b) = Some (b @ [if t then 1 else 0])"
  "put_uint32 m (Some b) = Some (b @ u32_to_be_bytes m)"
  "put_uint64 n (Some b) = Some (b @ u64_to_be_bytes n)"
  by (simp_all add: put_bytes_def put_byte_def put_boolean_def put_uint32_def put_uint64_def)

text \<open>The encoding of an RFC 4251 string: what a successful \<^verbatim>\<open>put_string\<close> appends.\<close>

definition ssh_string :: "bytes \<Rightarrow> bytes" where
  "ssh_string v = u32_to_be_bytes (word_of_nat (length v)) @ v"

lemma length_ssh_string [simp]: "length (ssh_string v) = 4 + length v"
  by (simp add: ssh_string_def)

lemma put_string_Some [writer_simps]:
  "put_string v (Some b) = (if length v \<le> u32_max then Some (b @ ssh_string v) else None)"
  by (simp add: put_string_def writer_append ssh_string_def)

lemma put_string_None [writer_simps]: "put_string v None = None"
  by (simp add: put_string_def put_bytes_def put_uint32_def)

lemma put_name_list_Some [writer_simps]:
  "put_name_list v (Some b) = (if length v \<le> u32_max then Some (b @ ssh_string v) else None)"
  by (simp add: put_name_list_def writer_simps)

lemma run_writer_unfold [writer_simps]:
  "run_writer ops = fold (\<lambda>op w. op w) ops (Some [])"
  by (simp add: run_writer_def writer_new_def)

section \<open>The codec interface\<close>

text \<open>
  What the protocol layers rely on: a field encoding that the reader undoes wherever it is
  followed by other bytes. Such an encoding is prefix-free, so a sequence of fields has one
  reading only. A canonical codec has, in addition, no second encoding of a value.
\<close>

locale codec =
  fixes enc :: "'a \<Rightarrow> bytes"
    and dec :: "(wire_error, 'a) reader"
    and wf :: "'a \<Rightarrow> bool"
  assumes dec_enc: "wf x \<Longrightarrow> dec (enc x @ r) = Inr (x, r)"
begin

lemma prefix_free:
  assumes "wf x" and "wf y" and "enc x @ r = enc y @ r'"
  shows "x = y \<and> r = r'"
  using dec_enc[OF assms(1), of r] dec_enc[OF assms(2), of r'] assms(3)
  by (metis prod.inject sum.inject(2))

lemma concat_unique:
  assumes "\<forall>x\<in>set xs. wf x" and "\<forall>y\<in>set ys. wf y" and "length xs = length ys"
    and "concat (map enc xs) @ r = concat (map enc ys) @ r'"
  shows "xs = ys \<and> r = r'"
  using assms(3,1,2,4)
proof (induction xs ys rule: list_induct2)
  case Nil
  then show ?case by simp
next
  case (Cons x xs y ys)
  then have "x = y \<and> concat (map enc xs) @ r = concat (map enc ys) @ r'"
    by (intro prefix_free) simp_all
  then show ?case using Cons by (simp del: append_assoc)
qed

end

locale canonical_codec = codec +
  assumes enc_dec: "dec s = Inr (x, r) \<Longrightarrow> wf x \<and> s = enc x @ r"
begin

lemma dec_iff: "dec s = Inr (x, r) \<longleftrightarrow> wf x \<and> s = enc x @ r"
  using dec_enc enc_dec by blast

lemma dec_shrinks: "dec s = Inr (x, r) \<Longrightarrow> length r \<le> length s"
  by (auto dest: enc_dec)

lemma dec_extends: "dec s = Inr (x, r) \<Longrightarrow> dec (s @ t) = Inr (x, r @ t)"
  by (auto simp: dec_iff)

end

interpretation byte_codec: canonical_codec "\<lambda>b. [b]" reader_byte "\<lambda>_. True"
  by unfold_locales
    (auto simp: reader_byte_def rd_bind_Inr_iff reader_take_Inr_iff length_Suc_conv)

interpretation uint32_codec: canonical_codec u32_to_be_bytes reader_uint32 "\<lambda>_. True"
  by unfold_locales
    (auto simp: reader_uint32_def rd_bind_Inr_iff reader_take_Inr_iff be_simps)

interpretation uint64_codec: canonical_codec u64_to_be_bytes reader_uint64 "\<lambda>_. True"
  by unfold_locales
    (auto simp: reader_uint64_def rd_bind_Inr_iff reader_take_Inr_iff be_simps)

lemma rd_bind_fixed [reader_simps]:
  "rd_bind reader_byte kb (b # r) = kb b r"
  "rd_bind reader_uint32 k4 (u32_to_be_bytes m @ r) = k4 m r"
  "rd_bind reader_uint64 k8 (u64_to_be_bytes n @ r) = k8 n r"
  using byte_codec.dec_enc[of b r] by (simp_all add: rd_bind_def uint32_codec.dec_enc uint64_codec.dec_enc)

interpretation string_codec: canonical_codec ssh_string "reader_string bound"
    "\<lambda>v. length v \<le> bound \<and> length v \<le> u32_max" for bound
proof unfold_locales
  fix v r :: bytes
  assume "length v \<le> bound \<and> length v \<le> u32_max"
  then show "reader_string bound (ssh_string v @ r) = Inr (v, r)"
    by (simp add: reader_string_def rd_bind_fixed ssh_string_def reader_take_def Let_def)
next
  fix s x r
  assume "reader_string bound s = Inr (x, r)"
  then obtain n r' where n: "s = u32_to_be_bytes n @ r'" and le: "unat n \<le> bound"
    and "r' = x @ r" and "length x = unat n"
    by (auto simp: reader_string_def rd_bind_Inr_iff uint32_codec.dec_iff Let_def
        reader_take_Inr_iff split: if_splits)
  then show "(length x \<le> bound \<and> length x \<le> u32_max) \<and> s = ssh_string x @ r"
    by (simp add: ssh_string_def)
qed

lemmas codec_simps [reader_simps] =
  byte_codec.dec_iff uint32_codec.dec_iff uint64_codec.dec_iff string_codec.dec_iff

lemma rd_bind_string [reader_simps]:
  "length v \<le> bound \<Longrightarrow> length v \<le> u32_max \<Longrightarrow>
     rd_bind (reader_string bound) k (ssh_string v @ r) = k v r"
  by (simp add: rd_bind_def string_codec.dec_enc)

lemma rd_bind_bytes [reader_simps]:
  "length v = n \<Longrightarrow> rd_bind (reader_bytes n) k (v @ r) = k v r"
  by (simp add: rd_bind_def reader_bytes_def reader_take_def)

lemma rd_bind_boolean [reader_simps]: "rd_bind reader_boolean k (b # r) = k (b \<noteq> 0) r"
  by (simp add: reader_boolean_def rd_bind_def byte_codec.dec_enc[of b r, simplified])

lemma rd_bind_last [reader_simps]:
  "rd_bind reader_uint32 k4 (u32_to_be_bytes m) = k4 m []"
  "rd_bind reader_uint64 k8 (u64_to_be_bytes n) = k8 n []"
  "length v \<le> bound \<Longrightarrow> length v \<le> u32_max \<Longrightarrow>
     rd_bind (reader_string bound) k (ssh_string v) = k v []"
  using rd_bind_fixed(2)[of k4 m "[]"] rd_bind_fixed(3)[of k8 n "[]"] rd_bind_string[of v bound k "[]"]
  by simp_all

lemma rd_bind_map_err_step [reader_simps]:
  "p inp = Inr (x, r) \<Longrightarrow> rd_bind (rd_map_err f p) k inp = k x r"
  by (simp add: rd_bind_def rd_map_err_def)

lemma rd_bind_map_err [reader_simps]:
  "rd_bind (rd_map_err f reader_uint32) k4 (u32_to_be_bytes m @ r) = k4 m r"
  "rd_bind (rd_map_err f reader_uint64) k8 (u64_to_be_bytes n @ r) = k8 n r"
  "length v \<le> bound \<Longrightarrow> length v \<le> u32_max \<Longrightarrow>
     rd_bind (rd_map_err f (reader_string bound)) k (ssh_string v @ r) = k v r"
  "length v \<le> bound \<Longrightarrow> length v \<le> u32_max \<Longrightarrow>
     rd_bind (rd_map_err f (reader_string bound)) k (ssh_string v) = k v []"
  "rd_bind (rd_map_err f reader_finish) ku [] = ku () []"
  using string_codec.dec_enc[of v bound "[]"]
  by (simp_all add: rd_bind_map_err_step uint32_codec.dec_enc uint64_codec.dec_enc
      string_codec.dec_enc reader_finish_def)

lemma reader_boolean_Inr_iff [reader_simps]:
  "reader_boolean inp = Inr (t, r) \<longleftrightarrow> (\<exists>b. inp = b # r \<and> t = (b \<noteq> 0))"
  by (auto simp: reader_boolean_def rd_bind_Inr_iff byte_codec.dec_iff)

lemma reader_bytes_Inr_iff [reader_simps]:
  "reader_bytes n inp = Inr (x, r) \<longleftrightarrow> inp = x @ r \<and> length x = n"
  by (simp add: reader_bytes_def reader_take_Inr_iff)

section \<open>Strings and name-lists\<close>

text \<open>
  \<^verbatim>\<open>Reader::string\<close> accepts exactly the inputs that start with the canonical
  encoding of a string of at most \<^verbatim>\<open>bound\<close> bytes, and returns that string and all that
  follows it: no attacker-declared length yields more than the bound.
\<close>

lemma reader_string_exact:
  "reader_string bound inp = Inr (v, rest) \<longleftrightarrow>
     length v \<le> bound \<and> length v \<le> u32_max \<and>
     inp = u32_to_be_bytes (word_of_nat (length v)) @ v @ rest"
  by (simp add: string_codec.dec_iff ssh_string_def)

definition valid_name :: "bytes \<Rightarrow> bool" where
  "valid_name n \<longleftrightarrow> n \<noteq> [] \<and> (\<forall>b\<in>set n. is_ascii_graphic b \<and> b \<noteq> 0x2C)"

lemma name_list_scan_iff:
  "name_list_scan prev bs = Some False \<longleftrightarrow>
     (case split_on 0x2C bs of
        n # ns \<Rightarrow> (\<forall>b\<in>set n. is_ascii_graphic b) \<and> (prev \<longrightarrow> n \<noteq> []) \<and>
                  (ns = [] \<longrightarrow> n = [] \<longrightarrow> \<not> prev) \<and> (\<forall>m\<in>set ns. valid_name m)
      | [] \<Rightarrow> False)"
proof (induction prev bs rule: name_list_scan.induct)
  case (1 prev)
  then show ?case by simp
next
  case (2 prev b bs)
  obtain n ns where ns: "split_on 0x2C bs = n # ns"
    by (meson neq_Nil_conv split_on_nonempty)
  have sep: "0x2C \<notin> set n"
    using split_on_no_sep_elem[of n "0x2C" bs] ns by simp
  show ?case
  proof (cases "b = 0x2C")
    case True
    then show ?thesis
      using "2.IH"(1) ns sep by (cases prev) (auto simp: valid_name_def)
  next
    case False
    then show ?thesis
      using "2.IH"(2) ns by (auto simp: is_ascii_graphic_def)
  qed
qed

lemma name_list_scan_valid:
  "bs \<noteq> [] \<Longrightarrow> name_list_scan True bs = Some False \<longleftrightarrow> (\<forall>n\<in>set (split_on 0x2C bs). valid_name n)"
proof -
  obtain n ns where ns: "split_on 0x2C bs = n # ns"
    by (meson neq_Nil_conv split_on_nonempty)
  then have "0x2C \<notin> set n"
    using split_on_no_sep_elem[of n "0x2C" bs] by simp
  then have "valid_name n \<longleftrightarrow> n \<noteq> [] \<and> (\<forall>b\<in>set n. is_ascii_graphic b)"
    by (auto simp: valid_name_def)
  then show ?thesis
    unfolding name_list_scan_iff ns by auto
qed

lemma name_list_names_valid:
  assumes "\<forall>n\<in>set ns. valid_name n"
  shows "name_list_names (NameList (join_with 0x2C ns)) = ns"
proof (cases "ns = []")
  case True
  then show ?thesis by (simp add: name_list_names_def)
next
  case False
  have "split_on 0x2C (join_with 0x2C ns) = ns"
    using assms False by (intro split_join) (auto simp: valid_name_def)
  moreover have "filter (\<lambda>n. n \<noteq> []) ns = ns"
    using assms by (auto simp: filter_id_conv valid_name_def)
  moreover have "map (\<lambda>n. if utf8_valid n then n else []) ns = ns"
    using assms by (intro map_idI) (auto simp: valid_name_def utf8_valid_graphic)
  ultimately show ?thesis by (simp add: name_list_names_def)
qed

lemma reader_name_list_iff:
  "reader_name_list bound inp = Inr (l, rest) \<longleftrightarrow>
     (\<exists>ns. (\<forall>n\<in>set ns. valid_name n) \<and> raw l = join_with 0x2C ns \<and> name_list_names l = ns \<and>
        reader_string bound inp = Inr (join_with 0x2C ns, rest))"
  (is "?lhs \<longleftrightarrow> ?rhs")
proof
  assume ?lhs
  then obtain rw where rw: "reader_string bound inp = Inr (rw, rest)" and l: "l = NameList rw"
    and scan: "rw = [] \<or> name_list_scan True rw = Some False"
    by (auto simp: reader_name_list_def rd_bind_Inr_iff split: if_splits option.splits)
  define ns where "ns = (if rw = [] then [] else split_on 0x2C rw)"
  have "\<forall>n\<in>set ns. valid_name n" and join: "join_with 0x2C ns = rw"
    using scan by (auto simp: ns_def name_list_scan_valid)
  then show ?rhs
    using rw l name_list_names_valid[of ns] by auto
next
  assume ?rhs
  then obtain ns where ns: "\<forall>n\<in>set ns. valid_name n" and l: "l = NameList (join_with 0x2C ns)"
    and rw: "reader_string bound inp = Inr (join_with 0x2C ns, rest)"
    by (metis name_list.collapse)
  show ?lhs
  proof (cases "join_with 0x2C ns = []")
    case True
    then show ?thesis using rw l by (simp add: reader_name_list_def rd_bind_step)
  next
    case False
    then have "ns \<noteq> []" by auto
    then have "split_on 0x2C (join_with 0x2C ns) = ns"
      using ns by (intro split_join) (auto simp: valid_name_def)
    then have "name_list_scan True (join_with 0x2C ns) = Some False"
      using ns False by (simp add: name_list_scan_valid)
    then show ?thesis using rw l False by (simp add: reader_name_list_def rd_bind_step)
  qed
qed

text \<open>
  \<^verbatim>\<open>Reader::name_list\<close> accepts a string exactly when it is a comma-joined list of
  non-empty printable US-ASCII names (the empty list included), and \<^verbatim>\<open>NameList::names\<close> gives
  back that very list: leading, trailing and double commas are rejected, nothing is normalised.
\<close>

lemma reader_name_list_exact:
  "reader_name_list bound inp = Inr (l, rest) \<longleftrightarrow>
     (\<exists>ns. list_all valid_name ns \<and> raw l = join_with 0x2C ns \<and> name_list_names l = ns \<and>
        reader_string bound inp = Inr (join_with 0x2C ns, rest))"
  unfolding list_all_iff by (rule reader_name_list_iff)

section \<open>Multiple-precision integers\<close>

text \<open>The canonical body of a magnitude: no redundant leading zero, a zero byte where the high
  bit would read as a sign.\<close>

definition mpint_body :: "bytes \<Rightarrow> bytes" where
  "mpint_body m =
     (case dropWhile (\<lambda>b. b = 0) m of
        [] \<Rightarrow> []
      | b # bs \<Rightarrow> if b AND 0x80 \<noteq> 0 then 0 # b # bs else b # bs)"

lemma put_mpint_Some [writer_simps]:
  "put_mpint m (Some buf) =
     (if length (mpint_body m) \<le> u32_max then Some (buf @ ssh_string (mpint_body m)) else None)"
proof (cases "dropWhile (\<lambda>b. b = 0) m")
  case Nil
  show ?thesis
    unfolding put_mpint_def mpint_body_def Nil by (simp add: writer_append ssh_string_def)
next
  case (Cons b bs)
  show ?thesis
    unfolding put_mpint_def mpint_body_def Cons
    by (simp add: writer_append put_string_Some ssh_string_def)
qed

lemma be_dec_dropWhile_0: "be_dec (dropWhile (\<lambda>b. b = 0) m) = be_dec m"
  by (induction m) auto

lemma be_dec_mpint_body: "be_dec (mpint_body m) = be_dec m"
  unfolding be_dec_dropWhile_0[of m, symmetric]
  by (cases "dropWhile (\<lambda>b. b = 0) m") (simp_all only: mpint_body_def list.case, simp_all)

lemma dropWhile_hd_nz: "dropWhile (\<lambda>b. b = 0) m = b # bs \<Longrightarrow> b \<noteq> (0 :: u8)"
  using hd_dropWhile[of "\<lambda>b. b = 0" m] by auto

lemma mpint_body_idem: "mpint_body (mpint_body m) = mpint_body m"
proof (cases "dropWhile (\<lambda>b. b = 0) m")
  case Nil
  then show ?thesis unfolding mpint_body_def Nil by simp
next
  case (Cons b bs)
  then show ?thesis
    using dropWhile_hd_nz[OF Cons] unfolding mpint_body_def Cons by simp
qed

lemma reader_mpint_accepts:
  "reader_mpint bound inp = Inr (m, rest) \<longleftrightarrow>
     reader_string bound inp = Inr (m, rest) \<and> mpint_body m = m"
proof -
  have "(case m of [] \<Rightarrow> rd_return m | first # r \<Rightarrow>
           if first = 0 \<and> r = [] then rd_fail BadMpint
           else if first = 0 \<and> hd r AND 0x80 = 0 then rd_fail BadMpint
           else if first AND 0x80 \<noteq> 0 then rd_fail BadMpint
           else rd_return m) rest' = Inr (m', rest'') \<longleftrightarrow>
        m' = m \<and> rest'' = rest' \<and> mpint_body m = m" for m m' rest' rest''
  proof (cases m)
    case Nil
    then show ?thesis by (auto simp: mpint_body_def)
  next
    case (Cons b bs)
    show ?thesis
    proof (cases "b = 0")
      case False
      then show ?thesis using Cons by (auto simp: mpint_body_def)
    next
      case True
      show ?thesis
      proof (cases bs)
        case Nil
        then show ?thesis using Cons True by (simp add: mpint_body_def)
      next
        case (Cons c cs)
        have "length (dropWhile (\<lambda>b. b = 0) cs) \<le> length cs"
          by (rule length_dropWhile_le)
        then show ?thesis
          using True Cons \<open>m = b # bs\<close>
          by (cases "c = 0") (auto simp: mpint_body_def split: list.splits if_splits)
      qed
    qed
  qed
  then show ?thesis
    by (auto simp: reader_mpint_def rd_bind_Inr_iff)
qed

text \<open>
  \<^verbatim>\<open>Reader::mpint\<close> accepts exactly what \<^verbatim>\<open>Writer::put_mpint\<close> produces within the
  bound, and the bytes it returns denote the number that was written: every non-canonical,
  negative or zero-padded encoding is rejected.
\<close>

lemma mpint_roundtrip:
  "reader_mpint bound inp = Inr (v, rest) \<longleftrightarrow>
     (\<exists>m enc. run_writer [put_mpint m] = Some enc \<and> inp = enc @ rest \<and>
        be_dec v = be_dec m \<and> v = mpint_body m \<and> length v \<le> bound)"
  (is "?lhs \<longleftrightarrow> ?rhs")
proof
  assume ?lhs
  then have *: "length v \<le> bound" "length v \<le> u32_max" "inp = ssh_string v @ rest" "mpint_body v = v"
    by (auto simp: reader_mpint_accepts string_codec.dec_iff)
  then have "run_writer [put_mpint v] = Some (ssh_string v)"
    by (simp add: writer_simps)
  with * show ?rhs by metis
next
  assume ?rhs
  then show ?lhs
    by (auto simp: reader_mpint_accepts string_codec.dec_iff writer_simps mpint_body_idem
        split: if_splits)
qed

section \<open>Packets\<close>

lemma unat_MAX_PACKET [simp]: "unat MAX_PACKET = 35000"
  by (simp add: MAX_PACKET_def)

lemma validate_packet_length_Inr_iff:
  "validate_packet_length v = Inr k \<longleftrightarrow>
     k = unat v \<and> 0 < k \<and> k \<le> 35000 \<and> 8 dvd k + 4"
  by (auto simp: validate_packet_length_def PLAINTEXT_BLOCK_def word_less_nat_alt
      mod_eq_0_iff_dvd add.commute unat_gt_0 split: if_splits)

definition fills :: "(nat \<Rightarrow> bytes option) \<Rightarrow> bool" where
  "fills fill \<longleftrightarrow> (\<forall>n p. fill n = Some p \<longrightarrow> length p = n)"

lemma choose_padding_eq:
  assumes "4 \<le> block"
  shows "choose_padding block unpadded =
    (let p = block - unpadded mod block in if p < 4 then p + block else p)"
proof -
  let ?p = "block - unpadded mod block"
  have "choose_padding block unpadded =
    (if ?p < 4 then while (\<lambda>p. p < 4) (\<lambda>p. p + block) (?p + block) else ?p)"
    unfolding choose_padding_def MIN_PADDING_def by (subst while_unfold) simp
  moreover have "while (\<lambda>p. p < 4) (\<lambda>p. p + block) (?p + block) = ?p + block"
  proof -
    have "\<not> ?p + block < 4" using assms by linarith
    then show ?thesis by (subst while_unfold) (simp only: if_False)
  qed
  ultimately show ?thesis by (simp only: Let_def)
qed

lemma choose_padding_props:
  assumes "4 \<le> block"
  shows "block dvd unpadded + choose_padding block unpadded"
    and "4 \<le> choose_padding block unpadded"
    and "choose_padding block unpadded < block + 4"
    and "\<forall>p. 4 \<le> p \<and> block dvd unpadded + p \<longrightarrow> choose_padding block unpadded \<le> p"
proof -
  have lt: "unpadded mod block < block" using assms by simp
  have "unpadded + (block - unpadded mod block) = unpadded div block * block + block"
    using lt div_mult_mod_eq[of unpadded block] by linarith
  then have dvd: "block dvd unpadded + (block - unpadded mod block)" by simp
  then have "block dvd unpadded + (block - unpadded mod block) + block" by simp
  with dvd show "block dvd unpadded + choose_padding block unpadded"
    unfolding choose_padding_eq[OF assms] Let_def by (auto simp: add.assoc)
  show "4 \<le> choose_padding block unpadded" and "choose_padding block unpadded < block + 4"
    using lt assms unfolding choose_padding_eq[OF assms] Let_def by (simp_all split: if_split, linarith+)
  show "\<forall>p. 4 \<le> p \<and> block dvd unpadded + p \<longrightarrow> choose_padding block unpadded \<le> p"
  proof (intro allI impI)
    fix p assume p: "4 \<le> p \<and> block dvd unpadded + p"
    let ?c = "choose_padding block unpadded"
    have c: "block dvd unpadded + ?c" by fact
    show "?c \<le> p"
    proof (rule ccontr)
      assume "\<not> ?c \<le> p"
      then have "p < ?c" by simp
      then have "block dvd ?c - p"
        using c p by (metis add_diff_cancel_left dvd_diff_nat)
      then have "block \<le> ?c - p"
        using \<open>p < ?c\<close> by (intro dvd_imp_le) simp_all
      then show False
        using conjunct1[OF p] \<open>p < ?c\<close> \<open>?c < block + 4\<close> by linarith
    qed
  qed
qed

lemma encode_packet_Inr_iff:
  "encode_packet fill payload = Inr pkt \<longleftrightarrow>
     (\<exists>pad. let padding = choose_padding 8 (5 + length payload);
                packet_length = 1 + length payload + padding in
        packet_length \<le> 35000 \<and> fill padding = Some pad \<and>
        pkt = u32_to_be_bytes (word_of_nat packet_length) @ word_of_nat padding # payload @ pad)"
  using choose_padding_props(3)[of 8 "5 + length payload"]
  by (auto simp: encode_packet_def PLAINTEXT_BLOCK_def MAX_PACKET_def Let_def split: option.splits)

lemma packet_decodes:
  assumes "fills fill" and "encode_packet fill payload = Inr pkt"
  shows "\<exists>body. pkt = u32_to_be_bytes (word_of_nat (length body)) @ body \<and>
      validate_packet_length (word_of_nat (length body)) = Inr (length body) \<and>
      decode_packet_body body = Inr payload \<and>
      8 dvd length pkt \<and> length payload + 5 \<le> length body \<and> length body \<le> length payload + 12"
proof -
  let ?p = "choose_padding 8 (5 + length payload)"
  from assms(2) obtain pad where pl: "1 + length payload + ?p \<le> 35000"
    and pad: "fill ?p = Some pad"
    and pkt: "pkt = u32_to_be_bytes (word_of_nat (1 + length payload + ?p)) @ word_of_nat ?p # payload @ pad"
    by (auto simp: encode_packet_Inr_iff Let_def)
  have len: "length pad = ?p" using pad assms(1) by (auto simp: fills_def)
  have p: "8 dvd 5 + length payload + ?p" "4 \<le> ?p" "?p < 12"
    using choose_padding_props(1-3)[of 8 "5 + length payload"] by auto
  define body where "body = word_of_nat ?p # payload @ pad"
  have lb: "length body = 1 + length payload + ?p" by (simp add: body_def len)
  have up: "unat (word_of_nat ?p :: u8) = ?p"
    using p(3) by (simp add: unat_of_nat)
  have ub: "unat (word_of_nat (length body) :: u32) = length body"
    unfolding lb by (rule unat_u32_of_nat) (use pl in simp)
  have "decode_packet_body body = Inr payload"
    using p(2,3) up len
    by (simp add: decode_packet_body_def body_def MIN_PADDING_def word_less_nat_alt)
  moreover have "validate_packet_length (word_of_nat (length body)) = Inr (length body)"
  proof -
    have "5 + length payload + ?p = length body + 4" by (simp add: lb)
    then have "8 dvd length body + 4" using p(1) by (simp only:)
    then show ?thesis
      using pl lb unfolding validate_packet_length_Inr_iff ub by simp
  qed
  moreover have "8 dvd length pkt"
  proof -
    have "length pkt = 5 + length payload + ?p" by (simp add: pkt len)
    then show ?thesis using p(1) by (simp only:)
  qed
  ultimately show ?thesis
    using p(2,3) lb pkt by (intro exI[of _ body]) (simp add: body_def[symmetric])
qed

text \<open>
  A packet that \<^verbatim>\<open>encode_packet\<close> builds passes \<^verbatim>\<open>validate_packet_length\<close>, is
  block-aligned, carries between 4 and 11 bytes of padding, and \<^verbatim>\<open>decode_packet_body\<close> returns
  its payload.
\<close>

lemma packet_roundtrip:
  assumes "fills fill" and "encode_packet fill payload = Inr pkt"
  shows "\<exists>body. pkt = u32_to_be_bytes (word_of_nat (length body)) @ body \<and>
      validate_packet_length (word_of_nat (length body)) = Inr (length body) \<and>
      decode_packet_body body = Inr payload \<and>
      8 dvd length pkt \<and> length payload + 5 \<le> length body \<and> length body \<le> length payload + 12"
  by (rule packet_decodes[OF assms])

lemma encode_packet_eq:
  "encode_packet fill payload =
     (let padding = choose_padding 8 (5 + length payload) in
      if length payload \<le> 34991 then
        (case fill padding of
           None \<Rightarrow> Inl Truncated
         | Some pad \<Rightarrow> Inr (u32_to_be_bytes (word_of_nat (1 + length payload + padding)) @
                            word_of_nat padding # payload @ pad))
      else Inl (BadPacketLength (word_of_nat (min u32_max (1 + length payload + padding)))))"
proof -
  let ?p = "choose_padding 8 (5 + length payload)"
  have p: "8 dvd 5 + length payload + ?p" "4 \<le> ?p" "?p < 12"
    using choose_padding_props(1-3)[of 8 "5 + length payload"] by auto
  have "1 + length payload + ?p \<le> 35000 \<longleftrightarrow> length payload \<le> 34991"
  proof
    assume "1 + length payload + ?p \<le> 35000"
    moreover have "5 + length payload + ?p \<le> 35000"
    proof (rule ccontr)
      assume "\<not> 5 + length payload + ?p \<le> 35000"
      then have "35001 \<le> 5 + length payload + ?p" "5 + length payload + ?p \<le> 35004"
        using calculation by linarith+
      moreover have "(5 + length payload + ?p) mod 8 = 0" using p(1) by (simp add: mod_eq_0_iff_dvd)
      ultimately show False by presburger
    qed
    ultimately show "length payload \<le> 34991" using p(2) by linarith
  next
    assume "length payload \<le> 34991"
    then have "5 + length payload + ?p \<le> 35007" using p(3) by linarith
    moreover have "(5 + length payload + ?p) mod 8 = 0" using p(1) by (simp add: mod_eq_0_iff_dvd)
    ultimately have "5 + length payload + ?p \<le> 35000" by presburger
    then show "1 + length payload + ?p \<le> 35000" by linarith
  qed
  then show ?thesis
    using p(3)
    by (auto simp: encode_packet_def PLAINTEXT_BLOCK_def Let_def min_def
        simp del: of_nat_Suc of_nat_add split: option.splits)
qed

text \<open>
  \<^verbatim>\<open>encode_packet\<close> fails on a payload exactly when the packet would exceed the
  35000-byte cap (payloads above 34991 bytes) or the random source fails; the error names which.
\<close>

lemma encode_packet_total:
  "encode_packet fill payload =
     (let padding = choose_padding 8 (5 + length payload) in
      if length payload \<le> 34991 then
        (case fill padding of
           None \<Rightarrow> Inl Truncated
         | Some pad \<Rightarrow> Inr (u32_to_be_bytes (word_of_nat (1 + length payload + padding)) @
                            word_of_nat padding # payload @ pad))
      else Inl (BadPacketLength (word_of_nat (min u32_max (1 + length payload + padding)))))"
  by (rule encode_packet_eq)

section \<open>Identification line\<close>

lemma parse_peer_id_iff:
  "parse_peer_id line = Inr pid \<longleftrightarrow>
     length line \<le> 255 \<and> utf8_valid line \<and>
     (\<exists>sv tail. line = ascii ''SSH-2.0-'' @ sv @ tail \<and> (tail = [] \<or> hd tail = 0x20) \<and>
        sv \<noteq> [] \<and> (\<forall>b\<in>set sv. is_ascii_graphic b) \<and>
        pid = \<lparr>protoversion = ascii ''2.0'', softwareversion = sv\<rparr>)"
  (is "?lhs \<longleftrightarrow> _ \<and> _ \<and> ?form")
proof -
  have split: "\<exists>tail. rest = hd (split_on 0x20 rest) @ tail \<and> (tail = [] \<or> hd tail = 0x20)"
    for rest :: bytes
  proof -
    obtain y ys where y: "split_on 0x20 rest = y # ys"
      by (meson neq_Nil_conv split_on_nonempty)
    then have "rest = join_with 0x20 (y # ys)" using join_split[of "0x20" rest] by simp
    then show ?thesis using y by (cases ys) auto
  qed
  have hd_split: "hd (split_on 0x20 (sv @ tail)) = sv"
    if "tail = [] \<or> hd tail = 0x20" "\<forall>b\<in>set sv. is_ascii_graphic b" for sv tail :: bytes
  proof -
    have no: "0x20 \<notin> set sv" using that(2) by (auto simp: is_ascii_graphic_def)
    show ?thesis
    proof (cases tail)
      case Nil
      then show ?thesis using no by (simp add: split_on_no_sep)
    next
      case (Cons t ts)
      then show ?thesis using no that(1) by (simp add: split_on_append_sep)
    qed
  qed
  show ?thesis
  proof
    assume ?lhs
    then have len: "length line \<le> 255"
      by (simp add: parse_peer_id_def MAX_ID_LINE_def split: if_splits)
    from \<open>?lhs\<close> obtain rest where "utf8_valid line"
      and line: "line = ascii ''SSH-2.0-'' @ rest" and "hd (split_on 0x20 rest) \<noteq> []"
      and "\<forall>b\<in>set (hd (split_on 0x20 rest)). is_ascii_graphic b"
      and "pid = \<lparr>protoversion = ascii ''2.0'', softwareversion = hd (split_on 0x20 rest)\<rparr>"
      by (auto simp: parse_peer_id_def MAX_ID_LINE_def Let_def strip_prefix_Some_iff list_all_iff
          split: if_splits option.splits)
    with len split[of rest] show "length line \<le> 255 \<and> utf8_valid line \<and> ?form" by metis
  next
    assume rhs: "length line \<le> 255 \<and> utf8_valid line \<and> ?form"
    then obtain sv tail where f: "line = ascii ''SSH-2.0-'' @ sv @ tail" "tail = [] \<or> hd tail = 0x20"
      "sv \<noteq> []" "\<forall>b\<in>set sv. is_ascii_graphic b"
      "pid = \<lparr>protoversion = ascii ''2.0'', softwareversion = sv\<rparr>" by blast
    then have "strip_prefix (ascii ''SSH-2.0-'') line = Some (sv @ tail)"
      by (simp add: strip_prefix_Some_iff)
    then show ?lhs
      using rhs f hd_split[OF f(2,4)]
      by (simp add: parse_peer_id_def MAX_ID_LINE_def Let_def list_all_iff)
  qed
qed

text \<open>
  \<^verbatim>\<open>parse_peer_id\<close> accepts exactly the valid UTF-8 lines of at most 255 bytes
  of the form \<^verbatim>\<open>SSH-2.0-softwareversion\<close> or \<^verbatim>\<open>SSH-2.0-softwareversion comments\<close> with a
  non-empty printable software version, which it returns: no other protocol version passes.
\<close>

lemma parse_peer_id_exact:
  "parse_peer_id line = Inr pid \<longleftrightarrow>
     length line \<le> 255 \<and> utf8_valid line \<and>
     (\<exists>sv tail. line = ascii ''SSH-2.0-'' @ sv @ tail \<and> (tail = [] \<or> hd tail = 0x20) \<and>
        sv \<noteq> [] \<and> list_all is_ascii_graphic sv \<and>
        pid = \<lparr>protoversion = ascii ''2.0'', softwareversion = sv\<rparr>)"
  unfolding list_all_iff by (rule parse_peer_id_iff)

text \<open>Our own identification line is one the parser accepts.\<close>

lemma server_id_accepted:
  "parse_peer_id SERVER_ID =
     Inr \<lparr>protoversion = ascii ''2.0'', softwareversion = ascii ''quantumssh_0.2.0''\<rparr>"
  by code_simp

section \<open>Witnesses\<close>

text \<open>A packet built with zero padding bytes, as the hypotheses of \<open>packet_roundtrip\<close> allow.\<close>

lemma packet_roundtrip_witness:
  "\<exists>body. [0, 0, 0, 12, 10, 21] @ replicate 10 0 = u32_to_be_bytes (word_of_nat (length body)) @ body \<and>
     validate_packet_length (word_of_nat (length body)) = Inr (length body) \<and>
     decode_packet_body body = Inr [21] \<and> 8 dvd length ([0, 0, 0, 12, 10, 21 :: u8] @ replicate 10 0) \<and>
     length [21 :: u8] + 5 \<le> length body \<and> length body \<le> length [21 :: u8] + 12"
proof (rule packet_roundtrip)
  show "fills (\<lambda>n. Some (replicate n 0))" by (simp add: fills_def)
  show "encode_packet (\<lambda>n. Some (replicate n 0)) [21] = Inr ([0, 0, 0, 12, 10, 21] @ replicate 10 0)"
    by (simp add: encode_packet_eq choose_padding_eq u32_to_be_bytes_def be_enc_4)
qed

end
