(* ===== verification/Kex.thy ===== *)
theory Kex
  imports Wire
begin

text \<open>
  \<^verbatim>\<open>crates/quantumssh-core/src/kex.rs\<close>: the \<^verbatim>\<open>SSH_MSG_KEXINIT\<close> profile (building, parsing,
  negotiation), the server side of the hybrid \<^verbatim>\<open>mlkem768x25519-sha256\<close> exchange, the exchange
  hash and the RFC 4253 key derivation.

  The cryptographic crates are parameters: \<open>kem_prims\<close> collects ML-KEM-768, X25519 and
  SHA-256 as functions on bytes. Randomness is a parameter \<open>fill\<close> as in \<^verbatim>\<open>Wire\<close>; the hybrid
  exchange draws twice, so there \<open>fill i n\<close> is the \<open>i\<close>-th draw of \<open>n\<close> bytes.
  A message under construction is the outcome of its writer, \<open>None\<close> if the writer panicked.
\<close>

section \<open>Constants\<close>

definition SSH_MSG_DISCONNECT :: u8 where "SSH_MSG_DISCONNECT = 1"
definition SSH_MSG_EXT_INFO :: u8 where "SSH_MSG_EXT_INFO = 7"
definition SSH_MSG_KEXINIT :: u8 where "SSH_MSG_KEXINIT = 20"
definition SSH_MSG_NEWKEYS :: u8 where "SSH_MSG_NEWKEYS = 21"
definition SSH_MSG_KEX_HYBRID_INIT :: u8 where "SSH_MSG_KEX_HYBRID_INIT = 30"
definition SSH_MSG_KEX_HYBRID_REPLY :: u8 where "SSH_MSG_KEX_HYBRID_REPLY = 31"
definition DISCONNECT_PROTOCOL_ERROR :: u32 where "DISCONNECT_PROTOCOL_ERROR = 2"
definition DISCONNECT_KEY_EXCHANGE_FAILED :: u32 where "DISCONNECT_KEY_EXCHANGE_FAILED = 3"

definition KEX_ALGORITHM :: bytes where "KEX_ALGORITHM = ascii ''mlkem768x25519-sha256''"
definition STRICT_KEX_CLIENT :: bytes where "STRICT_KEX_CLIENT = ascii ''kex-strict-c-v00@openssh.com''"
definition EXT_INFO_CLIENT :: bytes where "EXT_INFO_CLIENT = ascii ''ext-info-c''"
definition KEX_LIST :: bytes where
  "KEX_LIST = ascii ''mlkem768x25519-sha256,kex-strict-s-v00@openssh.com''"
definition KEX_LIST_REKEY :: bytes where "KEX_LIST_REKEY = ascii ''mlkem768x25519-sha256''"
definition HOST_KEY_LIST :: bytes where "HOST_KEY_LIST = ascii ''ssh-mldsa44-ed25519''"
definition ENCRYPTION_LIST :: bytes where
  "ENCRYPTION_LIST = ascii ''chacha20-poly1305@openssh.com,aes256-gcm@openssh.com''"
definition MAC_LIST :: bytes where "MAC_LIST = ascii ''hmac-sha2-512-etm@openssh.com''"
definition COMPRESSION_LIST :: bytes where "COMPRESSION_LIST = ascii ''none''"
definition NAME_LIST_BOUND :: nat where "NAME_LIST_BOUND = 8192"

lemmas msg_defs =
  SSH_MSG_DISCONNECT_def SSH_MSG_EXT_INFO_def SSH_MSG_KEXINIT_def SSH_MSG_NEWKEYS_def
  SSH_MSG_KEX_HYBRID_INIT_def SSH_MSG_KEX_HYBRID_REPLY_def

section \<open>Types\<close>

record rejection =
  reason :: string
  disconnect_code :: u32

definition kex_failed :: "string \<Rightarrow> rejection" where
  "kex_failed r = \<lparr>reason = r, disconnect_code = DISCONNECT_KEY_EXCHANGE_FAILED\<rparr>"

datatype kex_error = KexWire wire_error | KexRejected rejection

record peer_kexinit =
  kex_algorithms :: name_list
  server_host_key_algorithms :: name_list
  encryption_c2s :: name_list
  encryption_s2c :: name_list
  compression_c2s :: name_list
  compression_s2c :: name_list
  first_kex_packet_follows :: bool

record negotiated =
  kex_algorithm :: bytes
  host_key_algorithm :: bytes
  cipher_c2s :: bytes
  cipher_s2c :: bytes
  ext_info :: bool
  skip_guessed_packet :: bool

section \<open>KEXINIT\<close>

definition build_kexinit_with ::
  "(nat \<Rightarrow> bytes option) \<Rightarrow> bytes \<Rightarrow> (kex_error, bytes option) result" where
  "build_kexinit_with fill kex_list =
     (case fill 16 of
        None \<Rightarrow> Inl (KexWire Truncated)
      | Some cookie \<Rightarrow> Inr (run_writer
          [put_byte SSH_MSG_KEXINIT, put_bytes cookie,
           put_name_list kex_list, put_name_list HOST_KEY_LIST,
           put_name_list ENCRYPTION_LIST, put_name_list ENCRYPTION_LIST,
           put_name_list MAC_LIST, put_name_list MAC_LIST,
           put_name_list COMPRESSION_LIST, put_name_list COMPRESSION_LIST,
           put_name_list [], put_name_list [],
           put_boolean False, put_uint32 0]))"

definition build_kexinit :: "(nat \<Rightarrow> bytes option) \<Rightarrow> (kex_error, bytes option) result" where
  "build_kexinit fill = build_kexinit_with fill KEX_LIST"

definition build_rekey_kexinit :: "(nat \<Rightarrow> bytes option) \<Rightarrow> (kex_error, bytes option) result" where
  "build_rekey_kexinit fill = build_kexinit_with fill KEX_LIST_REKEY"

definition parse_kexinit_body :: "(wire_error, peer_kexinit) reader" where
  "parse_kexinit_body =
     rd_bind reader_byte (\<lambda>msg.
     if msg \<noteq> SSH_MSG_KEXINIT then rd_fail Truncated else
     rd_bind (reader_bytes 16) (\<lambda>cookie.
     rd_bind (reader_name_list NAME_LIST_BOUND) (\<lambda>kex.
     rd_bind (reader_name_list NAME_LIST_BOUND) (\<lambda>hostkey.
     rd_bind (reader_name_list NAME_LIST_BOUND) (\<lambda>enc_c2s.
     rd_bind (reader_name_list NAME_LIST_BOUND) (\<lambda>enc_s2c.
     rd_bind (reader_name_list NAME_LIST_BOUND) (\<lambda>mac_c2s.
     rd_bind (reader_name_list NAME_LIST_BOUND) (\<lambda>mac_s2c.
     rd_bind (reader_name_list NAME_LIST_BOUND) (\<lambda>comp_c2s.
     rd_bind (reader_name_list NAME_LIST_BOUND) (\<lambda>comp_s2c.
     rd_bind (reader_name_list NAME_LIST_BOUND) (\<lambda>lang_c2s.
     rd_bind (reader_name_list NAME_LIST_BOUND) (\<lambda>lang_s2c.
     rd_bind reader_boolean (\<lambda>follows.
     rd_bind reader_uint32 (\<lambda>reserved.
     rd_bind reader_finish (\<lambda>_.
     rd_return \<lparr>kex_algorithms = kex, server_host_key_algorithms = hostkey,
        encryption_c2s = enc_c2s, encryption_s2c = enc_s2c,
        compression_c2s = comp_c2s, compression_s2c = comp_s2c,
        first_kex_packet_follows = follows\<rparr>)))))))))))))))"

definition parse_kexinit :: "bytes \<Rightarrow> (kex_error, peer_kexinit) result" where
  "parse_kexinit payload =
     try_bind (map_err KexWire (parse_kexinit_body payload)) (\<lambda>(k, _). Inr k)"

section \<open>Negotiation\<close>

definition is_marker :: "bytes \<Rightarrow> bool" where
  "is_marker name \<longleftrightarrow>
     starts_with (ascii ''kex-strict-'') name \<or> starts_with (ascii ''ext-info-'') name"

definition pick_cipher :: "name_list \<Rightarrow> bytes option" where
  "pick_cipher peer_list =
     find (\<lambda>n. n \<in> set (split_on 0x2C ENCRYPTION_LIST)) (name_list_names peer_list)"

definition first_name :: "name_list \<Rightarrow> bytes option" where
  "first_name l = (case name_list_names l of [] \<Rightarrow> None | n # _ \<Rightarrow> Some n)"

definition negotiate :: "peer_kexinit \<Rightarrow> bool \<Rightarrow> (kex_error, negotiated) result" where
  "negotiate peer initial =
     (let reject = (\<lambda>r. Inl (KexRejected (kex_failed r)));
          peer_real_kex = filter (\<lambda>n. \<not> is_marker n) (name_list_names (kex_algorithms peer)) in
      if \<not> list_ex (\<lambda>n. n = KEX_ALGORITHM) peer_real_kex then reject ''no-hybrid-kex''
      else if initial \<and> \<not> name_list_contains (kex_algorithms peer) STRICT_KEX_CLIENT then
        reject ''no-strict-kex''
      else if \<not> name_list_contains (server_host_key_algorithms peer) HOST_KEY_LIST then
        reject ''no-host-key-algorithm''
      else case pick_cipher (encryption_c2s peer) of
        None \<Rightarrow> reject ''no-cipher-c2s''
      | Some c2s \<Rightarrow> (case pick_cipher (encryption_s2c peer) of
        None \<Rightarrow> reject ''no-cipher-s2c''
      | Some s2c \<Rightarrow>
          if \<not> name_list_contains (compression_c2s peer) COMPRESSION_LIST \<or>
             \<not> name_list_contains (compression_s2c peer) COMPRESSION_LIST then
            reject ''no-compression''
          else
            Inr \<lparr>kex_algorithm = KEX_ALGORITHM, host_key_algorithm = HOST_KEY_LIST,
               cipher_c2s = c2s, cipher_s2c = s2c,
               ext_info = (initial \<and> name_list_contains (kex_algorithms peer) EXT_INFO_CLIENT),
               skip_guessed_packet =
                 (first_kex_packet_follows peer \<and>
                  (first_name (kex_algorithms peer) \<noteq> Some KEX_ALGORITHM \<or>
                   first_name (server_host_key_algorithms peer) \<noteq> Some HOST_KEY_LIST))\<rparr>))"

section \<open>Hybrid exchange\<close>

definition MLKEM_EK_LEN :: nat where "MLKEM_EK_LEN = 1184"
definition MLKEM_CT_LEN :: nat where "MLKEM_CT_LEN = 1088"
definition X25519_LEN :: nat where "X25519_LEN = 32"
definition CLIENT_INIT_LEN :: nat where "CLIENT_INIT_LEN = MLKEM_EK_LEN + X25519_LEN"
definition SERVER_REPLY_LEN :: nat where "SERVER_REPLY_LEN = MLKEM_CT_LEN + X25519_LEN"

text \<open>The primitives of the crates \<^verbatim>\<open>ml-kem\<close>, \<^verbatim>\<open>x25519-dalek\<close> and \<^verbatim>\<open>sha2\<close>.\<close>

record kem_prims =
  mlkem_valid_ek :: "bytes \<Rightarrow> bool"
  mlkem_encapsulate :: "bytes \<Rightarrow> bytes \<Rightarrow> bytes \<times> bytes" \<comment> \<open>key, seed: ciphertext, shared key\<close>
  x25519_public :: "bytes \<Rightarrow> bytes"
  x25519_dh :: "bytes \<Rightarrow> bytes \<Rightarrow> bytes"
  was_contributory :: "bytes \<Rightarrow> bool"
  sha256 :: "bytes \<Rightarrow> bytes"

record hybrid_outcome =
  server_reply :: bytes
  shared_secret :: bytes

definition hybrid_exchange_with ::
  "kem_prims \<Rightarrow> bytes \<Rightarrow> (nat \<Rightarrow> nat \<Rightarrow> bytes option) \<Rightarrow> (kex_error, hybrid_outcome) result" where
  "hybrid_exchange_with P client_init fill =
     (let reject = (\<lambda>r. Inl (KexRejected (kex_failed r))) in
      if length client_init \<noteq> CLIENT_INIT_LEN then reject ''bad-hybrid-init-length''
      else
        let ek = take MLKEM_EK_LEN client_init; client_x25519 = drop MLKEM_EK_LEN client_init in
        if \<not> mlkem_valid_ek P ek then reject ''invalid-mlkem-key''
        else case fill 0 32 of
          None \<Rightarrow> reject ''rng-failure''
        | Some m \<Rightarrow>
            let (ct, k_pq) = mlkem_encapsulate P ek m in
            if length client_x25519 \<noteq> 32 then reject ''bad-hybrid-init-length''
            else case fill 1 32 of
              None \<Rightarrow> reject ''rng-failure''
            | Some secret \<Rightarrow>
                let k_cl = x25519_dh P secret client_x25519 in
                if \<not> was_contributory P k_cl then reject ''invalid-x25519-key''
                else Inr \<lparr>server_reply = ct @ x25519_public P secret,
                          shared_secret = sha256 P (k_pq @ k_cl)\<rparr>)"

record exchange_hash_inputs =
  eh_client_id :: bytes
  eh_server_id :: bytes
  eh_client_kexinit :: bytes
  eh_server_kexinit :: bytes
  eh_host_key_blob :: bytes
  eh_client_init :: bytes
  eh_server_reply :: bytes
  eh_shared_secret :: bytes

definition exchange_hash_buf :: "exchange_hash_inputs \<Rightarrow> bytes option" where
  "exchange_hash_buf x = run_writer
     [put_string (eh_client_id x), put_string (eh_server_id x),
      put_string (eh_client_kexinit x), put_string (eh_server_kexinit x),
      put_string (eh_host_key_blob x), put_string (eh_client_init x),
      put_string (eh_server_reply x), put_string (eh_shared_secret x)]"

definition exchange_hash :: "(bytes \<Rightarrow> bytes) \<Rightarrow> exchange_hash_inputs \<Rightarrow> bytes option" where
  "exchange_hash sha x = map_option sha (exchange_hash_buf x)"

section \<open>Key derivation\<close>

text \<open>The extension loop: \<open>None\<close> if it never ends, which a hash with empty output would cause.\<close>

partial_function (option) derive_extend ::
  "(bytes \<Rightarrow> bytes) \<Rightarrow> bytes \<Rightarrow> bytes \<Rightarrow> nat \<Rightarrow> bytes \<Rightarrow> bytes option" where
  "derive_extend sha k_string h needed out =
     (if length out < needed
      then derive_extend sha k_string h needed (out @ sha (k_string @ h @ out))
      else Some out)"

definition derive_key ::
  "(bytes \<Rightarrow> bytes) \<Rightarrow> bytes \<Rightarrow> bytes \<Rightarrow> u8 \<Rightarrow> bytes \<Rightarrow> nat \<Rightarrow> bytes option" where
  "derive_key sha k h letter session_id needed =
     (case run_writer [put_string k] of
        None \<Rightarrow> None
      | Some k_string \<Rightarrow>
          map_option (take needed)
            (derive_extend sha k_string h needed (sha (k_string @ h @ [letter] @ session_id))))"

section \<open>Negotiation: properties\<close>

lemma our_ciphers:
  "set (split_on 0x2C ENCRYPTION_LIST) =
     {ascii ''chacha20-poly1305@openssh.com'', ascii ''aes256-gcm@openssh.com''}"
proof -
  have "split_on 0x2C ENCRYPTION_LIST =
      [ascii ''chacha20-poly1305@openssh.com'', ascii ''aes256-gcm@openssh.com'']"
    by code_simp
  then show ?thesis by simp
qed

lemma contains_iff [simp]: "name_list_contains l n \<longleftrightarrow> n \<in> set (name_list_names l)"
  by (auto simp: name_list_contains_def list_ex_iff)

lemma hybrid_not_marker: "\<not> is_marker KEX_ALGORITHM"
  by code_simp

lemma find_Some_split:
  "find P xs = Some x \<longleftrightarrow> (\<exists>pre post. xs = pre @ x # post \<and> P x \<and> (\<forall>y\<in>set pre. \<not> P y))"
proof
  assume "find P xs = Some x"
  then show "\<exists>pre post. xs = pre @ x # post \<and> P x \<and> (\<forall>y\<in>set pre. \<not> P y)"
  proof (induction xs)
    case Nil
    then show ?case by simp
  next
    case (Cons a xs)
    show ?case
    proof (cases "P a")
      case True
      then show ?thesis using Cons.prems by (intro exI[of _ "[]"] exI[of _ xs]) simp
    next
      case False
      then obtain pre post where "xs = pre @ x # post" "P x" "\<forall>y\<in>set pre. \<not> P y"
        using Cons by auto
      then show ?thesis using False by (intro exI[of _ "a # pre"] exI[of _ post]) simp
    qed
  qed
next
  assume "\<exists>pre post. xs = pre @ x # post \<and> P x \<and> (\<forall>y\<in>set pre. \<not> P y)"
  then obtain pre post where "xs = pre @ x # post" "P x" "\<forall>y\<in>set pre. \<not> P y" by blast
  moreover have "find P (pre @ x # post) = Some x" if "P x" "\<forall>y\<in>set pre. \<not> P y"
    using that by (induction pre) auto
  ultimately show "find P xs = Some x" by simp
qed

text \<open>The first entry on the client's list that the server offers (RFC 4253 \<section>7.1).\<close>

definition client_choice :: "bytes set \<Rightarrow> name_list \<Rightarrow> bytes \<Rightarrow> bool" where
  "client_choice ours l c \<longleftrightarrow>
     (\<exists>pre post. name_list_names l = pre @ c # post \<and> c \<in> ours \<and> set pre \<inter> ours = {})"

lemma pick_cipher_iff:
  "pick_cipher l = Some c \<longleftrightarrow> client_choice (set (split_on 0x2C ENCRYPTION_LIST)) l c"
  unfolding pick_cipher_def find_Some_split client_choice_def by blast

text \<open>
  C3 (functional). \<^verbatim>\<open>negotiate\<close> succeeds exactly when the client offers the hybrid key exchange,
  the strict-kex marker (on the initial KEXINIT), the composite host key, a cipher of the
  profile in each direction and no compression; each cipher is then the first entry of the
  client's own list that the server offers, and the guessed packet is skipped exactly when the
  client announced one and guessed wrong.
\<close>

theorem negotiate_exact:
  "negotiate peer initial = Inr n \<longleftrightarrow>
     KEX_ALGORITHM \<in> set (name_list_names (kex_algorithms peer)) \<and>
     (initial \<longrightarrow> STRICT_KEX_CLIENT \<in> set (name_list_names (kex_algorithms peer))) \<and>
     HOST_KEY_LIST \<in> set (name_list_names (server_host_key_algorithms peer)) \<and>
     client_choice {ascii ''chacha20-poly1305@openssh.com'', ascii ''aes256-gcm@openssh.com''}
       (encryption_c2s peer) (cipher_c2s n) \<and>
     client_choice {ascii ''chacha20-poly1305@openssh.com'', ascii ''aes256-gcm@openssh.com''}
       (encryption_s2c peer) (cipher_s2c n) \<and>
     COMPRESSION_LIST \<in> set (name_list_names (compression_c2s peer)) \<and>
     COMPRESSION_LIST \<in> set (name_list_names (compression_s2c peer)) \<and>
     kex_algorithm n = KEX_ALGORITHM \<and> host_key_algorithm n = HOST_KEY_LIST \<and>
     (ext_info n \<longleftrightarrow>
        initial \<and> EXT_INFO_CLIENT \<in> set (name_list_names (kex_algorithms peer))) \<and>
     (skip_guessed_packet n \<longleftrightarrow>
        first_kex_packet_follows peer \<and>
        \<not> (first_name (kex_algorithms peer) = Some KEX_ALGORITHM \<and>
           first_name (server_host_key_algorithms peer) = Some HOST_KEY_LIST))"
proof -
  have real: "list_ex (\<lambda>n. n = KEX_ALGORITHM)
       (filter (\<lambda>n. \<not> is_marker n) (name_list_names (kex_algorithms peer))) \<longleftrightarrow>
     KEX_ALGORITHM \<in> set (name_list_names (kex_algorithms peer))"
    using hybrid_not_marker by (auto simp: list_ex_iff)
  show ?thesis
    unfolding our_ciphers[symmetric] pick_cipher_iff[symmetric] negotiate_def Let_def real
    by (cases n) (auto split: option.splits)
qed

text \<open>
  Every negotiation failure is a rejection with
  \<^verbatim>\<open>SSH_DISCONNECT_KEY_EXCHANGE_FAILED\<close> (3) and one of the six audit reasons, and the reason is
  \<^verbatim>\<open>no-hybrid-kex\<close> exactly when the client's list lacks the hybrid algorithm: marker
  pseudo-algorithms, the server's own included, never count as an offer.
\<close>

lemma negotiate_fails_closed:
  assumes "negotiate peer initial = Inl e"
  shows "\<exists>r. e = KexRejected r \<and> disconnect_code r = 3 \<and>
      reason r \<in> {''no-hybrid-kex'', ''no-strict-kex'', ''no-host-key-algorithm'',
         ''no-cipher-c2s'', ''no-cipher-s2c'', ''no-compression''} \<and>
      (reason r = ''no-hybrid-kex'' \<longleftrightarrow>
         KEX_ALGORITHM \<notin> set (filter (\<lambda>n. \<not> is_marker n) (name_list_names (kex_algorithms peer))))"
  using assms unfolding negotiate_def Let_def
  by (auto simp: kex_failed_def DISCONNECT_KEY_EXCHANGE_FAILED_def list_ex_iff
      split: if_splits option.splits)

section \<open>KEXINIT: properties\<close>

lemma short_literals [simp]:
  "length KEX_LIST = 50" "length KEX_LIST_REKEY = 21" "length HOST_KEY_LIST = 19"
  "length ENCRYPTION_LIST = 52" "length MAC_LIST = 29" "length COMPRESSION_LIST = 4"
  by (simp_all add: KEX_LIST_def KEX_LIST_REKEY_def HOST_KEY_LIST_def ENCRYPTION_LIST_def
      MAC_LIST_def COMPRESSION_LIST_def)

text \<open>A well-formed name-list, decidable by evaluation.\<close>

definition good_list :: "bytes \<Rightarrow> bool" where
  "good_list rw \<longleftrightarrow> length rw \<le> NAME_LIST_BOUND \<and> (rw = [] \<or> name_list_scan True rw = Some False)"

lemma rd_bind_name_list [reader_simps]:
  assumes "good_list rw"
  shows "rd_bind (reader_name_list NAME_LIST_BOUND) k (ssh_string rw @ r) = k (NameList rw) r"
proof -
  have "length rw \<le> NAME_LIST_BOUND" "length rw \<le> u32_max"
    using assms by (auto simp: good_list_def NAME_LIST_BOUND_def)
  then have "reader_name_list NAME_LIST_BOUND (ssh_string rw @ r) = Inr (NameList rw, r)"
    using assms by (auto simp: reader_name_list_def rd_bind_string good_list_def)
  then show ?thesis by (rule rd_bind_step)
qed

lemma good_lists [simp]:
  "good_list KEX_LIST" "good_list KEX_LIST_REKEY" "good_list HOST_KEY_LIST"
  "good_list ENCRYPTION_LIST" "good_list MAC_LIST" "good_list COMPRESSION_LIST" "good_list []"
  by code_simp+

lemma build_kexinit_with_Inr_iff:
  "build_kexinit_with fill kl = Inr w \<longleftrightarrow>
     (\<exists>cookie. fill 16 = Some cookie \<and>
        w = (if length kl \<le> u32_max then
          Some (20 # cookie @ ssh_string kl @ ssh_string HOST_KEY_LIST @
            ssh_string ENCRYPTION_LIST @ ssh_string ENCRYPTION_LIST @
            ssh_string MAC_LIST @ ssh_string MAC_LIST @
            ssh_string COMPRESSION_LIST @ ssh_string COMPRESSION_LIST @
            ssh_string [] @ ssh_string [] @ 0 # u32_to_be_bytes 0) else None))"
  by (auto simp: build_kexinit_with_def writer_simps msg_defs put_name_list_def
      put_boolean_def put_uint32_def split: option.splits)

lemma parse_built_kexinit:
  assumes "fills fill" and "good_list kl" and "build_kexinit_with fill kl = Inr w"
  shows "\<exists>p. w = Some p \<and> parse_kexinit p = Inr
    \<lparr>kex_algorithms = NameList kl, server_host_key_algorithms = NameList HOST_KEY_LIST,
     encryption_c2s = NameList ENCRYPTION_LIST, encryption_s2c = NameList ENCRYPTION_LIST,
     compression_c2s = NameList COMPRESSION_LIST, compression_s2c = NameList COMPRESSION_LIST,
     first_kex_packet_follows = False\<rparr>"
proof -
  have "length kl \<le> u32_max" using assms(2) by (simp add: good_list_def NAME_LIST_BOUND_def)
  moreover obtain cookie where "length cookie = 16" "fill 16 = Some cookie"
    using assms(1,3) by (auto simp: build_kexinit_with_Inr_iff fills_def)
  ultimately show ?thesis
    using assms(2,3)
    by (auto simp: build_kexinit_with_Inr_iff parse_kexinit_def parse_kexinit_body_def
        rd_bind_fixed rd_bind_last rd_bind_bytes rd_bind_name_list rd_bind_boolean msg_defs
        rd_bind_step)
qed

text \<open>
  The KEXINIT payloads the server builds, initial and re-key, never panic, parse
  back to the ADR-0021 profile, and announce no guessed packet. A peer that echoes the re-key
  payload negotiates with it; one that echoes the initial payload is refused, for want of the
  client's strict-kex marker.
\<close>

lemma kexinit_profile:
  assumes "fills fill" and "fill 16 = Some cookie"
  shows "\<exists>p q kp kq. build_kexinit fill = Inr (Some p) \<and> build_rekey_kexinit fill = Inr (Some q) \<and>
    parse_kexinit p = Inr kp \<and> parse_kexinit q = Inr kq \<and>
    name_list_names (kex_algorithms kp) =
      [ascii ''mlkem768x25519-sha256'', ascii ''kex-strict-s-v00@openssh.com''] \<and>
    name_list_names (kex_algorithms kq) = [ascii ''mlkem768x25519-sha256''] \<and>
    (\<forall>k\<in>{kp, kq}.
       name_list_names (server_host_key_algorithms k) = [ascii ''ssh-mldsa44-ed25519''] \<and>
       name_list_names (encryption_c2s k) = split_on 0x2C ENCRYPTION_LIST \<and>
       name_list_names (encryption_s2c k) = split_on 0x2C ENCRYPTION_LIST \<and>
       name_list_names (compression_c2s k) = [ascii ''none''] \<and>
       name_list_names (compression_s2c k) = [ascii ''none''] \<and>
       \<not> first_kex_packet_follows k) \<and>
    negotiate kq False = Inr \<lparr>kex_algorithm = KEX_ALGORITHM, host_key_algorithm = HOST_KEY_LIST,
      cipher_c2s = ascii ''chacha20-poly1305@openssh.com'',
      cipher_s2c = ascii ''chacha20-poly1305@openssh.com'',
      ext_info = False, skip_guessed_packet = False\<rparr> \<and>
    negotiate kp True = Inl (KexRejected (kex_failed ''no-strict-kex''))"
proof -
  define k where "k kl = \<lparr>kex_algorithms = NameList kl,
     server_host_key_algorithms = NameList HOST_KEY_LIST,
     encryption_c2s = NameList ENCRYPTION_LIST, encryption_s2c = NameList ENCRYPTION_LIST,
     compression_c2s = NameList COMPRESSION_LIST, compression_s2c = NameList COMPRESSION_LIST,
     first_kex_packet_follows = False\<rparr>" for kl
  have build: "\<exists>p. build_kexinit_with fill kl = Inr (Some p) \<and> parse_kexinit p = Inr (k kl)"
    if "good_list kl" for kl
  proof -
    obtain w where "build_kexinit_with fill kl = Inr w"
      using assms(2) by (auto simp: build_kexinit_with_Inr_iff)
    then show ?thesis
      using parse_built_kexinit[OF assms(1) that] by (auto simp: k_def)
  qed
  obtain p q where p: "build_kexinit fill = Inr (Some p)" "parse_kexinit p = Inr (k KEX_LIST)"
    and q: "build_rekey_kexinit fill = Inr (Some q)" "parse_kexinit q = Inr (k KEX_LIST_REKEY)"
    using build[of KEX_LIST] build[of KEX_LIST_REKEY]
    by (auto simp: build_kexinit_def build_rekey_kexinit_def)
  have names: "name_list_names (NameList KEX_LIST) =
      [ascii ''mlkem768x25519-sha256'', ascii ''kex-strict-s-v00@openssh.com'']"
    "name_list_names (NameList KEX_LIST_REKEY) = [ascii ''mlkem768x25519-sha256'']"
    "name_list_names (NameList HOST_KEY_LIST) = [ascii ''ssh-mldsa44-ed25519'']"
    "name_list_names (NameList ENCRYPTION_LIST) = split_on 0x2C ENCRYPTION_LIST"
    "name_list_names (NameList COMPRESSION_LIST) = [ascii ''none'']"
    by code_simp+
  have neg: "negotiate (k KEX_LIST_REKEY) False =
      Inr \<lparr>kex_algorithm = KEX_ALGORITHM, host_key_algorithm = HOST_KEY_LIST,
        cipher_c2s = ascii ''chacha20-poly1305@openssh.com'',
        cipher_s2c = ascii ''chacha20-poly1305@openssh.com'',
        ext_info = False, skip_guessed_packet = False\<rparr>"
    "negotiate (k KEX_LIST) True = Inl (KexRejected (kex_failed ''no-strict-kex''))"
    unfolding k_def by code_simp+
  show ?thesis
    by (intro exI[of _ p] exI[of _ q] exI[of _ "k KEX_LIST"] exI[of _ "k KEX_LIST_REKEY"])
      (simp add: p q neg, simp add: k_def names)
qed

section \<open>Hybrid exchange, exchange hash and key derivation: properties\<close>

lemma hybrid_exchange_iff:
  "(hybrid_exchange_with P ci fill = Inr out \<longleftrightarrow>
      length ci = 1216 \<and> mlkem_valid_ek P (take 1184 ci) \<and>
      (\<exists>m secret ct k_pq k_cl. fill 0 32 = Some m \<and> fill 1 32 = Some secret \<and>
         mlkem_encapsulate P (take 1184 ci) m = (ct, k_pq) \<and>
         k_cl = x25519_dh P secret (drop 1184 ci) \<and> was_contributory P k_cl \<and>
         out = \<lparr>server_reply = ct @ x25519_public P secret, shared_secret = sha256 P (k_pq @ k_cl)\<rparr>)) \<and>
   ((\<exists>ok. hybrid_exchange_with P ci fill = Inr ok) \<or>
    (\<exists>r. hybrid_exchange_with P ci fill = Inl (KexRejected r) \<and> disconnect_code r = 3))"
  unfolding hybrid_exchange_with_def Let_def
  by (auto simp: CLIENT_INIT_LEN_def MLKEM_EK_LEN_def X25519_LEN_def kex_failed_def
      DISCONNECT_KEY_EXCHANGE_FAILED_def split: option.splits prod.splits if_splits)

text \<open>
  \<^verbatim>\<open>hybrid_exchange\<close> succeeds exactly when both halves do: the init has the one legal
  length, the ML-KEM key is valid, the random source delivers both draws and the X25519 exchange
  is contributory. The shared secret is the hash of both halves, and every failure is a
  rejection with code 3.
\<close>

lemma hybrid_exchange_exact:
  "(hybrid_exchange_with P ci fill = Inr out \<longleftrightarrow>
      length ci = 1216 \<and> mlkem_valid_ek P (take 1184 ci) \<and>
      (\<exists>m secret ct k_pq k_cl. fill 0 32 = Some m \<and> fill 1 32 = Some secret \<and>
         mlkem_encapsulate P (take 1184 ci) m = (ct, k_pq) \<and>
         k_cl = x25519_dh P secret (drop 1184 ci) \<and> was_contributory P k_cl \<and>
         out = \<lparr>server_reply = ct @ x25519_public P secret, shared_secret = sha256 P (k_pq @ k_cl)\<rparr>)) \<and>
   ((\<exists>ok. hybrid_exchange_with P ci fill = Inr ok) \<or>
    (\<exists>r. hybrid_exchange_with P ci fill = Inl (KexRejected r) \<and> disconnect_code r = 3))"
  by (rule hybrid_exchange_iff)

lemma exchange_hash_buf_Some_iff:
  "exchange_hash_buf x = Some b \<longleftrightarrow>
     (let fs = [eh_client_id x, eh_server_id x, eh_client_kexinit x, eh_server_kexinit x,
        eh_host_key_blob x, eh_client_init x, eh_server_reply x, eh_shared_secret x] in
      (\<forall>f\<in>set fs. length f \<le> u32_max) \<and> b = concat (map ssh_string fs))"
  unfolding exchange_hash_buf_def Let_def
  by (auto simp: run_writer_unfold put_string_Some put_string_None split: if_splits)

text \<open>
  The exchange hash binds the whole transcript: two sets of inputs whose hashed
  buffers agree are the same in every field, both KEXINIT payloads included, so a downgraded
  negotiation cannot share a hash input with the honest one.
\<close>

lemma exchange_hash_binds_transcript:
  assumes "exchange_hash_buf x = Some b" and "exchange_hash_buf y = Some b"
  shows "x = y"
proof -
  let ?fs = "\<lambda>x. [eh_client_id x, eh_server_id x, eh_client_kexinit x, eh_server_kexinit x,
        eh_host_key_blob x, eh_client_init x, eh_server_reply x, eh_shared_secret x]"
  have "?fs x = ?fs y \<and> [] = ([] :: bytes)"
  proof (rule string_codec.concat_unique[where bound = u32_max])
    show "\<forall>f\<in>set (?fs x). length f \<le> u32_max \<and> length f \<le> u32_max"
      and "\<forall>f\<in>set (?fs y). length f \<le> u32_max \<and> length f \<le> u32_max"
      using assms unfolding exchange_hash_buf_Some_iff Let_def by blast+
    show "length (?fs x) = length (?fs y)" by simp
    show "concat (map ssh_string (?fs x)) @ [] = concat (map ssh_string (?fs y)) @ []"
      using assms unfolding exchange_hash_buf_Some_iff Let_def by (metis append_Nil2)
  qed
  then show ?thesis by (cases x, cases y) simp
qed

text \<open>The RFC 4253 \<section>7.2 key stream after \<open>n\<close> extensions: \<open>K1\<close>, then each \<open>HASH(K || H || K1 || ...)\<close>.\<close>

fun key_stream :: "(bytes \<Rightarrow> bytes) \<Rightarrow> bytes \<Rightarrow> bytes \<Rightarrow> bytes \<Rightarrow> nat \<Rightarrow> bytes" where
  "key_stream sha k_string h k1 0 = k1"
| "key_stream sha k_string h k1 (Suc n) =
     (let ks = key_stream sha k_string h k1 n in ks @ sha (k_string @ h @ ks))"

lemma length_key_stream:
  "(\<And>m. length (sha m) = 32) \<Longrightarrow> length k1 = 32 \<Longrightarrow> length (key_stream sha ks h k1 n) = 32 * Suc n"
  by (induction n) (simp_all add: Let_def)

lemma derive_extend_stream:
  assumes len: "\<And>m. length (sha m) = 32" and "length k1 = 32" and "32 * Suc j + 32 * d \<ge> needed"
  shows "\<exists>n. derive_extend sha ks h needed (key_stream sha ks h k1 j) = Some (key_stream sha ks h k1 n)
    \<and> needed \<le> 32 * Suc n \<and> (n = j \<or> 32 * n < needed)"
  using assms(3)
proof (induction d arbitrary: j)
  case 0
  then show ?case
    using assms(2) by (intro exI[of _ j]) (simp add: derive_extend.simps length_key_stream[OF len])
next
  case (Suc d)
  show ?case
  proof (cases "32 * Suc j < needed")
    case True
    then have "derive_extend sha ks h needed (key_stream sha ks h k1 j) =
        derive_extend sha ks h needed (key_stream sha ks h k1 (Suc j))"
      using assms(2) by (subst derive_extend.simps) (simp add: length_key_stream[OF len] Let_def)
    then show ?thesis
      using Suc.IH[of "Suc j"] Suc.prems True by auto
  next
    case False
    then show ?thesis
      using assms(2) by (intro exI[of _ j]) (simp add: derive_extend.simps length_key_stream[OF len])
  qed
qed

lemma derive_key_works:
  assumes "\<And>m. length (sha m) = 32" and "length k = 32"
  shows "\<exists>n. derive_key sha k h letter session_id needed =
      Some (take needed (key_stream sha (ssh_string k) h
        (sha (ssh_string k @ h @ [letter] @ session_id)) n)) \<and>
    length (take needed (key_stream sha (ssh_string k) h
        (sha (ssh_string k @ h @ [letter] @ session_id)) n)) = needed"
proof -
  let ?k1 = "sha (ssh_string k @ h @ [letter] @ session_id)"
  obtain n where "derive_extend sha (ssh_string k) h needed ?k1 = Some (key_stream sha (ssh_string k) h ?k1 n)"
    and "needed \<le> 32 * Suc n"
    using derive_extend_stream[of sha ?k1 needed 0 needed "ssh_string k" h] assms(1) by auto
  then show ?thesis
    using assms by (intro exI[of _ n]) (simp add: derive_key_def writer_simps length_key_stream)
qed

text \<open>
  With a hash of 32 bytes the derivation loop ends for every requested
  length, and yields exactly that many bytes of the RFC 4253 key stream.
\<close>

lemma derive_key_total:
  assumes "\<And>m. length (sha m) = 32" and "length k = 32"
  shows "\<exists>n. derive_key sha k h letter session_id needed =
      Some (take needed (key_stream sha (ssh_string k) h
        (sha (ssh_string k @ h @ [letter] @ session_id)) n)) \<and>
    length (take needed (key_stream sha (ssh_string k) h
        (sha (ssh_string k @ h @ [letter] @ session_id)) n)) = needed"
  by (rule derive_key_works[OF assms])

section \<open>Witnesses\<close>

text \<open>A client that offers more than the profile, prefers AES-GCM and guesses wrong.\<close>

definition sample_peer :: peer_kexinit where
  "sample_peer = \<lparr>
     kex_algorithms = NameList (ascii ''curve25519-sha256,mlkem768x25519-sha256,kex-strict-c-v00@openssh.com''),
     server_host_key_algorithms = NameList (ascii ''ssh-ed25519,ssh-mldsa44-ed25519''),
     encryption_c2s = NameList (ascii ''aes128-ctr,aes256-gcm@openssh.com,chacha20-poly1305@openssh.com''),
     encryption_s2c = NameList (ascii ''chacha20-poly1305@openssh.com''),
     compression_c2s = NameList (ascii ''none''), compression_s2c = NameList (ascii ''zlib,none''),
     first_kex_packet_follows = True\<rparr>"

theorem negotiate_exact_witness:
  "\<exists>n. negotiate sample_peer True = Inr n \<and> skip_guessed_packet n \<and> \<not> ext_info n \<and>
     client_choice {ascii ''chacha20-poly1305@openssh.com'', ascii ''aes256-gcm@openssh.com''}
       (encryption_c2s sample_peer) (ascii ''aes256-gcm@openssh.com'')"
proof -
  have "negotiate sample_peer True = Inr \<lparr>kex_algorithm = KEX_ALGORITHM,
      host_key_algorithm = HOST_KEY_LIST, cipher_c2s = ascii ''aes256-gcm@openssh.com'',
      cipher_s2c = ascii ''chacha20-poly1305@openssh.com'', ext_info = False,
      skip_guessed_packet = True\<rparr>"
    by code_simp
  from this and this[unfolded negotiate_exact] show ?thesis by auto
qed

lemma negotiate_fails_closed_witness:
  "\<exists>r. KexRejected (kex_failed ''no-hybrid-kex'') = KexRejected r \<and> disconnect_code r = 3"
proof -
  have "negotiate (sample_peer\<lparr>kex_algorithms := NameList (ascii ''kex-strict-s-v00@openssh.com'')\<rparr>) True
      = Inl (KexRejected (kex_failed ''no-hybrid-kex''))"
    by code_simp
  from negotiate_fails_closed[OF this] show ?thesis by blast
qed

text \<open>A random source that delivers zero bytes, and a hash stand-in of constant output.\<close>

theorem kexinit_profile_witness:
  "\<exists>p q kp kq. build_kexinit (\<lambda>n. Some (replicate n 0)) = Inr (Some p) \<and>
    build_rekey_kexinit (\<lambda>n. Some (replicate n 0)) = Inr (Some q) \<and>
    parse_kexinit p = Inr kp \<and> parse_kexinit q = Inr kq"
  using kexinit_profile[of "\<lambda>n. Some (replicate n 0)" "replicate 16 0"]
  by (auto simp: fills_def)

lemma exchange_hash_binds_transcript_witness:
  "\<lparr>eh_client_id = [1], eh_server_id = [], eh_client_kexinit = [2], eh_server_kexinit = [],
     eh_host_key_blob = [], eh_client_init = [], eh_server_reply = [], eh_shared_secret = [3]\<rparr> =
   \<lparr>eh_client_id = [1], eh_server_id = [], eh_client_kexinit = [2], eh_server_kexinit = [],
     eh_host_key_blob = [], eh_client_init = [], eh_server_reply = [], eh_shared_secret = [3]\<rparr>"
  by (rule exchange_hash_binds_transcript) (simp_all add: exchange_hash_buf_def writer_simps)

lemma derive_key_total_witness:
  "\<exists>n. derive_key (\<lambda>_. replicate 32 7) (replicate 32 1) [] 65 [] 64 =
      Some (take 64 (key_stream (\<lambda>_. replicate 32 7) (ssh_string (replicate 32 1)) []
        (replicate 32 7) n))"
  using derive_key_total[of "\<lambda>_. replicate 32 7" "replicate 32 1" "[]" 65 "[]" 64] by auto

end
