(* ===== verification/Cipher.thy ===== *)
theory Cipher
  imports Wire
begin

text \<open>
  \<^verbatim>\<open>crates/quantumssh-core/src/cipher.rs\<close>: the two AEAD packet ciphers of the profile,
  \<^verbatim>\<open>chacha20-poly1305@openssh.com\<close> and \<^verbatim>\<open>aes256-gcm@openssh.com\<close>.

  The primitives of the crates \<^verbatim>\<open>chacha20\<close>, \<^verbatim>\<open>poly1305\<close> and \<^verbatim>\<open>aes-gcm\<close> are the parameter
  \<open>aead_prims\<close>: a keystream byte per key, nonce and position, the one-time authenticator, and the
  detached AES-256-GCM operations. What the code relies on is \<open>aead_ok\<close>: tags are 16 bytes and
  GCM decryption undoes GCM encryption under the same key, nonce and associated data.

  Sealing and opening return the cipher state they leave behind beside their result. The
  \<^verbatim>\<open>debug_assert_eq!\<close> of the GCM methods is the predicate \<open>gcm_in_sync\<close>; the lockstep lemmas
  show that it holds wherever the sequence number counts the packets under the key.
\<close>

named_theorems cipher_simps \<open>evaluation of the packet ciphers\<close>

section \<open>Data\<close>

definition CHACHA20_POLY1305 :: bytes where
  "CHACHA20_POLY1305 = ascii ''chacha20-poly1305@openssh.com''"
definition AES256_GCM :: bytes where "AES256_GCM = ascii ''aes256-gcm@openssh.com''"
definition TAG_LEN :: nat where "TAG_LEN = 16"
definition CHACHA_BLOCK :: nat where "CHACHA_BLOCK = 8"
definition GCM_BLOCK :: nat where "GCM_BLOCK = 16"

datatype cipher_error = BadTag | CipherWire wire_error

record chacha_cipher =
  k_main :: bytes
  k_header :: bytes

record gcm_cipher =
  gcm_key :: bytes
  fixed :: bytes
  invocation :: u64
  initial_invocation :: u64

datatype packet_cipher = ChaCha chacha_cipher | Gcm gcm_cipher

record aead_prims =
  chacha_stream :: "bytes \<Rightarrow> bytes \<Rightarrow> nat \<Rightarrow> u8" \<comment> \<open>key, nonce, position\<close>
  poly1305 :: "bytes \<Rightarrow> bytes \<Rightarrow> bytes" \<comment> \<open>key, message: tag\<close>
  gcm_encrypt :: "bytes \<Rightarrow> bytes \<Rightarrow> bytes \<Rightarrow> bytes \<Rightarrow> (bytes \<times> bytes) option"
    \<comment> \<open>key, nonce, associated data, plaintext: ciphertext and tag\<close>
  gcm_decrypt :: "bytes \<Rightarrow> bytes \<Rightarrow> bytes \<Rightarrow> bytes \<Rightarrow> bytes \<Rightarrow> bytes option"
    \<comment> \<open>key, nonce, associated data, ciphertext, tag: plaintext\<close>

definition aead_ok :: "aead_prims \<Rightarrow> bool" where
  "aead_ok P \<longleftrightarrow>
     (\<forall>k m. length (poly1305 P k m) = 16) \<and>
     (\<forall>k n a p c t. gcm_encrypt P k n a p = Some (c, t) \<longrightarrow>
        length c = length p \<and> length t = 16 \<and> gcm_decrypt P k n a c t = Some p)"

section \<open>Construction\<close>

definition key_len :: "bytes \<Rightarrow> nat" where
  "key_len name = (if name = ascii ''chacha20-poly1305@openssh.com'' then 64 else 32)"

definition iv_len :: "bytes \<Rightarrow> nat" where
  "iv_len name = (if name = ascii ''chacha20-poly1305@openssh.com'' then 0 else 12)"

definition chacha_new :: "bytes \<Rightarrow> chacha_cipher" where
  "chacha_new key = \<lparr>k_main = take 32 key, k_header = take 32 (drop 32 key)\<rparr>"

definition gcm_new :: "bytes \<Rightarrow> bytes \<Rightarrow> gcm_cipher" where
  "gcm_new key iv =
     (let c = u64_from_be_bytes (take 8 (drop 4 iv)) in
      \<lparr>gcm_key = key, fixed = take 4 iv, invocation = c, initial_invocation = c\<rparr>)"

definition packet_cipher_new :: "bytes \<Rightarrow> bytes \<Rightarrow> bytes \<Rightarrow> (cipher_error, packet_cipher) result" where
  "packet_cipher_new name key iv =
     (if length key \<noteq> key_len name \<or> length iv \<noteq> iv_len name then Inl (CipherWire Truncated)
      else if name = CHACHA20_POLY1305 then Inr (ChaCha (chacha_new key))
      else if name = AES256_GCM then Inr (Gcm (gcm_new key iv))
      else Inl (CipherWire Truncated))"

section \<open>Lengths and padding\<close>

definition validate_aead_length :: "u32 \<Rightarrow> nat \<Rightarrow> (cipher_error, nat) result" where
  "validate_aead_length packet_length block =
     (if packet_length > MAX_PACKET \<or> packet_length < 1 + ucast MIN_PADDING \<or>
         unat packet_length mod block \<noteq> 0
      then Inl (CipherWire (BadPacketLength packet_length))
      else Inr (unat packet_length))"

definition padded_body :: "(nat \<Rightarrow> bytes option) \<Rightarrow> bytes \<Rightarrow> nat \<Rightarrow> (cipher_error, bytes) result" where
  "padded_body fill payload block =
     (let unpadded = 1 + length payload;
          padding = choose_padding block unpadded;
          packet_length = unpadded + padding in
      if packet_length > u32_max \<or> packet_length > unat MAX_PACKET then
        Inl (CipherWire (BadPacketLength (word_of_nat u32_max)))
      else if padding > 255 then Inl (CipherWire BadPadding)
      else case fill padding of
        None \<Rightarrow> Inl (CipherWire Truncated)
      | Some pad \<Rightarrow> Inr ([word_of_nat padding] @ payload @ pad))"

section \<open>ChaCha20-Poly1305\<close>

text \<open>\<^verbatim>\<open>seek\<close> to a position of the keystream, then \<^verbatim>\<open>apply_keystream\<close>.\<close>

definition apply_keystream :: "(nat \<Rightarrow> u8) \<Rightarrow> nat \<Rightarrow> bytes \<Rightarrow> bytes" where
  "apply_keystream stream pos buf = map2 (\<lambda>b i. b XOR stream i) buf [pos..<pos + length buf]"

definition seq_nonce :: "u32 \<Rightarrow> bytes" where
  "seq_nonce seqnr = u64_to_be_bytes (ucast seqnr)"

definition poly_key :: "aead_prims \<Rightarrow> chacha_cipher \<Rightarrow> bytes \<Rightarrow> bytes" where
  "poly_key P c nonce = apply_keystream (chacha_stream P (k_main c) nonce) 0 (replicate 32 0)"

definition finalize_openssh_poly :: "aead_prims \<Rightarrow> bytes \<Rightarrow> bytes \<Rightarrow> bytes \<Rightarrow> bytes" where
  "finalize_openssh_poly P key length_bytes ciphertext = poly1305 P key (length_bytes @ ciphertext)"

definition chacha_seal ::
  "aead_prims \<Rightarrow> (nat \<Rightarrow> bytes option) \<Rightarrow> chacha_cipher \<Rightarrow> u32 \<Rightarrow> bytes \<Rightarrow> (cipher_error, bytes) result" where
  "chacha_seal P fill c seqnr payload =
     (let nonce = seq_nonce seqnr in
      try_bind (padded_body fill payload CHACHA_BLOCK) (\<lambda>body.
      if length body > u32_max then Inl (CipherWire BadPadding)
      else
        let length_bytes = apply_keystream (chacha_stream P (k_header c) nonce) 0
              (u32_to_be_bytes (word_of_nat (length body)));
            ct = apply_keystream (chacha_stream P (k_main c) nonce) 64 body;
            tag = finalize_openssh_poly P (poly_key P c nonce) length_bytes ct in
        Inr (length_bytes @ ct @ tag)))"

definition chacha_body_len ::
  "aead_prims \<Rightarrow> chacha_cipher \<Rightarrow> u32 \<Rightarrow> bytes \<Rightarrow> (cipher_error, nat) result" where
  "chacha_body_len P c seqnr length_bytes =
     (let decrypted = apply_keystream (chacha_stream P (k_header c) (seq_nonce seqnr)) 0 length_bytes in
      try_bind (validate_aead_length (u32_from_be_bytes decrypted) CHACHA_BLOCK) (\<lambda>len.
      Inr (len + TAG_LEN)))"

definition chacha_open ::
  "aead_prims \<Rightarrow> chacha_cipher \<Rightarrow> u32 \<Rightarrow> bytes \<Rightarrow> bytes \<Rightarrow> (cipher_error, bytes) result" where
  "chacha_open P c seqnr length_bytes body =
     (let nonce = seq_nonce seqnr in
      if length body < TAG_LEN then Inl BadTag
      else
        let ct_len = length body - TAG_LEN; ciphertext = take ct_len body; tag = drop ct_len body in
        if finalize_openssh_poly P (poly_key P c nonce) length_bytes ciphertext \<noteq> tag then Inl BadTag
        else map_err CipherWire
          (decode_packet_body (apply_keystream (chacha_stream P (k_main c) nonce) 64 ciphertext)))"

section \<open>AES-256-GCM\<close>

definition gcm_nonce :: "gcm_cipher \<Rightarrow> bytes" where
  "gcm_nonce c = fixed c @ u64_to_be_bytes (invocation c)"

definition gcm_in_sync :: "gcm_cipher \<Rightarrow> u32 \<Rightarrow> bool" where
  "gcm_in_sync c seqnr \<longleftrightarrow> invocation c - initial_invocation c = ucast seqnr"

definition gcm_seal ::
  "aead_prims \<Rightarrow> (nat \<Rightarrow> bytes option) \<Rightarrow> gcm_cipher \<Rightarrow> u32 \<Rightarrow> bytes \<Rightarrow>
     gcm_cipher \<times> (cipher_error, bytes) result" where
  "gcm_seal P fill c seqnr payload =
     (case padded_body fill payload GCM_BLOCK of
        Inl e \<Rightarrow> (c, Inl e)
      | Inr body \<Rightarrow>
          if length body > u32_max then (c, Inl (CipherWire BadPadding))
          else
            let length_bytes = u32_to_be_bytes (word_of_nat (length body)) in
            case gcm_encrypt P (gcm_key c) (gcm_nonce c) length_bytes body of
              None \<Rightarrow> (c, Inl BadTag)
            | Some (ct, tag) \<Rightarrow>
                (c\<lparr>invocation := invocation c + 1\<rparr>, Inr (length_bytes @ ct @ tag)))"

definition gcm_open ::
  "aead_prims \<Rightarrow> gcm_cipher \<Rightarrow> u32 \<Rightarrow> bytes \<Rightarrow> bytes \<Rightarrow> gcm_cipher \<times> (cipher_error, bytes) result" where
  "gcm_open P c seqnr length_bytes body =
     (if length body < TAG_LEN then (c, Inl BadTag)
      else
        let ct_len = length body - TAG_LEN; ciphertext = take ct_len body; tag = drop ct_len body in
        case gcm_decrypt P (gcm_key c) (gcm_nonce c) length_bytes ciphertext tag of
          None \<Rightarrow> (c, Inl BadTag)
        | Some plain \<Rightarrow>
            (c\<lparr>invocation := invocation c + 1\<rparr>, map_err CipherWire (decode_packet_body plain)))"

section \<open>The cipher of one direction\<close>

definition cipher_seal ::
  "aead_prims \<Rightarrow> (nat \<Rightarrow> bytes option) \<Rightarrow> packet_cipher \<Rightarrow> u32 \<Rightarrow> bytes \<Rightarrow>
     packet_cipher \<times> (cipher_error, bytes) result" where
  "cipher_seal P fill s seqnr payload =
     (case s of
        ChaCha c \<Rightarrow> (s, chacha_seal P fill c seqnr payload)
      | Gcm c \<Rightarrow> map_prod Gcm id (gcm_seal P fill c seqnr payload))"

definition cipher_body_len ::
  "aead_prims \<Rightarrow> packet_cipher \<Rightarrow> u32 \<Rightarrow> bytes \<Rightarrow> (cipher_error, nat) result" where
  "cipher_body_len P s seqnr length_bytes =
     (case s of
        ChaCha c \<Rightarrow> chacha_body_len P c seqnr length_bytes
      | Gcm c \<Rightarrow> try_bind (validate_aead_length (u32_from_be_bytes length_bytes) GCM_BLOCK)
                   (\<lambda>len. Inr (len + TAG_LEN)))"

definition cipher_open ::
  "aead_prims \<Rightarrow> packet_cipher \<Rightarrow> u32 \<Rightarrow> bytes \<Rightarrow> bytes \<Rightarrow>
     packet_cipher \<times> (cipher_error, bytes) result" where
  "cipher_open P s seqnr length_bytes body =
     (case s of
        ChaCha c \<Rightarrow> (s, chacha_open P c seqnr length_bytes body)
      | Gcm c \<Rightarrow> map_prod Gcm id (gcm_open P c seqnr length_bytes body))"

section \<open>Lemmas on the building blocks\<close>

lemma length_apply_keystream [simp]: "length (apply_keystream st pos buf) = length buf"
  by (simp add: apply_keystream_def)

lemma apply_keystream_nth:
  "i < length buf \<Longrightarrow> apply_keystream st pos buf ! i = buf ! i XOR st (pos + i)"
  by (simp add: apply_keystream_def)

lemma apply_keystream_invol [simp]:
  "apply_keystream st pos (apply_keystream st pos buf) = buf"
  by (rule nth_equalityI) (simp_all add: apply_keystream_nth xor.assoc)

lemma unat_min_body: "packet_length < 1 + ucast MIN_PADDING \<longleftrightarrow> unat (packet_length :: u32) < 5"
  by (simp add: MIN_PADDING_def word_less_nat_alt)

lemma validate_aead_length_Inr_iff:
  "validate_aead_length v block = Inr k \<longleftrightarrow> k = unat v \<and> 5 \<le> k \<and> k \<le> 35000 \<and> block dvd k"
  unfolding validate_aead_length_def unat_min_body
  by (auto simp: word_less_nat_alt mod_eq_0_iff_dvd)

lemma padded_body_Inr_iff:
  assumes "4 \<le> block" and "block \<le> 16"
  shows "padded_body fill payload block = Inr body \<longleftrightarrow>
     (\<exists>pad. let padding = choose_padding block (1 + length payload) in
        1 + length payload + padding \<le> 35000 \<and> fill padding = Some pad \<and>
        body = word_of_nat padding # payload @ pad)"
  using choose_padding_props(3)[OF assms(1), of "1 + length payload"] assms(2)
  by (auto simp: padded_body_def Let_def split: option.splits if_splits)

lemma padded_body_decodes:
  assumes "fills fill" and "padded_body fill payload block = Inr body" and "4 \<le> block" and "block \<le> 16"
  shows "decode_packet_body body = Inr payload" and "block dvd length body"
    and "5 \<le> length body" and "length body \<le> 35000"
proof -
  let ?p = "choose_padding block (1 + length payload)"
  note c = choose_padding_props[OF assms(3), of "1 + length payload"]
  obtain pad where le: "1 + length payload + ?p \<le> 35000" and pad: "fill ?p = Some pad"
    and body: "body = word_of_nat ?p # payload @ pad"
    using assms(2) unfolding padded_body_Inr_iff[OF assms(3,4)] Let_def by blast
  have len: "length pad = ?p" using pad assms(1) by (auto simp: fills_def)
  have up: "unat (word_of_nat ?p :: u8) = ?p"
    using c(3) assms(4) by (simp add: unat_of_nat)
  show "decode_packet_body body = Inr payload"
    using c(2) up len by (simp add: decode_packet_body_def body MIN_PADDING_def word_less_nat_alt)
  have lb: "length body = 1 + length payload + ?p" by (simp add: body len)
  show "block dvd length body" unfolding lb by (rule c(1))
  show "5 \<le> length body" using c(2) unfolding lb by linarith
  show "length body \<le> 35000" using le unfolding lb .
qed

lemma block_bounds [simp]: "4 \<le> CHACHA_BLOCK" "CHACHA_BLOCK \<le> 16" "4 \<le> GCM_BLOCK" "GCM_BLOCK \<le> 16"
  by (simp_all add: CHACHA_BLOCK_def GCM_BLOCK_def)

lemma aead_length_ok:
  assumes "block dvd n" and "5 \<le> n" and "n \<le> 35000"
  shows "validate_aead_length (word_of_nat n) block = Inr n"
  using assms by (simp add: validate_aead_length_Inr_iff unat_of_nat)

lemmas cipher_names_defs = CHACHA20_POLY1305_def AES256_GCM_def

lemma cipher_names_differ:
  "ascii ''aes256-gcm@openssh.com'' \<noteq> ascii ''chacha20-poly1305@openssh.com''"
  by (rule notI, drule arg_cong[where f = length]) simp

section \<open>The packet channel interface\<close>

text \<open>
  What the transport relies on in a cipher: a sealed packet splits into four length bytes and a
  body, the receiver learns the body's length from the former, opens the latter to the payload,
  and stays in step with the sender. \<open>seal_stream\<close> and \<open>open_stream\<close> are a sender and a receiver
  that number their packets consecutively from the same sequence number.
\<close>

fun seal_stream ::
  "((nat \<Rightarrow> bytes option) \<Rightarrow> 's \<Rightarrow> u32 \<Rightarrow> bytes \<Rightarrow> 's \<times> (cipher_error, bytes) result) \<Rightarrow>
     's \<Rightarrow> u32 \<Rightarrow> ((nat \<Rightarrow> bytes option) \<times> bytes) list \<Rightarrow> ('s \<times> bytes) option" where
  "seal_stream seal s n [] = Some (s, [])"
| "seal_stream seal s n ((fill, p) # ps) =
     (case seal fill s n p of
        (_, Inl _) \<Rightarrow> None
      | (s', Inr pkt) \<Rightarrow> map_option (\<lambda>(s'', w). (s'', pkt @ w)) (seal_stream seal s' (n + 1) ps))"

fun open_stream ::
  "('s \<Rightarrow> u32 \<Rightarrow> bytes \<Rightarrow> (cipher_error, nat) result) \<Rightarrow>
   ('s \<Rightarrow> u32 \<Rightarrow> bytes \<Rightarrow> bytes \<Rightarrow> 's \<times> (cipher_error, bytes) result) \<Rightarrow>
     's \<Rightarrow> u32 \<Rightarrow> nat \<Rightarrow> bytes \<Rightarrow> ('s \<times> bytes list \<times> bytes) option" where
  "open_stream blen opn s n 0 inp = Some (s, [], inp)"
| "open_stream blen opn s n (Suc k) inp =
     (if length inp < 4 then None
      else case blen s n (take 4 inp) of
        Inl _ \<Rightarrow> None
      | Inr m \<Rightarrow>
          if length (drop 4 inp) < m then None
          else case opn s n (take 4 inp) (take m (drop 4 inp)) of
            (_, Inl _) \<Rightarrow> None
          | (s', Inr p) \<Rightarrow> map_option (\<lambda>(s'', ps, r). (s'', p # ps, r))
              (open_stream blen opn s' (n + 1) k (drop m (drop 4 inp))))"

locale packet_channel =
  fixes seal :: "(nat \<Rightarrow> bytes option) \<Rightarrow> 's \<Rightarrow> u32 \<Rightarrow> bytes \<Rightarrow> 's \<times> (cipher_error, bytes) result"
    and blen :: "'s \<Rightarrow> u32 \<Rightarrow> bytes \<Rightarrow> (cipher_error, nat) result"
    and opn :: "'s \<Rightarrow> u32 \<Rightarrow> bytes \<Rightarrow> bytes \<Rightarrow> 's \<times> (cipher_error, bytes) result"
    and sync :: "'s \<Rightarrow> 's \<Rightarrow> bool"
  assumes seal_open: "sync s r \<Longrightarrow> fills fill \<Longrightarrow> seal fill s n p = (s', Inr pkt) \<Longrightarrow>
    \<exists>lb body r'. pkt = lb @ body \<and> length lb = 4 \<and> blen r n lb = Inr (length body) \<and>
      opn r n lb body = (r', Inr p) \<and> sync s' r'"
begin

lemma stream_roundtrip:
  assumes "sync s r" and "\<forall>fp\<in>set ps. fills (fst fp)" and "seal_stream seal s n ps = Some (s', w)"
  shows "\<exists>r'. open_stream blen opn r n (length ps) (w @ rest) = Some (r', map snd ps, rest) \<and> sync s' r'"
  using assms
proof (induction ps arbitrary: s r n w)
  case Nil
  then show ?case by simp
next
  case (Cons fp ps)
  obtain fill p where fp: "fp = (fill, p)" by (cases fp)
  then obtain s1 pkt w1 where seal: "seal fill s n p = (s1, Inr pkt)"
    and tl: "seal_stream seal s1 (n + 1) ps = Some (s', w1)" and w: "w = pkt @ w1"
    using Cons.prems(3) by (auto split: prod.splits sum.splits)
  obtain lb body r1 where o: "pkt = lb @ body" "length lb = 4" "blen r n lb = Inr (length body)"
    "opn r n lb body = (r1, Inr p)" "sync s1 r1"
    using seal_open[OF Cons.prems(1) _ seal] Cons.prems(2) fp by auto
  obtain r' where "open_stream blen opn r1 (n + 1) (length ps) (w1 @ rest) = Some (r', map snd ps, rest)"
    and "sync s' r'"
    using Cons.IH[OF o(5) _ tl] Cons.prems(2) by auto
  then show ?case by (simp add: fp w o)
qed

end

lemma chacha_seal_open:
  assumes "aead_ok P" and "fills fill" and "chacha_seal P fill c n p = Inr pkt"
  shows "\<exists>lb body. pkt = lb @ body \<and> length lb = 4 \<and>
    chacha_body_len P c n lb = Inr (length body) \<and> chacha_open P c n lb body = Inr p"
proof -
  let ?h = "chacha_stream P (k_header c) (seq_nonce n)"
  let ?m = "chacha_stream P (k_main c) (seq_nonce n)"
  obtain body where b: "padded_body fill p CHACHA_BLOCK = Inr body"
    using assms(3) by (auto simp: chacha_seal_def Let_def try_bind_Inr_iff)
  note d = padded_body_decodes[OF assms(2) b block_bounds(1,2)]
  let ?lb = "apply_keystream ?h 0 (u32_to_be_bytes (word_of_nat (length body)))"
  let ?ct = "apply_keystream ?m 64 body"
  let ?tag = "finalize_openssh_poly P (poly_key P c (seq_nonce n)) ?lb ?ct"
  have tag: "length ?tag = 16" using assms(1) by (simp add: aead_ok_def finalize_openssh_poly_def)
  have "pkt = ?lb @ (?ct @ ?tag)"
    using assms(3) b d(4) by (simp add: chacha_seal_def Let_def)
  moreover have "chacha_body_len P c n ?lb = Inr (length (?ct @ ?tag))"
    using aead_length_ok[OF d(2-4)] tag by (simp add: chacha_body_len_def TAG_LEN_def)
  moreover have "chacha_open P c n ?lb (?ct @ ?tag) = Inr p"
    using tag d(1) by (simp add: chacha_open_def TAG_LEN_def)
  ultimately show ?thesis by (intro exI[of _ ?lb] exI[of _ "?ct @ ?tag"]) simp
qed

lemma gcm_seal_Inr:
  assumes "gcm_seal P fill c n p = (c', Inr pkt)"
  shows "\<exists>body ct tag. padded_body fill p GCM_BLOCK = Inr body \<and>
    gcm_encrypt P (gcm_key c) (gcm_nonce c) (u32_to_be_bytes (word_of_nat (length body))) body = Some (ct, tag) \<and>
    pkt = u32_to_be_bytes (word_of_nat (length body)) @ ct @ tag \<and>
    c' = c\<lparr>invocation := invocation c + 1\<rparr>"
  using assms unfolding gcm_seal_def Let_def by (auto split: sum.splits if_splits option.splits)

lemma gcm_seal_open:
  assumes "aead_ok P" and "fills fill" and "gcm_seal P fill c n p = (c', Inr pkt)"
  shows "\<exists>lb body. pkt = lb @ body \<and> length lb = 4 \<and>
    cipher_body_len P (Gcm c) n lb = Inr (length body) \<and> gcm_open P c n lb body = (c', Inr p)"
proof -
  obtain body ct tag where b: "padded_body fill p GCM_BLOCK = Inr body"
    and enc: "gcm_encrypt P (gcm_key c) (gcm_nonce c) (u32_to_be_bytes (word_of_nat (length body))) body = Some (ct, tag)"
    and pkt: "pkt = u32_to_be_bytes (word_of_nat (length body)) @ ct @ tag"
    and c': "c' = c\<lparr>invocation := invocation c + 1\<rparr>"
    using gcm_seal_Inr[OF assms(3)] by blast
  note d = padded_body_decodes[OF assms(2) b block_bounds(3,4)]
  have t: "length ct = length body" "length tag = 16"
    "gcm_decrypt P (gcm_key c) (gcm_nonce c) (u32_to_be_bytes (word_of_nat (length body))) ct tag = Some body"
    using assms(1) enc by (auto simp: aead_ok_def)
  have "cipher_body_len P (Gcm c) n (u32_to_be_bytes (word_of_nat (length body))) = Inr (length (ct @ tag))"
    using aead_length_ok[OF d(2-4)] t by (simp add: cipher_body_len_def TAG_LEN_def)
  moreover have "gcm_open P c n (u32_to_be_bytes (word_of_nat (length body))) (ct @ tag) = (c', Inr p)"
    using t d(1) by (simp add: gcm_open_def TAG_LEN_def c')
  ultimately show ?thesis using pkt by (intro exI conjI) (assumption | simp)+
qed

interpretation aead_channel: packet_channel "cipher_seal P" "cipher_body_len P" "cipher_open P"
    "\<lambda>s r. s = r \<and> aead_ok P" for P
proof unfold_locales
  fix s r fill n p s' pkt
  assume sync: "s = r \<and> aead_ok P" and f: "fills fill" and seal: "cipher_seal P fill s n p = (s', Inr pkt)"
  show "\<exists>lb body r'. pkt = lb @ body \<and> length lb = 4 \<and> cipher_body_len P r n lb = Inr (length body) \<and>
      cipher_open P r n lb body = (r', Inr p) \<and> s' = r' \<and> aead_ok P"
  proof (cases s)
    case (ChaCha c)
    then have s': "s' = ChaCha c" and "chacha_seal P fill c n p = Inr pkt"
      using seal by (auto simp: cipher_seal_def)
    then obtain lb body where "pkt = lb @ body" "length lb = 4"
      "chacha_body_len P c n lb = Inr (length body)" "chacha_open P c n lb body = Inr p"
      using chacha_seal_open[of P fill c n p pkt] sync f by blast
    then show ?thesis
      using conjunct2[OF sync] conjunct1[OF sync, symmetric] s'
      by (rule_tac x = lb in exI, rule_tac x = body in exI, rule_tac x = s in exI)
        (simp add: ChaCha cipher_body_len_def cipher_open_def)
  next
    case (Gcm c)
    then obtain c' where "gcm_seal P fill c n p = (c', Inr pkt)" and "s' = Gcm c'"
      using seal by (cases "gcm_seal P fill c n p") (auto simp: cipher_seal_def)
    moreover obtain lb body where "pkt = lb @ body" "length lb = 4"
      "cipher_body_len P (Gcm c) n lb = Inr (length body)" "gcm_open P c n lb body = (c', Inr p)"
      using gcm_seal_open[of P fill c n p c' pkt] sync f calculation by blast
    ultimately show ?thesis
      using conjunct2[OF sync] conjunct1[OF sync, symmetric]
      by (rule_tac x = lb in exI, rule_tac x = body in exI, rule_tac x = s' in exI)
        (simp add: Gcm cipher_open_def)
  qed
qed

section \<open>Properties\<close>

text \<open>
  C26 (roundtrip). Whatever sequence of payloads one side seals under a key, the other side, with
  the same key material and the same first sequence number, reads back from the byte stream: the
  same payloads in the same order, nothing left over, and the two cipher states equal again.
\<close>

theorem cipher_stream_roundtrip:
  assumes "aead_ok P" and "list_all (\<lambda>fp. fills (fst fp)) ps"
    and "seal_stream (cipher_seal P) s n ps = Some (s', w)"
  shows "open_stream (cipher_body_len P) (cipher_open P) s n (length ps) (w @ rest) =
    Some (s', map snd ps, rest)"
  using aead_channel.stream_roundtrip[of s s P ps n s' w rest] assms by (auto simp: list_all_iff)

text \<open>A packet body whose tag verifies under the cipher's key, nonce and length bytes.\<close>

definition authentic :: "aead_prims \<Rightarrow> packet_cipher \<Rightarrow> u32 \<Rightarrow> bytes \<Rightarrow> bytes \<Rightarrow> bool" where
  "authentic P s n lb body \<longleftrightarrow>
     (\<exists>ct tag. body = ct @ tag \<and> length tag = 16 \<and>
        (case s of
           ChaCha c \<Rightarrow> tag = poly1305 P (poly_key P c (seq_nonce n)) (lb @ ct)
         | Gcm c \<Rightarrow> gcm_decrypt P (gcm_key c) (gcm_nonce c) lb ct tag \<noteq> None))"

lemma authentic_split:
  "authentic P s n lb body \<longleftrightarrow> 16 \<le> length body \<and>
     (let ct = take (length body - 16) body; tag = drop (length body - 16) body in
        case s of
           ChaCha c \<Rightarrow> tag = poly1305 P (poly_key P c (seq_nonce n)) (lb @ ct)
         | Gcm c \<Rightarrow> gcm_decrypt P (gcm_key c) (gcm_nonce c) lb ct tag \<noteq> None)"
  (is "_ \<longleftrightarrow> _ \<and> ?rest")
proof
  assume "authentic P s n lb body"
  then show "16 \<le> length body \<and> ?rest"
    by (cases s) (auto simp: authentic_def Let_def)
next
  assume *: "16 \<le> length body \<and> ?rest"
  then have "body = take (length body - 16) body @ drop (length body - 16) body \<and>
      length (drop (length body - 16) body) = 16"
    by simp
  with * show "authentic P s n lb body" unfolding authentic_def Let_def by blast
qed

text \<open>
  C25 (safety). A packet that does not authenticate is refused as \<^verbatim>\<open>BadTag\<close> and leaves the cipher
  exactly as it was; one that authenticates is never refused as \<^verbatim>\<open>BadTag\<close>. The ChaCha20 tag
  covers the encrypted length as well as the body.
\<close>

theorem open_fails_closed:
  "if authentic P s n lb body then snd (cipher_open P s n lb body) \<noteq> Inl BadTag
   else cipher_open P s n lb body = (s, Inl BadTag)"
proof -
  have [simp]: "map_err CipherWire m \<noteq> Inl BadTag" for m :: "(wire_error, bytes) result"
    by (cases m) simp_all
  show ?thesis
    by (cases s) (auto simp: authentic_split cipher_open_def chacha_open_def gcm_open_def Let_def
        TAG_LEN_def finalize_openssh_poly_def split: option.splits)
qed

text \<open>
  The body length that four length bytes announce is known to be between 24 and
  35016 bytes, a multiple of 8, before anything is allocated or read, whatever the bytes are.
\<close>

lemma body_len_bounds:
  assumes "cipher_body_len P s n lb = Inr k"
  shows "24 \<le> k \<and> k \<le> 35016 \<and> 8 dvd k"
proof -
  obtain m where m: "k = m + 16" "5 \<le> m" "m \<le> 35000" "8 dvd m"
    using assms
    by (cases s) (auto simp: cipher_body_len_def chacha_body_len_def Let_def try_bind_Inr_iff
        validate_aead_length_Inr_iff TAG_LEN_def CHACHA_BLOCK_def GCM_BLOCK_def
        dest: dvd_trans[of 8 16])
  then have "8 \<le> m" by (intro dvd_imp_le) simp_all
  then show ?thesis using m by simp
qed

section \<open>Counters and nonces\<close>

fun cipher_advance :: "nat \<Rightarrow> packet_cipher \<Rightarrow> packet_cipher" where
  "cipher_advance k (ChaCha c) = ChaCha c"
| "cipher_advance k (Gcm c) = Gcm (c\<lparr>invocation := invocation c + word_of_nat k\<rparr>)"

lemma cipher_seal_state:
  assumes "cipher_seal P fill s n p = (s', Inr pkt)"
  shows "s' = cipher_advance 1 s"
proof (cases s)
  case (ChaCha c)
  then show ?thesis using assms by (auto simp: cipher_seal_def)
next
  case (Gcm c)
  then obtain c' where "gcm_seal P fill c n p = (c', Inr pkt)" and "s' = Gcm c'"
    using assms by (cases "gcm_seal P fill c n p") (auto simp: cipher_seal_def)
  then show ?thesis using gcm_seal_Inr[of P fill c n p c' pkt] Gcm by auto
qed

lemma cipher_advance_add: "cipher_advance i (cipher_advance j s) = cipher_advance (j + i) s"
  by (cases s) (simp_all add: add.assoc)

lemma cipher_advance_0 [simp]: "cipher_advance 0 s = s"
  by (cases s) simp_all

lemma seal_stream_state:
  assumes "seal_stream (cipher_seal P) s n ps = Some (s', w)"
  shows "s' = cipher_advance (length ps) s"
  using assms
proof (induction ps arbitrary: s n w)
  case Nil
  then show ?case by simp
next
  case (Cons fp ps)
  obtain fill p where fp: "fp = (fill, p)" by (cases fp)
  then obtain s1 pkt w1 where "cipher_seal P fill s n p = (s1, Inr pkt)"
    and "seal_stream (cipher_seal P) s1 (n + 1) ps = Some (s', w1)"
    using Cons.prems by (auto split: prod.splits sum.splits)
  then have "s' = cipher_advance (length ps) (cipher_advance 1 s)"
    using Cons.IH cipher_seal_state by blast
  then show ?case by (simp only: cipher_advance_add) simp
qed

definition cipher_nonce :: "packet_cipher \<Rightarrow> u32 \<Rightarrow> bytes" where
  "cipher_nonce s n = (case s of ChaCha c \<Rightarrow> seq_nonce n | Gcm c \<Rightarrow> gcm_nonce c)"

lemma u64_to_be_bytes_inject: "u64_to_be_bytes a = u64_to_be_bytes b \<longleftrightarrow> a = b"
  by (metis u64_from_to_be_bytes)

lemma word_of_nat_small_inject:
  assumes "i < 2 ^ LENGTH('a)" and "j < 2 ^ LENGTH('a)"
  shows "(word_of_nat i :: 'a::len word) = word_of_nat j \<longleftrightarrow> i = j"
  using assms by (simp add: word_of_nat_eq_iff take_bit_nat_eq_self)

lemma nonce_advance_distinct:
  assumes "i < j" and "j < 2 ^ 32"
  shows "cipher_nonce (cipher_advance i s) (word_of_nat i) \<noteq> cipher_nonce (cipher_advance j s) (word_of_nat j)"
proof (cases s)
  case (ChaCha c)
  have "(ucast (word_of_nat i :: u32) :: u64) \<noteq> ucast (word_of_nat j :: u32)"
  proof
    assume "(ucast (word_of_nat i :: u32) :: u64) = ucast (word_of_nat j :: u32)"
    then have "unat (ucast (word_of_nat i :: u32) :: u64) = unat (ucast (word_of_nat j :: u32) :: u64)"
      by (rule arg_cong)
    then show False using assms unfolding unat_ucast_u32_u64 by (simp add: unat_of_nat)
  qed
  then show ?thesis
    by (simp add: ChaCha cipher_nonce_def seq_nonce_def u64_to_be_bytes_inject)
next
  case (Gcm c)
  have "(word_of_nat i :: u64) \<noteq> word_of_nat j"
    using assms by (subst word_of_nat_small_inject) simp_all
  then show ?thesis
    by (simp add: Gcm cipher_nonce_def gcm_nonce_def u64_to_be_bytes_inject)
qed


section \<open>What can be sealed\<close>

lemma choose_padding_fits:
  assumes "4 \<le> block" and "block dvd N"
  shows "1 + len + choose_padding block (1 + len) \<le> N \<longleftrightarrow> len + 5 \<le> N"
proof
  assume "1 + len + choose_padding block (1 + len) \<le> N"
  then show "len + 5 \<le> N" using choose_padding_props(2)[OF assms(1), of "1 + len"] by linarith
next
  assume "len + 5 \<le> N"
  then have "4 \<le> N - (1 + len) \<and> block dvd 1 + len + (N - (1 + len))" using assms(2) by simp
  then have "choose_padding block (1 + len) \<le> N - (1 + len)"
    using choose_padding_props(4)[OF assms(1)] by blast
  then show "1 + len + choose_padding block (1 + len) \<le> N" using \<open>len + 5 \<le> N\<close> by linarith
qed

lemma padded_body_accepts:
  assumes "\<forall>n. fill n \<noteq> None" and "4 \<le> block" and "block \<le> 16" and "block dvd N"
    and "N \<le> 35000" and "35000 < N + block"
  shows "(\<exists>body. padded_body fill p block = Inr body) \<longleftrightarrow> length p + 5 \<le> N"
proof -
  let ?l = "1 + length p + choose_padding block (1 + length p)"
  have "?l \<le> 35000 \<longleftrightarrow> ?l \<le> N"
  proof
    assume "?l \<le> 35000"
    show "?l \<le> N"
    proof (rule ccontr)
      assume "\<not> ?l \<le> N"
      moreover have "block dvd ?l" by (rule choose_padding_props(1)[OF assms(2)])
      ultimately have "block \<le> ?l - N" using assms(4) by (intro dvd_imp_le dvd_diff_nat) simp_all
      then show False using \<open>\<not> ?l \<le> N\<close> \<open>?l \<le> 35000\<close> assms(6) by linarith
    qed
  qed (use assms(5) in linarith)
  moreover have "(\<exists>body. padded_body fill p block = Inr body) \<longleftrightarrow> ?l \<le> 35000"
    unfolding padded_body_Inr_iff[OF assms(2,3)] Let_def using assms(1) by auto
  ultimately show ?thesis using choose_padding_fits[OF assms(2,4), of "length p"] by blast
qed

lemma padded_body_len: "padded_body fill p block = Inr body \<Longrightarrow> fills fill \<Longrightarrow> length body \<le> 35000"
  by (auto simp: padded_body_def Let_def fills_def split: if_splits option.splits)

lemma seal_accepts_iff:
  assumes "fills fill" and "\<forall>n. fill n \<noteq> None" and "\<forall>k n a p. gcm_encrypt P k n a p \<noteq> None"
  shows "(\<exists>pkt. snd (cipher_seal P fill s n p) = Inr pkt) \<longleftrightarrow>
    length p \<le> (case s of ChaCha c \<Rightarrow> 34995 | Gcm c \<Rightarrow> 34987)"
proof (cases s)
  case (ChaCha c)
  have "(\<exists>pkt. snd (cipher_seal P fill s n p) = Inr pkt) \<longleftrightarrow>
      (\<exists>body. padded_body fill p CHACHA_BLOCK = Inr body)"
    using padded_body_len[OF _ assms(1), of p CHACHA_BLOCK]
    by (fastforce simp: ChaCha cipher_seal_def chacha_seal_def Let_def try_bind_Inr_iff)
  also have "\<dots> \<longleftrightarrow> length p + 5 \<le> 35000"
    by (rule padded_body_accepts[OF assms(2)]) (simp_all add: CHACHA_BLOCK_def)
  finally show ?thesis by (simp add: ChaCha)
next
  case (Gcm c)
  have "(\<exists>pkt. snd (cipher_seal P fill s n p) = Inr pkt) \<longleftrightarrow>
      (\<exists>body. padded_body fill p GCM_BLOCK = Inr body)"
    using padded_body_len[OF _ assms(1), of p GCM_BLOCK] assms(3)
    by (fastforce simp: Gcm cipher_seal_def gcm_seal_def Let_def split: sum.splits option.splits)
  also have "\<dots> \<longleftrightarrow> length p + 5 \<le> 34992"
    by (rule padded_body_accepts[OF assms(2)]) (simp_all add: GCM_BLOCK_def)
  finally show ?thesis by (simp add: Gcm)
qed

text \<open>
  With a working random source and AES implementation, sealing succeeds exactly on
  payloads of at most 34995 bytes under ChaCha20 and 34987 under AES-GCM, whose 16-byte block does
  not divide the 35000-byte cap.
\<close>

lemma seal_accepts:
  assumes "fills fill" and "\<forall>n. fill n \<noteq> None" and "\<forall>k n a p. gcm_encrypt P k n a p \<noteq> None"
  shows "(\<exists>pkt. snd (cipher_seal P fill s n p) = Inr pkt) \<longleftrightarrow>
    length p \<le> (case s of ChaCha c \<Rightarrow> 34995 | Gcm c \<Rightarrow> 34987)"
  by (rule seal_accepts_iff[OF assms])

section \<open>Witnesses\<close>

text \<open>Stand-ins for the primitives that satisfy \<open>aead_ok\<close>, and a random source of zeros.\<close>

definition toy_prims :: aead_prims where
  "toy_prims = \<lparr>chacha_stream = \<lambda>k n i. word_of_nat (length k + i),
     poly1305 = \<lambda>k m. replicate 16 (foldr (+) m 0),
     gcm_encrypt = \<lambda>k n a p. Some (p, replicate 16 (foldr (+) (n @ p) 0)),
     gcm_decrypt = \<lambda>k n a c t. if t = replicate 16 (foldr (+) (n @ c) 0) then Some c else None\<rparr>"

definition zeros :: "nat \<Rightarrow> bytes option" where
  "zeros n = Some (replicate n 0)"

lemma toy_ok [simp]: "aead_ok toy_prims" "fills zeros" "zeros n \<noteq> None"
  by (auto simp: aead_ok_def toy_prims_def fills_def zeros_def)

definition toy_gcm :: packet_cipher where
  "toy_gcm = Gcm (gcm_new (replicate 32 1) (replicate 12 2))"

definition toy_chacha :: packet_cipher where
  "toy_chacha = ChaCha (chacha_new (replicate 64 1))"

lemma toy_padded: "padded_body zeros [21] GCM_BLOCK = Inr ([14, 21] @ replicate 14 0)"
  by (simp add: padded_body_def GCM_BLOCK_def choose_padding_eq zeros_def Let_def)

lemma toy_stream:
  "\<exists>s' w. seal_stream (cipher_seal toy_prims) toy_gcm 0 [(zeros, [21])] = Some (s', w)"
  by (simp add: toy_gcm_def cipher_seal_def gcm_seal_def toy_padded toy_prims_def)

theorem cipher_stream_roundtrip_witness:
  "\<exists>s' w. open_stream (cipher_body_len toy_prims) (cipher_open toy_prims) toy_gcm 0
     (length [(zeros, [21 :: u8])]) (w @ [9]) = Some (s', map snd [(zeros, [21])], [9])"
proof -
  obtain s' w where "seal_stream (cipher_seal toy_prims) toy_gcm 0 [(zeros, [21])] = Some (s', w)"
    using toy_stream by blast
  then have "open_stream (cipher_body_len toy_prims) (cipher_open toy_prims) toy_gcm 0
     (length [(zeros, [21 :: u8])]) (w @ [9]) = Some (s', map snd [(zeros, [21])], [9])"
    by (intro cipher_stream_roundtrip) simp_all
  then show ?thesis by blast
qed

theorem body_len_bounds_witness: "24 \<le> (32 :: nat) \<and> (32 :: nat) \<le> 35016 \<and> 8 dvd (32 :: nat)"
  by (rule body_len_bounds[of toy_prims toy_gcm 0 "[0, 0, 0, 16]"])
    (simp add: toy_gcm_def cipher_body_len_def validate_aead_length_def u32_from_be_bytes_def
      MAX_PACKET_def MIN_PADDING_def GCM_BLOCK_def TAG_LEN_def)


theorem seal_accepts_witness:
  "(\<exists>pkt. snd (cipher_seal toy_prims zeros toy_chacha 0 [21]) = Inr pkt) \<and>
   \<not> (\<exists>pkt. snd (cipher_seal toy_prims zeros toy_gcm 0 (replicate 34988 0)) = Inr pkt)"
proof -
  have gcm: "\<forall>k n a p. gcm_encrypt toy_prims k n a p \<noteq> None" by (simp add: toy_prims_def)
  have "\<forall>n. zeros n \<noteq> None" by simp
  note * = seal_accepts[OF toy_ok(2) this gcm]
  show ?thesis
    unfolding * toy_chacha_def toy_gcm_def packet_cipher.case length_replicate by simp
qed

end
