(* ===== verification/KeyFile.thy ===== *)
theory KeyFile
  imports HostKey
begin

text \<open>
  The \<^verbatim>\<open>authorized_keys\<close>-format files of \<^verbatim>\<open>crates/quantumssh-core/src/auth.rs\<close>: the shared line
  rules (\<^verbatim>\<open>parse_key_lines\<close>), \<^verbatim>\<open>authorized_keys\<close> itself and its lookup. The formatted reasons of
  \<^verbatim>\<open>AuthError::MalformedLine\<close> are the values of \<open>line_reason\<close>. Reading the file is the caller's;
  its text is the argument.
\<close>

definition KEY_ALGORITHM :: bytes where "KEY_ALGORITHM = ascii ''ssh-ed25519''"
definition USER_NAME_BOUND :: nat where "USER_NAME_BOUND = 256"
definition SERVICE_NAME_BOUND :: nat where "SERVICE_NAME_BOUND = 64"
definition METHOD_NAME_BOUND :: nat where "METHOD_NAME_BOUND = 32"
definition KEY_ALGO_BOUND :: nat where "KEY_ALGO_BOUND = 64"
definition KEY_BLOB_BOUND :: nat where "KEY_BLOB_BOUND = 1024"
definition SIGNATURE_BOUND :: nat where "SIGNATURE_BOUND = 256"

datatype line_reason =
    NoKeyType
  | MissingBase64
  | InvalidBase64
  | BlobTruncated
  | BlobAlgorithm bytes
  | MissingKeyBytes
  | TrailingData wire_error
  | KeyLength nat
  | InvalidKeyBytes
  | WeakKey
  | InvalidCaKey

datatype auth_error =
    AuthIo
  | MalformedLine nat line_reason
  | UnsupportedKeyType nat bytes bytes \<comment> \<open>line, found, expected\<close>
  | KeyOptions nat
  | EmptyKeyFile

record 'k key_line =
  kl_blob :: bytes
  kl_fingerprint :: bytes
  kl_key :: 'k

definition looks_like_key_type :: "bytes \<Rightarrow> bool" where
  "looks_like_key_type field \<longleftrightarrow>
     starts_with (ascii ''ssh-'') field \<or> starts_with (ascii ''ecdsa-'') field \<or>
     starts_with (ascii ''sk-'') field"

text \<open>The wire blob of a key line: \<open>string(algorithm)\<close>, \<open>string(key)\<close>, and nothing after.\<close>

definition read_key_blob :: "nat \<Rightarrow> bytes \<Rightarrow> nat \<Rightarrow> (auth_error, bytes) reader" where
  "read_key_blob line_no algorithm key_bound =
     rd_bind (rd_map_err (\<lambda>_. MalformedLine line_no BlobTruncated) (reader_string KEY_ALGO_BOUND))
       (\<lambda>parsed_algo.
     if parsed_algo \<noteq> algorithm then rd_fail (MalformedLine line_no (BlobAlgorithm parsed_algo))
     else
       rd_bind (rd_map_err (\<lambda>_. MalformedLine line_no MissingKeyBytes) (reader_string key_bound))
         (\<lambda>key_bytes.
       rd_bind (rd_map_err (\<lambda>e. MalformedLine line_no (TrailingData e)) reader_finish) (\<lambda>_.
       rd_return key_bytes)))"

text \<open>The body of the line loop: \<open>None\<close> for a line that is skipped.\<close>

definition parse_key_line ::
  "sig_prims \<Rightarrow> bytes \<Rightarrow> nat \<Rightarrow> (nat \<Rightarrow> bytes \<Rightarrow> (auth_error, 'k) result) \<Rightarrow> nat \<Rightarrow> bytes \<Rightarrow>
     (auth_error, 'k key_line option) result" where
  "parse_key_line P algorithm key_bound prs line_no raw_line =
     (let trimmed = str_trim raw_line in
      if trimmed = [] \<or> starts_with [0x23] trimmed then Inr None
      else
        let tokens = str_split_whitespace trimmed;
            first = (case tokens of [] \<Rightarrow> [] | x # _ \<Rightarrow> x) in
        if \<not> looks_like_key_type first then Inl (KeyOptions line_no)
        else case tokens of
          [] \<Rightarrow> Inl (MalformedLine line_no NoKeyType)
        | algo # tokens' \<Rightarrow>
            if algo \<noteq> algorithm then Inl (UnsupportedKeyType line_no algo algorithm)
            else case tokens' of
              [] \<Rightarrow> Inl (MalformedLine line_no MissingBase64)
            | b64 # _ \<Rightarrow>
                try_bind (ok_or (MalformedLine line_no InvalidBase64) (base64_decode b64)) (\<lambda>blob.
                try_bind (read_key_blob line_no algorithm key_bound blob) (\<lambda>(key_bytes, _).
                try_bind (prs line_no key_bytes) (\<lambda>key.
                Inr (Some \<lparr>kl_blob = blob, kl_fingerprint = fingerprint_sha256 P blob, kl_key = key\<rparr>)))))"

fun parse_lines ::
  "(nat \<Rightarrow> bytes \<Rightarrow> (auth_error, 'k key_line option) result) \<Rightarrow> nat \<Rightarrow> bytes list \<Rightarrow>
     (auth_error, 'k key_line list) result" where
  "parse_lines body line_no [] = Inr []"
| "parse_lines body line_no (raw_line # ls) =
     try_bind (body line_no raw_line) (\<lambda>k.
     try_bind (parse_lines body (line_no + 1) ls) (\<lambda>ks.
     Inr (case k of None \<Rightarrow> ks | Some l \<Rightarrow> l # ks)))"

definition parse_key_lines ::
  "sig_prims \<Rightarrow> bytes \<Rightarrow> bytes \<Rightarrow> nat \<Rightarrow> (nat \<Rightarrow> bytes \<Rightarrow> (auth_error, 'k) result) \<Rightarrow>
     (auth_error, 'k key_line list) result" where
  "parse_key_lines P content algorithm key_bound prs =
     try_bind (parse_lines (parse_key_line P algorithm key_bound prs) 1 (str_lines content)) (\<lambda>keys.
     if keys = [] then Inl EmptyKeyFile else Inr keys)"

text \<open>The key check of \<^verbatim>\<open>authorized_keys\<close>: 32 bytes, a curve point, not of small order.\<close>

definition parse_ed25519 :: "sig_prims \<Rightarrow> nat \<Rightarrow> bytes \<Rightarrow> (auth_error, bytes) result" where
  "parse_ed25519 P line_no key_bytes =
     (if length key_bytes \<noteq> 32 then Inl (MalformedLine line_no (KeyLength (length key_bytes)))
      else if \<not> ed_point P key_bytes then Inl (MalformedLine line_no InvalidKeyBytes)
      else if ed_weak P key_bytes then Inl (MalformedLine line_no WeakKey)
      else Inr key_bytes)"

definition parse_key_file :: "sig_prims \<Rightarrow> bytes \<Rightarrow> (auth_error, bytes key_line list) result" where
  "parse_key_file P content = parse_key_lines P content KEY_ALGORITHM 64 (parse_ed25519 P)"

definition lookup_key :: "bytes key_line list \<Rightarrow> bytes \<Rightarrow> bytes key_line option" where
  "lookup_key keys key_blob = find (\<lambda>k. kl_blob k = key_blob) keys"

text \<open>\<^verbatim>\<open>TrustedUserCaKeys::parse\<close> of \<^verbatim>\<open>cert.rs\<close>: the same rules for composite CA keys.\<close>

definition parse_ca_key :: "sig_prims \<Rightarrow> nat \<Rightarrow> bytes \<Rightarrow> (auth_error, verifying_key) result" where
  "parse_ca_key P line_no key_bytes =
     ok_or (MalformedLine line_no InvalidCaKey) (verifying_key_from_bytes P key_bytes)"

definition parse_ca_file :: "sig_prims \<Rightarrow> bytes \<Rightarrow> (auth_error, verifying_key key_line list) result" where
  "parse_ca_file P content = parse_key_lines P content ALGORITHM PUBLIC_LEN (parse_ca_key P)"

section \<open>Properties\<close>

text \<open>A line that holds a key: neither empty nor a comment once trimmed.\<close>

definition key_bearing :: "bytes \<Rightarrow> bool" where
  "key_bearing raw_line \<longleftrightarrow>
     (let trimmed = str_trim raw_line in \<not> (trimmed = [] \<or> starts_with [0x23] trimmed))"

lemma read_key_blob_Inr_iff:
  "read_key_blob n algorithm bound blob = Inr (key_bytes, r) \<longleftrightarrow>
     r = [] \<and> blob = ssh_string algorithm @ ssh_string key_bytes \<and>
     length algorithm \<le> KEY_ALGO_BOUND \<and> length key_bytes \<le> bound \<and> length key_bytes \<le> u32_max"
proof -
  have "KEY_ALGO_BOUND \<le> u32_max" by (simp add: KEY_ALGO_BOUND_def)
  then show ?thesis
    by (auto simp: read_key_blob_def rd_bind_Inr_iff string_codec.dec_iff split: if_splits)
qed

text \<open>What a loaded key line is: the first two fields of the line are the algorithm and the base64
  of the blob, the blob is the wire encoding of that algorithm and a key the file accepts.\<close>

definition loaded_from ::
  "sig_prims \<Rightarrow> bytes \<Rightarrow> (nat \<Rightarrow> bytes \<Rightarrow> (auth_error, 'k) result) \<Rightarrow> nat \<Rightarrow> bytes \<Rightarrow> 'k key_line \<Rightarrow> bool" where
  "loaded_from P algorithm prs n raw_line k \<longleftrightarrow>
     (\<exists>b64 rest key_bytes.
        str_split_whitespace (str_trim raw_line) = algorithm # b64 # rest \<and>
        base64_decode b64 = Some (kl_blob k) \<and>
        kl_blob k = ssh_string algorithm @ ssh_string key_bytes \<and>
        prs n key_bytes = Inr (kl_key k) \<and> kl_fingerprint k = fingerprint_sha256 P (kl_blob k))"

lemma parse_key_line_Inr:
  assumes "parse_key_line P algorithm bound prs n raw_line = Inr res"
  shows "if key_bearing raw_line then \<exists>k. res = Some k \<and> loaded_from P algorithm prs n raw_line k
    else res = None"
  using assms
  by (auto simp: parse_key_line_def key_bearing_def loaded_from_def Let_def try_bind_Inr_iff
      read_key_blob_Inr_iff split: if_splits list.splits)

lemma parse_lines_Inr:
  assumes "parse_lines (parse_key_line P algorithm bound prs) n ls = Inr ks"
  shows "\<exists>ns. length ns = length ks \<and> list_all2 (\<lambda>(i, l) k. loaded_from P algorithm prs i l k) ns ks \<and>
    map snd ns = filter key_bearing ls"
  using assms
proof (induction ls arbitrary: n ks)
  case Nil
  then show ?case by simp
next
  case (Cons l ls)
  then obtain o' ks' where o': "parse_key_line P algorithm bound prs n l = Inr o'"
    and ks': "parse_lines (parse_key_line P algorithm bound prs) (n + 1) ls = Inr ks'"
    and ks: "ks = (case o' of None \<Rightarrow> ks' | Some k \<Rightarrow> k # ks')"
    by (auto simp: try_bind_Inr_iff)
  obtain ns where ns: "length ns = length ks'"
    "list_all2 (\<lambda>(i, l) k. loaded_from P algorithm prs i l k) ns ks'" "map snd ns = filter key_bearing ls"
    using Cons.IH[OF ks'] by blast
  show ?case
  proof (cases "key_bearing l")
    case True
    then obtain k where "o' = Some k" "loaded_from P algorithm prs n l k"
      using parse_key_line_Inr[OF o'] by auto
    then show ?thesis using ns ks True by (intro exI[of _ "(n, l) # ns"]) simp
  next
    case False
    then show ?thesis using parse_key_line_Inr[OF o'] ns ks by auto
  qed
qed

lemma parse_key_lines_Inr:
  assumes "parse_key_lines P content algorithm bound prs = Inr keys"
  shows "keys \<noteq> [] \<and> list_all2 (\<lambda>l k. \<exists>n. loaded_from P algorithm prs n l k)
    (filter key_bearing (str_lines content)) keys"
proof -
  have l: "parse_lines (parse_key_line P algorithm bound prs) 1 (str_lines content) = Inr keys"
    and ne: "keys \<noteq> []"
    using assms by (auto simp: parse_key_lines_def try_bind_Inr_iff split: if_splits)
  obtain ns where ns: "list_all2 (\<lambda>(i, l) k. loaded_from P algorithm prs i l k) ns keys"
    "map snd ns = filter key_bearing (str_lines content)"
    using parse_lines_Inr[OF l] by blast
  have "list_all2 (\<lambda>x k. \<exists>n. loaded_from P algorithm prs n (snd x) k) ns keys"
    using ns(1) by (rule list_all2_mono) auto
  then have "list_all2 (\<lambda>l k. \<exists>n. loaded_from P algorithm prs n l k) (map snd ns) keys"
    by (simp add: list_all2_map1)
  then show ?thesis using ne ns(2) by simp
qed

text \<open>An \<^verbatim>\<open>ssh-ed25519\<close> line and the key loaded from it.\<close>

definition ed25519_line :: "sig_prims \<Rightarrow> bytes \<Rightarrow> bytes key_line \<Rightarrow> bool" where
  "ed25519_line P l k \<longleftrightarrow>
     (\<exists>b64 rest. str_split_whitespace (str_trim l) = ascii ''ssh-ed25519'' # b64 # rest \<and>
        base64_decode b64 = Some (kl_blob k)) \<and>
     kl_blob k = ssh_string (ascii ''ssh-ed25519'') @ ssh_string (kl_key k) \<and>
     length (kl_key k) = 32 \<and> ed_point P (kl_key k) \<and> \<not> ed_weak P (kl_key k) \<and>
     kl_fingerprint k = fingerprint_sha256 P (kl_blob k)"

lemma loaded_ed25519: "loaded_from P KEY_ALGORITHM (parse_ed25519 P) n l k \<Longrightarrow> ed25519_line P l k"
  by (auto simp: loaded_from_def ed25519_line_def parse_ed25519_def KEY_ALGORITHM_def split: if_splits)

text \<open>
  C33 (safety). \<^verbatim>\<open>authorized_keys\<close> loads whole or not at all: a successful load has exactly one key
  per key-bearing line, in order, and at least one. Every loaded line starts with the type
  \<^verbatim>\<open>ssh-ed25519\<close> and its blob, so no line with an options field, and no key of another type, of
  the wrong length, off the curve or of small order is ever loaded; a lookup returns only such
  a key, with the very blob asked for.
\<close>

theorem authorized_keys_sound:
  assumes "parse_key_file P content = Inr keys"
  shows "keys \<noteq> [] \<and> list_all2 (ed25519_line P) (filter key_bearing (str_lines content)) keys \<and>
    (\<forall>blob k. lookup_key keys blob = Some k \<longrightarrow>
       kl_blob k = blob \<and> (\<exists>l\<in>set (str_lines content). key_bearing l \<and> ed25519_line P l k))"
proof -
  have ne: "keys \<noteq> []" and all: "list_all2 (ed25519_line P) (filter key_bearing (str_lines content)) keys"
    using parse_key_lines_Inr[OF assms[unfolded parse_key_file_def]]
    by (auto elim!: list_all2_mono dest: loaded_ed25519)
  moreover have "kl_blob k = blob \<and> (\<exists>l\<in>set (str_lines content). key_bearing l \<and> ed25519_line P l k)"
    if "lookup_key keys blob = Some k" for blob k
  proof -
    have k: "k \<in> set keys" "kl_blob k = blob"
      using that by (auto simp: lookup_key_def find_Some_iff)
    then obtain i where i: "i < length keys" "keys ! i = k" by (auto simp: in_set_conv_nth)
    let ?ls = "filter key_bearing (str_lines content)"
    have "ed25519_line P (?ls ! i) k" using list_all2_nthD2[OF all i(1)] i(2) by simp
    moreover have "?ls ! i \<in> set ?ls"
      using i(1) list_all2_lengthD[OF all] by (intro nth_mem) simp
    ultimately show ?thesis using k(2) by auto
  qed
  ultimately show ?thesis by blast
qed

section \<open>Lines that load\<close>

lemma split_two_fields:
  assumes "\<forall>b\<in>set x. is_ascii_graphic b" "x \<noteq> []" "\<forall>b\<in>set y. is_ascii_graphic b" "y \<noteq> []"
  shows "str_split_whitespace (x @ [0x20] @ y) = [x, y]"
proof -
  have "split_ws [] (x @ 0x20 # y @ []) = [x, y]"
    using assms by (subst split_ws_graphic, simp, subst split_ws_space, subst split_ws_graphic, simp)
      (simp add: split_ws_end)
  then show ?thesis by (simp add: str_split_whitespace_def)
qed

lemma trim_fields:
  assumes "is_ascii_graphic a" "is_ascii_graphic b"
  shows "str_trim (a # m @ [b]) = a # m @ [b]"
proof -
  have "ws_len_end ((a # m) @ [b]) = 0" by (rule ws_len_end_graphic[OF assms(2)])
  then have "str_trim_end (a # m @ [b]) = a # m @ [b]" by (subst str_trim_end.simps) simp
  then show ?thesis by (simp add: str_trim_def trim_start_graphic[OF assms(1)])
qed

lemma parse_key_line_loads:
  assumes "\<forall>b\<in>set algorithm. is_ascii_graphic b" and "looks_like_key_type algorithm" and "algorithm \<noteq> []"
    and "hd algorithm \<noteq> 0x23" and "length algorithm \<le> KEY_ALGO_BOUND"
    and "length key_bytes \<le> bound" and "length key_bytes \<le> u32_max" and "prs n key_bytes = Inr key"
  defines "blob \<equiv> ssh_string algorithm @ ssh_string key_bytes"
  shows "parse_key_line P algorithm bound prs n (algorithm @ [0x20] @ base64_encode blob) =
    Inr (Some \<lparr>kl_blob = blob, kl_fingerprint = fingerprint_sha256 P blob, kl_key = key\<rparr>)"
proof -
  let ?b = "base64_encode blob"
  have ne: "?b \<noteq> []"
  proof
    assume "?b = []"
    then have "base64_decode [] = Some blob" using base64_roundtrip by metis
    moreover have "base64_decode [] = Some []" by code_simp
    ultimately show False by (simp add: blob_def ssh_string_def be_enc_4 u32_to_be_bytes_def)
  qed
  have g: "\<forall>c\<in>set ?b. is_ascii_graphic c" using encode_graphic by blast
  obtain a al where a: "algorithm = a # al" using assms(3) by (cases algorithm) auto
  have "str_trim (a # (al @ [0x20] @ butlast ?b) @ [last ?b]) = a # (al @ [0x20] @ butlast ?b) @ [last ?b]"
    using assms(1) a g ne by (intro trim_fields) simp_all
  then have trim: "str_trim (algorithm @ [0x20] @ ?b) = algorithm @ [0x20] @ ?b"
    using ne a append_butlast_last_id[OF ne] by simp
  have "str_split_whitespace (algorithm @ [0x20] @ ?b) = [algorithm, ?b]"
    by (rule split_two_fields) (use assms g ne in auto)
  moreover have "read_key_blob n algorithm bound blob = Inr (key_bytes, [])"
    using assms by (simp add: read_key_blob_Inr_iff)
  ultimately show ?thesis
    unfolding parse_key_line_def Let_def trim
    using assms a by (simp add: starts_with_def base64_roundtrip)
qed

lemma str_lines_single: "0x0A \<notin> set l \<Longrightarrow> l \<noteq> [] \<Longrightarrow> str_lines l = [l]"
  by (simp add: str_lines_def split_on_no_sep)

lemma graphic_no_lf: "\<forall>b\<in>set l. is_ascii_graphic b \<Longrightarrow> 0x0A \<notin> set l"
proof -
  have "\<not> is_ascii_graphic 0x0A" by code_simp
  then show "\<forall>b\<in>set l. is_ascii_graphic b \<Longrightarrow> 0x0A \<notin> set l" by blast
qed

lemma parse_key_lines_single:
  assumes "\<forall>b\<in>set algorithm. is_ascii_graphic b" and "looks_like_key_type algorithm" and "algorithm \<noteq> []"
    and "hd algorithm \<noteq> 0x23" and "length algorithm \<le> KEY_ALGO_BOUND"
    and "length key_bytes \<le> bound" and "length key_bytes \<le> u32_max" and "prs 1 key_bytes = Inr key"
  defines "blob \<equiv> ssh_string algorithm @ ssh_string key_bytes"
  shows "parse_key_lines P (algorithm @ [0x20] @ base64_encode blob) algorithm bound prs =
    Inr [\<lparr>kl_blob = blob, kl_fingerprint = fingerprint_sha256 P blob, kl_key = key\<rparr>]"
proof -
  let ?l = "algorithm @ [0x20] @ base64_encode blob"
  have "0x0A \<notin> set algorithm" "0x0A \<notin> set (base64_encode blob)"
    using assms(1) encode_graphic[of _ blob] by (blast intro!: graphic_no_lf)+
  then have "str_lines ?l = [?l]" using assms(3) by (intro str_lines_single) simp_all
  then show ?thesis
    using parse_key_line_loads[of algorithm key_bytes bound prs 1 key P, OF assms(1-8)]
    by (simp only: parse_key_lines_def parse_lines.simps blob_def) simp
qed

lemma algorithm_fields:
  "list_all is_ascii_graphic ALGORITHM" "looks_like_key_type ALGORITHM" "hd ALGORITHM \<noteq> 0x23"
  "list_all is_ascii_graphic KEY_ALGORITHM" "looks_like_key_type KEY_ALGORITHM" "hd KEY_ALGORITHM \<noteq> 0x23"
  by code_simp+

text \<open>
  The public line of a generated host key is a valid \<^verbatim>\<open>trusted_user_ca_keys\<close>
  entry: it loads as the one CA whose blob is the public-key blob, whose fingerprint is the one
  printed at generation, and whose key verifies the new key's signatures.
\<close>

lemma generated_line_is_ca_key:
  assumes "sig_ok P" and "fills fill" and "fill 68 = Some draw"
    and "generate_host_key_with P fill = Inr (Some g)"
  shows "\<exists>blob vk. public_key_blob (signing_key_from_seeds P (take 64 draw)) = Some blob \<and>
    verifying_key_from_bytes P (sk_public (signing_key_from_seeds P (take 64 draw))) = Some vk \<and>
    parse_ca_file P (public_line g) =
      Inr [\<lparr>kl_blob = blob, kl_fingerprint = gen_fingerprint g, kl_key = vk\<rparr>]"
proof -
  let ?k = "signing_key_from_seeds P (take 64 draw)"
  have g: "public_line g = ALGORITHM @ [0x20] @ base64_encode (ssh_string ALGORITHM @ ssh_string (sk_public ?k))"
    "gen_fingerprint g = fingerprint_sha256 P (ssh_string ALGORITHM @ ssh_string (sk_public ?k))"
    and pub: "length (sk_public ?k) = 1344"
    and blob: "public_key_blob ?k = Some (ssh_string ALGORITHM @ ssh_string (sk_public ?k))"
    using generated_container[OF assms(1-3)] assms(4) by auto
  have "ed_point P (ed_public P s)" "\<not> ed_weak P (ed_public P s)" "length (ed_public P s) = 32"
    "length (mldsa_public P s) = 1312" for s
    using assms(1) by (auto simp: sig_ok_def)
  then have vk: "\<exists>vk. verifying_key_from_bytes P (sk_public ?k) = Some vk"
    by (simp add: verifying_key_from_bytes_def signing_key_from_seeds_def key_len_defs Let_def)
  then obtain vk where vk: "verifying_key_from_bytes P (sk_public ?k) = Some vk" ..
  then have "parse_ca_key P 1 (sk_public ?k) = Inr vk" by (simp add: parse_ca_key_def)
  moreover have "ALGORITHM \<noteq> []" by (simp add: ALGORITHM_def ascii_def)
  ultimately have "parse_ca_file P (public_line g) =
      Inr [\<lparr>kl_blob = ssh_string ALGORITHM @ ssh_string (sk_public ?k),
            kl_fingerprint = gen_fingerprint g, kl_key = vk\<rparr>]"
    unfolding parse_ca_file_def g
    using algorithm_fields pub
    by (intro parse_key_lines_single) (simp_all add: list_all_iff KEY_ALGO_BOUND_def key_len_defs)
  then show ?thesis using vk blob by blast
qed

section \<open>Witnesses\<close>

definition sample_ed_line :: bytes where
  "sample_ed_line = KEY_ALGORITHM @ [0x20] @
     base64_encode (ssh_string KEY_ALGORITHM @ ssh_string (replicate 32 9))"

lemma sample_ed_loads:
  "\<exists>k. parse_key_file toy_sig sample_ed_line = Inr [k] \<and>
     kl_blob k = ssh_string KEY_ALGORITHM @ ssh_string (replicate 32 9)"
proof -
  have "KEY_ALGORITHM \<noteq> []" "length KEY_ALGORITHM = 11" by (simp_all add: KEY_ALGORITHM_def ascii_def)
  moreover have "parse_ed25519 toy_sig 1 (replicate 32 9) = Inr (replicate 32 9)"
    by (simp add: parse_ed25519_def toy_sig_def)
  ultimately have "parse_key_file toy_sig sample_ed_line =
      Inr [\<lparr>kl_blob = ssh_string KEY_ALGORITHM @ ssh_string (replicate 32 9),
            kl_fingerprint = fingerprint_sha256 toy_sig (ssh_string KEY_ALGORITHM @ ssh_string (replicate 32 9)),
            kl_key = replicate 32 9\<rparr>]"
    unfolding parse_key_file_def sample_ed_line_def
    using algorithm_fields
    by (intro parse_key_lines_single) (simp_all add: list_all_iff KEY_ALGO_BOUND_def)
  then show ?thesis by auto
qed

theorem authorized_keys_sound_witness:
  "\<exists>k. list_all2 (ed25519_line toy_sig) (filter key_bearing (str_lines sample_ed_line)) [k]"
proof -
  obtain k where "parse_key_file toy_sig sample_ed_line = Inr [k]" using sample_ed_loads by blast
  from authorized_keys_sound[OF this] show ?thesis by blast
qed

theorem generated_line_is_ca_key_witness:
  "\<exists>g k. generate_host_key_with toy_sig (\<lambda>n. Some (replicate n 7)) = Inr (Some g) \<and>
     parse_ca_file toy_sig (public_line g) = Inr [k]"
proof -
  have fill: "fills (\<lambda>n. Some (replicate n 7))" by (simp add: fills_def)
  obtain g where g: "generate_host_key_with toy_sig (\<lambda>n. Some (replicate n 7)) = Inr (Some g)"
    using generated_container[OF toy_sig_ok fill] by blast
  from generated_line_is_ca_key[OF toy_sig_ok fill refl g] g show ?thesis by blast
qed

end
