(* ===== verification/Cert.thy ===== *)
theory Cert
  imports KeyFile
begin

text \<open>
  \<^verbatim>\<open>crates/quantumssh-core/src/cert.rs\<close>: OpenSSH user certificates. \<open>cert_parse\<close> splits the
  attacker-supplied blob, \<open>cert_verify\<close> runs the checks of ADR-0050 in their order. A read that fails
  ends the parse (\<^verbatim>\<open>.ok()?\<close>), so the readers here have the error type \<open>unit\<close>. The callbacks of
  \<^verbatim>\<open>for_each_option\<close> only set flags, so the loop is modelled by the list of pairs it visits.
\<close>

definition CERT_ALGORITHM :: bytes where "CERT_ALGORITHM = ascii ''ssh-ed25519-cert-v01@openssh.com''"
definition CERT_BLOB_BOUND :: nat where "CERT_BLOB_BOUND = 16 * 1024"
definition MAX_PRINCIPALS :: nat where "MAX_PRINCIPALS = 256"
definition MIN_NONCE_LEN :: nat where "MIN_NONCE_LEN = 16"
definition ROLE_USER :: u32 where "ROLE_USER = 1"
definition PERMIT_PTY :: bytes where "PERMIT_PTY = ascii ''permit-pty''"

datatype cert_refusal =
    CertMalformed
  | UntrustedCa
  | BadCaSignature
  | NotUserCertificate
  | NotYetValid
  | Expired
  | PrincipalMismatch
  | CriticalOption

fun cert_refusal_as_str :: "cert_refusal \<Rightarrow> string" where
  "cert_refusal_as_str CertMalformed = ''malformed''"
| "cert_refusal_as_str UntrustedCa = ''untrusted_ca''"
| "cert_refusal_as_str BadCaSignature = ''bad_ca_signature''"
| "cert_refusal_as_str NotUserCertificate = ''not_user_certificate''"
| "cert_refusal_as_str NotYetValid = ''not_yet_valid''"
| "cert_refusal_as_str Expired = ''expired''"
| "cert_refusal_as_str PrincipalMismatch = ''principal_mismatch''"
| "cert_refusal_as_str CriticalOption = ''critical_option''"

record cert_identity =
  key_id :: bytes
  serial :: bytes
  ca_fingerprint :: bytes
  principal :: bytes

record certificate =
  cert_key :: bytes
  cert_fingerprint :: bytes
  identity :: cert_identity
  permit_pty :: bool

record parsed_cert =
  pc_key :: bytes
  pc_serial :: u64
  pc_role :: u32
  pc_key_id :: bytes
  pc_principals :: "bytes list"
  pc_valid_after :: u64
  pc_valid_before :: u64
  pc_has_critical_options :: bool
  pc_permit_pty :: bool
  pc_ca_key :: bytes
  pc_signed :: bytes
  pc_ca_signature_algorithm :: bytes
  pc_ca_signature :: bytes

section \<open>Parsing\<close>

lemma reader_string_shrinks: "reader_string b s = Inr (x, r) \<Longrightarrow> length r < length s"
  by (auto simp: string_codec.dec_iff)

text \<open>The loop of \<^verbatim>\<open>parse_principals\<close>, with the length of the whole field as the bound of each string.\<close>

function principals_loop :: "nat \<Rightarrow> bytes list \<Rightarrow> bytes \<Rightarrow> bytes list option" where
  "principals_loop bound acc r =
     (if r = [] then Some acc
      else if length acc = MAX_PRINCIPALS then None
      else case reader_string bound r of
        Inl _ \<Rightarrow> None
      | Inr (p, r') \<Rightarrow> principals_loop bound (acc @ [p]) r')"
  by pat_completeness auto
termination
  by (relation "measure (\<lambda>(_, _, r). length r)") (auto dest: reader_string_shrinks)

declare principals_loop.simps [simp del]

definition parse_principals :: "bytes \<Rightarrow> bytes list option" where
  "parse_principals field = principals_loop (length field) [] field"

function options_loop :: "nat \<Rightarrow> (bytes \<times> bytes) list \<Rightarrow> bytes \<Rightarrow> (bytes \<times> bytes) list option" where
  "options_loop bound acc r =
     (if r = [] then Some acc
      else case reader_string bound r of
        Inl _ \<Rightarrow> None
      | Inr (name, r') \<Rightarrow>
          (case reader_string bound r' of
             Inl _ \<Rightarrow> None
           | Inr (data, r'') \<Rightarrow> options_loop bound (acc @ [(name, data)]) r''))"
  by pat_completeness auto
termination
proof (relation "measure (\<lambda>(_, _, r). length r)")
  fix bound acc r y name r' z data r''
  assume "reader_string bound r = Inr y" "(name, r') = y" "reader_string bound r' = Inr z" "(data, r'') = z"
  then have "length r' < length r" "length r'' < length r'" using reader_string_shrinks by blast+
  then show "((bound, acc @ [(name, data)], r''), (bound, acc, r)) \<in> measure (\<lambda>(_, _, r). length r)" by simp
qed simp

declare options_loop.simps [simp del]

definition for_each_option :: "bytes \<Rightarrow> (bytes \<times> bytes) list option" where
  "for_each_option field = options_loop (length field) [] field"

definition rd_ok :: "(wire_error, 'a) reader \<Rightarrow> (unit, 'a) reader" where
  "rd_ok p = rd_map_err (\<lambda>_. ()) p"

definition rd_option :: "'a option \<Rightarrow> (unit, 'a) reader" where
  "rd_option x = (\<lambda>r. case x of None \<Rightarrow> Inl () | Some y \<Rightarrow> Inr (y, r))"

text \<open>The nested signature: algorithm and raw signature.\<close>

definition read_ca_signature :: "(unit, bytes \<times> bytes) reader" where
  "read_ca_signature =
     rd_bind (rd_ok (reader_string KEY_ALGO_BOUND)) (\<lambda>alg.
     rd_bind (rd_ok (reader_string SIGNATURE_LEN)) (\<lambda>sig.
     rd_bind (rd_ok reader_finish) (\<lambda>_.
     rd_return (alg, sig))))"

definition cert_fields :: "sig_prims \<Rightarrow> bytes \<Rightarrow> (unit, parsed_cert) reader" where
  "cert_fields P blob =
     rd_bind (rd_ok (reader_string KEY_ALGO_BOUND)) (\<lambda>alg.
     if alg \<noteq> CERT_ALGORITHM then rd_fail () else
     rd_bind (rd_ok (reader_string CERT_BLOB_BOUND)) (\<lambda>nonce.
     if length nonce < MIN_NONCE_LEN then rd_fail () else
     rd_bind (rd_ok (reader_string 32)) (\<lambda>key.
     if length key \<noteq> 32 \<or> \<not> ed_point P key then rd_fail () else
     if ed_weak P key then rd_fail () else
     rd_bind (rd_ok reader_uint64) (\<lambda>ser.
     rd_bind (rd_ok reader_uint32) (\<lambda>role.
     rd_bind (rd_ok (reader_string CERT_BLOB_BOUND)) (\<lambda>kid.
     if \<not> utf8_valid kid then rd_fail () else
     rd_bind (rd_ok (reader_string CERT_BLOB_BOUND)) (\<lambda>principals_field.
     rd_bind (rd_option (parse_principals principals_field)) (\<lambda>principals.
     rd_bind (rd_ok reader_uint64) (\<lambda>valid_after.
     rd_bind (rd_ok reader_uint64) (\<lambda>valid_before.
     rd_bind (rd_ok (reader_string CERT_BLOB_BOUND)) (\<lambda>critical_options.
     rd_bind (rd_ok (reader_string CERT_BLOB_BOUND)) (\<lambda>extensions.
     rd_bind (rd_ok (reader_string CERT_BLOB_BOUND)) (\<lambda>reserved.
     rd_bind (rd_ok (reader_string CERT_BLOB_BOUND)) (\<lambda>ca_key.
     rd_bind (\<lambda>r. Inr (take (length blob - reader_remaining r) blob, r)) (\<lambda>signed.
     rd_bind (rd_ok (reader_string CERT_BLOB_BOUND)) (\<lambda>sig.
     rd_bind (rd_ok reader_finish) (\<lambda>_.
     rd_bind (rd_option (res_ok (read_ca_signature sig))) (\<lambda>((ca_alg, ca_sig), _).
     rd_bind (rd_option (for_each_option critical_options)) (\<lambda>crit.
     rd_bind (rd_option (for_each_option extensions)) (\<lambda>exts.
     if list_ex (\<lambda>(name, data). name = PERMIT_PTY \<and> data \<noteq> []) exts then rd_fail () else
     rd_return \<lparr>pc_key = key, pc_serial = ser, pc_role = role, pc_key_id = kid,
       pc_principals = principals, pc_valid_after = valid_after, pc_valid_before = valid_before,
       pc_has_critical_options = (crit \<noteq> []),
       pc_permit_pty = list_ex (\<lambda>(name, data). name = PERMIT_PTY) exts,
       pc_ca_key = ca_key, pc_signed = signed,
       pc_ca_signature_algorithm = ca_alg, pc_ca_signature = ca_sig\<rparr>))))))))))))))))))))"

definition cert_parse :: "sig_prims \<Rightarrow> bytes \<Rightarrow> parsed_cert option" where
  "cert_parse P blob =
     (if length blob > CERT_BLOB_BOUND then None
      else map_option fst (res_ok (cert_fields P blob blob)))"

section \<open>Verification\<close>

text \<open>The plain key blob is written with \<^verbatim>\<open>put_string\<close> of 11 and 32 bytes, which cannot panic, so it
  is given as the encoding itself.\<close>

definition cert_verify ::
  "sig_prims \<Rightarrow> bytes \<Rightarrow> verifying_key key_line list \<Rightarrow> bytes \<Rightarrow> u64 option \<Rightarrow>
     (cert_refusal, certificate) result" where
  "cert_verify P blob cas user now =
     try_bind (ok_or CertMalformed (cert_parse P blob)) (\<lambda>c.
     try_bind (ok_or UntrustedCa (find (\<lambda>k. kl_blob k = pc_ca_key c) cas)) (\<lambda>ca.
     if pc_ca_signature_algorithm c \<noteq> ALGORITHM \<or>
        \<not> verifying_key_verify P (kl_key ca) (pc_signed c) (pc_ca_signature c)
     then Inl BadCaSignature
     else if pc_role c \<noteq> ROLE_USER then Inl NotUserCertificate
     else try_bind (ok_or NotYetValid now) (\<lambda>now.
       if now < pc_valid_after c then Inl NotYetValid
       else if now \<ge> pc_valid_before c then Inl Expired
       else if user \<notin> set (pc_principals c) then Inl PrincipalMismatch
       else if pc_has_critical_options c then Inl CriticalOption
       else
         let plain = ssh_string KEY_ALGORITHM @ ssh_string (pc_key c) in
         Inr \<lparr>cert_key = pc_key c, cert_fingerprint = fingerprint_sha256 P plain,
           identity = \<lparr>key_id = pc_key_id c, serial = decimal (unat (pc_serial c)),
             ca_fingerprint = kl_fingerprint ca, principal = user\<rparr>,
           permit_pty = pc_permit_pty c\<rparr>)))"

section \<open>Properties\<close>

lemma rd_ok_Inr_iff [simp]: "rd_ok p r = Inr y \<longleftrightarrow> p r = Inr y"
  by (simp add: rd_ok_def)

lemma rd_option_Inr_iff [simp]: "rd_option x r = Inr (y, r') \<longleftrightarrow> x = Some y \<and> r' = r"
  by (auto simp: rd_option_def split: option.splits)

lemma principals_loop_Some:
  assumes "length acc \<le> MAX_PRINCIPALS" and "principals_loop bound acc r = Some ps"
  shows "\<exists>qs. ps = acc @ qs \<and> r = concat (map ssh_string qs) \<and> length ps \<le> MAX_PRINCIPALS"
  using assms
proof (induction bound acc r arbitrary: ps rule: principals_loop.induct)
  case (1 bound acc r)
  show ?case
  proof (cases "r = []")
    case True
    then show ?thesis using "1.prems" by (simp add: principals_loop.simps)
  next
    case False
    then obtain p r' where p: "reader_string bound r = Inr (p, r')" and ne: "length acc \<noteq> MAX_PRINCIPALS"
      and rec: "principals_loop bound (acc @ [p]) r' = Some ps"
      using "1.prems"(2) by (subst (asm) principals_loop.simps) (auto split: if_splits sum.splits prod.splits)
    then obtain qs where "ps = (acc @ [p]) @ qs" "r' = concat (map ssh_string qs)" "length ps \<le> MAX_PRINCIPALS"
      using "1.IH"[OF False ne p refl, of ps] "1.prems"(1) by auto
    then show ?thesis using p by (intro exI[of _ "p # qs"]) (auto simp: string_codec.dec_iff)
  qed
qed

lemma options_loop_Some:
  assumes "options_loop bound acc r = Some ps"
  shows "\<exists>qs. ps = acc @ qs \<and> r = concat (map (\<lambda>(n, d). ssh_string n @ ssh_string d) qs)"
  using assms
proof (induction bound acc r arbitrary: ps rule: options_loop.induct)
  case (1 bound acc r)
  show ?case
  proof (cases "r = []")
    case True
    then show ?thesis using "1.prems" by (simp add: options_loop.simps)
  next
    case False
    then obtain n r' d r'' where n: "reader_string bound r = Inr (n, r')"
      and d: "reader_string bound r' = Inr (d, r'')"
      and rec: "options_loop bound (acc @ [(n, d)]) r'' = Some ps"
      using "1.prems" by (subst (asm) options_loop.simps) (auto split: if_splits sum.splits prod.splits)
    then obtain qs where "ps = (acc @ [(n, d)]) @ qs"
      "r'' = concat (map (\<lambda>(n, d). ssh_string n @ ssh_string d) qs)"
      using "1.IH"[OF False n refl d refl rec] by blast
    then show ?thesis using n d by (intro exI[of _ "(n, d) # qs"]) (auto simp: string_codec.dec_iff)
  qed
qed

lemma parse_principals_Some:
  "parse_principals field = Some ps \<Longrightarrow> field = concat (map ssh_string ps) \<and> length ps \<le> 256"
  using principals_loop_Some[of "[]" "length field" field ps]
  by (simp add: parse_principals_def MAX_PRINCIPALS_def)

lemma for_each_option_Some:
  "for_each_option field = Some ps \<Longrightarrow> field = concat (map (\<lambda>(n, d). ssh_string n @ ssh_string d) ps)"
  using options_loop_Some[of "length field" "[]" field ps] by (simp add: for_each_option_def)

text \<open>The bytes a CA signs, from the fields of the certificate.\<close>

definition cert_tbs ::
  "bytes \<Rightarrow> bytes \<Rightarrow> u64 \<Rightarrow> u32 \<Rightarrow> bytes \<Rightarrow> bytes list \<Rightarrow> u64 \<Rightarrow> u64 \<Rightarrow>
     (bytes \<times> bytes) list \<Rightarrow> (bytes \<times> bytes) list \<Rightarrow> bytes \<Rightarrow> bytes \<Rightarrow> bytes" where
  "cert_tbs nonce key ser role kid ps va vb crit exts reserved ca_key =
     ssh_string CERT_ALGORITHM @ ssh_string nonce @ ssh_string key @ u64_to_be_bytes ser @
     u32_to_be_bytes role @ ssh_string kid @ ssh_string (concat (map ssh_string ps)) @
     u64_to_be_bytes va @ u64_to_be_bytes vb @
     ssh_string (concat (map (\<lambda>(n, d). ssh_string n @ ssh_string d) crit)) @
     ssh_string (concat (map (\<lambda>(n, d). ssh_string n @ ssh_string d) exts)) @
     ssh_string reserved @ ssh_string ca_key"

lemma take_prefix: "take (length (a @ r) - length r) (a @ r) = a"
  by simp

lemma read_ca_signature_Inr:
  "read_ca_signature sig = Inr ((alg, s), r) \<Longrightarrow> sig = ssh_string alg @ ssh_string s"
  by (auto simp: read_ca_signature_def rd_bind_Inr_iff string_codec.dec_iff)

lemma cert_fields_Inr:
  assumes "cert_fields P b0 s = Inr (c, r)"
  shows "\<exists>nonce crit exts reserved sig.
    s = cert_tbs nonce (pc_key c) (pc_serial c) (pc_role c) (pc_key_id c) (pc_principals c)
      (pc_valid_after c) (pc_valid_before c) crit exts reserved (pc_ca_key c) @ ssh_string sig \<and>
    pc_signed c = take (length b0 - length (ssh_string sig)) b0 \<and>
    sig = ssh_string (pc_ca_signature_algorithm c) @ ssh_string (pc_ca_signature c) \<and>
    16 \<le> length nonce \<and> length (pc_principals c) \<le> 256 \<and>
    length (pc_key c) = 32 \<and> ed_point P (pc_key c) \<and> \<not> ed_weak P (pc_key c) \<and> utf8_valid (pc_key_id c) \<and>
    (pc_has_critical_options c \<longleftrightarrow> crit \<noteq> []) \<and>
    pc_permit_pty c = list_ex (\<lambda>(name, data). name = PERMIT_PTY) exts \<and>
    \<not> list_ex (\<lambda>(name, data). name = PERMIT_PTY \<and> data \<noteq> []) exts"
proof -
  obtain nonce key ser role kid pf ps va vb critf extf reserved ca_key sig ca_alg ca_sig crit exts r1 r2 where
    s: "s = ssh_string CERT_ALGORITHM @ ssh_string nonce @ ssh_string key @ u64_to_be_bytes ser @
     u32_to_be_bytes role @ ssh_string kid @ ssh_string pf @
     u64_to_be_bytes va @ u64_to_be_bytes vb @ ssh_string critf @ ssh_string extf @
     ssh_string reserved @ ssh_string ca_key @ r1"
    and r1: "r1 = ssh_string sig" and n: "16 \<le> length nonce"
    and k: "length key = 32" "ed_point P key" "\<not> ed_weak P key" "utf8_valid kid"
    and ps: "parse_principals pf = Some ps" and crit: "for_each_option critf = Some crit"
    and exts: "for_each_option extf = Some exts" "\<not> list_ex (\<lambda>(name, data). name = PERMIT_PTY \<and> data \<noteq> []) exts"
    and sig: "read_ca_signature sig = Inr ((ca_alg, ca_sig), r2)"
    and c: "c = \<lparr>pc_key = key, pc_serial = ser, pc_role = role, pc_key_id = kid,
       pc_principals = ps, pc_valid_after = va, pc_valid_before = vb,
       pc_has_critical_options = (crit \<noteq> []),
       pc_permit_pty = list_ex (\<lambda>(name, data). name = PERMIT_PTY) exts,
       pc_ca_key = ca_key, pc_signed = take (length b0 - reader_remaining r1) b0,
       pc_ca_signature_algorithm = ca_alg, pc_ca_signature = ca_sig\<rparr>"
    using assms unfolding cert_fields_def
    by (clarsimp simp: rd_bind_Inr_iff string_codec.dec_iff uint64_codec.dec_iff uint32_codec.dec_iff
        MIN_NONCE_LEN_def split: if_splits)
  note parse_principals_Some[OF ps] for_each_option_Some[OF crit] for_each_option_Some[OF exts(1)]
    read_ca_signature_Inr[OF sig]
  then show ?thesis
    using s r1 n k exts(2) unfolding c cert_tbs_def reader_remaining_def
    by (rule_tac x = nonce in exI, rule_tac x = crit in exI, rule_tac x = exts in exI,
        rule_tac x = reserved in exI, rule_tac x = sig in exI) simp
qed

lemma cert_parse_Some:
  assumes "cert_parse P blob = Some c"
  shows "\<exists>nonce crit exts reserved.
    pc_signed c = cert_tbs nonce (pc_key c) (pc_serial c) (pc_role c) (pc_key_id c) (pc_principals c)
      (pc_valid_after c) (pc_valid_before c) crit exts reserved (pc_ca_key c) \<and>
    blob = pc_signed c @ ssh_string (ssh_string (pc_ca_signature_algorithm c) @ ssh_string (pc_ca_signature c)) \<and>
    length blob \<le> 16384 \<and> 16 \<le> length nonce \<and> length (pc_principals c) \<le> 256 \<and>
    length (pc_key c) = 32 \<and> ed_point P (pc_key c) \<and> \<not> ed_weak P (pc_key c) \<and>
    (pc_has_critical_options c \<longleftrightarrow> crit \<noteq> []) \<and>
    (pc_permit_pty c \<longleftrightarrow> (PERMIT_PTY, []) \<in> set exts)"
proof -
  obtain r where len: "length blob \<le> 16384" and f: "cert_fields P blob blob = Inr (c, r)"
    using assms by (auto simp: cert_parse_def CERT_BLOB_BOUND_def split: if_splits)
  obtain nonce crit exts reserved sig where
    s: "blob = cert_tbs nonce (pc_key c) (pc_serial c) (pc_role c) (pc_key_id c) (pc_principals c)
      (pc_valid_after c) (pc_valid_before c) crit exts reserved (pc_ca_key c) @ ssh_string sig" (is "_ = ?tbs @ _")
    and signed: "pc_signed c = take (length blob - length (ssh_string sig)) blob"
    and sig: "sig = ssh_string (pc_ca_signature_algorithm c) @ ssh_string (pc_ca_signature c)"
    and props: "16 \<le> length nonce" "length (pc_principals c) \<le> 256" "length (pc_key c) = 32"
      "ed_point P (pc_key c)" "\<not> ed_weak P (pc_key c)" "pc_has_critical_options c \<longleftrightarrow> crit \<noteq> []"
    and pty: "pc_permit_pty c = list_ex (\<lambda>(name, data). name = PERMIT_PTY) exts"
      "\<not> list_ex (\<lambda>(name, data). name = PERMIT_PTY \<and> data \<noteq> []) exts"
    using cert_fields_Inr[OF f] by blast
  have "pc_signed c = ?tbs"
    unfolding signed by (subst (1 2) s) (rule take_prefix)
  moreover have "pc_permit_pty c \<longleftrightarrow> (PERMIT_PTY, []) \<in> set exts"
    using pty by (auto simp: list_ex_iff)
  ultimately show ?thesis using s sig props len by metis
qed

lemma find_first_blob: "find (\<lambda>k. kl_blob k = b) ks = Some k \<Longrightarrow> k \<in> set ks \<and> kl_blob k = b"
  by (auto simp: find_Some_iff)

lemma cert_verify_iff:
  "cert_verify P blob cas user now = Inr crt \<longleftrightarrow>
     (\<exists>c ca t. cert_parse P blob = Some c \<and> find (\<lambda>k. kl_blob k = pc_ca_key c) cas = Some ca \<and>
        pc_ca_signature_algorithm c = ALGORITHM \<and>
        verifying_key_verify P (kl_key ca) (pc_signed c) (pc_ca_signature c) \<and>
        pc_role c = 1 \<and> now = Some t \<and> pc_valid_after c \<le> t \<and> t < pc_valid_before c \<and>
        user \<in> set (pc_principals c) \<and> \<not> pc_has_critical_options c \<and>
        crt = \<lparr>cert_key = pc_key c,
          cert_fingerprint = fingerprint_sha256 P (ssh_string KEY_ALGORITHM @ ssh_string (pc_key c)),
          identity = \<lparr>key_id = pc_key_id c, serial = decimal (unat (pc_serial c)),
            ca_fingerprint = kl_fingerprint ca, principal = user\<rparr>,
          permit_pty = pc_permit_pty c\<rparr>)"
proof (cases "cert_parse P blob")
  case None
  then show ?thesis by (simp add: cert_verify_def)
next
  case (Some c)
  note parsed = this
  show ?thesis
  proof (cases "find (\<lambda>k. kl_blob k = pc_ca_key c) cas")
    case None
    then show ?thesis by (simp add: cert_verify_def parsed)
  next
    case (Some ca)
    then show ?thesis
      by (cases now) (auto simp: cert_verify_def parsed ROLE_USER_def not_less not_le Let_def)
  qed
qed


lemma cert_verify_parsed:
  assumes "cert_verify P blob cas user now = Inr crt"
  shows "\<exists>c ca t. cert_parse P blob = Some c \<and> ca \<in> set cas \<and> kl_blob ca = pc_ca_key c \<and>
        pc_ca_signature_algorithm c = ALGORITHM \<and>
        verifying_key_verify P (kl_key ca) (pc_signed c) (pc_ca_signature c) \<and>
        pc_role c = 1 \<and> now = Some t \<and> pc_valid_after c \<le> t \<and> t < pc_valid_before c \<and>
        user \<in> set (pc_principals c) \<and> \<not> pc_has_critical_options c \<and>
        cert_key crt = pc_key c \<and> permit_pty crt = pc_permit_pty c"
proof -
  obtain c ca t where *: "cert_parse P blob = Some c" "find (\<lambda>k. kl_blob k = pc_ca_key c) cas = Some ca"
      "pc_ca_signature_algorithm c = ALGORITHM"
      "verifying_key_verify P (kl_key ca) (pc_signed c) (pc_ca_signature c)"
      "pc_role c = 1" "now = Some t" "pc_valid_after c \<le> t" "t < pc_valid_before c"
      "user \<in> set (pc_principals c)" "\<not> pc_has_critical_options c"
      "cert_key crt = pc_key c" "permit_pty crt = pc_permit_pty c"
    using assms unfolding cert_verify_iff by auto
  then show ?thesis using find_first_blob[OF *(2)] by blast
qed

text \<open>
  C6 (safety). An accepted certificate carries, in the bytes a trusted CA signed, the very key that
  will authenticate, the requested user among at most 256 principals, the role user, a validity
  interval around the present, an empty list of critical options and, if a PTY is permitted, the
  extension that permits it: nothing outside the signed part decides anything.
\<close>

theorem certificate_sound:
  assumes "cert_verify P blob cas user now = Inr crt"
  shows "\<exists>ca nonce ser kid ps va vb exts reserved sig t signed.
    ca \<in> set cas \<and>
    signed = cert_tbs nonce (cert_key crt) ser 1 kid ps va vb [] exts reserved (kl_blob ca) \<and>
    blob = signed @ ssh_string (ssh_string ALGORITHM @ ssh_string sig) \<and>
    verifying_key_verify P (kl_key ca) signed sig \<and>
    now = Some t \<and> va \<le> t \<and> t < vb \<and> user \<in> set ps \<and> length ps \<le> 256 \<and>
    length blob \<le> 16384 \<and> 16 \<le> length nonce \<and>
    length (cert_key crt) = 32 \<and> ed_point P (cert_key crt) \<and> \<not> ed_weak P (cert_key crt) \<and>
    (permit_pty crt \<longleftrightarrow> (PERMIT_PTY, []) \<in> set exts)"
proof -
  obtain c ca t where c: "cert_parse P blob = Some c" "ca \<in> set cas" "kl_blob ca = pc_ca_key c"
      "pc_ca_signature_algorithm c = ALGORITHM"
      "verifying_key_verify P (kl_key ca) (pc_signed c) (pc_ca_signature c)" "pc_role c = 1"
    and t: "now = Some t" "pc_valid_after c \<le> t" "t < pc_valid_before c" "user \<in> set (pc_principals c)"
      "\<not> pc_has_critical_options c" "cert_key crt = pc_key c" "permit_pty crt = pc_permit_pty c"
    using cert_verify_parsed[OF assms] by blast
  obtain nonce crit exts reserved where
    s: "pc_signed c = cert_tbs nonce (pc_key c) (pc_serial c) (pc_role c) (pc_key_id c) (pc_principals c)
      (pc_valid_after c) (pc_valid_before c) crit exts reserved (pc_ca_key c)"
    and b: "blob = pc_signed c @ ssh_string (ssh_string (pc_ca_signature_algorithm c) @ ssh_string (pc_ca_signature c))"
    and props: "length blob \<le> 16384" "16 \<le> length nonce" "length (pc_principals c) \<le> 256"
      "length (pc_key c) = 32" "ed_point P (pc_key c)" "\<not> ed_weak P (pc_key c)"
      "pc_has_critical_options c \<longleftrightarrow> crit \<noteq> []" "pc_permit_pty c \<longleftrightarrow> (PERMIT_PTY, []) \<in> set exts"
    using cert_parse_Some[OF c(1)] by blast
  have "crit = []" using props(7) t(5) by blast
  with s c(3,6) t(6) have "pc_signed c = cert_tbs nonce (cert_key crt) (pc_serial c) 1 (pc_key_id c)
      (pc_principals c) (pc_valid_after c) (pc_valid_before c) [] exts reserved (kl_blob ca)"
    by metis
  then show ?thesis
    using b c(2,4,5) t(1-4) props(1-6,8) t(6,7) by metis
qed

section \<open>Issued certificates are accepted\<close>

lemma principals_loop_concat:
  assumes "\<forall>q\<in>set qs. length q \<le> bound" and "bound \<le> u32_max" and "length acc + length qs \<le> MAX_PRINCIPALS"
  shows "principals_loop bound acc (concat (map ssh_string qs)) = Some (acc @ qs)"
  using assms
proof (induction qs arbitrary: acc)
  case Nil
  then show ?case by (simp add: principals_loop.simps)
next
  case (Cons q qs)
  have "ssh_string q @ concat (map ssh_string qs) \<noteq> []"
    by (metis append_is_Nil_conv length_0_conv length_ssh_string add_is_0 zero_neq_numeral)
  then show ?case
    using Cons by (subst principals_loop.simps) (simp add: string_codec.dec_enc)
qed

lemma options_loop_concat:
  assumes "\<forall>(n, d)\<in>set qs. length n \<le> bound \<and> length d \<le> bound" and "bound \<le> u32_max"
  shows "options_loop bound acc (concat (map (\<lambda>(n, d). ssh_string n @ ssh_string d) qs)) = Some (acc @ qs)"
  using assms
proof (induction qs arbitrary: acc)
  case Nil
  then show ?case by (simp add: options_loop.simps)
next
  case (Cons q qs)
  obtain n d where q: "q = (n, d)" by (cases q)
  have "ssh_string n @ ssh_string d @ concat (map (\<lambda>(n, d). ssh_string n @ ssh_string d) qs) \<noteq> []"
    by (metis append_is_Nil_conv length_0_conv length_ssh_string add_is_0 zero_neq_numeral)
  then show ?case
    using Cons q by (subst options_loop.simps) (simp add: string_codec.dec_enc)
qed

lemma concat_elem_length: "q \<in> set qs \<Longrightarrow> length (f q) \<le> length (concat (map f qs))"
  by (induction qs) auto

lemma parse_principals_concat:
  assumes "length ps \<le> 256" and "length (concat (map ssh_string ps)) \<le> u32_max"
  shows "parse_principals (concat (map ssh_string ps)) = Some ps"
proof -
  have "\<forall>q\<in>set ps. length q \<le> length (concat (map ssh_string ps))"
    using concat_elem_length[of _ ps ssh_string] by fastforce
  then show ?thesis
    using principals_loop_concat[of ps _ "[]"] assms by (simp add: parse_principals_def MAX_PRINCIPALS_def)
qed

lemma for_each_option_concat:
  assumes "length (concat (map (\<lambda>(n, d). ssh_string n @ ssh_string d) ps)) \<le> u32_max"
  shows "for_each_option (concat (map (\<lambda>(n, d). ssh_string n @ ssh_string d) ps)) = Some ps"
proof -
  have "\<forall>(n, d)\<in>set ps. length n \<le> length (concat (map (\<lambda>(n, d). ssh_string n @ ssh_string d) ps)) \<and>
      length d \<le> length (concat (map (\<lambda>(n, d). ssh_string n @ ssh_string d) ps))"
    using concat_elem_length[of _ ps "\<lambda>(n, d). ssh_string n @ ssh_string d"] by fastforce
  then show ?thesis
    using options_loop_concat[of ps _ "[]"] assms by (simp add: for_each_option_def)
qed

lemma cert_parse_complete:
  assumes "length (tbs @ ssh_string (ssh_string alg @ ssh_string sig)) \<le> 16384"
    and tbs: "tbs = cert_tbs nonce key ser role kid ps va vb crit exts reserved ca_key"
    and "16 \<le> length nonce" and "length key = 32" and "ed_point P key" and "\<not> ed_weak P key"
    and "utf8_valid kid" and "length ps \<le> 256" and "length alg \<le> 64" and "length sig \<le> 2484"
    and "\<forall>(n, d)\<in>set exts. n = PERMIT_PTY \<longrightarrow> d = []"
  shows "cert_parse P (tbs @ ssh_string (ssh_string alg @ ssh_string sig)) =
    Some \<lparr>pc_key = key, pc_serial = ser, pc_role = role, pc_key_id = kid, pc_principals = ps,
      pc_valid_after = va, pc_valid_before = vb, pc_has_critical_options = (crit \<noteq> []),
      pc_permit_pty = list_ex (\<lambda>(name, data). name = PERMIT_PTY) exts, pc_ca_key = ca_key,
      pc_signed = tbs, pc_ca_signature_algorithm = alg, pc_ca_signature = sig\<rparr>"
proof -
  let ?ps = "concat (map ssh_string ps)"
  let ?crit = "concat (map (\<lambda>(n, d). ssh_string n @ ssh_string d) crit)"
  let ?exts = "concat (map (\<lambda>(n, d). ssh_string n @ ssh_string d) exts)"
  let ?sig = "ssh_string alg @ ssh_string sig"
  have len: "length nonce + length key + length kid + length ?ps + length ?crit + length ?exts +
      length reserved + length ca_key + length ?sig \<le> 16384"
    using assms(1) unfolding tbs cert_tbs_def by simp
  have sig: "read_ca_signature ?sig = Inr ((alg, sig), [])"
    using assms(9,10)
    by (simp add: read_ca_signature_def rd_ok_def rd_bind_map_err KEY_ALGO_BOUND_def SIGNATURE_LEN_def
        MLDSA_SIGNATURE_LEN_def)
  have lists: "parse_principals ?ps = Some ps" "for_each_option ?crit = Some crit"
    "for_each_option ?exts = Some exts"
    using len assms(8) by (simp_all add: parse_principals_concat for_each_option_concat)
  have opt: "rd_bind (rd_option (Some y)) k r = k y r" for y k and r :: bytes
    by (simp add: rd_bind_def rd_option_def)
  have here: "rd_bind (\<lambda>r. Inr (f r, r)) k r = k (f r) r" for f k and r :: bytes
    by (simp add: rd_bind_def)
  have cert_alg: "length CERT_ALGORITHM = 32" by (simp add: CERT_ALGORITHM_def)
  have ext_ok: "\<not> list_ex (\<lambda>(name, data). name = PERMIT_PTY \<and> data \<noteq> []) exts"
    using assms(11) by (auto simp: list_ex_iff)
  have step: "length v \<le> bound \<Longrightarrow> bound \<le> 16384 \<Longrightarrow>
      rd_bind (rd_map_err f (reader_string bound)) k (ssh_string v @ r) = k v r"
    "length v \<le> bound \<Longrightarrow> bound \<le> 16384 \<Longrightarrow>
      rd_bind (rd_map_err f (reader_string bound)) k (ssh_string v) = k v []"
    for v bound f k and r :: bytes
    by (simp_all add: rd_bind_map_err)
  have signed: "take (length (tbs @ ssh_string ?sig) - length (ssh_string ?sig)) (tbs @ ssh_string ?sig) = tbs"
    by simp
  have "cert_fields P b (tbs @ ssh_string ?sig) = Inr (\<lparr>pc_key = key, pc_serial = ser, pc_role = role,
      pc_key_id = kid, pc_principals = ps,
      pc_valid_after = va, pc_valid_before = vb, pc_has_critical_options = (crit \<noteq> []),
      pc_permit_pty = list_ex (\<lambda>(name, data). name = PERMIT_PTY) exts, pc_ca_key = ca_key,
      pc_signed = take (length b - length (ssh_string ?sig)) b,
      pc_ca_signature_algorithm = alg, pc_ca_signature = sig\<rparr>, [])" for b
    unfolding tbs cert_tbs_def cert_fields_def rd_ok_def append_assoc
    using len assms(3-7) ext_ok cert_alg
    by (simp add: step rd_bind_map_err(1,2,5) opt here sig lists KEY_ALGO_BOUND_def CERT_BLOB_BOUND_def
        MIN_NONCE_LEN_def reader_remaining_def del: length_ssh_string)
  then show ?thesis
    using assms(1) signed by (simp only: cert_parse_def CERT_BLOB_BOUND_def) simp
qed

lemma composite_sign_verify:
  assumes "sig_ok P" and "length seeds = 64" and "signing_key_sign P (signing_key_from_seeds P seeds) m = Some s"
    and "verifying_key_from_bytes P (sk_public (signing_key_from_seeds P seeds)) = Some vk"
  shows "verifying_key_verify P vk m s" and "length s = 2484"
proof -
  let ?m = "message_representative P m" and ?e = "drop 32 seeds"
  obtain ml where ml: "mldsa_sign P (take 32 seeds) ?m COMP_LABEL = Some ml" and s: "s = ml @ ed_sign P ?e ?m"
    using assms(3) by (auto simp: signing_key_sign_def signing_key_from_seeds_def Let_def SEED_LEN_def
        split: option.splits)
  have ok: "length ml = 2420" "mldsa_sig_decodes P ml"
    "mldsa_verify P (mldsa_public P (take 32 seeds)) ?m COMP_LABEL ml"
    "length (ed_sign P ?e ?m) = 64" "ed_sig_parses P (ed_sign P ?e ?m)"
    "ed_verify_strict P (ed_public P ?e) ?m (ed_sign P ?e ?m)"
    "length (mldsa_public P (take 32 seeds)) = 1312"
    using assms(1) ml by (auto simp: sig_ok_def)
  have "vk = \<lparr>vk_mldsa = mldsa_public P (take 32 seeds), vk_ed25519 = ed_public P ?e\<rparr>"
    using assms(4) ok(7)
    by (auto simp: verifying_key_from_bytes_def signing_key_from_seeds_def Let_def key_len_defs split: if_splits)
  then show "verifying_key_verify P vk m s" "length s = 2484"
    using ok by (simp_all add: s verifying_key_verify_def SIGNATURE_LEN_def MLDSA_SIGNATURE_LEN_def Let_def)
qed

lemma issued_accepted:
  assumes "sig_ok P" and "length seeds = 64" and "ca_key = signing_key_from_seeds P seeds"
    and "find (\<lambda>k. kl_blob k = ca_blob) cas = Some ca"
    and "verifying_key_from_bytes P (sk_public ca_key) = Some (kl_key ca)"
    and "tbs = cert_tbs nonce key ser 1 kid ps va vb [] exts reserved ca_blob"
    and "signing_key_sign P ca_key tbs = Some sig"
    and "length (tbs @ ssh_string (ssh_string ALGORITHM @ ssh_string sig)) \<le> 16384"
    and "16 \<le> length nonce" and "length key = 32" and "ed_point P key" and "\<not> ed_weak P key"
    and "utf8_valid kid" and "length ps \<le> 256" and "\<forall>(n, d)\<in>set exts. n = PERMIT_PTY \<longrightarrow> d = []"
    and "va \<le> t" and "t < vb" and "user \<in> set ps"
  shows "\<exists>crt. cert_verify P (tbs @ ssh_string (ssh_string ALGORITHM @ ssh_string sig)) cas user (Some t) = Inr crt \<and>
    cert_key crt = key \<and> (permit_pty crt \<longleftrightarrow> PERMIT_PTY \<in> fst ` set exts) \<and> principal (identity crt) = user"
proof -
  have v: "verifying_key_verify P (kl_key ca) tbs sig" "length sig \<le> 2484"
    using composite_sign_verify[OF assms(1,2), of tbs sig "kl_key ca"] assms(3,5,7) by auto
  have parse: "cert_parse P (tbs @ ssh_string (ssh_string ALGORITHM @ ssh_string sig)) =
    Some \<lparr>pc_key = key, pc_serial = ser, pc_role = 1, pc_key_id = kid, pc_principals = ps,
      pc_valid_after = va, pc_valid_before = vb, pc_has_critical_options = ([] \<noteq> ([] :: (bytes \<times> bytes) list)),
      pc_permit_pty = list_ex (\<lambda>(name, data). name = PERMIT_PTY) exts, pc_ca_key = ca_blob,
      pc_signed = tbs, pc_ca_signature_algorithm = ALGORITHM, pc_ca_signature = sig\<rparr>"
    by (rule cert_parse_complete[OF assms(8,6,9-14) _ v(2) assms(15)]) simp
  have pty: "list_ex (\<lambda>(name, data). name = PERMIT_PTY) exts \<longleftrightarrow> PERMIT_PTY \<in> fst ` set exts"
    by (force simp: list_ex_iff)
  show ?thesis
    using assms(4,16-18) v(1) pty
    by (simp add: cert_verify_def parse ROLE_USER_def not_le Let_def)
qed

text \<open>
  A certificate that a trusted CA issues for a user, of at most 16384 bytes, within
  its validity and with no critical option, is accepted for each of its principals, with the
  certified key and the PTY permission it states.
\<close>

lemma issued_certificate_accepted:
  assumes "sig_ok P" and "length seeds = 64" and "ca_key = signing_key_from_seeds P seeds"
    and "find (\<lambda>k. kl_blob k = ca_blob) cas = Some ca"
    and "verifying_key_from_bytes P (sk_public ca_key) = Some (kl_key ca)"
    and "tbs = cert_tbs nonce key ser 1 kid ps va vb [] exts reserved ca_blob"
    and "signing_key_sign P ca_key tbs = Some sig"
    and "length (tbs @ ssh_string (ssh_string ALGORITHM @ ssh_string sig)) \<le> 16384"
    and "16 \<le> length nonce" and "length key = 32" and "ed_point P key" and "\<not> ed_weak P key"
    and "utf8_valid kid" and "length ps \<le> 256" and "\<forall>(n, d)\<in>set exts. n = PERMIT_PTY \<longrightarrow> d = []"
    and "va \<le> t" and "t < vb" and "user \<in> set ps"
  shows "\<exists>crt. cert_verify P (tbs @ ssh_string (ssh_string ALGORITHM @ ssh_string sig)) cas user (Some t) = Inr crt \<and>
    cert_key crt = key \<and> (permit_pty crt \<longleftrightarrow> PERMIT_PTY \<in> fst ` set exts) \<and> principal (identity crt) = user"
  using assms by (rule issued_accepted)

section \<open>Witnesses\<close>

definition sample_ca :: "verifying_key key_line" where
  "sample_ca = \<lparr>kl_blob = [1, 2, 3], kl_fingerprint = [],
     kl_key = \<lparr>vk_mldsa = mldsa_public toy_sig (replicate 32 0), vk_ed25519 = ed_public toy_sig (replicate 32 0)\<rparr>\<rparr>"

definition sample_tbs :: bytes where
  "sample_tbs = cert_tbs (replicate 16 5) (replicate 32 9) 7 1 (ascii ''kid'') [ascii ''alice''] 100 200 []
     [(PERMIT_PTY, [])] [] [1, 2, 3]"

lemma sample_pk:
  "verifying_key_from_bytes toy_sig (sk_public (signing_key_from_seeds toy_sig (replicate 64 0))) =
     Some (kl_key sample_ca)"
  by (simp add: verifying_key_from_bytes_def signing_key_from_seeds_def key_len_defs sample_ca_def Let_def
      toy_sig_def)

lemma sample_signed:
  "\<exists>sig. signing_key_sign toy_sig (signing_key_from_seeds toy_sig (replicate 64 0)) sample_tbs = Some sig \<and>
     length (sample_tbs @ ssh_string (ssh_string ALGORITHM @ ssh_string sig)) \<le> 16384"
proof -
  have "mldsa_sign toy_sig s m c \<noteq> None" for s m c by (simp add: toy_sig_def)
  then obtain sig where s: "signing_key_sign toy_sig (signing_key_from_seeds toy_sig (replicate 64 0)) sample_tbs = Some sig"
    by (fastforce simp: signing_key_sign_def Let_def split: option.splits)
  moreover have "length sig = 2484"
    by (rule composite_sign_verify(2)[OF toy_sig_ok _ s sample_pk]) (rule length_replicate)
  moreover have "length sample_tbs \<le> 400"
    by (simp add: sample_tbs_def cert_tbs_def CERT_ALGORITHM_def PERMIT_PTY_def)
  ultimately show ?thesis by auto
qed

lemma sample_fields:
  "utf8_valid (ascii ''kid'')" "find (\<lambda>k. kl_blob k = [1, 2, 3]) [sample_ca] = Some sample_ca"
  "ed_point toy_sig (replicate 32 9)" "\<not> ed_weak toy_sig (replicate 32 9)" "length (replicate 64 0) = 64"
  by (code_simp, simp_all add: sample_ca_def toy_sig_def)

theorem issued_certificate_accepted_witness:
  "\<exists>sig crt. cert_verify toy_sig (sample_tbs @ ssh_string (ssh_string ALGORITHM @ ssh_string sig)) [sample_ca]
     (ascii ''alice'') (Some 150) = Inr crt \<and> cert_key crt = replicate 32 9"
proof -
  obtain sig where s: "signing_key_sign toy_sig (signing_key_from_seeds toy_sig (replicate 64 0)) sample_tbs = Some sig"
    "length (sample_tbs @ ssh_string (ssh_string ALGORITHM @ ssh_string sig)) \<le> 16384"
    using sample_signed by blast
  from issued_certificate_accepted[OF toy_sig_ok sample_fields(5) refl sample_fields(2) sample_pk
      sample_tbs_def s _ _ sample_fields(3,4,1), of 150 "ascii ''alice''"]
  show ?thesis by auto
qed

theorem certificate_sound_witness:
  "\<exists>blob crt. cert_verify toy_sig blob [sample_ca] (ascii ''alice'') (Some 150) = Inr crt \<and>
     length blob \<le> 16384 \<and> \<not> ed_weak toy_sig (cert_key crt)"
proof -
  obtain sig where s: "signing_key_sign toy_sig (signing_key_from_seeds toy_sig (replicate 64 0)) sample_tbs = Some sig"
    "length (sample_tbs @ ssh_string (ssh_string ALGORITHM @ ssh_string sig)) \<le> 16384"
    using sample_signed by blast
  obtain blob crt where v: "cert_verify toy_sig blob [sample_ca] (ascii ''alice'') (Some 150) = Inr crt"
    using issued_accepted[OF toy_sig_ok sample_fields(5) refl sample_fields(2) sample_pk
      sample_tbs_def s _ _ sample_fields(3,4,1), of 150 "ascii ''alice''"] by auto
  have "length blob \<le> 16384 \<and> \<not> ed_weak toy_sig (cert_key crt)"
    using certificate_sound[OF v] by blast
  then show ?thesis using v by blast
qed

end
