(* ===== verification/Auth.thy ===== *)
theory Auth
  imports Cert
begin

text \<open>
  Public-key authentication of \<^verbatim>\<open>crates/quantumssh-core/src/auth.rs\<close>: parsing of
  \<^verbatim>\<open>SSH_MSG_USERAUTH_REQUEST\<close>, resolution of the key it names, the signed data and its
  verification, and the reply payloads. The loop that drives them is in \<^verbatim>\<open>Handshake\<close>.
  The wall clock of \<^verbatim>\<open>resolve\<close> is its argument \<open>now\<close>, \<open>None\<close> before the epoch.
\<close>

definition SSH_MSG_USERAUTH_REQUEST :: u8 where "SSH_MSG_USERAUTH_REQUEST = 50"
definition SSH_MSG_USERAUTH_FAILURE :: u8 where "SSH_MSG_USERAUTH_FAILURE = 51"
definition SSH_MSG_USERAUTH_SUCCESS :: u8 where "SSH_MSG_USERAUTH_SUCCESS = 52"
definition SSH_MSG_USERAUTH_PK_OK :: u8 where "SSH_MSG_USERAUTH_PK_OK = 60"
definition AUTH_METHOD :: bytes where "AUTH_METHOD = ascii ''publickey''"
definition MAX_AUTH_ATTEMPTS :: nat where "MAX_AUTH_ATTEMPTS = 12"

section \<open>Resolution of the key\<close>

record auth_outcome =
  ao_fingerprint :: bytes
  ao_certificate :: "cert_identity option"
  ao_pty_permitted :: bool

record candidate =
  cand_key :: bytes
  cand_outcome :: auth_outcome

definition resolve ::
  "sig_prims \<Rightarrow> bytes \<Rightarrow> bytes \<Rightarrow> bytes \<Rightarrow> bytes key_line list \<Rightarrow> verifying_key key_line list option \<Rightarrow>
     u64 option \<Rightarrow> candidate option" where
  "resolve P key_algorithm key_blob user authorized_keys trusted_cas now =
     (if key_algorithm = KEY_ALGORITHM then
        (case lookup_key authorized_keys key_blob of
           None \<Rightarrow> None
         | Some ak \<Rightarrow> Some \<lparr>cand_key = kl_key ak,
             cand_outcome = \<lparr>ao_fingerprint = kl_fingerprint ak, ao_certificate = None,
               ao_pty_permitted = True\<rparr>\<rparr>)
      else
        case (case trusted_cas of
                None \<Rightarrow> Inl UntrustedCa
              | Some cas \<Rightarrow> cert_verify P key_blob cas user now) of
          Inr c \<Rightarrow> Some \<lparr>cand_key = cert_key c,
             cand_outcome = \<lparr>ao_fingerprint = cert_fingerprint c, ao_certificate = Some (identity c),
               ao_pty_permitted = permit_pty c\<rparr>\<rparr>
        | Inl refusal \<Rightarrow> None)"

section \<open>Parsing the request\<close>

datatype request_error = NotUserauthRequest | RequestMalformed | UnexpectedService

record signed_part =
  sd_data :: bytes
  sd_signature :: bytes

datatype userauth_request =
    RequestRefused bytes \<comment> \<open>method\<close>
  | PublicKey bytes bytes bytes "signed_part option" \<comment> \<open>user, key algorithm, key blob, signature\<close>

definition utf8_field :: "nat \<Rightarrow> (request_error, bytes) reader" where
  "utf8_field bound =
     rd_bind (rd_map_err (\<lambda>_. RequestMalformed) (reader_string bound)) (\<lambda>s.
     if utf8_valid s then rd_return s else rd_fail RequestMalformed)"

text \<open>The nested signature: \<open>string("ssh-ed25519")\<close>, \<open>string(signature)\<close>, nothing after.\<close>

definition read_signature :: "(request_error, bytes) reader" where
  "read_signature =
     rd_bind (rd_map_err (\<lambda>_. RequestMalformed) (reader_string KEY_ALGO_BOUND)) (\<lambda>algorithm.
     if algorithm \<noteq> KEY_ALGORITHM then rd_fail RequestMalformed
     else
       rd_bind (rd_map_err (\<lambda>_. RequestMalformed) (reader_string SIGNATURE_BOUND)) (\<lambda>raw.
       rd_bind (rd_map_err (\<lambda>_. RequestMalformed) reader_finish) (\<lambda>_.
       rd_return raw)))"

text \<open>The fields after the message number, in wire order.\<close>

definition read_request :: "bytes \<Rightarrow> (request_error, userauth_request) reader" where
  "read_request payload =
     rd_bind (utf8_field USER_NAME_BOUND) (\<lambda>user.
     rd_bind (utf8_field SERVICE_NAME_BOUND) (\<lambda>service.
     if service \<noteq> ascii ''ssh-connection'' then rd_fail UnexpectedService else
     rd_bind (utf8_field METHOD_NAME_BOUND) (\<lambda>method.
     if method \<noteq> AUTH_METHOD then rd_return (RequestRefused method) else
     rd_bind (rd_map_err (\<lambda>_. RequestMalformed) reader_boolean) (\<lambda>sig_present.
     rd_bind (utf8_field KEY_ALGO_BOUND) (\<lambda>key_algorithm.
     if key_algorithm \<noteq> KEY_ALGORITHM \<and> key_algorithm \<noteq> CERT_ALGORITHM
     then rd_return (RequestRefused method) else
     rd_bind (rd_map_err (\<lambda>_. RequestMalformed) (reader_string
         (if key_algorithm = CERT_ALGORITHM then CERT_BLOB_BOUND else KEY_BLOB_BOUND))) (\<lambda>key_blob.
     rd_bind (\<lambda>r. Inr (take (length payload - reader_remaining r) payload, r)) (\<lambda>data.
     if sig_present then
       rd_bind (rd_map_err (\<lambda>_. RequestMalformed) (reader_string SIGNATURE_BOUND)) (\<lambda>signature.
       rd_bind (rd_map_err (\<lambda>_. RequestMalformed) reader_finish) (\<lambda>_.
       (\<lambda>r. try_bind (read_signature signature) (\<lambda>(raw_sig, _).
         Inr (PublicKey user key_algorithm key_blob
           (Some \<lparr>sd_data = data, sd_signature = raw_sig\<rparr>), r)))))
     else
       rd_bind (rd_map_err (\<lambda>_. RequestMalformed) reader_finish) (\<lambda>_.
       rd_return (PublicKey user key_algorithm key_blob None)))))))))"

definition parse_userauth_request :: "bytes \<Rightarrow> (request_error, userauth_request) result" where
  "parse_userauth_request payload =
     (case payload of
        [] \<Rightarrow> Inl NotUserauthRequest
      | msg # r \<Rightarrow>
          if msg \<noteq> SSH_MSG_USERAUTH_REQUEST then Inl NotUserauthRequest
          else try_bind (read_request payload r) (\<lambda>(q, _). Inr q))"

section \<open>Signatures and replies\<close>

definition auth_signed_data :: "bytes \<Rightarrow> bytes \<Rightarrow> bytes option" where
  "auth_signed_data session_id payload_without_sig =
     run_writer [put_string session_id, put_bytes payload_without_sig]"

text \<open>\<open>None\<close> if writing the signed data panicked, which a session identifier of 32 bytes excludes.\<close>

definition verify_auth_signature ::
  "sig_prims \<Rightarrow> bytes \<Rightarrow> bytes \<Rightarrow> bytes \<Rightarrow> bytes \<Rightarrow> bool option" where
  "verify_auth_signature P session_id payload_without_sig signature_bytes verifying_key =
     map_option (\<lambda>signed.
       if \<not> ed_sig_parses P signature_bytes then False
       else ed_verify_strict P verifying_key signed signature_bytes)
     (auth_signed_data session_id payload_without_sig)"

definition build_failure_payload :: "bool \<Rightarrow> bytes option" where
  "build_failure_payload partial_success =
     run_writer [put_byte SSH_MSG_USERAUTH_FAILURE, put_name_list AUTH_METHOD, put_boolean partial_success]"

definition build_pk_ok :: "bytes \<Rightarrow> bytes \<Rightarrow> bytes option" where
  "build_pk_ok key_algorithm key_blob =
     run_writer [put_byte SSH_MSG_USERAUTH_PK_OK, put_string key_algorithm, put_string key_blob]"

definition build_success_payload :: bytes where
  "build_success_payload = [SSH_MSG_USERAUTH_SUCCESS]"

section \<open>Properties\<close>

lemma utf8_field_Inr_iff [simp]:
  "utf8_field bound inp = Inr (s, r) \<longleftrightarrow> reader_string bound inp = Inr (s, r) \<and> utf8_valid s"
  by (auto simp: utf8_field_def rd_bind_Inr_iff split: if_splits)

lemma read_signature_Inr_iff:
  "read_signature s = Inr (raw_sig, r) \<longleftrightarrow>
     r = [] \<and> s = ssh_string KEY_ALGORITHM @ ssh_string raw_sig \<and> length raw_sig \<le> 256"
proof -
  have "length KEY_ALGORITHM \<le> KEY_ALGO_BOUND" by (simp add: KEY_ALGORITHM_def KEY_ALGO_BOUND_def)
  then show ?thesis
    by (auto simp: read_signature_def rd_bind_Inr_iff string_codec.dec_iff SIGNATURE_BOUND_def
        KEY_ALGO_BOUND_def split: if_splits)
qed

text \<open>The payload of a \<^verbatim>\<open>publickey\<close> request up to the signature field.\<close>

definition request_data :: "bytes \<Rightarrow> u8 \<Rightarrow> bytes \<Rightarrow> bytes \<Rightarrow> bytes" where
  "request_data user flag alg blob =
     50 # ssh_string user @ ssh_string (ascii ''ssh-connection'') @ ssh_string (ascii ''publickey'') @
     [flag] @ ssh_string alg @ ssh_string blob"

lemma read_request_signed:
  assumes "read_request payload s = Inr (PublicKey user alg blob (Some sd), r)"
  shows "\<exists>flag sig. flag \<noteq> 0 \<and>
    s = tl (request_data user flag alg blob) @ ssh_string (ssh_string KEY_ALGORITHM @ ssh_string sig) \<and>
    sd = \<lparr>sd_data = take (length payload - length (ssh_string (ssh_string KEY_ALGORITHM @ ssh_string sig))) payload,
          sd_signature = sig\<rparr> \<and>
    (alg = KEY_ALGORITHM \<or> alg = CERT_ALGORITHM) \<and> utf8_valid user \<and> length user \<le> 256 \<and>
    length blob \<le> (if alg = CERT_ALGORITHM then CERT_BLOB_BOUND else KEY_BLOB_BOUND) \<and> length sig \<le> 237"
  using assms unfolding read_request_def request_data_def
  by (clarsimp simp: rd_bind_Inr_iff string_codec.dec_iff reader_boolean_Inr_iff read_signature_Inr_iff
      try_bind_Inr_iff AUTH_METHOD_def reader_remaining_def USER_NAME_BOUND_def
      SIGNATURE_BOUND_def KEY_ALGORITHM_def split: if_splits)

lemma parse_signed_request:
  assumes "parse_userauth_request payload = Inr (PublicKey user alg blob (Some sd))"
  shows "\<exists>flag. flag \<noteq> 0 \<and> sd_data sd = request_data user flag alg blob \<and>
    payload = sd_data sd @ ssh_string (ssh_string (ascii ''ssh-ed25519'') @ ssh_string (sd_signature sd)) \<and>
    (alg = KEY_ALGORITHM \<or> alg = CERT_ALGORITHM) \<and> utf8_valid user \<and> length user \<le> 256 \<and>
    length blob \<le> (if alg = CERT_ALGORITHM then CERT_BLOB_BOUND else KEY_BLOB_BOUND) \<and>
    length (sd_signature sd) \<le> 237"
proof -
  obtain s r where payload: "payload = 50 # s"
    and rd: "read_request payload s = Inr (PublicKey user alg blob (Some sd), r)"
    using assms by (auto simp: parse_userauth_request_def try_bind_Inr_iff SSH_MSG_USERAUTH_REQUEST_def
        split: list.splits if_splits)
  obtain flag sig where flag: "flag \<noteq> 0"
    and s: "s = tl (request_data user flag alg blob) @ ssh_string (ssh_string KEY_ALGORITHM @ ssh_string sig)"
    and sd: "sd = \<lparr>sd_data = take (length payload - length (ssh_string (ssh_string KEY_ALGORITHM @ ssh_string sig))) payload,
          sd_signature = sig\<rparr>"
    and rest: "alg = KEY_ALGORITHM \<or> alg = CERT_ALGORITHM" "utf8_valid user" "length user \<le> 256"
      "length blob \<le> (if alg = CERT_ALGORITHM then CERT_BLOB_BOUND else KEY_BLOB_BOUND)" "length sig \<le> 237"
    using read_request_signed[OF rd] by blast
  have pl: "payload = request_data user flag alg blob @ ssh_string (ssh_string KEY_ALGORITHM @ ssh_string sig)"
    unfolding payload s by (simp add: request_data_def)
  then have "sd_data sd = request_data user flag alg blob"
    unfolding sd by (subst (1 2) pl) (simp only: signed_part.simps take_prefix)
  then show ?thesis using flag rest pl sd by (auto simp: KEY_ALGORITHM_def)
qed

lemma rd_bind_utf8_field:
  assumes "utf8_valid v" and "length v \<le> bound" and "bound \<le> u32_max"
  shows "rd_bind (utf8_field bound) k (ssh_string v @ r) = k v r"
  using assms by (intro rd_bind_step) (simp add: string_codec.dec_enc)

lemma names_utf8:
  "utf8_valid (ascii ''ssh-connection'')" "utf8_valid (ascii ''publickey'')"
  "utf8_valid KEY_ALGORITHM" "utf8_valid CERT_ALGORITHM"
  by code_simp+

lemma parse_signed_request_complete:
  assumes "flag \<noteq> 0" and "alg = KEY_ALGORITHM \<or> alg = CERT_ALGORITHM" and "utf8_valid user"
    and "length user \<le> 256" and "length blob \<le> (if alg = CERT_ALGORITHM then CERT_BLOB_BOUND else KEY_BLOB_BOUND)"
    and "length sig \<le> 237"
  defines "data \<equiv> request_data user flag alg blob"
  shows "parse_userauth_request (data @ ssh_string (ssh_string KEY_ALGORITHM @ ssh_string sig)) =
    Inr (PublicKey user alg blob (Some \<lparr>sd_data = data, sd_signature = sig\<rparr>))"
proof -
  let ?sig = "ssh_string KEY_ALGORITHM @ ssh_string sig"
  have alg: "utf8_valid alg" "length alg \<le> 64" "length KEY_ALGORITHM = 11"
    using assms(2) names_utf8 by (auto simp: KEY_ALGORITHM_def CERT_ALGORITHM_def)
  have sig: "read_signature ?sig = Inr (sig, [])"
    using assms(6) by (simp add: read_signature_Inr_iff)
  have bool: "rd_bind (rd_map_err f reader_boolean) k (b # r) = k (b \<noteq> 0) r" for f k b and r :: bytes
    by (intro rd_bind_map_err_step) (simp add: reader_boolean_Inr_iff)
  have here: "rd_bind (\<lambda>r. Inr (f r, r)) k r = k (f r) r" for f k and r :: bytes
    by (simp add: rd_bind_def)
  have blob: "length blob \<le> u32_max"
    using assms(5) by (auto simp: CERT_BLOB_BOUND_def KEY_BLOB_BOUND_def split: if_splits)
  have "read_request p (tl (data @ ssh_string ?sig)) = Inr (PublicKey user alg blob
      (Some \<lparr>sd_data = take (length p - length (ssh_string ?sig)) p, sd_signature = sig\<rparr>), [])" for p
    unfolding data_def request_data_def read_request_def
    using assms(1-6) alg sig blob names_utf8
    by (simp add: rd_bind_utf8_field rd_bind_map_err bool here USER_NAME_BOUND_def SERVICE_NAME_BOUND_def
        METHOD_NAME_BOUND_def KEY_ALGO_BOUND_def SIGNATURE_BOUND_def AUTH_METHOD_def reader_remaining_def
        del: length_ssh_string) (simp add: rd_bind_map_err)
  note read = this[of "data @ ssh_string ?sig"]
  have cons: "SSH_MSG_USERAUTH_REQUEST # tl (data @ ssh_string ?sig) = data @ ssh_string ?sig"
    by (simp add: data_def request_data_def SSH_MSG_USERAUTH_REQUEST_def)
  have "parse_userauth_request (SSH_MSG_USERAUTH_REQUEST # s) =
      try_bind (read_request (SSH_MSG_USERAUTH_REQUEST # s) s) (\<lambda>(q, _). Inr q)" for s
    by (simp add: parse_userauth_request_def)
  from this[of "tl (data @ ssh_string ?sig)"] show ?thesis
    unfolding cons read try_bind_simps prod.case take_prefix .
qed

text \<open>
  A signed \<^verbatim>\<open>publickey\<close> request is accepted exactly in its one wire form: the fields
  in order, nothing after the signature, the algorithm \<^verbatim>\<open>ssh-ed25519\<close> or its certificate within the
  bounds, the nested signature \<^verbatim>\<open>ssh-ed25519\<close>; the data that the signature must cover is then every
  byte before it.
\<close>

lemma userauth_request_exact:
  "parse_userauth_request payload = Inr (PublicKey user alg blob (Some sd)) \<longleftrightarrow>
   (\<exists>flag. flag \<noteq> 0 \<and>
      sd_data sd = 50 # ssh_string user @ ssh_string (ascii ''ssh-connection'') @
        ssh_string (ascii ''publickey'') @ [flag] @ ssh_string alg @ ssh_string blob \<and>
      payload = sd_data sd @ ssh_string (ssh_string (ascii ''ssh-ed25519'') @ ssh_string (sd_signature sd))) \<and>
   alg \<in> {KEY_ALGORITHM, CERT_ALGORITHM} \<and> utf8_valid user \<and> length user \<le> 256 \<and>
   length blob \<le> (if alg = CERT_ALGORITHM then 16384 else 1024) \<and> length (sd_signature sd) \<le> 237"
  (is "?lhs \<longleftrightarrow> ?rhs")
proof
  assume ?lhs
  then obtain flag where "flag \<noteq> 0" "sd_data sd = request_data user flag alg blob"
    "payload = sd_data sd @ ssh_string (ssh_string (ascii ''ssh-ed25519'') @ ssh_string (sd_signature sd))"
    and rest: "alg = KEY_ALGORITHM \<or> alg = CERT_ALGORITHM" "utf8_valid user" "length user \<le> 256"
      "length blob \<le> (if alg = CERT_ALGORITHM then CERT_BLOB_BOUND else KEY_BLOB_BOUND)"
      "length (sd_signature sd) \<le> 237"
    using parse_signed_request[of payload user alg blob sd] by blast
  then have "\<exists>flag. flag \<noteq> 0 \<and> sd_data sd = 50 # ssh_string user @ ssh_string (ascii ''ssh-connection'') @
        ssh_string (ascii ''publickey'') @ [flag] @ ssh_string alg @ ssh_string blob \<and>
      payload = sd_data sd @ ssh_string (ssh_string (ascii ''ssh-ed25519'') @ ssh_string (sd_signature sd))"
    unfolding request_data_def by blast
  moreover have "length blob \<le> (if alg = CERT_ALGORITHM then 16384 else 1024)"
    using rest(4) by (simp add: CERT_BLOB_BOUND_def KEY_BLOB_BOUND_def split: if_splits)
  ultimately show ?rhs using rest by blast
next
  assume rhs: ?rhs
  then obtain flag where f: "flag \<noteq> 0" "sd_data sd = request_data user flag alg blob"
    "payload = sd_data sd @ ssh_string (ssh_string (ascii ''ssh-ed25519'') @ ssh_string (sd_signature sd))"
    by (auto simp: request_data_def)
  have b: "length blob \<le> (if alg = CERT_ALGORITHM then CERT_BLOB_BOUND else KEY_BLOB_BOUND)"
    using rhs by (auto simp: CERT_BLOB_BOUND_def KEY_BLOB_BOUND_def split: if_splits)
  have "parse_userauth_request (request_data user flag alg blob @
      ssh_string (ssh_string KEY_ALGORITHM @ ssh_string (sd_signature sd))) =
    Inr (PublicKey user alg blob (Some \<lparr>sd_data = request_data user flag alg blob, sd_signature = sd_signature sd\<rparr>))"
    by (rule parse_signed_request_complete[OF f(1) _ _ _ b]) (use rhs in blast)+
  moreover have "\<lparr>sd_data = request_data user flag alg blob, sd_signature = sd_signature sd\<rparr> = sd"
    using f(2) by simp
  moreover have "request_data user flag alg blob @
      ssh_string (ssh_string KEY_ALGORITHM @ ssh_string (sd_signature sd)) = payload"
    using f(2,3) by (simp add: KEY_ALGORITHM_def)
  ultimately show ?lhs using rhs by metis
qed

lemma request_data_inject:
  assumes "request_data u f a b = request_data u' f' a' b'"
    and "length u \<le> u32_max" "length u' \<le> u32_max" "length a \<le> u32_max" "length a' \<le> u32_max"
    and "length b \<le> u32_max" "length b' \<le> u32_max"
  shows "u = u' \<and> f = f' \<and> a = a' \<and> b = b'"
proof -
  note pf = string_codec.prefix_free[where bound = u32_max]
  let ?t = "\<lambda>f a b. ssh_string (ascii ''ssh-connection'') @ ssh_string (ascii ''publickey'') @ [f] @
      ssh_string a @ ssh_string b"
  have "ssh_string u @ ?t f a b = ssh_string u' @ ?t f' a' b'"
    using assms(1) unfolding request_data_def by (rule conjunct2[OF list.inject[THEN iffD1]])
  then have u: "u = u' \<and> ?t f a b = ?t f' a' b'" by (rule pf[rotated 2]) (use assms in simp_all)
  then have f: "f = f' \<and> ssh_string a @ ssh_string b = ssh_string a' @ ssh_string b'" by simp
  then have a: "a = a' \<and> ssh_string b = ssh_string b'"
    by (intro pf[of a a' "ssh_string b" "ssh_string b'"]) (use assms in simp_all)
  then have "b = b' \<and> [] = ([] :: bytes)"
    by (intro pf[of b b' "[]" "[]"]) (use assms in simp_all)
  then show ?thesis using u f a by blast
qed


text \<open>
  Who may authenticate: a key that \<^verbatim>\<open>resolve\<close> accepts is either the key of a line of
  \<^verbatim>\<open>authorized_keys\<close> whose blob the client sent (a PTY is then permitted), or the certified key of
  a certificate that verified for that user against the configured CAs (a PTY only if it says so).
  With no CAs configured, no certificate is accepted.
\<close>

lemma resolve_sound:
  "resolve P alg blob user keys cas now = Some cand \<longleftrightarrow>
     (alg = KEY_ALGORITHM \<and> (\<exists>k. lookup_key keys blob = Some k \<and> cand = \<lparr>cand_key = kl_key k,
        cand_outcome = \<lparr>ao_fingerprint = kl_fingerprint k, ao_certificate = None, ao_pty_permitted = True\<rparr>\<rparr>)) \<or>
     (alg \<noteq> KEY_ALGORITHM \<and> (\<exists>trusted c. cas = Some trusted \<and> cert_verify P blob trusted user now = Inr c \<and>
        cand = \<lparr>cand_key = cert_key c,
          cand_outcome = \<lparr>ao_fingerprint = cert_fingerprint c, ao_certificate = Some (identity c),
            ao_pty_permitted = permit_pty c\<rparr>\<rparr>))"
  by (auto simp: resolve_def split: option.splits sum.splits)

section \<open>Witnesses\<close>

definition sample_request :: bytes where
  "sample_request = request_data (ascii ''alice'') 1 KEY_ALGORITHM [1, 2] @
     ssh_string (ssh_string KEY_ALGORITHM @ ssh_string [9])"

lemma sample_request_parses:
  "parse_userauth_request sample_request =
     Inr (PublicKey (ascii ''alice'') KEY_ALGORITHM [1, 2]
       (Some \<lparr>sd_data = request_data (ascii ''alice'') 1 KEY_ALGORITHM [1, 2], sd_signature = [9]\<rparr>))"
proof -
  have "utf8_valid (ascii ''alice'')" by code_simp
  then show ?thesis
    unfolding sample_request_def
    by (intro parse_signed_request_complete) (simp_all add: CERT_BLOB_BOUND_def KEY_BLOB_BOUND_def)
qed


lemma resolve_sound_witness:
  "resolve toy_sig KEY_ALGORITHM [1] (ascii ''alice'')
     [\<lparr>kl_blob = [1], kl_fingerprint = [2], kl_key = [3]\<rparr>] None None =
   Some \<lparr>cand_key = [3], cand_outcome = \<lparr>ao_fingerprint = [2], ao_certificate = None, ao_pty_permitted = True\<rparr>\<rparr>"
  unfolding resolve_sound by (simp add: lookup_key_def)

end
