(* ===== verification/Admission.thy ===== *)
theory Admission
  imports Prelude "HOL-Library.Multiset"
begin

text \<open>
  \<^verbatim>\<open>crates/quantumssh-core/src/admission.rs\<close>: the admission checks of the accept loop, the
  per-source token buckets, and the guards that release what a connection took.

  \<^item> An \<^verbatim>\<open>Instant\<close> is a number of nanoseconds; \<^verbatim>\<open>duration_since\<close> saturates at zero, as subtraction
    on natural numbers does. Counters are natural numbers with the saturation of the Rust
    operations written out.
  \<^item> Every operation is one critical section of the mutex, a function on the \<^verbatim>\<open>State\<close>.
    \<^verbatim>\<open>mark_authenticated\<close> sets the guard's flag before it takes the mutex, so the step relation
    \<open>adm_step\<close> has it as two steps, between which other connections may be admitted, marked or
    dropped. A guard is dropped by its owner only, never while it is being marked.
\<close>

section \<open>Limits, refusals and addresses\<close>

record limits =
  max_connections :: nat
  max_half_open :: nat
  max_per_source :: nat
  accept_rate :: nat
  accept_burst :: nat

definition default_limits :: limits where
  "default_limits = \<lparr>max_connections = 256, max_half_open = 100, max_per_source = 10,
     accept_rate = 1, accept_burst = 10\<rparr>"

datatype refusal = MaxConnections | MaxHalfOpen | MaxPerSource | AcceptRate

fun refusal_as_str :: "refusal \<Rightarrow> string" where
  "refusal_as_str MaxConnections = ''max_connections''"
| "refusal_as_str MaxHalfOpen = ''max_half_open''"
| "refusal_as_str MaxPerSource = ''max_per_source''"
| "refusal_as_str AcceptRate = ''accept_rate''"

text \<open>An address: four octets, or the eight segments of IPv6.\<close>

datatype ip_addr = V4 "u8 list" | V6 "u16 list"

text \<open>\<^verbatim>\<open>IpAddr::to_canonical\<close>: a V4-mapped address becomes its IPv4 form.\<close>

fun to_canonical :: "ip_addr \<Rightarrow> ip_addr" where
  "to_canonical (V4 os) = V4 os"
| "to_canonical (V6 segs) =
     (if take 6 segs = [0, 0, 0, 0, 0, 0xFFFF] \<and> length segs = 8
      then V4 [ucast (drop_bit 8 (segs ! 6)), ucast (segs ! 6),
               ucast (drop_bit 8 (segs ! 7)), ucast (segs ! 7)]
      else V6 segs)"

definition source_key :: "ip_addr \<Rightarrow> ip_addr" where
  "source_key ip =
     (case to_canonical ip of
        V4 os \<Rightarrow> V4 os
      | V6 segs \<Rightarrow> V6 (take 4 segs @ replicate (length segs - 4) 0))"

section \<open>Token bucket\<close>

record bucket =
  level :: nat
  refilled_at :: nat

definition bucket_full :: "limits \<Rightarrow> nat \<Rightarrow> bucket" where
  "bucket_full l now = \<lparr>level = accept_burst l, refilled_at = now\<rparr>"

definition sat_mul_u64 :: "nat \<Rightarrow> nat \<Rightarrow> nat" where
  "sat_mul_u64 a b = min u64_max (a * b)"

definition refill :: "limits \<Rightarrow> nat \<Rightarrow> bucket \<Rightarrow> bucket" where
  "refill l now b =
     (let elapsed_ms = min u64_max ((now - refilled_at b) div 1000000);
          added = sat_mul_u64 elapsed_ms (accept_rate l) div 1000 in
      if added = 0 then b
      else
        let capped = min added (accept_burst l);
            lvl = min (min u32_max (level b + capped)) (accept_burst l) in
        if lvl = accept_burst l then \<lparr>level = lvl, refilled_at = now\<rparr>
        else \<lparr>level = lvl,
               refilled_at = refilled_at b + 1000000 * (sat_mul_u64 added 1000 div accept_rate l)\<rparr>)"

definition try_take :: "limits \<Rightarrow> nat \<Rightarrow> bucket \<Rightarrow> bucket \<times> bool" where
  "try_take l now b =
     (let b' = refill l now b in
      if level b' = 0 then (b', False) else (b'\<lparr>level := level b' - 1\<rparr>, True))"

definition bucket_is_full :: "limits \<Rightarrow> nat \<Rightarrow> bucket \<Rightarrow> bucket \<times> bool" where
  "bucket_is_full l now b = (let b' = refill l now b in (b', level b' = accept_burst l))"

section \<open>Admission state\<close>

record source_state =
  src_half_open :: nat
  src_bucket :: bucket

record adm_state =
  connections :: nat
  half_open :: nat
  sources :: "ip_addr \<rightharpoonup> source_state"
  admissions_since_sweep :: nat

definition SWEEP_INTERVAL :: nat where "SWEEP_INTERVAL = 64"

definition adm_new :: adm_state where
  "adm_new = \<lparr>connections = 0, half_open = 0, sources = Map.empty, admissions_since_sweep = 0\<rparr>"

record guard =
  g_source :: ip_addr
  authenticated :: bool

text \<open>The \<^verbatim>\<open>retain\<close> of the sweep: a source with half-open connections stays untouched, an idle one
  is refilled and dropped if its bucket is full.\<close>

definition sweep :: "limits \<Rightarrow> nat \<Rightarrow> (ip_addr \<rightharpoonup> source_state) \<Rightarrow> (ip_addr \<rightharpoonup> source_state)" where
  "sweep l now m = (\<lambda>k. case m k of
      None \<Rightarrow> None
    | Some s \<Rightarrow>
        if src_half_open s > 0 then Some s
        else (case bucket_is_full l now (src_bucket s) of
                (b, full) \<Rightarrow> if full then None else Some (s\<lparr>src_bucket := b\<rparr>)))"

text \<open>The three non-mutating cap reads, in order; then the whole of \<^verbatim>\<open>try_admit\<close>.\<close>

definition cap_check :: "limits \<Rightarrow> ip_addr \<Rightarrow> adm_state \<Rightarrow> refusal option" where
  "cap_check l key st =
     (if connections st \<ge> max_connections l then Some MaxConnections
      else if half_open st \<ge> max_half_open l then Some MaxHalfOpen
      else case sources st key of
        Some s \<Rightarrow> if src_half_open s \<ge> max_per_source l then Some MaxPerSource else None
      | None \<Rightarrow> None)"

definition try_admit ::
  "limits \<Rightarrow> ip_addr \<Rightarrow> nat \<Rightarrow> adm_state \<Rightarrow> adm_state \<times> (refusal, guard) result" where
  "try_admit l ip now st =
     (let key = source_key ip in
      case cap_check l key st of
        Some r \<Rightarrow> (st, Inl r)
      | None \<Rightarrow>
        let n = admissions_since_sweep st + 1;
            st1 = (if n \<ge> SWEEP_INTERVAL
                   then st\<lparr>admissions_since_sweep := 0, sources := sweep l now (sources st)\<rparr>
                   else st\<lparr>admissions_since_sweep := n\<rparr>);
            source = (case sources st1 key of
                        Some s \<Rightarrow> s
                      | None \<Rightarrow> \<lparr>src_half_open = 0, src_bucket = bucket_full l now\<rparr>);
            (b, taken) = try_take l now (src_bucket source) in
        if \<not> taken then
          (st1\<lparr>sources := (sources st1)(key \<mapsto> source\<lparr>src_bucket := b\<rparr>)\<rparr>, Inl AcceptRate)
        else
          (st1\<lparr>connections := connections st1 + 1, half_open := half_open st1 + 1,
             sources := (sources st1)(key \<mapsto>
               source\<lparr>src_half_open := src_half_open source + 1, src_bucket := b\<rparr>)\<rparr>,
           Inr \<lparr>g_source = key, authenticated = False\<rparr>))"

text \<open>The part of \<^verbatim>\<open>mark_authenticated\<close> under the mutex, and the whole of it.\<close>

definition mark_release :: "guard \<Rightarrow> adm_state \<Rightarrow> adm_state" where
  "mark_release g st =
     st\<lparr>half_open := half_open st - 1,
        sources := (case sources st (g_source g) of
            None \<Rightarrow> sources st
          | Some s \<Rightarrow> (sources st)(g_source g \<mapsto> s\<lparr>src_half_open := src_half_open s - 1\<rparr>))\<rparr>"

definition mark_authenticated :: "guard \<Rightarrow> adm_state \<Rightarrow> adm_state \<times> guard" where
  "mark_authenticated g st =
     (if authenticated g then (st, g) else (mark_release g st, g\<lparr>authenticated := True\<rparr>))"

definition guard_drop :: "limits \<Rightarrow> nat \<Rightarrow> guard \<Rightarrow> adm_state \<Rightarrow> adm_state" where
  "guard_drop l now g st =
     (let ended_half_open = (\<not> authenticated g);
          st1 = st\<lparr>connections := connections st - 1,
                   half_open := (if ended_half_open then half_open st - 1 else half_open st)\<rparr> in
      case sources st1 (g_source g) of
        None \<Rightarrow> st1
      | Some s \<Rightarrow>
          let s1 = (if ended_half_open then s\<lparr>src_half_open := src_half_open s - 1\<rparr> else s) in
          if src_half_open s1 = 0 then
            (case bucket_is_full l now (src_bucket s1) of
               (b, full) \<Rightarrow>
                 st1\<lparr>sources := (if full then (sources st1)(g_source g := None)
                                 else (sources st1)(g_source g \<mapsto> s1\<lparr>src_bucket := b\<rparr>))\<rparr>)
          else st1\<lparr>sources := (sources st1)(g_source g \<mapsto> s1)\<rparr>)"

section \<open>The system of live connections\<close>

text \<open>
  The state and the multiset of live guards; the flag of a pair is true while
  \<^verbatim>\<open>mark_authenticated\<close> has set the guard's flag and not yet taken the mutex.
\<close>

type_synonym conns = "(guard \<times> bool) multiset"

inductive adm_step :: "limits \<Rightarrow> adm_state \<times> conns \<Rightarrow> adm_state \<times> conns \<Rightarrow> bool" for l where
  admit: "try_admit l ip now st = (st', Inr g) \<Longrightarrow> adm_step l (st, N) (st', add_mset (g, False) N)"
| refuse: "try_admit l ip now st = (st', Inl r) \<Longrightarrow> adm_step l (st, N) (st', N)"
| mark_flag: "\<not> authenticated g \<Longrightarrow>
    adm_step l (st, add_mset (g, False) N) (st, add_mset (g\<lparr>authenticated := True\<rparr>, True) N)"
| mark_lock: "adm_step l (st, add_mset (g, True) N) (mark_release g st, add_mset (g, False) N)"
| mark_again: "authenticated g \<Longrightarrow> mark_authenticated g st = (st', g') \<Longrightarrow>
    adm_step l (st, add_mset (g, False) N) (st', add_mset (g', False) N)"
| drop: "adm_step l (st, add_mset (g, False) N) (guard_drop l now g st, N)"

inductive_cases adm_stepE: "adm_step l s s'"

definition counted :: "guard \<times> bool \<Rightarrow> bool" where
  "counted c \<longleftrightarrow> \<not> authenticated (fst c) \<or> snd c"

definition src_count :: "adm_state \<Rightarrow> ip_addr \<Rightarrow> nat" where
  "src_count st k = (case sources st k of None \<Rightarrow> 0 | Some s \<Rightarrow> src_half_open s)"

definition half_open_of :: "conns \<Rightarrow> nat" where
  "half_open_of N = size (filter_mset counted N)"

definition source_of :: "ip_addr \<Rightarrow> conns \<Rightarrow> nat" where
  "source_of k N = size (filter_mset (\<lambda>c. counted c \<and> g_source (fst c) = k) N)"

lemma conns_count_simps [simp]:
  "half_open_of {#} = 0" "source_of k {#} = 0"
  "half_open_of (add_mset c N) = (if counted c then 1 else 0) + half_open_of N"
  "source_of k (add_mset c N) = (if counted c \<and> g_source (fst c) = k then 1 else 0) + source_of k N"
  by (simp_all add: half_open_of_def source_of_def)

lemma counted_simps [simp]:
  "counted (g, True)" "counted (g, False) \<longleftrightarrow> \<not> authenticated g"
  by (simp_all add: counted_def)

definition adm_inv :: "limits \<Rightarrow> adm_state \<times> conns \<Rightarrow> bool" where
  "adm_inv l s \<longleftrightarrow> (case s of (st, N) \<Rightarrow>
     connections st = size N \<and> half_open st = half_open_of N \<and> (\<forall>k. src_count st k = source_of k N) \<and>
     connections st \<le> max_connections l \<and> half_open st \<le> max_half_open l \<and>
     (\<forall>k. src_count st k \<le> max_per_source l) \<and>
     (\<forall>c\<in>#N. snd c \<longrightarrow> authenticated (fst c)))"

subsection \<open>The effect of each operation on the counts\<close>

lemma cap_check_None:
  assumes "cap_check l k st = None"
  shows "connections st < max_connections l" and "half_open st < max_half_open l"
    and "0 < max_per_source l \<Longrightarrow> src_count st k < max_per_source l"
  using assms by (auto simp: cap_check_def src_count_def split: if_splits option.splits)

lemma cap_check_refusal: "cap_check l k st \<noteq> Some AcceptRate"
  by (auto simp: cap_check_def split: option.splits)

lemma try_admit_Inl:
  assumes "try_admit l ip now st = (st', Inl r)"
  shows "connections st' = connections st" and "half_open st' = half_open st"
    and "src_count st' = src_count st"
    and "if r = AcceptRate then cap_check l (source_key ip) st = None
         else cap_check l (source_key ip) st = Some r \<and> st' = st"
  using assms cap_check_refusal[of l "source_key ip" st]
  by (auto simp: try_admit_def Let_def src_count_def sweep_def fun_eq_iff
      split: if_splits option.splits prod.splits)

lemma try_admit_Inr:
  assumes "try_admit l ip now st = (st', Inr g)"
  shows "connections st' = Suc (connections st)" and "half_open st' = Suc (half_open st)"
    and "src_count st' = (src_count st)(source_key ip := Suc (src_count st (source_key ip)))"
    and "g = \<lparr>g_source = source_key ip, authenticated = False\<rparr>"
    and "cap_check l (source_key ip) st = None"
  using assms
  by (auto simp: try_admit_def Let_def src_count_def sweep_def fun_eq_iff
      split: if_splits option.splits prod.splits)

lemma mark_release_counts:
  "connections (mark_release g st) = connections st"
  "half_open (mark_release g st) = half_open st - 1"
  "src_count (mark_release g st) = (src_count st)(g_source g := src_count st (g_source g) - 1)"
  by (auto simp: mark_release_def src_count_def fun_eq_iff split: option.splits)

lemma guard_drop_counts:
  "connections (guard_drop l now g st) = connections st - 1"
  "half_open (guard_drop l now g st) = (if authenticated g then half_open st else half_open st - 1)"
  "src_count (guard_drop l now g st) =
     (if authenticated g then src_count st
      else (src_count st)(g_source g := src_count st (g_source g) - 1))"
  by (auto simp: guard_drop_def src_count_def fun_eq_iff Let_def split: option.splits prod.splits)

lemma mark_again_same: "authenticated g \<Longrightarrow> mark_authenticated g st = (st, g)"
  by (simp add: mark_authenticated_def)

lemma adm_inv_shrink:
  assumes "adm_inv l (st, N)" and "connections st' = size N'" and "half_open st' = half_open_of N'"
    and "\<And>k. src_count st' k = source_of k N'" and "size N' \<le> size N"
    and "half_open_of N' \<le> half_open_of N" and "\<And>k. source_of k N' \<le> source_of k N"
    and "\<forall>c\<in>#N'. snd c \<longrightarrow> authenticated (fst c)"
  shows "adm_inv l (st', N')"
  using assms unfolding adm_inv_def prod.case by (metis order_trans)

lemma adm_inv_init: "adm_inv l (adm_new, {#})"
  by (simp add: adm_inv_def adm_new_def src_count_def)

lemma adm_inv_step:
  assumes "adm_step l s s'" and "adm_inv l s" and "0 < max_per_source l"
  shows "adm_inv l s'"
  using assms(1,2)
proof (cases rule: adm_step.cases)
  case (admit ip now st st' g N)
  then show ?thesis
    using assms(2,3) try_admit_Inr(1-4)[OF admit(3)] cap_check_None[OF try_admit_Inr(5)[OF admit(3)]]
    by (auto simp: adm_inv_def)
next
  case (refuse ip now st st' r N)
  then show ?thesis
    using assms(2) try_admit_Inl(1-3)[OF refuse(3)]
    unfolding refuse(2) by - (rule adm_inv_shrink[OF assms(2)[unfolded refuse(1)]]; auto simp: adm_inv_def)
next
  case (mark_flag g st N)
  then show ?thesis
    using assms(2) unfolding mark_flag(2)
    by - (rule adm_inv_shrink[OF assms(2)[unfolded mark_flag(1)]]; auto simp: adm_inv_def)
next
  case (mark_lock st g N)
  then show ?thesis
    using assms(2) unfolding mark_lock(2)
    by - (rule adm_inv_shrink[OF assms(2)[unfolded mark_lock(1)]]; auto simp: adm_inv_def mark_release_counts)
next
  case (mark_again g st st' g' N)
  then show ?thesis using assms(2) by (auto simp: mark_again_same)
next
  case (drop st g N now)
  then show ?thesis
    using assms(2) unfolding drop(2)
    by - (rule adm_inv_shrink[OF assms(2)[unfolded drop(1)]]; auto simp: adm_inv_def guard_drop_counts)
qed

section \<open>Properties of admission\<close>

text \<open>
  C5 (invariant). In every state the server can reach, through any interleaving of admissions,
  refusals, authentications and drops, the counters are exact (one connection per live guard, one
  half-open slot per guard not yet marked, per source too) and none exceeds its cap.
\<close>

theorem admission_caps_hold:
  assumes "(adm_step l)\<^sup>*\<^sup>* (adm_new, {#}) (st, N)" and "0 < max_per_source l"
  shows "connections st = size N \<and> size N \<le> max_connections l \<and>
    half_open st = size (filter_mset counted N) \<and> half_open st \<le> max_half_open l \<and>
    (\<forall>k. src_count st k = size (filter_mset (\<lambda>c. counted c \<and> g_source (fst c) = k) N) \<and>
         src_count st k \<le> max_per_source l)"
proof -
  have "adm_inv l (st, N)"
    using assms(1)
  proof (induction rule: rtranclp_induct)
    case base
    then show ?case by (rule adm_inv_init)
  next
    case (step s s')
    then show ?case using adm_inv_step assms(2) by blast
  qed
  then show ?thesis
    unfolding adm_inv_def half_open_of_def source_of_def prod.case by metis
qed

text \<open>
  A refused connection takes nothing: a cap refusal leaves the whole state untouched,
  sweep counter and buckets included, a rate refusal changes no count and happens only when all
  three caps had room, and the reason names the first check that fails.
\<close>

lemma refusal_takes_nothing:
  assumes "try_admit l ip now st = (st', Inl r)"
  shows "connections st' = connections st \<and> half_open st' = half_open st \<and>
    src_count st' = src_count st \<and> (r = AcceptRate \<or> st' = st) \<and>
    (r = MaxConnections \<longleftrightarrow> max_connections l \<le> connections st) \<and>
    (r = MaxHalfOpen \<longleftrightarrow> connections st < max_connections l \<and> max_half_open l \<le> half_open st) \<and>
    (r \<in> {MaxPerSource, AcceptRate} \<longleftrightarrow>
       connections st < max_connections l \<and> half_open st < max_half_open l)"
proof -
  have "cap_check l (source_key ip) st = Some r \<and> st' = st \<or>
      r = AcceptRate \<and> cap_check l (source_key ip) st = None"
    using try_admit_Inl(4)[OF assms] by (auto split: if_splits)
  then show ?thesis
    using try_admit_Inl(1-3)[OF assms]
    by (auto simp: cap_check_def split: if_splits option.splits)
qed

section \<open>The accept rate\<close>

text \<open>How often a bucket grants a token over a sequence of connection attempts.\<close>

fun take_run :: "limits \<Rightarrow> nat list \<Rightarrow> bucket \<Rightarrow> bucket \<times> nat" where
  "take_run l [] b = (b, 0)"
| "take_run l (now # nows) b =
     (case try_take l now b of (b1, ok) \<Rightarrow>
      case take_run l nows b1 of (b2, n) \<Rightarrow> (b2, (if ok then 1 else 0) + n))"

text \<open>The bucket's credit in nanoseconds, at \<open>q\<close> milliseconds a token.\<close>

definition credit :: "nat \<Rightarrow> bucket \<Rightarrow> int" where
  "credit q b = int (level b) * (int q * 1000000) - int (refilled_at b)"

lemma refill_exact_step:
  assumes "r * q = (1000 :: nat)"
  shows "min u64_max (e * r) div 1000 * q \<le> e"
proof -
  have "min u64_max (e * r) div 1000 \<le> e * r div (r * q)"
    unfolding assms by (intro div_le_mono) simp
  also have "\<dots> = e div q"
  proof -
    have "r \<noteq> 0" using assms by (metis mult_is_0 zero_neq_numeral)
    then show ?thesis unfolding mult.commute[of e r] by (rule div_mult_mult1)
  qed
  finally have "min u64_max (e * r) div 1000 * q \<le> e div q * q" by (rule mult_le_mono1)
  also have "\<dots> \<le> e" by (simp add: div_times_less_eq_dividend)
  finally show ?thesis .
qed

lemma refill_credit:
  assumes rq: "accept_rate l * q = 1000" and lvl: "level b \<le> accept_burst l"
    and burst: "accept_burst l \<le> u32_max"
  shows "credit q (refill l now b) \<le> credit q b" and "level (refill l now b) \<le> accept_burst l"
    and "refilled_at (refill l now b) \<le> max now (refilled_at b)"
proof -
  define e where "e = min u64_max ((now - refilled_at b) div 1000000)"
  define added where "added = min u64_max (e * accept_rate l) div 1000"
  have aq: "added * q \<le> e" unfolding added_def by (rule refill_exact_step[OF rq])
  have e: "e * 1000000 \<le> now - refilled_at b"
  proof -
    have "e * 1000000 \<le> (now - refilled_at b) div 1000000 * 1000000" by (simp add: e_def)
    also have "\<dots> \<le> now - refilled_at b" by (simp add: div_times_less_eq_dividend)
    finally show ?thesis .
  qed
  have a1000: "min u64_max (added * 1000) div accept_rate l = added * q"
  proof -
    have "r \<noteq> 0" if "r * q = 1000" for r using that by (metis mult_is_0 zero_neq_numeral)
    then have r: "accept_rate l \<noteq> 0" using rq .
    have "added * 1000 \<le> min u64_max (e * accept_rate l)"
      unfolding added_def by (rule div_times_less_eq_dividend)
    then have "min u64_max (added * 1000) = added * 1000" by simp
    also have "\<dots> = accept_rate l * (added * q)" unfolding rq[symmetric] by (simp only: ac_simps)
    finally show ?thesis
      using nonzero_mult_div_cancel_left[OF r, of "added * q"] by (simp only:)
  qed
  have step: "(added * q) * 1000000 \<le> now - refilled_at b"
    using aq e by (meson mult_le_mono1 order_trans)
  let ?lvl = "min (min u32_max (level b + min added (accept_burst l))) (accept_burst l)"
  have R: "refill l now b = (if added = 0 then b
      else if ?lvl = accept_burst l then \<lparr>level = ?lvl, refilled_at = now\<rparr>
      else \<lparr>level = ?lvl, refilled_at = refilled_at b + 1000000 * (added * q)\<rparr>)"
    unfolding refill_def Let_def sat_mul_u64_def e_def[symmetric] added_def[symmetric] a1000 ..
  consider (none) "added = 0" | (full) "added \<noteq> 0" "?lvl = accept_burst l"
    | (part) "added \<noteq> 0" "?lvl \<noteq> accept_burst l" by blast
  then have "credit q (refill l now b) \<le> credit q b \<and> level (refill l now b) \<le> accept_burst l \<and>
      refilled_at (refill l now b) \<le> max now (refilled_at b)"
  proof cases
    case none
    then show ?thesis using lvl by (simp add: R)
  next
    case full
    have "accept_burst l - level b \<le> added" using full(2) by linarith
    then have "(accept_burst l - level b) * q * 1000000 \<le> now - refilled_at b"
      using step by (meson mult_le_mono1 order_trans)
    moreover have "refilled_at b \<le> now"
    proof (rule ccontr)
      assume "\<not> refilled_at b \<le> now"
      then have "e = 0" by (simp add: e_def)
      then show False using full(1) by (simp add: added_def)
    qed
    ultimately have "int ((accept_burst l - level b) * q * 1000000) \<le> int now - int (refilled_at b)"
      by linarith
    then have "(int (accept_burst l) - int (level b)) * (int q * 1000000) \<le> int now - int (refilled_at b)"
      using lvl by (simp add: of_nat_diff mult.assoc)
    then show ?thesis
      using full by (simp add: R credit_def left_diff_distrib)
  next
    case part
    then have l: "?lvl = level b + added" using burst by linarith
    have "level b + added \<le> accept_burst l" using l by linarith
    moreover have "refilled_at b + 1000000 * (added * q) \<le> max now (refilled_at b)"
      using step by (simp add: mult.commute)
    ultimately show ?thesis
      using part l by (simp add: R credit_def algebra_simps)
  qed
  then show "credit q (refill l now b) \<le> credit q b" "level (refill l now b) \<le> accept_burst l"
    "refilled_at (refill l now b) \<le> max now (refilled_at b)" by blast+
qed

lemma take_run_credit:
  assumes "accept_rate l * q = 1000" and "accept_burst l \<le> u32_max"
    and "take_run l nows b = (b', n)" and "level b \<le> accept_burst l"
    and "\<forall>t\<in>set nows. t \<le> T" and "refilled_at b \<le> T"
  shows "credit q b' + int n * (int q * 1000000) \<le> credit q b \<and> refilled_at b' \<le> T"
  using assms(3-6)
proof (induction nows arbitrary: b n)
  case Nil
  then show ?case by simp
next
  case (Cons now nows)
  let ?r = "refill l now b"
  note rc = refill_credit[OF assms(1) Cons.prems(2) assms(2), of now]
  have rT: "refilled_at ?r \<le> T" using rc(3) Cons.prems(3,4) by (auto simp: max_def split: if_splits)
  show ?case
  proof (cases "level ?r = 0")
    case True
    then have tt: "try_take l now b = (?r, False)" by (simp add: try_take_def Let_def)
    then have "take_run l nows ?r = (b', n)" using Cons.prems(1) by (auto split: prod.splits)
    then show ?thesis using Cons.IH[of ?r n] rc rT Cons.prems(3) by fastforce
  next
    case False
    let ?t = "?r\<lparr>level := level ?r - 1\<rparr>"
    have tt: "try_take l now b = (?t, True)" using False by (simp add: try_take_def Let_def)
    then obtain m where m: "take_run l nows ?t = (b', m)" "n = Suc m"
      using Cons.prems(1) by (auto split: prod.splits)
    have "credit q ?t = credit q ?r - int q * 1000000"
      using False by (simp add: credit_def of_nat_diff algebra_simps)
    moreover have "credit q b' + int m * (int q * 1000000) \<le> credit q ?t \<and> refilled_at b' \<le> T"
      using Cons.IH[OF m(1)] rc(2) rT Cons.prems(3) by simp
    ultimately show ?thesis using rc(1) m(2) by (simp add: algebra_simps)
  qed
qed

text \<open>
  At a rate that divides 1000 (the default is 1 a second) a source never gets more
  connections than its burst plus the rate times the elapsed time, whatever the times of its
  attempts: with \<open>q = 1000 / rate\<close> milliseconds a token, \<open>n\<close> grants between the bucket's creation
  at \<open>t0\<close> and \<open>T\<close> satisfy \<open>n q \<le> burst q + (T - t0)\<close>, in nanoseconds.
\<close>

lemma accept_rate_bound:
  assumes "accept_rate l * q = 1000" and "accept_burst l \<le> u32_max"
    and "list_all (\<lambda>t. t \<le> T) nows" and "t0 \<le> T"
    and "take_run l nows (bucket_full l t0) = (b', n)"
  shows "n * (q * 1000000) \<le> accept_burst l * (q * 1000000) + (T - t0)"
proof -
  have "credit q b' + int n * (int q * 1000000) \<le> credit q (bucket_full l t0) \<and> refilled_at b' \<le> T"
    by (rule take_run_credit[OF assms(1,2,5)])
      (use assms(3,4) in \<open>auto simp: bucket_full_def list_all_iff\<close>)
  moreover have "- int T \<le> credit q b'" if "refilled_at b' \<le> T"
  proof -
    have "0 \<le> int (level b') * (int q * 1000000)" by simp
    then show ?thesis using that unfolding credit_def by linarith
  qed
  ultimately have "int n * (int q * 1000000) \<le> int (accept_burst l) * (int q * 1000000) + (int T - int t0)"
    by (simp add: bucket_full_def credit_def)
  then have "int (n * (q * 1000000)) \<le> int (accept_burst l * (q * 1000000) + (T - t0))"
    using assms(4) by (simp add: of_nat_diff)
  then show ?thesis by (simp only: of_nat_le_iff)
qed

lemma drift_refill:
  assumes "accept_rate l = 1500" and "1 < accept_burst l" and "accept_burst l \<le> u32_max"
  shows "refill l (t + 1000000) \<lparr>level = 0, refilled_at = t\<rparr> = \<lparr>level = 1, refilled_at = t\<rparr>"
  using assms by (simp add: refill_def Let_def sat_mul_u64_def)


section \<open>Aggregation keys\<close>

text \<open>
  Aggregation keys are canonical (taking the key twice changes nothing), every
  address of an IPv6 /64 outside the V4-mapped range has the key of the network, and a V4-mapped
  address has the key of the IPv4 address it maps.
\<close>

lemma source_key_aggregates:
  "source_key (source_key ip) = source_key ip \<and>
   source_key (V6 [0, 0, 0, 0, 0, 0xFFFF, x, y]) =
     source_key (V4 [ucast (drop_bit 8 x), ucast x, ucast (drop_bit 8 y), ucast y]) \<and>
   (source_key (V6 [a, b, c, d, e, f, g, h]) = V6 [a, b, c, d, 0, 0, 0, 0] \<or>
      (a, b, c, d, e, f) = (0, 0, 0, 0, 0, 0xFFFF))"
proof (intro conjI)
  show "source_key (source_key ip) = source_key ip"
  proof (cases "to_canonical ip")
    case (V4 os)
    then show ?thesis by (simp add: source_key_def)
  next
    case (V6 segs)
    let ?z = "take 4 segs @ replicate (length segs - 4) 0"
    have "take 6 ?z \<noteq> [0, 0, 0, 0, 0, 0xFFFF] \<or> length ?z \<noteq> 8"
    proof (rule ccontr)
      assume *: "\<not> ?thesis"
      then have "length segs = 8" by (auto simp: min_def split: if_splits)
      then have "take 6 ?z ! 5 = 0" by (simp add: nth_append)
      moreover have "take 6 ?z ! 5 = 0xFFFF" using * by simp
      ultimately show False by simp
    qed
    then have "to_canonical (V6 ?z) = V6 ?z" by (simp only: to_canonical.simps) auto
    then show ?thesis using V6 by (simp add: source_key_def min_def)
  qed
qed (auto simp: source_key_def eval_nat_numeral)

section \<open>Witnesses\<close>

definition sample_source :: ip_addr where
  "sample_source = V4 [192, 0, 2, 1]"

definition sample_admitted :: adm_state where
  "sample_admitted = fst (try_admit default_limits sample_source 0 adm_new)"

lemma sample_admit:
  "try_admit default_limits sample_source 0 adm_new =
     (sample_admitted, Inr \<lparr>g_source = sample_source, authenticated = False\<rparr>)"
  by (simp add: sample_admitted_def try_admit_def default_limits_def adm_new_def cap_check_def
      source_key_def sample_source_def SWEEP_INTERVAL_def try_take_def bucket_full_def refill_def
      sat_mul_u64_def Let_def)

theorem admission_caps_hold_witness: "connections sample_admitted = 1 \<and> half_open sample_admitted = 1"
proof -
  have "(adm_step default_limits)\<^sup>*\<^sup>* (adm_new, {#})
      (sample_admitted, {#(\<lparr>g_source = sample_source, authenticated = False\<rparr>, False)#})"
    using adm_step.admit[OF sample_admit] by blast
  from admission_caps_hold[OF this] show ?thesis by (simp add: default_limits_def)
qed

lemma refusal_takes_nothing_witness:
  "src_count (adm_new\<lparr>connections := 256\<rparr>) = src_count (adm_new\<lparr>connections := 256\<rparr>) \<and>
   max_connections default_limits \<le> 256"
proof -
  have "try_admit default_limits sample_source 0 (adm_new\<lparr>connections := 256\<rparr>) =
      (adm_new\<lparr>connections := 256\<rparr>, Inl MaxConnections)"
    by (simp add: try_admit_def cap_check_def default_limits_def)
  from refusal_takes_nothing[OF this] show ?thesis by simp
qed

lemma accept_rate_bound_witness: "(2 :: nat) * (1000 * 1000000) \<le> 10 * (1000 * 1000000) + 5"
proof -
  have "\<exists>b'. take_run default_limits [0, 5] (bucket_full default_limits 0) = (b', 2)"
    by (simp add: default_limits_def bucket_full_def try_take_def refill_def sat_mul_u64_def)
  then obtain b' where "take_run default_limits [0, 5] (bucket_full default_limits 0) = (b', 2)" ..
  from accept_rate_bound[of default_limits 1000 5, OF _ _ _ _ this] show ?thesis
    by (simp add: default_limits_def)
qed


end
