(* ===== verification/Transport.thy ===== *)
theory Transport
  imports Kex Cipher Auth
begin

text \<open>
  The connection under \<^verbatim>\<open>crates/quantumssh-core/src/transport.rs\<close>: the machine \<^verbatim>\<open>Expect<S, St>\<close>, its
  plaintext and encrypted packet I/O, rejections, the derivation of the cipher pair and the
  re-keying thresholds. The stages of the handshake are in \<^verbatim>\<open>Handshake\<close>, the session stage in
  \<^verbatim>\<open>Session\<close>.

  \<^item> \<open>conn\<close> is \<^verbatim>\<open>Expect\<close> with an open stage: the stage's data is the record extension.
  \<^item> The stream is what the peer sends until it closes (\<open>inp\<close>) and what was written to it
    (\<open>outp\<close>, one entry for each completed \<^verbatim>\<open>write_all\<close>). Every function reads by \<^verbatim>\<open>read_exact\<close>,
    so how the network cuts the bytes makes no difference; a read past the end is an I/O error.
  \<^item> \<open>audit\<close> holds the events logged on the audit target. \<open>sent\<close> is a history variable: the payloads
    of the packets written.
  \<^item> \<open>env\<close> is the world of the process: the cryptographic crates, the \<open>i\<close>-th draw from the random
    source, whether the \<open>i\<close>-th write succeeds, the \<open>i\<close>-th reading of the wall clock and of the
    monotonic clock (in nanoseconds), and how many bytes the \<open>i\<close>-th partial read may return (0 if
    the read is cancelled while it waits).
  \<^item> An error consumes the machine (\<^verbatim>\<open>self\<close> is moved), so it carries only the \<open>trace\<close> left behind.
    \<open>Panicked\<close> is not an error of the sources: it stands for a panic, or a key derivation that
    does not end.
\<close>

named_theorems conn_defs \<open>unfolding of the connection's plumbing\<close>

section \<open>The machine\<close>

datatype transport_error = Rejected string | Io | Panicked

datatype audit_event =
    KexFailedEvent string u32 \<comment> \<open>reason, disconnect code\<close>
  | KexCompleted bytes bytes \<comment> \<open>key exchange and host key algorithm\<close>
  | AuthFailed bytes nat \<comment> \<open>method, failure count\<close>
  | AuthSucceeded bytes bytes "cert_identity option" \<comment> \<open>identity, method, certificate fields\<close>
  | RekeyCompleted string string u64 u64 nat \<comment> \<open>initiator, trigger, bytes received and sent, seconds\<close>
  | ExecStarted bytes u32 bytes string bool "cert_identity option"
      \<comment> \<open>identity, uid, command, request type, on a pty, certificate fields\<close>
  | ExecFinished bytes u32 bytes string bool int u64 u64 "cert_identity option"
      \<comment> \<open>the same, with exit status and bytes received and sent before the certificate\<close>

record trace =
  outp :: "bytes list"
  sent :: "bytes list"
  audit :: "audit_event list"

record conn = trace +
  inp :: bytes
  draws :: nat
  writes :: nat
  clock_reads :: nat
  seq_tx :: u32
  seq_rx :: u32

record sealed = conn +
  rx :: packet_cipher
  tx :: packet_cipher
  session_id :: bytes
  client_id :: bytes

record env =
  kem :: kem_prims
  aead :: aead_prims
  sigp :: sig_prims
  rand :: "nat \<Rightarrow> nat \<Rightarrow> bytes option"
  write_ok :: "nat \<Rightarrow> bool"
  wall :: "nat \<Rightarrow> u64 option"
  mono :: "nat \<Rightarrow> nat"
  chunk :: "nat \<Rightarrow> nat"

type_synonym 'a outcome = "(transport_error \<times> trace, 'a) result"

definition fail :: "transport_error \<Rightarrow> 'z conn_scheme \<Rightarrow> 'a outcome" where
  "fail e s = Inl (e, trace.truncate s)"

section \<open>The stream\<close>

definition read_exact :: "nat \<Rightarrow> 'z conn_scheme \<Rightarrow> (bytes \<times> 'z conn_scheme) outcome" where
  "read_exact n s =
     (if length (inp s) < n then fail Io s else Inr (take n (inp s), s\<lparr>inp := drop n (inp s)\<rparr>))"

definition write_all :: "env \<Rightarrow> bytes \<Rightarrow> 'z conn_scheme \<Rightarrow> 'z conn_scheme outcome" where
  "write_all E b s =
     (let s' = s\<lparr>writes := Suc (writes s)\<rparr> in
      if write_ok E (writes s) then Inr (s'\<lparr>outp := outp s @ [b]\<rparr>) else fail Io s')"

text \<open>The next draw from the random source.\<close>

definition draw :: "env \<Rightarrow> 'z conn_scheme \<Rightarrow> (nat \<Rightarrow> bytes option) \<times> 'z conn_scheme" where
  "draw E s = (rand E (draws s), s\<lparr>draws := Suc (draws s)\<rparr>)"

section \<open>Plaintext packets\<close>

definition read_plain :: "'z conn_scheme \<Rightarrow> (bytes \<times> 'z conn_scheme) outcome" where
  "read_plain s =
     try_bind (read_exact 4 s) (\<lambda>(len_bytes, s).
     case validate_packet_length (u32_from_be_bytes len_bytes) of
       Inl _ \<Rightarrow> fail (Rejected ''malformed-packet'') s
     | Inr body_len \<Rightarrow>
         try_bind (read_exact body_len s) (\<lambda>(body, s).
         case decode_packet_body body of
           Inl _ \<Rightarrow> fail (Rejected ''malformed-packet'') s
         | Inr payload \<Rightarrow> Inr (payload, s\<lparr>seq_rx := seq_rx s + 1\<rparr>)))"

definition write_plain :: "env \<Rightarrow> bytes \<Rightarrow> 'z conn_scheme \<Rightarrow> 'z conn_scheme outcome" where
  "write_plain E payload s =
     (let (fill, s) = draw E s in
      case encode_packet fill payload of
        Inl _ \<Rightarrow> fail Io s
      | Inr packet \<Rightarrow>
          try_bind (write_all E packet s) (\<lambda>s.
          Inr (s\<lparr>seq_tx := seq_tx s + 1, sent := sent s @ [payload]\<rparr>)))"

section \<open>Rejections\<close>

definition protocol_error :: "string \<Rightarrow> rejection" where
  "protocol_error r = \<lparr>reason = r, disconnect_code = DISCONNECT_PROTOCOL_ERROR\<rparr>"

definition disconnect_payload :: "rejection \<Rightarrow> bytes option" where
  "disconnect_payload r = run_writer
     [put_byte SSH_MSG_DISCONNECT, put_uint32 (disconnect_code r),
      put_string (ascii (reason r)), put_string []]"

text \<open>The tail the rejecting methods share: send the DISCONNECT, whose failure is only logged, and
  yield the reason.\<close>

definition send_disconnect ::
  "(bytes \<Rightarrow> 'z conn_scheme \<Rightarrow> 'z conn_scheme outcome) \<Rightarrow> rejection \<Rightarrow> 'z conn_scheme \<Rightarrow>
     transport_error \<times> trace" where
  "send_disconnect send r s =
     (case disconnect_payload r of
        None \<Rightarrow> (Panicked, trace.truncate s)
      | Some p \<Rightarrow> (Rejected (reason r),
          (case send p s of Inl (_, t) \<Rightarrow> t | Inr s' \<Rightarrow> trace.truncate s')))"

definition reject_plain :: "env \<Rightarrow> rejection \<Rightarrow> 'z conn_scheme \<Rightarrow> transport_error \<times> trace" where
  "reject_plain E r s =
     send_disconnect (write_plain E) r
       (if disconnect_code r = DISCONNECT_KEY_EXCHANGE_FAILED
        then s\<lparr>audit := audit s @ [KexFailedEvent (reason r) (disconnect_code r)]\<rparr>
        else s)"

section \<open>Encrypted packets\<close>

definition frame_body_len :: "env \<Rightarrow> packet_cipher \<Rightarrow> u32 \<Rightarrow> bytes \<Rightarrow> (transport_error, nat) result" where
  "frame_body_len E c seqnr length_bytes =
     map_err (\<lambda>_. Rejected ''packet-auth-failed'') (cipher_body_len (aead E) c seqnr length_bytes)"

definition open_frame ::
  "env \<Rightarrow> packet_cipher \<Rightarrow> u32 \<Rightarrow> bytes \<Rightarrow> bytes \<Rightarrow> packet_cipher \<times> (transport_error, bytes) result" where
  "open_frame E c seqnr length_bytes body =
     map_prod id (map_err (\<lambda>_. Rejected ''packet-auth-failed''))
       (cipher_open (aead E) c seqnr length_bytes body)"

definition read_sealed :: "env \<Rightarrow> 'z sealed_scheme \<Rightarrow> (bytes \<times> 'z sealed_scheme) outcome" where
  "read_sealed E s =
     try_bind (read_exact 4 s) (\<lambda>(length_bytes, s).
     let seqnr = seq_rx s in
     case frame_body_len E (rx s) seqnr length_bytes of
       Inl e \<Rightarrow> fail e s
     | Inr body_len \<Rightarrow>
         try_bind (read_exact body_len s) (\<lambda>(body, s).
         let (c, r) = open_frame E (rx s) seqnr length_bytes body; s = s\<lparr>rx := c\<rparr> in
         case r of
           Inl e \<Rightarrow> fail e s
         | Inr payload \<Rightarrow> Inr (payload, s\<lparr>seq_rx := seq_rx s + 1\<rparr>)))"

definition write_sealed :: "env \<Rightarrow> bytes \<Rightarrow> 'z sealed_scheme \<Rightarrow> 'z sealed_scheme outcome" where
  "write_sealed E payload s =
     (let (fill, s) = draw E s;
          (c, r) = cipher_seal (aead E) fill (tx s) (seq_tx s) payload;
          s = s\<lparr>tx := c\<rparr> in
      case r of
        Inl _ \<Rightarrow> fail Io s
      | Inr packet \<Rightarrow>
          try_bind (write_all E packet s) (\<lambda>s.
          Inr (s\<lparr>seq_tx := seq_tx s + 1, sent := sent s @ [payload]\<rparr>)))"

definition reject_sealed :: "env \<Rightarrow> rejection \<Rightarrow> 'z sealed_scheme \<Rightarrow> transport_error \<times> trace" where
  "reject_sealed E r s = send_disconnect (write_sealed E) r s"

text \<open>A message under construction, \<open>None\<close> if its writer panicked.\<close>

definition send_msg ::
  "(bytes \<Rightarrow> 'z conn_scheme \<Rightarrow> 'z conn_scheme outcome) \<Rightarrow> bytes option \<Rightarrow> 'z conn_scheme \<Rightarrow>
     'z conn_scheme outcome" where
  "send_msg send msg s = (case msg of None \<Rightarrow> fail Panicked s | Some p \<Rightarrow> send p s)"

section \<open>Key schedule\<close>

definition derive_cipher_pair ::
  "env \<Rightarrow> bytes \<Rightarrow> bytes \<Rightarrow> bytes \<Rightarrow> bytes \<Rightarrow> bytes \<Rightarrow>
     (transport_error, packet_cipher \<times> packet_cipher) result" where
  "derive_cipher_pair E k h sid c2s s2c =
     (let derive = (\<lambda>letter len.
            ok_or Panicked (map_option (take len) (derive_key (sha256 (kem E)) k h letter sid len)));
          install = (\<lambda>name key_letter iv_letter.
            try_bind (derive key_letter (key_len name)) (\<lambda>key.
            try_bind (derive iv_letter (iv_len name)) (\<lambda>iv.
            map_err (\<lambda>_. Io) (packet_cipher_new name key iv)))) in
      try_bind (install c2s 0x43 0x41) (\<lambda>rx.
      try_bind (install s2c 0x44 0x42) (\<lambda>tx.
      Inr (rx, tx))))"

section \<open>Re-keying thresholds\<close>

text \<open>Durations are nanoseconds.\<close>

record rekey_thresholds =
  max_bytes :: u64
  max_interval :: nat
  max_packets :: u32
  completion_deadline :: nat

definition bsi_defaults :: "nat \<Rightarrow> rekey_thresholds" where
  "bsi_defaults handshake_budget =
     \<lparr>max_bytes = 1024 * 1024 * 1024, max_interval = 3600 * 10 ^ 9, max_packets = push_bit 31 1,
      completion_deadline = handshake_budget\<rparr>"

definition rekey_due :: "u64 \<Rightarrow> u64 \<Rightarrow> u32 \<Rightarrow> u32 \<Rightarrow> nat \<Rightarrow> rekey_thresholds \<Rightarrow> bool" where
  "rekey_due bytes_rx bytes_tx packets_rx packets_tx elapsed t \<longleftrightarrow>
     bytes_rx \<ge> max_bytes t \<or> bytes_tx \<ge> max_bytes t \<or>
     packets_rx \<ge> max_packets t \<or> packets_tx \<ge> max_packets t \<or> elapsed \<ge> max_interval t"

section \<open>Contracts of the packet I/O\<close>

text \<open>
  What a stage relies on of the functions it sends and receives with, whether in plaintext or
  sealed: a packet sent is recorded, counted and leaves the rest of the machine alone; a failure
  is an I/O error with no trace; a packet received is a prefix of the input.
\<close>

locale packet_writer =
  fixes send :: "bytes \<Rightarrow> 'z conn_scheme \<Rightarrow> 'z conn_scheme outcome"
  assumes send_ok: "send p s = Inr s' \<Longrightarrow>
      sent s' = sent s @ [p] \<and> audit s' = audit s \<and> inp s' = inp s \<and> seq_tx s' = seq_tx s + 1 \<and>
      seq_rx s' = seq_rx s \<and> clock_reads s' = clock_reads s \<and> (\<exists>b. outp s' = outp s @ [b])"
    and send_err: "send p s = Inl x \<Longrightarrow> x = (Io, trace.truncate s)"
begin

lemma disconnect_trace:
  assumes "length (reason r) \<le> u32_max"
  obtains t where "send_disconnect send r s = (Rejected (reason r), t)" "audit t = audit s"
    "sent t = sent s \<or> (\<exists>b. sent t = sent s @ [SSH_MSG_DISCONNECT # b])"
proof -
  have d: "disconnect_payload r = Some (SSH_MSG_DISCONNECT #
      u32_to_be_bytes (disconnect_code r) @ ssh_string (ascii (reason r)) @ ssh_string [])"
    using assms by (simp add: disconnect_payload_def writer_simps)
  show ?thesis
    using that send_ok send_err unfolding send_disconnect_def d
    by (fastforce simp: trace.defs split: sum.splits)
qed

lemma msg_ok:
  "send_msg send m s = Inr s' \<Longrightarrow> \<exists>p. m = Some p \<and> send p s = Inr s'"
  by (auto simp: send_msg_def fail_def split: option.splits)

lemma msg_err:
  "send_msg send m s = Inl x \<Longrightarrow> m \<noteq> None \<Longrightarrow> x = (Io, trace.truncate s)"
  by (auto simp: send_msg_def dest: send_err)

end

locale packet_reader =
  fixes recv :: "'z conn_scheme \<Rightarrow> (bytes \<times> 'z conn_scheme) outcome"
  assumes recv_ok: "recv s = Inr (p, s') \<Longrightarrow>
      trace.truncate s' = trace.truncate s \<and> seq_rx s' = seq_rx s + 1 \<and> seq_tx s' = seq_tx s \<and>
      clock_reads s' = clock_reads s \<and> (\<exists>b. inp s = b @ inp s' \<and> 4 \<le> length b)"
    and recv_err: "recv s = Inl (e, t) \<Longrightarrow> t = trace.truncate s \<and> e \<noteq> Panicked"
begin

lemma recv_ok_trace:
  assumes "recv s = Inr (p, s')"
  shows "outp s' = outp s" "sent s' = sent s" "audit s' = audit s"
  using recv_ok[OF assms] by (simp_all add: trace.defs)

end

lemma trace_simps [simp]:
  "outp (trace.truncate s) = outp s" "sent (trace.truncate s) = sent s" "audit (trace.truncate s) = audit s"
  by (simp_all add: trace.defs)

lemma read_exact_Inr:
  "read_exact n s = Inr (b, s') \<longleftrightarrow>
     n \<le> length (inp s) \<and> b = take n (inp s) \<and> s' = s\<lparr>inp := drop n (inp s)\<rparr>"
  by (auto simp: read_exact_def fail_def)

lemma read_exact_Inl: "read_exact n s = Inl x \<longleftrightarrow> length (inp s) < n \<and> x = (Io, trace.truncate s)"
  by (auto simp: read_exact_def fail_def)

text \<open>The plaintext packets of a byte stream: a packet is a valid length and a body of that length.\<close>

definition plain_packet :: "bytes \<Rightarrow> bytes \<Rightarrow> bool" where
  "plain_packet b payload \<longleftrightarrow>
     (\<exists>n. 4 \<le> length b \<and> validate_packet_length (u32_from_be_bytes (take 4 b)) = Inr n \<and>
        length b = 4 + n \<and> decode_packet_body (drop 4 b) = Inr payload)"

lemma read_plain_Inr:
  "read_plain s = Inr (p, s') \<longleftrightarrow>
     (\<exists>b. inp s = b @ inp s' \<and> plain_packet b p \<and> s' = s\<lparr>inp := inp s', seq_rx := seq_rx s + 1\<rparr>)"
  (is "?lhs \<longleftrightarrow> ?rhs")
proof
  assume ?lhs
  then obtain n where n: "4 \<le> length (inp s)" "validate_packet_length (u32_from_be_bytes (take 4 (inp s))) = Inr n"
    "n \<le> length (inp s) - 4" "decode_packet_body (take n (drop 4 (inp s))) = Inr p"
    "s' = s\<lparr>inp := drop n (drop 4 (inp s)), seq_rx := seq_rx s + 1\<rparr>"
    by (auto simp: read_plain_def try_bind_Inr_iff read_exact_Inr fail_def split: sum.splits)
  let ?b = "take (4 + n) (inp s)"
  have "drop 4 ?b = take n (drop 4 (inp s))" by (simp add: drop_take)
  then have "plain_packet ?b p" using n by (simp add: plain_packet_def)
  moreover have "inp s = ?b @ inp s'" using n(5) by (simp add: add.commute)
  ultimately show ?rhs using n(5) by auto
next
  assume ?rhs
  then obtain b where b: "inp s = b @ inp s'" "plain_packet b p" "s' = s\<lparr>inp := inp s', seq_rx := seq_rx s + 1\<rparr>"
    by blast
  then obtain n where "4 \<le> length b" "validate_packet_length (u32_from_be_bytes (take 4 b)) = Inr n"
    "length b = 4 + n" "decode_packet_body (drop 4 b) = Inr p"
    unfolding plain_packet_def by blast
  with b show ?lhs
    by (simp add: read_plain_def read_exact_def)
qed

lemma read_plain_Inl: "read_plain s = Inl (e, t) \<Longrightarrow> t = trace.truncate s \<and> e \<in> {Io, Rejected ''malformed-packet''}"
  by (auto simp: read_plain_def try_bind_Inl_iff read_exact_Inr read_exact_Inl fail_def trace.defs split: sum.splits)

lemma write_all_Inr:
  "write_all E b s = Inr s' \<longleftrightarrow> write_ok E (writes s) \<and> s' = s\<lparr>writes := Suc (writes s), outp := outp s @ [b]\<rparr>"
  by (auto simp: write_all_def fail_def Let_def)

lemma write_all_Inl:
  "write_all E b s = Inl x \<longleftrightarrow> \<not> write_ok E (writes s) \<and> x = (Io, trace.truncate s)"
  by (auto simp: write_all_def fail_def Let_def trace.defs)

lemma write_plain_Inr:
  "write_plain E p s = Inr s' \<longleftrightarrow>
     (\<exists>pkt. encode_packet (rand E (draws s)) p = Inr pkt \<and> write_ok E (writes s) \<and>
        s' = s\<lparr>draws := Suc (draws s), writes := Suc (writes s), outp := outp s @ [pkt],
               seq_tx := seq_tx s + 1, sent := sent s @ [p]\<rparr>)"
  by (auto simp: write_plain_def draw_def try_bind_Inr_iff write_all_Inr fail_def split: sum.splits)

lemma write_plain_Inl: "write_plain E p s = Inl x \<Longrightarrow> x = (Io, trace.truncate s)"
  by (auto simp: write_plain_def draw_def try_bind_Inl_iff write_all_Inl fail_def trace.defs split: sum.splits)

interpretation plain_w: packet_writer "write_plain E" for E
  by unfold_locales (auto simp: write_plain_Inr dest: write_plain_Inl)

interpretation plain_r: packet_reader read_plain
proof unfold_locales
  show "trace.truncate s' = trace.truncate s \<and> seq_rx s' = seq_rx s + 1 \<and> seq_tx s' = seq_tx s \<and>
      clock_reads s' = clock_reads s \<and> (\<exists>b. inp s = b @ inp s' \<and> 4 \<le> length b)"
    if r: "read_plain s = Inr (p, s')" for s s' :: "'a conn_scheme" and p
  proof -
    obtain b where b: "inp s = b @ inp s'" "plain_packet b p" "s' = s\<lparr>inp := inp s', seq_rx := seq_rx s + 1\<rparr>"
      using r unfolding read_plain_Inr by blast
    have "trace.truncate s' = trace.truncate s \<and> seq_rx s' = seq_rx s + 1 \<and> seq_tx s' = seq_tx s \<and>
      clock_reads s' = clock_reads s"
      by (subst (1 2 3 4) b(3)) (simp add: trace.defs)
    then show ?thesis using b(1,2) by (auto simp: plain_packet_def)
  qed
qed (use read_plain_Inl in blast)

section \<open>Sealed packet I/O\<close>

lemma cipher_open_state:
  "cipher_open P s n lb body = (s', Inr p) \<Longrightarrow> s' = cipher_advance 1 s"
  by (cases s)
    (auto simp: cipher_open_def gcm_open_def Let_def map_prod_def split: if_splits option.splits prod.splits)

lemma open_frame_Inr: "open_frame E c n lb body = (c', Inr p) \<longleftrightarrow> cipher_open (aead E) c n lb body = (c', Inr p)"
  by (cases "cipher_open (aead E) c n lb body") (auto simp: open_frame_def)

lemma open_frame_Inl: "open_frame E c n lb body = (c', Inl e) \<Longrightarrow> e = Rejected ''packet-auth-failed''"
  by (cases "cipher_open (aead E) c n lb body") (auto simp: open_frame_def map_err_def split: sum.splits)

text \<open>The sealed packets of a byte stream, under a receive cipher and a sequence number.\<close>

definition sealed_packet :: "aead_prims \<Rightarrow> packet_cipher \<Rightarrow> u32 \<Rightarrow> bytes \<Rightarrow> bytes \<Rightarrow> bool" where
  "sealed_packet P c n b payload \<longleftrightarrow>
     (\<exists>k. 4 \<le> length b \<and> cipher_body_len P c n (take 4 b) = Inr k \<and> length b = 4 + k \<and>
        snd (cipher_open P c n (take 4 b) (drop 4 b)) = Inr payload)"

lemma read_sealed_Inr:
  "read_sealed E s = Inr (p, s') \<longleftrightarrow>
     (\<exists>b. inp s = b @ inp s' \<and> sealed_packet (aead E) (rx s) (seq_rx s) b p \<and>
        s' = s\<lparr>inp := inp s', rx := cipher_advance 1 (rx s), seq_rx := seq_rx s + 1\<rparr>)"
  (is "?lhs \<longleftrightarrow> ?rhs")
proof
  assume ?lhs
  then obtain k c where k: "4 \<le> length (inp s)" "cipher_body_len (aead E) (rx s) (seq_rx s) (take 4 (inp s)) = Inr k"
    "k \<le> length (inp s) - 4"
    "cipher_open (aead E) (rx s) (seq_rx s) (take 4 (inp s)) (take k (drop 4 (inp s))) = (c, Inr p)"
    "s' = s\<lparr>inp := drop k (drop 4 (inp s)), rx := c, seq_rx := seq_rx s + 1\<rparr>"
    by (auto simp: read_sealed_def try_bind_Inr_iff read_exact_Inr fail_def frame_body_len_def open_frame_Inr
        Let_def split: sum.splits prod.splits)
  let ?b = "take (4 + k) (inp s)"
  have "drop 4 ?b = take k (drop 4 (inp s))" by (simp add: drop_take)
  then have "sealed_packet (aead E) (rx s) (seq_rx s) ?b p" using k by (simp add: sealed_packet_def)
  moreover have "inp s = ?b @ inp s'" using k(5) by (simp add: add.commute)
  moreover have "c = cipher_advance 1 (rx s)" using k(4) by (rule cipher_open_state)
  ultimately show ?rhs using k(5) by (auto intro!: exI[of _ ?b])
next
  assume ?rhs
  then obtain b where b: "inp s = b @ inp s'" "sealed_packet (aead E) (rx s) (seq_rx s) b p"
    "s' = s\<lparr>inp := inp s', rx := cipher_advance 1 (rx s), seq_rx := seq_rx s + 1\<rparr>"
    by blast
  then obtain k c where "4 \<le> length b" "cipher_body_len (aead E) (rx s) (seq_rx s) (take 4 b) = Inr k"
    "length b = 4 + k" and o: "cipher_open (aead E) (rx s) (seq_rx s) (take 4 b) (drop 4 b) = (c, Inr p)"
    unfolding sealed_packet_def by (metis prod.collapse)
  moreover have "c = cipher_advance 1 (rx s)" using o by (rule cipher_open_state)
  ultimately show ?lhs
    using b by (simp add: read_sealed_def read_exact_def frame_body_len_def open_frame_def Let_def)
qed

lemma read_sealed_Inl:
  "read_sealed E s = Inl (e, t) \<Longrightarrow> t = trace.truncate s \<and> e \<in> {Io, Rejected ''packet-auth-failed''}"
  by (auto simp: read_sealed_def try_bind_Inl_iff read_exact_Inr read_exact_Inl fail_def frame_body_len_def
      trace.defs map_err_def Let_def split: sum.splits prod.splits dest: open_frame_Inl)

lemma write_sealed_Inr:
  "write_sealed E p s = Inr s' \<longleftrightarrow>
     (\<exists>pkt. cipher_seal (aead E) (rand E (draws s)) (tx s) (seq_tx s) p = (cipher_advance 1 (tx s), Inr pkt) \<and>
        write_ok E (writes s) \<and>
        s' = s\<lparr>draws := Suc (draws s), writes := Suc (writes s), outp := outp s @ [pkt],
               seq_tx := seq_tx s + 1, sent := sent s @ [p], tx := cipher_advance 1 (tx s)\<rparr>)"
  by (auto simp: write_sealed_def draw_def try_bind_Inr_iff write_all_Inr fail_def Let_def
      split: sum.splits prod.splits dest: cipher_seal_state)

lemma write_sealed_Inl: "write_sealed E p s = Inl x \<Longrightarrow> x = (Io, trace.truncate s)"
  by (auto simp: write_sealed_def draw_def try_bind_Inl_iff write_all_Inl fail_def trace.defs Let_def
      split: sum.splits prod.splits)

interpretation sealed_w: packet_writer "write_sealed E" for E
  by unfold_locales (auto simp: write_sealed_Inr dest: write_sealed_Inl)

lemma read_sealed_frame:
  assumes "read_sealed E s = Inr (p, s')"
  shows "trace.truncate s' = trace.truncate s" "seq_rx s' = seq_rx s + 1" "seq_tx s' = seq_tx s"
    "clock_reads s' = clock_reads s" "rx s' = cipher_advance 1 (rx s)" "tx s' = tx s"
    "session_id s' = session_id s" "client_id s' = client_id s" "sealed.more s' = sealed.more s"
    "outp s' = outp s" "sent s' = sent s" "audit s' = audit s" "draws s' = draws s" "writes s' = writes s"
proof -
  have "s' = s\<lparr>inp := inp s', rx := cipher_advance 1 (rx s), seq_rx := seq_rx s + 1\<rparr>"
    using assms unfolding read_sealed_Inr by blast
  note s' = this
  show "trace.truncate s' = trace.truncate s" "seq_rx s' = seq_rx s + 1" "seq_tx s' = seq_tx s"
    "clock_reads s' = clock_reads s" "rx s' = cipher_advance 1 (rx s)" "tx s' = tx s"
    "session_id s' = session_id s" "client_id s' = client_id s" "sealed.more s' = sealed.more s"
    "outp s' = outp s" "sent s' = sent s" "audit s' = audit s" "draws s' = draws s" "writes s' = writes s"
    by (subst s'; simp add: trace.defs)+
qed

interpretation sealed_r: packet_reader "read_sealed E" for E
proof unfold_locales
  show "trace.truncate s' = trace.truncate s \<and> seq_rx s' = seq_rx s + 1 \<and> seq_tx s' = seq_tx s \<and>
      clock_reads s' = clock_reads s \<and> (\<exists>b. inp s = b @ inp s' \<and> 4 \<le> length b)"
    if r: "read_sealed E s = Inr (p, s')" for s s' :: "'a sealed_scheme" and p
    using read_sealed_frame[OF r] r unfolding read_sealed_Inr by (auto simp: sealed_packet_def)
qed (use read_sealed_Inl in blast)

text \<open>What the peer sealed under the same key and number is what is read.\<close>

lemma sealed_packet_of_seal:
  assumes "aead_ok P" and "fills fill" and "cipher_seal P fill c n p = (c', Inr pkt)"
  shows "sealed_packet P c n pkt p"
  using aead_channel.seal_open[of c c P fill n p c' pkt] assms by (auto simp: sealed_packet_def)

lemma write_sealed_small:
  assumes "fills (rand E (draws s))" and "\<forall>n. rand E (draws s) n \<noteq> None"
    and "\<forall>k n a p. gcm_encrypt (aead E) k n a p \<noteq> None" and "write_ok E (writes s)" and "length p \<le> 34987"
  obtains pkt where "write_sealed E p s = Inr (s\<lparr>draws := Suc (draws s), writes := Suc (writes s), outp := outp s @ [pkt],
               seq_tx := seq_tx s + 1, sent := sent s @ [p], tx := cipher_advance 1 (tx s)\<rparr>)"
proof -
  have "length p \<le> (case tx s of ChaCha c \<Rightarrow> 34995 | Gcm c \<Rightarrow> 34987)"
    using assms(5) by (simp split: packet_cipher.splits)
  then obtain c pkt where "cipher_seal (aead E) (rand E (draws s)) (tx s) (seq_tx s) p = (c, Inr pkt)"
    using seal_accepts_iff[OF assms(1-3)] by (metis prod.collapse)
  then show ?thesis
    using assms(4) cipher_seal_state that by (fastforce simp: write_sealed_Inr)
qed

end
