(* ===== verification/Handshake.thy ===== *)
theory Handshake
  imports Transport
begin

text \<open>
  The stages of \<^verbatim>\<open>crates/quantumssh-core/src/transport.rs\<close> up to authentication: identification,
  KEXINIT, the hybrid exchange, NEWKEYS, the service request and the user authentication loop,
  and their composition \<^verbatim>\<open>auth_phase\<close> in \<^verbatim>\<open>crates/quantumssh-core/src/server.rs\<close>.

  A stage type of the sources is a record extension of \<open>conn\<close>; \<^verbatim>\<open>ServiceRequest\<close>,
  \<^verbatim>\<open>ServiceResponse\<close> and \<^verbatim>\<open>UserAuth\<close> have the same fields and are all \<open>sealed\<close>. The handshake
  deadline is not part of the stages: it can end the connection at any point.
\<close>

section \<open>Constants and stages\<close>

definition SSH_MSG_SERVICE_REQUEST :: u8 where "SSH_MSG_SERVICE_REQUEST = 5"
definition SSH_MSG_SERVICE_ACCEPT :: u8 where "SSH_MSG_SERVICE_ACCEPT = 6"
definition DISCONNECT_SERVICE_NOT_AVAILABLE :: u32 where "DISCONNECT_SERVICE_NOT_AVAILABLE = 7"
definition DISCONNECT_BY_APPLICATION :: u32 where "DISCONNECT_BY_APPLICATION = 11"
definition SERVICE_BOUND :: nat where "SERVICE_BOUND = 64"

record kex_init = conn +
  peer_id_line :: bytes

record hybrid_init = kex_init +
  i_c :: bytes
  i_s :: bytes
  hi_negotiated :: negotiated

record new_keys = conn +
  nk_negotiated :: negotiated
  nk_shared_secret :: bytes
  nk_exchange_hash :: bytes
  nk_client_id :: bytes

record auth_accepted = sealed +
  authenticated :: auth_outcome

section \<open>Identification\<close>

text \<open>The reading loop: what was read so far is \<open>line\<close>. It ends with the input, the line feed or
  the 255-byte cap.\<close>

fun read_id_line :: "bytes \<Rightarrow> bytes \<Rightarrow> (bytes \<times> bytes) option" where
  "read_id_line line input =
     (if length line \<ge> MAX_ID_LINE then None
      else case input of
        [] \<Rightarrow> None
      | b # rest \<Rightarrow>
          if b = 0x0A then
            Some (if line \<noteq> [] \<and> last line = 0x0D then butlast line else line, rest)
          else read_id_line (line @ [b]) rest)"

declare read_id_line.simps [simp del]

definition version_exchange :: "env \<Rightarrow> conn \<Rightarrow> kex_init outcome" where
  "version_exchange E s =
     try_bind (write_all E (SERVER_ID @ [0x0D, 0x0A]) s) (\<lambda>s.
     case read_id_line [] (inp s) of
       None \<Rightarrow> fail (Rejected ''bad-identification'') s
     | Some (line, rest) \<Rightarrow>
         let s = s\<lparr>inp := rest\<rparr> in
         case parse_peer_id line of
           Inl _ \<Rightarrow> fail (Rejected ''bad-identification'') s
         | Inr _ \<Rightarrow> Inr (conn.extend (s\<lparr>seq_tx := 0, seq_rx := 0\<rparr>) (kex_init.fields line)))"

section \<open>Key exchange\<close>

definition exchange_kexinit :: "env \<Rightarrow> kex_init \<Rightarrow> hybrid_init outcome" where
  "exchange_kexinit E s =
     (let (fill, s) = draw E s in
      case build_kexinit fill of
        Inl _ \<Rightarrow> fail Io s
      | Inr ours \<Rightarrow>
          try_bind (send_msg (write_plain E) ours s) (\<lambda>s.
          try_bind (read_plain s) (\<lambda>(theirs, s).
          if theirs = [] \<or> hd theirs \<noteq> SSH_MSG_KEXINIT then
            Inl (reject_plain E (protocol_error ''first-packet-not-kexinit'') s)
          else case try_bind (parse_kexinit theirs) (\<lambda>peer. negotiate peer True) of
            Inl (KexRejected r) \<Rightarrow> Inl (reject_plain E r s)
          | Inl (KexWire e) \<Rightarrow> Inl (reject_plain E (protocol_error ''malformed-kexinit'') s)
          | Inr n \<Rightarrow>
              try_bind (if skip_guessed_packet n then try_bind (read_plain s) (\<lambda>(skipped, s). Inr s)
                        else Inr s) (\<lambda>s.
              Inr (kex_init.extend s (hybrid_init.fields theirs (the ours) n))))))"

text \<open>The client's half of the exchange after the message number, in \<^verbatim>\<open>run_hybrid\<close> and in the
  re-key.\<close>

definition read_client_init :: "(wire_error, bytes) reader" where
  "read_client_init =
     rd_bind (reader_string CLIENT_INIT_LEN) (\<lambda>ci. rd_bind reader_finish (\<lambda>_. rd_return ci))"

definition hybrid_reply :: "bytes \<Rightarrow> bytes \<Rightarrow> bytes \<Rightarrow> bytes option" where
  "hybrid_reply host_key_blob reply signature = run_writer
     [put_byte SSH_MSG_KEX_HYBRID_REPLY, put_string host_key_blob, put_string reply, put_string signature]"

definition run_hybrid :: "env \<Rightarrow> signing_key \<Rightarrow> hybrid_init \<Rightarrow> new_keys outcome" where
  "run_hybrid E host_key s =
     try_bind (read_plain s) (\<lambda>(init_payload, s).
     if init_payload = [] \<or> hd init_payload \<noteq> SSH_MSG_KEX_HYBRID_INIT then
       Inl (reject_plain E (protocol_error ''expected-hybrid-init'') s)
     else case read_client_init (tl init_payload) of
       Inl _ \<Rightarrow> Inl (reject_plain E (protocol_error ''malformed-hybrid-init'') s)
     | Inr (client_init, _) \<Rightarrow>
         let fill = (\<lambda>i. rand E (draws s + i)); s = s\<lparr>draws := draws s + 2\<rparr> in
         case hybrid_exchange_with (kem E) client_init fill of
           Inl (KexRejected r) \<Rightarrow> Inl (reject_plain E r s)
         | Inl (KexWire _) \<Rightarrow> Inl (reject_plain E (protocol_error ''malformed-hybrid-init'') s)
         | Inr out \<Rightarrow>
             case public_key_blob host_key of None \<Rightarrow> fail Panicked s | Some host_key_blob \<Rightarrow>
             case exchange_hash (sha256 (kem E))
                \<lparr>eh_client_id = peer_id_line s, eh_server_id = SERVER_ID,
                 eh_client_kexinit = i_c s, eh_server_kexinit = i_s s,
                 eh_host_key_blob = host_key_blob, eh_client_init = client_init,
                 eh_server_reply = server_reply out, eh_shared_secret = shared_secret out\<rparr>
             of None \<Rightarrow> fail Panicked s | Some h \<Rightarrow>
             case host_key_sign (sigp E) host_key h of
               Inl _ \<Rightarrow> Inl (reject_plain E (kex_failed ''rng-failure'') s)
             | Inr None \<Rightarrow> fail Panicked s
             | Inr (Some signature) \<Rightarrow>
                 try_bind (send_msg (write_plain E)
                   (hybrid_reply host_key_blob (server_reply out) signature) s) (\<lambda>s.
                 Inr (conn.extend (conn.truncate s)
                   (new_keys.fields (hi_negotiated s) (shared_secret out) h (peer_id_line s)))))"

definition ext_info_payload :: "bytes option" where
  "ext_info_payload = run_writer
     [put_byte SSH_MSG_EXT_INFO, put_uint32 1, put_string (ascii ''server-sig-algs''), put_string KEY_ALGORITHM]"

definition exchange_newkeys :: "env \<Rightarrow> new_keys \<Rightarrow> (negotiated \<times> sealed) outcome" where
  "exchange_newkeys E s =
     try_bind (write_plain E [SSH_MSG_NEWKEYS] s) (\<lambda>s.
     let s = s\<lparr>seq_tx := 0\<rparr> in
     try_bind (read_plain s) (\<lambda>(peer_newkeys, s).
     if peer_newkeys \<noteq> [SSH_MSG_NEWKEYS] then Inl (reject_plain E (protocol_error ''expected-newkeys'') s)
     else
       let s = s\<lparr>seq_rx := 0\<rparr>; n = nk_negotiated s in
       case derive_cipher_pair E (nk_shared_secret s) (nk_exchange_hash s) (nk_exchange_hash s)
              (cipher_c2s n) (cipher_s2c n) of
         Inl e \<Rightarrow> fail e s
       | Inr (new_rx, new_tx) \<Rightarrow>
           let next = conn.extend (conn.truncate s) (sealed.fields new_rx new_tx (nk_exchange_hash s) (nk_client_id s)) in
           try_bind (if ext_info n then send_msg (write_sealed E) ext_info_payload next else Inr next) (\<lambda>next.
           Inr (n, next))))"

section \<open>The service request\<close>

definition parse_service_request :: "bytes \<Rightarrow> (wire_error, bytes) result" where
  "parse_service_request payload =
     try_bind (reader_byte payload) (\<lambda>(msg, r).
     if msg \<noteq> SSH_MSG_SERVICE_REQUEST then Inl Truncated
     else try_bind (reader_string SERVICE_BOUND r) (\<lambda>(name, r).
          try_bind (reader_finish r) (\<lambda>_.
          if utf8_valid name then Inr name else Inl Truncated)))"

definition read_service_request :: "env \<Rightarrow> sealed \<Rightarrow> (bytes \<times> sealed) outcome" where
  "read_service_request E s =
     try_bind (read_sealed E s) (\<lambda>(payload, s).
     case parse_service_request payload of
       Inl _ \<Rightarrow> Inl (reject_sealed E (protocol_error ''expected-service-request'') s)
     | Inr service \<Rightarrow> Inr (service, s))"

definition deny :: "env \<Rightarrow> sealed \<Rightarrow> transport_error \<times> trace" where
  "deny E s =
     (let r = \<lparr>reason = ''service-not-available'', disconnect_code = DISCONNECT_SERVICE_NOT_AVAILABLE\<rparr> in
      case send_msg (write_sealed E) (disconnect_payload r) s of
        Inl e \<Rightarrow> e
      | Inr s' \<Rightarrow> (Rejected (reason r), trace.truncate s'))"

definition accept :: "env \<Rightarrow> sealed \<Rightarrow> sealed outcome" where
  "accept E s = send_msg (write_sealed E) (run_writer [put_byte SSH_MSG_SERVICE_ACCEPT]) s"

section \<open>User authentication\<close>

text \<open>One failed request: the audit event, the end of the budget, or the failure reply. The
  counters are those after the request.\<close>

definition too_many_attempts :: rejection where
  "too_many_attempts = \<lparr>reason = ''too-many-auth-attempts'', disconnect_code = DISCONNECT_BY_APPLICATION\<rparr>"

definition auth_refuse :: "env \<Rightarrow> bytes \<Rightarrow> nat \<Rightarrow> nat \<Rightarrow> sealed \<Rightarrow> sealed outcome" where
  "auth_refuse E method attempts failures s =
     (let s = s\<lparr>audit := audit s @ [AuthFailed method failures]\<rparr> in
      if attempts \<ge> MAX_AUTH_ATTEMPTS then Inl (reject_sealed E too_many_attempts s)
      else send_msg (write_sealed E) (build_failure_payload False) s)"

datatype auth_next = AuthDone auth_accepted | AuthContinue nat nat sealed

definition resolve_now ::
  "env \<Rightarrow> bytes key_line list \<Rightarrow> verifying_key key_line list option \<Rightarrow> bytes \<Rightarrow> bytes \<Rightarrow> bytes \<Rightarrow>
     sealed \<Rightarrow> candidate option \<times> sealed" where
  "resolve_now E keys cas alg blob user s =
     (resolve (sigp E) alg blob user keys cas (wall E (clock_reads s)),
      s\<lparr>clock_reads := Suc (clock_reads s)\<rparr>)"

fun request_reason :: "request_error \<Rightarrow> string" where
  "request_reason NotUserauthRequest = ''expected-userauth-request''"
| "request_reason RequestMalformed = ''malformed-userauth-request''"
| "request_reason UnexpectedService = ''unexpected-service-name''"

definition auth_refused :: "env \<Rightarrow> nat \<Rightarrow> nat \<Rightarrow> bytes \<Rightarrow> sealed \<Rightarrow> auth_next outcome" where
  "auth_refused E attempts failures method s =
     try_bind (auth_refuse E method (attempts + 1) (failures + 1) s) (\<lambda>s.
     Inr (AuthContinue (attempts + 1) (failures + 1) s))"

text \<open>A request with a signature.\<close>

definition auth_signed ::
  "env \<Rightarrow> bytes key_line list \<Rightarrow> verifying_key key_line list option \<Rightarrow> nat \<Rightarrow> nat \<Rightarrow>
     bytes \<Rightarrow> bytes \<Rightarrow> bytes \<Rightarrow> signed_part \<Rightarrow> sealed \<Rightarrow> auth_next outcome" where
  "auth_signed E keys cas attempts failures user alg blob sd s =
     (let (cand, s) = resolve_now E keys cas alg blob user s in
      case cand of
        None \<Rightarrow> auth_refused E attempts failures AUTH_METHOD s
      | Some c \<Rightarrow>
          (case verify_auth_signature (sigp E) (session_id s) (sd_data sd) (sd_signature sd) (cand_key c) of
             None \<Rightarrow> fail Panicked s
           | Some ok \<Rightarrow>
               if ok then
                 try_bind (write_sealed E build_success_payload s) (\<lambda>s.
                 let a = cand_outcome c;
                     s = s\<lparr>audit := audit s @ [AuthSucceeded (ao_fingerprint a) AUTH_METHOD (ao_certificate a)]\<rparr> in
                 Inr (AuthDone (sealed.extend s (auth_accepted.fields a))))
               else auth_refused E attempts failures AUTH_METHOD s))"

text \<open>A request without one, which asks whether the key would do.\<close>

definition auth_probe ::
  "env \<Rightarrow> bytes key_line list \<Rightarrow> verifying_key key_line list option \<Rightarrow> nat \<Rightarrow> nat \<Rightarrow>
     bytes \<Rightarrow> bytes \<Rightarrow> bytes \<Rightarrow> sealed \<Rightarrow> auth_next outcome" where
  "auth_probe E keys cas attempts failures user alg blob s =
     (let (cand, s) = resolve_now E keys cas alg blob user s in
      if cand = None then auth_refused E attempts failures AUTH_METHOD s
      else if attempts + 1 \<ge> MAX_AUTH_ATTEMPTS then Inl (reject_sealed E too_many_attempts s)
      else try_bind (send_msg (write_sealed E) (build_pk_ok alg blob) s) (\<lambda>s.
           Inr (AuthContinue (attempts + 1) failures s)))"

text \<open>One turn of the loop.\<close>

definition auth_step ::
  "env \<Rightarrow> bytes key_line list \<Rightarrow> verifying_key key_line list option \<Rightarrow> nat \<Rightarrow> nat \<Rightarrow> sealed \<Rightarrow>
     auth_next outcome" where
  "auth_step E keys cas attempts failures s =
     try_bind (read_sealed E s) (\<lambda>(payload, s).
     case parse_userauth_request payload of
       Inl error \<Rightarrow> Inl (reject_sealed E (protocol_error (request_reason error)) s)
     | Inr (RequestRefused method) \<Rightarrow> auth_refused E attempts failures method s
     | Inr (PublicKey user alg blob (Some sd)) \<Rightarrow> auth_signed E keys cas attempts failures user alg blob sd s
     | Inr (PublicKey user alg blob None) \<Rightarrow> auth_probe E keys cas attempts failures user alg blob s)"

lemma auth_refused_next:
  "auth_refused E a f m s = Inr x \<longleftrightarrow>
     a + 1 < MAX_AUTH_ATTEMPTS \<and>
     (\<exists>s'. x = AuthContinue (a + 1) (f + 1) s' \<and>
        send_msg (write_sealed E) (build_failure_payload False) (s\<lparr>audit := audit s @ [AuthFailed m (f + 1)]\<rparr>) = Inr s')"
  by (auto simp: auth_refused_def auth_refuse_def Let_def try_bind_Inr_iff)

lemma auth_refused_not_done [simp]:
  "auth_refused E a f m s \<noteq> Inr (AuthDone x)" "Inr (AuthDone x) \<noteq> auth_refused E a f m s"
  by (auto simp: auth_refused_def try_bind_iff)

lemma auth_step_cases:
  obtains (io) e where "read_sealed E s = Inl e" "auth_step E keys cas a f s = Inl e"
  | (malformed) payload s1 err where "read_sealed E s = Inr (payload, s1)"
      "parse_userauth_request payload = Inl err"
      "auth_step E keys cas a f s = Inl (reject_sealed E (protocol_error (request_reason err)) s1)"
  | (refused) payload s1 m where "read_sealed E s = Inr (payload, s1)"
      "parse_userauth_request payload = Inr (RequestRefused m)"
      "auth_step E keys cas a f s = auth_refused E a f m s1"
  | (signed) payload s1 user alg blob sd where "read_sealed E s = Inr (payload, s1)"
      "parse_userauth_request payload = Inr (PublicKey user alg blob (Some sd))"
      "auth_step E keys cas a f s = auth_signed E keys cas a f user alg blob sd s1"
  | (probe) payload s1 user alg blob where "read_sealed E s = Inr (payload, s1)"
      "parse_userauth_request payload = Inr (PublicKey user alg blob None)"
      "auth_step E keys cas a f s = auth_probe E keys cas a f user alg blob s1"
proof (cases "read_sealed E s")
  case (Inl e)
  then show ?thesis by (intro io) (simp_all add: auth_step_def)
next
  case (Inr r)
  then obtain payload s1 where r: "read_sealed E s = Inr (payload, s1)" by (cases r) simp
  show ?thesis
  proof (cases "parse_userauth_request payload")
    case (Inl err)
    with r show ?thesis by (intro malformed) (simp_all add: auth_step_def)
  next
    case (Inr q)
    show ?thesis
    proof (cases q)
      case (RequestRefused m)
      with r Inr show ?thesis by (intro refused) (simp_all add: auth_step_def)
    next
      case (PublicKey user alg blob sd)
      show ?thesis
      proof (cases sd)
        case None
        with r Inr PublicKey show ?thesis by (intro probe) (simp_all add: auth_step_def)
      next
        case (Some d)
        with r Inr PublicKey show ?thesis by (intro signed) (simp_all add: auth_step_def)
      qed
    qed
  qed
qed

lemma auth_signed_cases:
  fixes E :: env and s :: sealed and alg blob user keys cas
  defines "s1 \<equiv> s\<lparr>clock_reads := Suc (clock_reads s)\<rparr>"
    and "r \<equiv> resolve (sigp E) alg blob user keys cas (wall E (clock_reads s))"
  obtains (refused) "r = None \<or> (\<exists>c. r = Some c \<and>
       verify_auth_signature (sigp E) (session_id s) (sd_data sd) (sd_signature sd) (cand_key c) = Some False)"
      "auth_signed E keys cas a f user alg blob sd s = auth_refused E a f AUTH_METHOD s1"
  | (panic) c where "r = Some c"
      "verify_auth_signature (sigp E) (session_id s) (sd_data sd) (sd_signature sd) (cand_key c) = None"
      "auth_signed E keys cas a f user alg blob sd s = fail Panicked s1"
  | (success) c where "r = Some c"
      "verify_auth_signature (sigp E) (session_id s) (sd_data sd) (sd_signature sd) (cand_key c) = Some True"
      "auth_signed E keys cas a f user alg blob sd s =
         try_bind (write_sealed E build_success_payload s1) (\<lambda>s.
           Inr (AuthDone (sealed.extend (s\<lparr>audit := audit s @
             [AuthSucceeded (ao_fingerprint (cand_outcome c)) AUTH_METHOD (ao_certificate (cand_outcome c))]\<rparr>)
             (auth_accepted.fields (cand_outcome c)))))"
proof (cases r)
  case None
  then show ?thesis by (intro refused) (simp_all add: auth_signed_def resolve_now_def r_def s1_def)
next
  case (Some c)
  let ?v = "verify_auth_signature (sigp E) (session_id s) (sd_data sd) (sd_signature sd) (cand_key c)"
  consider "?v = None" | "?v = Some True" | "?v = Some False" by (cases ?v) auto
  then show ?thesis
  proof cases
    case 1
    with Some show ?thesis by (intro panic) (simp_all add: auth_signed_def resolve_now_def r_def s1_def)
  next
    case 2
    with Some show ?thesis by (intro success) (simp_all add: auth_signed_def resolve_now_def r_def s1_def Let_def)
  next
    case 3
    with Some show ?thesis by (intro refused) (simp_all add: auth_signed_def resolve_now_def r_def s1_def)
  qed
qed

lemma auth_signed_next:
  assumes "auth_signed E keys cas a f user alg blob sd s = Inr (AuthContinue a' f' s')"
  shows "auth_refused E a f AUTH_METHOD (s\<lparr>clock_reads := Suc (clock_reads s)\<rparr>) = Inr (AuthContinue a' f' s')"
  using assms
  by (cases rule: auth_signed_cases[of E alg blob user keys cas s sd a f])
    (auto simp: fail_def try_bind_Inr_iff)

lemma auth_step_continue:
  assumes "auth_step E keys cas a f s = Inr (AuthContinue a' f' s')"
  shows "a' = a + 1 \<and> a' < MAX_AUTH_ATTEMPTS"
  using assms
  by (cases rule: auth_step_cases[of E s keys cas a f])
    (auto simp: auth_refused_next auth_probe_def resolve_now_def try_bind_Inr_iff
      split: if_splits dest!: auth_signed_next)

function auth_loop ::
  "env \<Rightarrow> bytes key_line list \<Rightarrow> verifying_key key_line list option \<Rightarrow> nat \<Rightarrow> nat \<Rightarrow> sealed \<Rightarrow>
     auth_accepted outcome" where
  "auth_loop E keys cas attempts failures s =
     (case auth_step E keys cas attempts failures s of
        Inl e \<Rightarrow> Inl e
      | Inr (AuthDone s') \<Rightarrow> Inr s'
      | Inr (AuthContinue a f s') \<Rightarrow> auth_loop E keys cas a f s')"
  by pat_completeness auto
termination
  by (relation "measure (\<lambda>(E, keys, cas, a, f, s). MAX_AUTH_ATTEMPTS - a)")
    (auto dest!: auth_step_continue)

declare auth_loop.simps [simp del]

definition authenticate ::
  "env \<Rightarrow> bytes key_line list \<Rightarrow> verifying_key key_line list option \<Rightarrow> sealed \<Rightarrow> auth_accepted outcome" where
  "authenticate E keys cas s = auth_loop E keys cas 0 0 s"

section \<open>The handshake of a connection\<close>

definition auth_phase ::
  "env \<Rightarrow> signing_key \<Rightarrow> bytes key_line list \<Rightarrow> verifying_key key_line list option \<Rightarrow> conn \<Rightarrow>
     auth_accepted outcome" where
  "auth_phase E host_key keys cas s =
     try_bind (version_exchange E s) (\<lambda>t.
     try_bind (exchange_kexinit E t) (\<lambda>t.
     try_bind (run_hybrid E host_key t) (\<lambda>t.
     try_bind (exchange_newkeys E t) (\<lambda>(n, t).
     let t = t\<lparr>audit := audit t @ [KexCompleted (kex_algorithm n) (host_key_algorithm n)]\<rparr> in
     try_bind (read_service_request E t) (\<lambda>(service, responder).
     if service = ascii ''ssh-userauth'' then
       try_bind (accept E responder) (\<lambda>t. authenticate E keys cas t)
     else Inl (deny E responder))))))"

section \<open>User authentication: properties\<close>

lemma sealed_extend_simps [simp]:
  "outp (sealed.extend s x) = outp s" "sent (sealed.extend s x) = sent s" "audit (sealed.extend s x) = audit s"
  "inp (sealed.extend s x) = inp s" "draws (sealed.extend s x) = draws s" "writes (sealed.extend s x) = writes s"
  "clock_reads (sealed.extend s x) = clock_reads s" "seq_tx (sealed.extend s x) = seq_tx s"
  "seq_rx (sealed.extend s x) = seq_rx s" "rx (sealed.extend s x) = rx s" "tx (sealed.extend s x) = tx s"
  "session_id (sealed.extend s x) = session_id s" "client_id (sealed.extend s x) = client_id s"
  "authenticated (sealed.extend s (auth_accepted.fields a)) = a"
  by (simp_all add: sealed.defs auth_accepted.defs)

lemma failure_payload: "build_failure_payload False = Some (SSH_MSG_USERAUTH_FAILURE # ssh_string AUTH_METHOD @ [0])"
  by (simp add: build_failure_payload_def AUTH_METHOD_def writer_simps)

lemma sealed_msg_frame:
  assumes "send_msg (write_sealed E) m s = Inr s'"
  obtains p where "m = Some p" "sent s' = sent s @ [p]" "audit s' = audit s" "inp s' = inp s"
    "seq_rx s' = seq_rx s" "rx s' = rx s" "session_id s' = session_id s" "client_id s' = client_id s"
    "clock_reads s' = clock_reads s"
  using sealed_w.msg_ok[OF assms] that by (auto simp: write_sealed_Inr)

lemma auth_step_done:
  assumes "auth_step E keys cas a f s = Inr (AuthDone acc)"
  obtains payload s1 user alg blob sd c where "read_sealed E s = Inr (payload, s1)"
    "parse_userauth_request payload = Inr (PublicKey user alg blob (Some sd))"
    "resolve (sigp E) alg blob user keys cas (wall E (clock_reads s)) = Some c"
    "verify_auth_signature (sigp E) (session_id s) (sd_data sd) (sd_signature sd) (cand_key c) = Some True"
    "authenticated acc = cand_outcome c" "session_id acc = session_id s" "client_id acc = client_id s"
    "inp acc = inp s1" "seq_rx acc = seq_rx s + 1" "rx acc = cipher_advance 1 (rx s)"
    "sent acc = sent s @ [build_success_payload]"
    "audit acc = audit s @ [AuthSucceeded (ao_fingerprint (cand_outcome c)) AUTH_METHOD (ao_certificate (cand_outcome c))]"
proof (cases rule: auth_step_cases[of E s keys cas a f])
  case (signed payload s1 user alg blob sd)
  note fr = read_sealed_frame[OF signed(1)]
  from assms signed(3) have "auth_signed E keys cas a f user alg blob sd s1 = Inr (AuthDone acc)" by simp
  then show ?thesis
  proof (cases rule: auth_signed_cases[of E alg blob user keys cas s1 sd a f])
    case (success c)
    then obtain s2 where w: "write_sealed E build_success_payload (s1\<lparr>clock_reads := Suc (clock_reads s1)\<rparr>) = Inr s2"
      and acc: "acc = sealed.extend (s2\<lparr>audit := audit s2 @
         [AuthSucceeded (ao_fingerprint (cand_outcome c)) AUTH_METHOD (ao_certificate (cand_outcome c))]\<rparr>)
           (auth_accepted.fields (cand_outcome c))"
      using assms signed(3) by (auto simp: try_bind_iff)
    then show ?thesis
      using success fr w by (intro that[OF signed(1,2)]) (auto simp: write_sealed_Inr)
  qed (auto simp: auth_refused_next fail_def)
qed (use assms in \<open>auto simp: auth_refused_next auth_probe_def resolve_now_def try_bind_iff split: if_splits\<close>)

lemma auth_refused_more:
  assumes "auth_refused E a f m s = Inr (AuthContinue a' f' s')"
  shows "f' = f + 1 \<and> sent s' = sent s @ [SSH_MSG_USERAUTH_FAILURE # ssh_string AUTH_METHOD @ [0]] \<and>
    audit s' = audit s @ [AuthFailed m (f + 1)] \<and> inp s' = inp s \<and> seq_rx s' = seq_rx s \<and> rx s' = rx s \<and>
    session_id s' = session_id s \<and> client_id s' = client_id s"
  using assms by (auto simp: auth_refused_next failure_payload elim!: sealed_msg_frame)

lemma auth_step_more:
  assumes "auth_step E keys cas a f s = Inr (AuthContinue a' f' s')"
  shows "session_id s' = session_id s \<and> client_id s' = client_id s \<and> rx s' = cipher_advance 1 (rx s) \<and>
    seq_rx s' = seq_rx s + 1 \<and> (\<exists>b. inp s = b @ inp s') \<and>
    (\<exists>p. sent s' = sent s @ [p] \<and> p \<noteq> build_success_payload) \<and>
    ((f' = f + 1 \<and> (\<exists>m. audit s' = audit s @ [AuthFailed m (f + 1)])) \<or> (f' = f \<and> audit s' = audit s))"
proof -
  have R: ?thesis if "read_sealed E s = Inr (payload, s1)"
    "auth_refused E a f m (s1\<lparr>clock_reads := k\<rparr>) = Inr (AuthContinue a' f' s')" for payload s1 m k
    using auth_refused_more[OF that(2)] read_sealed_frame[OF that(1)] sealed_r.recv_ok[OF that(1)]
    by (auto simp: build_success_payload_def SSH_MSG_USERAUTH_FAILURE_def SSH_MSG_USERAUTH_SUCCESS_def)
  show ?thesis
  proof (cases rule: auth_step_cases[of E s keys cas a f])
    case (refused payload s1 m)
    then show ?thesis using assms R[of payload s1 m "clock_reads s1"] by simp
  next
    case (signed payload s1 user alg blob sd)
    then show ?thesis using assms auth_signed_next R by metis
  next
    case (probe payload s1 user alg blob)
    show ?thesis
    proof (cases "resolve (sigp E) alg blob user keys cas (wall E (clock_reads s1))")
      case None
      then show ?thesis using probe assms R[of payload s1]
        by (auto simp: auth_probe_def resolve_now_def)
    next
      case (Some c)
      then have "f' = f" "send_msg (write_sealed E) (build_pk_ok alg blob)
          (s1\<lparr>clock_reads := Suc (clock_reads s1)\<rparr>) = Inr s'"
        using probe assms by (auto simp: auth_probe_def resolve_now_def try_bind_iff split: if_splits)
      moreover have "build_pk_ok alg blob = Some p \<Longrightarrow> p \<noteq> build_success_payload" for p
        by (auto simp: build_pk_ok_def build_success_payload_def writer_simps SSH_MSG_USERAUTH_PK_OK_def
            SSH_MSG_USERAUTH_SUCCESS_def split: if_splits)
      ultimately show ?thesis
        using read_sealed_frame[OF probe(1)] sealed_r.recv_ok[OF probe(1)]
        by (auto elim!: sealed_msg_frame)
    qed
  qed (use assms in auto)
qed

lemma auth_reasons [simp]:
  "length (reason too_many_attempts) \<le> u32_max" "length (request_reason err) \<le> u32_max"
  by (cases err; simp add: too_many_attempts_def)+

lemma protocol_error_reason [simp]: "reason (protocol_error r) = r"
  by (simp add: protocol_error_def)

lemma sealed_rejected:
  assumes "reject_sealed E r s = (e, t)" and "length (reason r) \<le> u32_max"
  shows "e = Rejected (reason r) \<and> audit t = audit s \<and>
    (\<exists>ps. sent t = sent s @ ps \<and> length ps \<le> 1 \<and> build_success_payload \<notin> set ps)"
proof -
  obtain t' where t': "send_disconnect (write_sealed E) r s = (Rejected (reason r), t')" "audit t' = audit s"
    and ps: "sent t' = sent s \<or> (\<exists>b. sent t' = sent s @ [SSH_MSG_DISCONNECT # b])"
    using sealed_w.disconnect_trace[OF assms(2)] by blast
  have "\<exists>ps. sent t' = sent s @ ps \<and> length ps \<le> 1 \<and> build_success_payload \<notin> set ps"
    using ps by (auto simp: build_success_payload_def SSH_MSG_DISCONNECT_def SSH_MSG_USERAUTH_SUCCESS_def)
  then show ?thesis using t' assms(1) by (simp add: reject_sealed_def)
qed

lemma auth_refused_fail:
  assumes "auth_refused E a f m s = Inl (e, t)"
  shows "e \<noteq> Panicked \<and> audit t = audit s @ [AuthFailed m (f + 1)] \<and>
    (\<exists>ps. sent t = sent s @ ps \<and> length ps \<le> 1 \<and> build_success_payload \<notin> set ps)"
proof -
  let ?s = "s\<lparr>audit := audit s @ [AuthFailed m (f + 1)]\<rparr>"
  have "reject_sealed E too_many_attempts ?s = (e, t) \<or>
      send_msg (write_sealed E) (build_failure_payload False) ?s = Inl (e, t)"
    using assms by (auto simp: auth_refused_def auth_refuse_def Let_def try_bind_iff split: if_splits)
  then show ?thesis
  proof (elim disjE)
    assume 1: "reject_sealed E too_many_attempts ?s = (e, t)"
    show ?thesis using sealed_rejected[OF 1] by auto
  next
    assume 2: "send_msg (write_sealed E) (build_failure_payload False) ?s = Inl (e, t)"
    show ?thesis using sealed_w.msg_err[OF 2] by (auto simp: failure_payload)
  qed
qed

lemma auth_step_fail:
  assumes "auth_step E keys cas a f s = Inl (e, t)"
  shows "(audit t = audit s \<or> (\<exists>m. audit t = audit s @ [AuthFailed m (f + 1)])) \<and>
    (\<exists>ps. sent t = sent s @ ps \<and> length ps \<le> 1 \<and> build_success_payload \<notin> set ps)"
proof -
  have R: ?thesis if "read_sealed E s = Inr (payload, s1)"
    "auth_refused E a f m (s1\<lparr>clock_reads := k\<rparr>) = Inl (e, t)" for payload s1 m k
    using auth_refused_fail[OF that(2)] read_sealed_frame[OF that(1)] by auto
  show ?thesis
  proof (cases rule: auth_step_cases[of E s keys cas a f])
    case io
    then show ?thesis using assms read_sealed_Inl by force
  next
    case (malformed payload s1 err)
    then have "reject_sealed E (protocol_error (request_reason err)) s1 = (e, t)" using assms by simp
    from sealed_rejected[OF this] show ?thesis using read_sealed_frame[OF malformed(1)] by simp
  next
    case (refused payload s1 m)
    then show ?thesis using assms R[of payload s1 m "clock_reads s1"] by simp
  next
    case (signed payload s1 user alg blob sd)
    show ?thesis
    proof (cases rule: auth_signed_cases[of E alg blob user keys cas s1 sd a f])
      case refused
      then show ?thesis using signed assms R[of payload s1] by simp
    next
      case (panic c)
      then show ?thesis using signed assms read_sealed_frame[OF signed(1)] by (auto simp: fail_def)
    next
      case (success c)
      then show ?thesis using signed assms read_sealed_frame[OF signed(1)]
        by (auto simp: try_bind_iff dest!: write_sealed_Inl)
    qed
  next
    case (probe payload s1 user alg blob)
    let ?s = "s1\<lparr>clock_reads := Suc (clock_reads s1)\<rparr>"
    have "auth_probe E keys cas a f user alg blob s1 = Inl (e, t)" using probe(3) assms by simp
    then have "auth_refused E a f AUTH_METHOD ?s = Inl (e, t) \<or>
        reject_sealed E too_many_attempts ?s = (e, t) \<or>
        send_msg (write_sealed E) (build_pk_ok alg blob) ?s = Inl (e, t)"
      unfolding auth_probe_def resolve_now_def by (simp add: try_bind_iff split: if_splits)
    then show ?thesis
    proof (elim disjE)
      assume "auth_refused E a f AUTH_METHOD ?s = Inl (e, t)"
      then show ?thesis by (rule R[OF probe(1)])
    next
      assume 2: "reject_sealed E too_many_attempts ?s = (e, t)"
      from sealed_rejected[OF 2] show ?thesis using read_sealed_frame[OF probe(1)] by simp
    next
      assume "send_msg (write_sealed E) (build_pk_ok alg blob) ?s = Inl (e, t)"
      then show ?thesis using read_sealed_frame[OF probe(1)]
        by (auto simp: send_msg_def fail_def split: option.splits dest!: write_sealed_Inl)
    qed
  qed
qed

text \<open>The \<^verbatim>\<open>auth.failed\<close> events of one loop: consecutively numbered.\<close>

fun auth_failures :: "nat \<Rightarrow> bytes list \<Rightarrow> audit_event list" where
  "auth_failures f [] = []"
| "auth_failures f (m # ms) = AuthFailed m (f + 1) # auth_failures (f + 1) ms"

text \<open>A request that proves the possession of an accepted key, in the session \<open>sid\<close>.\<close>

definition proves_key ::
  "env \<Rightarrow> bytes key_line list \<Rightarrow> verifying_key key_line list option \<Rightarrow> bytes \<Rightarrow> bytes \<Rightarrow> auth_outcome \<Rightarrow> bool" where
  "proves_key E keys cas sid payload out \<longleftrightarrow>
     (\<exists>user alg blob sd c now.
        parse_userauth_request payload = Inr (PublicKey user alg blob (Some sd)) \<and>
        resolve (sigp E) alg blob user keys cas now = Some c \<and>
        verify_auth_signature (sigp E) sid (sd_data sd) (sd_signature sd) (cand_key c) = Some True \<and>
        out = cand_outcome c)"

lemma auth_loop_simps:
  "auth_step E keys cas a f s = Inl e \<Longrightarrow> auth_loop E keys cas a f s = Inl e"
  "auth_step E keys cas a f s = Inr (AuthDone acc) \<Longrightarrow> auth_loop E keys cas a f s = Inr acc"
  "auth_step E keys cas a f s = Inr (AuthContinue a' f' s') \<Longrightarrow>
     auth_loop E keys cas a f s = auth_loop E keys cas a' f' s'"
  by (subst auth_loop.simps, simp)+

lemma auth_loop_cases:
  obtains (stop) e where "auth_step E keys cas a f s = Inl e" "auth_loop E keys cas a f s = Inl e"
  | (finish) acc where "auth_step E keys cas a f s = Inr (AuthDone acc)" "auth_loop E keys cas a f s = Inr acc"
  | (again) a' f' s' where "auth_step E keys cas a f s = Inr (AuthContinue a' f' s')"
      "auth_loop E keys cas a f s = auth_loop E keys cas a' f' s'"
  by (metis auth_loop_simps auth_next.exhaust old.sum.exhaust)

lemma auth_failures_extend:
  assumes "auth_step E keys cas a f s = Inr (AuthContinue a' f' s')"
  obtains ms' where "audit s' @ auth_failures f' ms = audit s @ auth_failures f ms'" "length ms' \<le> Suc (length ms)"
proof (cases "f' = f + 1")
  case True
  then obtain mt where "audit s' = audit s @ [AuthFailed mt (f + 1)]" using auth_step_more[OF assms] by auto
  then show ?thesis using True by (intro that[of "mt # ms"]) simp_all
next
  case False
  then show ?thesis using auth_step_more[OF assms] by (intro that[of ms]) auto
qed

text \<open>The \<open>k\<close>-th packet of a turn is opened under the cipher advanced by \<open>k\<close>.\<close>

lemma auth_loop_sound:
  assumes "auth_loop E keys cas a f s = Inr acc" and "a < MAX_AUTH_ATTEMPTS"
  shows "\<exists>k pre b payload ps ms. a + k < MAX_AUTH_ATTEMPTS \<and> inp s = pre @ b @ inp acc \<and>
    sealed_packet (aead E) (cipher_advance k (rx s)) (seq_rx s + word_of_nat k) b payload \<and>
    proves_key E keys cas (session_id s) payload (authenticated acc) \<and>
    session_id acc = session_id s \<and> client_id acc = client_id s \<and>
    sent acc = sent s @ ps @ [build_success_payload] \<and> length ps = k \<and> build_success_payload \<notin> set ps \<and>
    audit acc = audit s @ auth_failures f ms @
      [AuthSucceeded (ao_fingerprint (authenticated acc)) AUTH_METHOD (ao_certificate (authenticated acc))] \<and>
    length ms \<le> k"
  using assms
proof (induction E keys cas a f s rule: auth_loop.induct)
  case (1 E keys cas a f s)
  show ?case
  proof (cases rule: auth_loop_cases[of E keys cas a f s])
    case (stop e)
    then show ?thesis using "1.prems" by simp
  next
    case (finish acc')
    then have "acc' = acc" using "1.prems" by simp
    from auth_step_done[OF finish(1)[unfolded this]]
    obtain payload s1 user alg blob sd c where d: "read_sealed E s = Inr (payload, s1)"
      "parse_userauth_request payload = Inr (PublicKey user alg blob (Some sd))"
      "resolve (sigp E) alg blob user keys cas (wall E (clock_reads s)) = Some c"
      "verify_auth_signature (sigp E) (session_id s) (sd_data sd) (sd_signature sd) (cand_key c) = Some True"
      "authenticated acc = cand_outcome c" "session_id acc = session_id s" "client_id acc = client_id s"
      "inp acc = inp s1" "sent acc = sent s @ [build_success_payload]"
      "audit acc = audit s @ [AuthSucceeded (ao_fingerprint (cand_outcome c)) AUTH_METHOD (ao_certificate (cand_outcome c))]"
      by metis
    obtain b where "inp s = b @ inp s1" "sealed_packet (aead E) (rx s) (seq_rx s) b payload"
      using d(1) unfolding read_sealed_Inr by blast
    moreover have "proves_key E keys cas (session_id s) payload (authenticated acc)"
      unfolding proves_key_def using d(2-5) by blast
    ultimately show ?thesis using d "1.prems"
      by (intro exI[of _ 0] exI[of _ "[]"] exI[of _ b] exI[of _ payload]) (simp add: exI[of _ "[]"])
  next
    case (again a' f' s')
    note m = auth_step_more[OF again(1)] and c = auth_step_continue[OF again(1)]
    obtain k pre b payload ps ms where ih: "a' + k < MAX_AUTH_ATTEMPTS" "inp s' = pre @ b @ inp acc"
      "sealed_packet (aead E) (cipher_advance k (rx s')) (seq_rx s' + word_of_nat k) b payload"
      "proves_key E keys cas (session_id s') payload (authenticated acc)"
      "session_id acc = session_id s'" "client_id acc = client_id s'"
      "sent acc = sent s' @ ps @ [build_success_payload]" "length ps = k" "build_success_payload \<notin> set ps"
      "audit acc = audit s' @ auth_failures f' ms @
         [AuthSucceeded (ao_fingerprint (authenticated acc)) AUTH_METHOD (ao_certificate (authenticated acc))]"
      "length ms \<le> k"
      using "1.IH"[OF again(1) refl] "1.prems" again(2) c by auto
    obtain b0 p where b0: "inp s = b0 @ inp s'" and p: "sent s' = sent s @ [p]" "p \<noteq> build_success_payload"
      using m by blast
    obtain ms' where ms': "audit s' @ auth_failures f' ms = audit s @ auth_failures f ms'" "length ms' \<le> Suc k"
      using auth_failures_extend[OF again(1), of ms] ih(11) by (metis Suc_le_mono le_trans)
    have "cipher_advance k (rx s') = cipher_advance (Suc k) (rx s)"
      "seq_rx s' + word_of_nat k = seq_rx s + word_of_nat (Suc k)"
      using m by (simp_all add: cipher_advance_add)
    note packet = ih(3)[unfolded this]
    have "audit acc = audit s @ auth_failures f ms' @
        [AuthSucceeded (ao_fingerprint (authenticated acc)) AUTH_METHOD (ao_certificate (authenticated acc))]"
      using ih(10) ms'(1) by (metis append.assoc)
    with packet ih b0 p c m ms'(2) show ?thesis
      by (rule_tac x = "Suc k" in exI, rule_tac x = "b0 @ pre" in exI, rule_tac x = b in exI,
          rule_tac x = payload in exI, rule_tac x = "p # ps" in exI, rule_tac x = ms' in exI) auto
  qed
qed

lemma auth_loop_fail:
  assumes "auth_loop E keys cas a f s = Inl (e, t)" and "a < MAX_AUTH_ATTEMPTS"
  shows "\<exists>ps ms. sent t = sent s @ ps \<and> length ps \<le> MAX_AUTH_ATTEMPTS - a \<and> build_success_payload \<notin> set ps \<and>
    audit t = audit s @ auth_failures f ms \<and> length ms \<le> MAX_AUTH_ATTEMPTS - a"
  using assms
proof (induction E keys cas a f s rule: auth_loop.induct)
  case (1 E keys cas a f s)
  show ?case
  proof (cases rule: auth_loop_cases[of E keys cas a f s])
    case (stop x)
    then have "auth_step E keys cas a f s = Inl (e, t)" using "1.prems" by simp
    note st = auth_step_fail[OF this]
    obtain ms where "audit t = audit s @ auth_failures f ms" "length ms \<le> 1"
    proof (cases "audit t = audit s")
      case True
      then show ?thesis by (intro that[of "[]"]) simp_all
    next
      case False
      then obtain m where "audit t = audit s @ [AuthFailed m (f + 1)]" using st by blast
      then show ?thesis by (intro that[of "[m]"]) simp_all
    qed
    moreover obtain ps where "sent t = sent s @ ps" "length ps \<le> 1" "build_success_payload \<notin> set ps"
      using st by blast
    ultimately show ?thesis using "1.prems"(2)
      by (rule_tac x = ps in exI, rule_tac x = ms in exI) auto
  next
    case (finish acc)
    then show ?thesis using "1.prems" by simp
  next
    case (again a' f' s')
    note m = auth_step_more[OF again(1)] and c = auth_step_continue[OF again(1)]
    obtain ps ms where ih: "sent t = sent s' @ ps" "length ps \<le> MAX_AUTH_ATTEMPTS - a'"
      "build_success_payload \<notin> set ps" "audit t = audit s' @ auth_failures f' ms" "length ms \<le> MAX_AUTH_ATTEMPTS - a'"
      using "1.IH"[OF again(1) refl] "1.prems" again(2) c by auto
    obtain p where p: "sent s' = sent s @ [p]" "p \<noteq> build_success_payload" using m by blast
    obtain ms' where ms': "audit s' @ auth_failures f' ms = audit s @ auth_failures f ms'" "length ms' \<le> Suc (length ms)"
      by (rule auth_failures_extend[OF again(1)])
    have "audit t = audit s @ auth_failures f ms'" using ih(4) ms'(1) by simp
    with ih p ms'(2) c show ?thesis
      by (rule_tac x = "p # ps" in exI, rule_tac x = ms' in exI) auto
  qed
qed

text \<open>
  C2 (safety). A connection that \<^verbatim>\<open>authenticate\<close> accepts proved a key: one of the first twelve
  packets of the stage, opened under the session's receive cipher at its sequence number, is a
  signed \<^verbatim>\<open>publickey\<close> request whose key \<^verbatim>\<open>resolve\<close> accepts and whose signature verifies over this
  session's identifier; the identity handed on is that key's. The success message is the last
  payload sent and went out once; every earlier request got one other reply, and the audit log
  has the failures, numbered from 1, and then \<^verbatim>\<open>auth.succeeded\<close> for that identity.
\<close>

theorem authenticate_sound:
  assumes "authenticate E keys cas s = Inr acc"
  shows "\<exists>k pre b payload ps ms. k < 12 \<and> inp s = pre @ b @ inp acc \<and>
    sealed_packet (aead E) (cipher_advance k (rx s)) (seq_rx s + word_of_nat k) b payload \<and>
    proves_key E keys cas (session_id s) payload (authenticated acc) \<and>
    session_id acc = session_id s \<and> client_id acc = client_id s \<and>
    sent acc = sent s @ ps @ [build_success_payload] \<and> length ps = k \<and> build_success_payload \<notin> set ps \<and>
    audit acc = audit s @ auth_failures 0 ms @
      [AuthSucceeded (ao_fingerprint (authenticated acc)) AUTH_METHOD (ao_certificate (authenticated acc))] \<and>
    length ms \<le> k"
  using auth_loop_sound[of E keys cas 0 0 s acc] assms
  by (simp add: authenticate_def MAX_AUTH_ATTEMPTS_def)

text \<open>
  A connection that fails in \<^verbatim>\<open>authenticate\<close> was never told that it succeeded: at most
  twelve replies went out, none of them \<^verbatim>\<open>SSH_MSG_USERAUTH_SUCCESS\<close>, and the audit log gained at
  most twelve \<^verbatim>\<open>auth.failed\<close> events, numbered from 1, and nothing else. The loop ends for every
  peer.
\<close>

lemma authenticate_fails_closed:
  assumes "authenticate E keys cas s = Inl (e, t)"
  shows "\<exists>ps ms. sent t = sent s @ ps \<and> length ps \<le> 12 \<and> build_success_payload \<notin> set ps \<and>
    audit t = audit s @ auth_failures 0 ms \<and> length ms \<le> 12"
  using auth_loop_fail[of E keys cas 0 0 s e t] assms
  by (simp add: authenticate_def MAX_AUTH_ATTEMPTS_def)

text \<open>A world in which the primitives and the operating system work.\<close>

definition env_works :: "env \<Rightarrow> bool" where
  "env_works E \<longleftrightarrow> aead_ok (aead E) \<and> (\<forall>k n a p. gcm_encrypt (aead E) k n a p \<noteq> None) \<and>
     (\<forall>i. fills (rand E i) \<and> (\<forall>n. rand E i n \<noteq> None)) \<and> (\<forall>i. write_ok E i)"

lemma env_works_write:
  assumes "env_works E" and "length p \<le> 34987"
  obtains pkt where "write_sealed E p s = Inr (s\<lparr>draws := Suc (draws s), writes := Suc (writes s), outp := outp s @ [pkt],
               seq_tx := seq_tx s + 1, sent := sent s @ [p], tx := cipher_advance 1 (tx s)\<rparr>)"
proof (rule write_sealed_small[OF _ _ _ _ assms(2)])
  show "fills (rand E (draws s))" "\<forall>n. rand E (draws s) n \<noteq> None" "write_ok E (writes s)"
    "\<forall>k n a p. gcm_encrypt (aead E) k n a p \<noteq> None"
    using assms(1) by (simp_all add: env_works_def)
qed

lemma auth_accepts_packet:
  assumes "env_works E" and "parse_userauth_request p = Inr (PublicKey user alg blob (Some sd))"
    and "resolve (sigp E) alg blob user keys cas (wall E (clock_reads s)) = Some c"
    and "verify_auth_signature (sigp E) (session_id s) (sd_data sd) (sd_signature sd) (cand_key c) = Some True"
    and "sealed_packet (aead E) (rx s) (seq_rx s) b p" and "inp s = b @ rest"
  shows "\<exists>acc. authenticate E keys cas s = Inr acc \<and> authenticated acc = cand_outcome c \<and>
    session_id acc = session_id s \<and> inp acc = rest"
proof -
  let ?s = "s\<lparr>inp := rest, rx := cipher_advance 1 (rx s), seq_rx := seq_rx s + 1\<rparr>"
  have rd: "read_sealed E s = Inr (p, ?s)"
    using assms(5,6) unfolding read_sealed_Inr by (intro exI[of _ b]) simp
  let ?s1 = "?s\<lparr>clock_reads := Suc (clock_reads s)\<rparr>"
  obtain pk where w: "write_sealed E build_success_payload ?s1 = Inr (?s1\<lparr>draws := Suc (draws ?s1),
      writes := Suc (writes ?s1), outp := outp ?s1 @ [pk], seq_tx := seq_tx ?s1 + 1,
      sent := sent ?s1 @ [build_success_payload], tx := cipher_advance 1 (tx ?s1)\<rparr>)"
    by (rule env_works_write[OF assms(1), of build_success_payload ?s1]) (simp_all add: build_success_payload_def)
  have "\<exists>acc. auth_step E keys cas 0 0 s = Inr (AuthDone acc) \<and> authenticated acc = cand_outcome c \<and>
      session_id acc = session_id s \<and> inp acc = rest"
    using assms(2-4) by (simp add: auth_step_def rd auth_signed_def resolve_now_def w Let_def del: One_nat_def)
  then show ?thesis unfolding authenticate_def using auth_loop_simps(2) by blast
qed

lemma auth_accepts:
  assumes "env_works E" and "parse_userauth_request p = Inr (PublicKey user alg blob (Some sd))"
    and "resolve (sigp E) alg blob user keys cas (wall E (clock_reads s)) = Some c"
    and "verify_auth_signature (sigp E) (session_id s) (sd_data sd) (sd_signature sd) (cand_key c) = Some True"
    and "fills fill" and "cipher_seal (aead E) fill (rx s) (seq_rx s) p = (peer, Inr pkt)" and "inp s = pkt @ rest"
  shows "\<exists>acc. authenticate E keys cas s = Inr acc \<and> authenticated acc = cand_outcome c \<and>
    session_id acc = session_id s \<and> inp acc = rest"
  by (rule auth_accepts_packet[OF assms(1-4) sealed_packet_of_seal[OF _ assms(5,6)] assms(7)])
    (use assms(1) in \<open>simp add: env_works_def\<close>)

text \<open>
  A client that sends, as its first packet of the stage and sealed as the session
  demands, a signed request for an accepted key is authenticated, with that key's identity, when
  the primitives and the operating system work.
\<close>

lemma authenticate_accepts:
  assumes "env_works E" and "parse_userauth_request p = Inr (PublicKey user alg blob (Some sd))"
    and "resolve (sigp E) alg blob user keys cas (wall E (clock_reads s)) = Some c"
    and "verify_auth_signature (sigp E) (session_id s) (sd_data sd) (sd_signature sd) (cand_key c) = Some True"
    and "fills fill" and "cipher_seal (aead E) fill (rx s) (seq_rx s) p = (peer, Inr pkt)" and "inp s = pkt @ rest"
  shows "\<exists>acc. authenticate E keys cas s = Inr acc \<and> authenticated acc = cand_outcome c \<and>
    session_id acc = session_id s \<and> inp acc = rest"
  by (rule auth_accepts[OF assms])

section \<open>Key exchange: properties\<close>

lemma conn_extend_simps [simp]:
  "outp (conn.extend s x) = outp s" "sent (conn.extend s x) = sent s" "audit (conn.extend s x) = audit s"
  "inp (conn.extend s x) = inp s" "draws (conn.extend s x) = draws s" "writes (conn.extend s x) = writes s"
  "clock_reads (conn.extend s x) = clock_reads s" "seq_tx (conn.extend s x) = seq_tx s"
  "seq_rx (conn.extend s x) = seq_rx s"
  by (simp_all add: conn.defs)

lemma conn_truncate_simps [simp]:
  "outp (conn.truncate s) = outp s" "sent (conn.truncate s) = sent s" "audit (conn.truncate s) = audit s"
  "inp (conn.truncate s) = inp s" "draws (conn.truncate s) = draws s" "writes (conn.truncate s) = writes s"
  "clock_reads (conn.truncate s) = clock_reads s" "seq_tx (conn.truncate s) = seq_tx s"
  "seq_rx (conn.truncate s) = seq_rx s"
  by (simp_all add: conn.defs)

lemma stage_extend_simps [simp]:
  "peer_id_line (conn.extend s (kex_init.fields l)) = l"
  "nk_negotiated (conn.extend s (new_keys.fields n k h l)) = n"
  "nk_shared_secret (conn.extend s (new_keys.fields n k h l)) = k"
  "nk_exchange_hash (conn.extend s (new_keys.fields n k h l)) = h"
  "nk_client_id (conn.extend s (new_keys.fields n k h l)) = l"
  "rx (conn.extend s (sealed.fields r w h l)) = r" "tx (conn.extend s (sealed.fields r w h l)) = w"
  "session_id (conn.extend s (sealed.fields r w h l)) = h" "client_id (conn.extend s (sealed.fields r w h l)) = l"
  by (simp_all add: conn.defs kex_init.defs new_keys.defs sealed.defs)

lemma kex_init_extend_simps [simp]:
  "outp (kex_init.extend s x) = outp s" "sent (kex_init.extend s x) = sent s" "audit (kex_init.extend s x) = audit s"
  "inp (kex_init.extend s x) = inp s" "seq_tx (kex_init.extend s x) = seq_tx s"
  "seq_rx (kex_init.extend s x) = seq_rx s" "peer_id_line (kex_init.extend s x) = peer_id_line s"
  "i_c (kex_init.extend s (hybrid_init.fields c v n)) = c" "i_s (kex_init.extend s (hybrid_init.fields c v n)) = v"
  "hi_negotiated (kex_init.extend s (hybrid_init.fields c v n)) = n"
  by (simp_all add: kex_init.defs hybrid_init.defs)

lemma version_exchange_ok:
  assumes "version_exchange E s = Inr t"
  obtains line where "read_id_line [] (inp s) = Some (line, inp t)" "\<exists>i. parse_peer_id line = Inr i"
    "peer_id_line t = line" "sent t = sent s" "audit t = audit s" "seq_tx t = 0" "seq_rx t = 0"
  using assms that
  by (auto simp: version_exchange_def try_bind_iff write_all_Inr fail_def Let_def
      split: option.splits sum.splits prod.splits)

lemma plain_read_ok:
  assumes "read_plain s = Inr (p, s')"
  obtains b where "inp s = b @ inp s'" "plain_packet b p" "s' = s\<lparr>inp := inp s', seq_rx := seq_rx s + 1\<rparr>"
  using assms unfolding read_plain_Inr by blast

lemma exchange_kexinit_ok:
  assumes "exchange_kexinit E s = Inr t"
  obtains b g peer where "inp s = b @ g @ inp t" "plain_packet b (i_c t)" "parse_kexinit (i_c t) = Inr peer"
    "negotiate peer True = Inr (hi_negotiated t)"
    "if skip_guessed_packet (hi_negotiated t) then \<exists>p. plain_packet g p else g = []"
    "build_kexinit (rand E (draws s)) = Inr (Some (i_s t))" "sent t = sent s @ [i_s t]" "audit t = audit s"
    "peer_id_line t = peer_id_line s"
proof -
  let ?s0 = "s\<lparr>draws := Suc (draws s)\<rparr>"
  obtain ours where ours: "build_kexinit (rand E (draws s)) = Inr ours"
    using assms by (cases "build_kexinit (rand E (draws s))") (auto simp: exchange_kexinit_def draw_def fail_def)
  note k = assms[unfolded exchange_kexinit_def draw_def Let_def prod.case ours sum.case]
  from k obtain s1 where w: "send_msg (write_plain E) ours ?s0 = Inr s1"
    by (rule try_bind_InrE)
  note k = k[unfolded w try_bind_simps]
  from k obtain x where "read_plain s1 = Inr x" by (rule try_bind_InrE)
  then obtain theirs s2 where r: "read_plain s1 = Inr (theirs, s2)" by (cases x) simp
  note k = k[unfolded r try_bind_simps prod.case]
  have "\<not> (theirs = [] \<or> hd theirs \<noteq> SSH_MSG_KEXINIT)" using k by (auto split: if_split_asm)
  note k = k[unfolded if_not_P[OF this]]
  obtain n where n0: "try_bind (parse_kexinit theirs) (\<lambda>peer. negotiate peer True) = Inr n"
    using k by (auto split: sum.splits kex_error.splits)
  then obtain peer where n: "parse_kexinit theirs = Inr peer" "negotiate peer True = Inr n"
    by (rule try_bind_InrE)
  note k = k[unfolded n0 sum.case]
  from k obtain s3 where
    g: "(if skip_guessed_packet n then try_bind (read_plain s2) (\<lambda>(skipped, s). Inr s) else Inr s2) = Inr s3"
    by (rule try_bind_InrE)
  have t: "t = kex_init.extend s3 (hybrid_init.fields theirs (the ours) n)"
    using k[unfolded g] by simp
  obtain p where p: "ours = Some p" "write_plain E p ?s0 = Inr s1" using plain_w.msg_ok[OF w] by blast
  have s1: "inp s1 = inp s" "sent s1 = sent s @ [p]" "audit s1 = audit s" "peer_id_line s1 = peer_id_line s"
    using p(2) by (auto simp: write_plain_Inr)
  obtain b where b: "inp s1 = b @ inp s2" "plain_packet b theirs" "s2 = s1\<lparr>inp := inp s2, seq_rx := seq_rx s1 + 1\<rparr>"
    using r by (rule plain_read_ok)
  have s2: "sent s2 = sent s @ [p]" "audit s2 = audit s" "peer_id_line s2 = peer_id_line s"
    by (subst b(3); simp add: s1)+
  have "\<exists>g. inp s2 = g @ inp s3 \<and> (if skip_guessed_packet n then \<exists>p. plain_packet g p else g = []) \<and>
     sent s3 = sent s2 \<and> audit s3 = audit s2 \<and> peer_id_line s3 = peer_id_line s2"
  proof (cases "skip_guessed_packet n")
    case True
    then obtain q where q: "read_plain s2 = Inr (q, s3)" using g by (auto simp: try_bind_iff)
    obtain c where c: "inp s2 = c @ inp s3" "plain_packet c q" "s3 = s2\<lparr>inp := inp s3, seq_rx := seq_rx s2 + 1\<rparr>"
      using q by (rule plain_read_ok)
    have "sent s3 = sent s2 \<and> audit s3 = audit s2 \<and> peer_id_line s3 = peer_id_line s2"
      by (subst (1 2 3) c(3)) simp
    then show ?thesis using True c by auto
  next
    case False
    then show ?thesis using g by simp
  qed
  then show ?thesis using that[of b] b(1,2) n s1 s2 ours p(1) t by auto
qed

lemma newkeys_ok:
  assumes "exchange_newkeys E s = Inr (n, t)"
  obtains b rx0 tx0 where "inp s = b @ inp t" "plain_packet b [SSH_MSG_NEWKEYS]" "n = nk_negotiated s"
    "derive_cipher_pair E (nk_shared_secret s) (nk_exchange_hash s) (nk_exchange_hash s)
       (cipher_c2s n) (cipher_s2c n) = Inr (rx0, tx0)"
    "session_id t = nk_exchange_hash s" "client_id t = nk_client_id s" "seq_rx t = 0" "rx t = rx0"
    "seq_tx t = (if ext_info n then 1 else 0)" "tx t = (if ext_info n then cipher_advance 1 tx0 else tx0)"
    "sent t = sent s @ [[SSH_MSG_NEWKEYS]] @ (if ext_info n then [the ext_info_payload] else [])"
    "audit t = audit s"
proof -
  obtain s1 pn s2 rx0 tx0 nxt where
    w: "write_plain E [SSH_MSG_NEWKEYS] s = Inr s1" and
    r: "read_plain (s1\<lparr>seq_tx := 0\<rparr>) = Inr (pn, s2)" and pn: "pn = [SSH_MSG_NEWKEYS]" and
    d: "derive_cipher_pair E (nk_shared_secret s2) (nk_exchange_hash s2) (nk_exchange_hash s2)
       (cipher_c2s (nk_negotiated s2)) (cipher_s2c (nk_negotiated s2)) = Inr (rx0, tx0)" and
    x: "nxt = conn.extend (conn.truncate (s2\<lparr>seq_rx := 0\<rparr>))
          (sealed.fields rx0 tx0 (nk_exchange_hash s2) (nk_client_id s2))" and
    m: "(if ext_info (nk_negotiated s2) then send_msg (write_sealed E) ext_info_payload nxt else Inr nxt) = Inr t" and
    n: "n = nk_negotiated s2"
    using assms unfolding exchange_newkeys_def Let_def
    by (auto simp: fail_def elim!: try_bind_InrE split: sum.splits if_split_asm prod.splits)
  obtain b where b: "inp s1 = b @ inp s2" "plain_packet b pn"
    "s2 = s1\<lparr>seq_tx := 0, inp := inp s2, seq_rx := seq_rx s1 + 1\<rparr>"
    using r by (rule plain_read_ok) auto
  have s1: "inp s1 = inp s" "sent s1 = sent s @ [[SSH_MSG_NEWKEYS]]" "audit s1 = audit s"
    "nk_negotiated s1 = nk_negotiated s" "nk_shared_secret s1 = nk_shared_secret s"
    "nk_exchange_hash s1 = nk_exchange_hash s" "nk_client_id s1 = nk_client_id s"
    using w by (auto simp: write_plain_Inr)
  have s2: "sent s2 = sent s1" "audit s2 = audit s1" "nk_negotiated s2 = nk_negotiated s"
    "nk_shared_secret s2 = nk_shared_secret s" "nk_exchange_hash s2 = nk_exchange_hash s"
    "nk_client_id s2 = nk_client_id s" "seq_tx s2 = 0"
    by (subst b(3); simp add: s1)+
  show ?thesis
  proof (cases "ext_info n")
    case True
    then obtain p where "ext_info_payload = Some p" "write_sealed E p nxt = Inr t"
      using m n sealed_w.msg_ok by fastforce
    then have "the ext_info_payload = p" "write_sealed E p nxt = Inr t" by (metis option.sel)+
    then show ?thesis using True b(1,2) s1 s2 d x n pn
      by (intro that[of b rx0 tx0]) (auto simp: write_sealed_Inr)
  next
    case False
    then show ?thesis using b(1,2) s1 s2 d x n pn m by (intro that[of b rx0 tx0]) auto
  qed
qed

lemma read_client_init_Inr:
  "read_client_init r = Inr (ci, rest) \<longleftrightarrow> rest = [] \<and> r = ssh_string ci \<and> length ci \<le> 1216"
  by (auto simp: read_client_init_def rd_bind_Inr_iff string_codec.dec_iff CLIENT_INIT_LEN_def
      MLKEM_EK_LEN_def X25519_LEN_def)

lemma run_hybrid_ok:
  assumes "run_hybrid E hk s = Inr t"
  obtains b ci fill out blob h sig where "inp s = b @ inp t"
    "plain_packet b (SSH_MSG_KEX_HYBRID_INIT # ssh_string ci)"
    "hybrid_exchange_with (kem E) ci fill = Inr out" "public_key_blob hk = Some blob"
    "exchange_hash (sha256 (kem E))
       \<lparr>eh_client_id = peer_id_line s, eh_server_id = SERVER_ID, eh_client_kexinit = i_c s, eh_server_kexinit = i_s s,
        eh_host_key_blob = blob, eh_client_init = ci, eh_server_reply = server_reply out,
        eh_shared_secret = shared_secret out\<rparr> = Some h"
    "host_key_sign (sigp E) hk h = Inr (Some sig)"
    "nk_exchange_hash t = h" "nk_shared_secret t = shared_secret out" "nk_negotiated t = hi_negotiated s"
    "nk_client_id t = peer_id_line s" "sent t = sent s @ [the (hybrid_reply blob (server_reply out) sig)]"
    "audit t = audit s"
proof -
  note k = assms[unfolded run_hybrid_def]
  from k obtain x where "read_plain s = Inr x" by (rule try_bind_InrE)
  then obtain ip s1 where r: "read_plain s = Inr (ip, s1)" by (cases x) simp
  obtain b where b: "inp s = b @ inp s1" "plain_packet b ip" "s1 = s\<lparr>inp := inp s1, seq_rx := seq_rx s + 1\<rparr>"
    using r by (rule plain_read_ok)
  have s1: "sent s1 = sent s" "audit s1 = audit s" "peer_id_line s1 = peer_id_line s" "i_c s1 = i_c s"
    "i_s s1 = i_s s" "hi_negotiated s1 = hi_negotiated s"
    by (subst b(3); simp)+
  note k = k[unfolded r try_bind_simps prod.case]
  have ip: "\<not> (ip = [] \<or> hd ip \<noteq> SSH_MSG_KEX_HYBRID_INIT)" using k by (auto split: if_split_asm)
  note k = k[unfolded if_not_P[OF ip]]
  obtain ci rest where ci: "read_client_init (tl ip) = Inr (ci, rest)" using k by (auto split: sum.splits)
  then have "ip = SSH_MSG_KEX_HYBRID_INIT # ssh_string ci" using ip by (cases ip) (auto simp: read_client_init_Inr)
  note p = b(2)[unfolded this]
  let ?fill = "\<lambda>i. rand E (draws s1 + i)"
  note k = k[unfolded ci sum.case prod.case Let_def]
  obtain out where out: "hybrid_exchange_with (kem E) ci ?fill = Inr out" using k by (auto split: sum.splits kex_error.splits)
  note k = k[unfolded out sum.case]
  obtain blob where blob: "public_key_blob hk = Some blob" using k by (auto simp: fail_def split: option.splits)
  note k = k[unfolded blob option.case]
  let ?s = "s1\<lparr>draws := draws s1 + 2\<rparr>"
  let ?x = "\<lparr>eh_client_id = peer_id_line s, eh_server_id = SERVER_ID, eh_client_kexinit = i_c s, eh_server_kexinit = i_s s,
        eh_host_key_blob = blob, eh_client_init = ci, eh_server_reply = server_reply out,
        eh_shared_secret = shared_secret out\<rparr>"
  have x: "\<lparr>eh_client_id = peer_id_line ?s, eh_server_id = SERVER_ID, eh_client_kexinit = i_c ?s, eh_server_kexinit = i_s ?s,
        eh_host_key_blob = blob, eh_client_init = ci, eh_server_reply = server_reply out,
        eh_shared_secret = shared_secret out\<rparr> = ?x" by (simp add: s1)
  note k = k[unfolded x]
  obtain h where h: "exchange_hash (sha256 (kem E)) ?x = Some h" using k by (auto simp: fail_def split: option.splits)
  note k = k[unfolded h option.case]
  obtain sig where sig: "host_key_sign (sigp E) hk h = Inr (Some sig)"
    using k by (auto simp: fail_def split: sum.splits option.splits)
  note k = k[unfolded sig sum.case option.case]
  from k obtain s2 where w: "send_msg (write_plain E) (hybrid_reply blob (server_reply out) sig) ?s = Inr s2"
    by (rule try_bind_InrE)
  have t: "t = conn.extend (conn.truncate s2)
      (new_keys.fields (hi_negotiated s2) (shared_secret out) h (peer_id_line s2))"
    using k[unfolded w] by simp
  obtain q where q: "hybrid_reply blob (server_reply out) sig = Some q" "write_plain E q ?s = Inr s2"
    using plain_w.msg_ok[OF w] by blast
  then have "inp s2 = inp s1" "sent s2 = sent s @ [q]" "audit s2 = audit s" "peer_id_line s2 = peer_id_line s"
    "hi_negotiated s2 = hi_negotiated s"
    using s1 by (auto simp: write_plain_Inr)
  then show ?thesis using that[OF _ p out blob h sig] b(1) t q(1) by simp
qed

lemma service_request_ok:
  assumes "read_service_request E s = Inr (service, t)"
  obtains b p where "inp s = b @ inp t" "sealed_packet (aead E) (rx s) (seq_rx s) b p"
    "parse_service_request p = Inr service" "session_id t = session_id s" "client_id t = client_id s"
    "sent t = sent s" "audit t = audit s" "rx t = cipher_advance 1 (rx s)" "seq_rx t = seq_rx s + 1"
proof -
  from assms obtain x where "read_sealed E s = Inr x"
    unfolding read_service_request_def by (rule try_bind_InrE)
  then obtain p s1 where r: "read_sealed E s = Inr (p, s1)" by (cases x) simp
  moreover from this have "s1 = t" "parse_service_request p = Inr service"
    using assms by (auto simp: read_service_request_def split: sum.splits)
  moreover obtain b where "inp s = b @ inp s1" "sealed_packet (aead E) (rx s) (seq_rx s) b p"
    using r unfolding read_sealed_Inr by blast
  ultimately show ?thesis using that read_sealed_frame[OF r] by metis
qed

lemma accept_ok:
  assumes "accept E s = Inr t"
  shows "inp t = inp s \<and> session_id t = session_id s \<and> client_id t = client_id s \<and> rx t = rx s \<and> seq_rx t = seq_rx s \<and>
    sent t = sent s @ [[SSH_MSG_SERVICE_ACCEPT]] \<and> audit t = audit s"
  using assms unfolding accept_def
  by (auto simp: writer_simps elim!: sealed_msg_frame)

text \<open>What the input of an authenticated connection must be. The plaintext part: the identification
  line, the client's KEXINIT, the guessed packet if one is due, the hybrid exchange and NEWKEYS,
  with nothing before, between or beside them; \<open>h\<close> is the exchange hash over exactly these bytes
  and the server's, \<open>k\<close> the shared secret.\<close>

definition plain_transcript ::
  "env \<Rightarrow> signing_key \<Rightarrow> bytes \<Rightarrow> negotiated \<Rightarrow> bytes \<Rightarrow> bytes \<Rightarrow> bytes \<Rightarrow> bytes \<Rightarrow> bytes list \<Rightarrow> bool" where
  "plain_transcript E hk input n line k h tail sents \<longleftrightarrow>
     (\<exists>b1 g b2 b3 theirs ours peer ci fill out blob sig.
        read_id_line [] input = Some (line, b1 @ g @ b2 @ b3 @ tail) \<and> (\<exists>i. parse_peer_id line = Inr i) \<and>
        plain_packet b1 theirs \<and> parse_kexinit theirs = Inr peer \<and> negotiate peer True = Inr n \<and>
        (if skip_guessed_packet n then \<exists>p. plain_packet g p else g = []) \<and>
        plain_packet b2 (SSH_MSG_KEX_HYBRID_INIT # ssh_string ci) \<and> plain_packet b3 [SSH_MSG_NEWKEYS] \<and>
        hybrid_exchange_with (kem E) ci fill = Inr out \<and> k = shared_secret out \<and> public_key_blob hk = Some blob \<and>
        exchange_hash (sha256 (kem E))
          \<lparr>eh_client_id = line, eh_server_id = SERVER_ID, eh_client_kexinit = theirs, eh_server_kexinit = ours,
           eh_host_key_blob = blob, eh_client_init = ci, eh_server_reply = server_reply out,
           eh_shared_secret = shared_secret out\<rparr> = Some h \<and>
        host_key_sign (sigp E) hk h = Inr (Some sig) \<and>
        sents = [ours, the (hybrid_reply blob (server_reply out) sig), [SSH_MSG_NEWKEYS]] @
          (if ext_info n then [the ext_info_payload] else []))"

lemma handshake_parts:
  assumes "auth_phase E hk keys cas s = Inr acc"
  obtains n t1 rx0 line k h tail sents where "plain_transcript E hk (inp s) n line k h tail sents"
    "derive_cipher_pair E k h h (cipher_c2s n) (cipher_s2c n) = Inr (rx0, t1)"
    "\<exists>b p t2. tail = b @ inp t2 \<and> sealed_packet (aead E) rx0 0 b p \<and>
      parse_service_request p = Inr (ascii ''ssh-userauth'') \<and> rx t2 = cipher_advance 1 rx0 \<and> seq_rx t2 = 1 \<and>
      session_id t2 = h \<and> client_id t2 = line \<and> sent t2 = sent s @ sents @ [[SSH_MSG_SERVICE_ACCEPT]] \<and>
      audit t2 = audit s @ [KexCompleted (kex_algorithm n) (host_key_algorithm n)] \<and>
      authenticate E keys cas t2 = Inr acc"
proof -
  note k = assms[unfolded auth_phase_def]
  from k obtain a where a: "version_exchange E s = Inr a" by (rule try_bind_InrE)
  note k = k[unfolded a try_bind_simps]
  from k obtain b where b: "exchange_kexinit E a = Inr b" by (rule try_bind_InrE)
  note k = k[unfolded b try_bind_simps]
  from k obtain c where c: "run_hybrid E hk b = Inr c" by (rule try_bind_InrE)
  note k = k[unfolded c try_bind_simps]
  from k obtain x where "exchange_newkeys E c = Inr x" by (rule try_bind_InrE)
  then obtain n d where d: "exchange_newkeys E c = Inr (n, d)" by (cases x) simp
  note k = k[unfolded d try_bind_simps prod.case Let_def]
  let ?d = "d\<lparr>audit := audit d @ [KexCompleted (kex_algorithm n) (host_key_algorithm n)]\<rparr>"
  from k obtain x where "read_service_request E ?d = Inr x" by (rule try_bind_InrE)
  then obtain service e where e: "read_service_request E ?d = Inr (service, e)" by (cases x) simp
  note k = k[unfolded e try_bind_simps prod.case]
  have service: "service = ascii ''ssh-userauth''" using k by (auto split: if_split_asm)
  note k = k[unfolded if_P[OF service]]
  from k obtain f where f: "accept E e = Inr f" by (rule try_bind_InrE)
  note k = k[unfolded f try_bind_simps]
  obtain line where va: "read_id_line [] (inp s) = Some (line, inp a)" "\<exists>i. parse_peer_id line = Inr i"
    "peer_id_line a = line" "sent a = sent s" "audit a = audit s"
    using a by (rule version_exchange_ok)
  obtain b1 g peer where vb: "inp a = b1 @ g @ inp b" "plain_packet b1 (i_c b)" "parse_kexinit (i_c b) = Inr peer"
    "negotiate peer True = Inr (hi_negotiated b)"
    "if skip_guessed_packet (hi_negotiated b) then \<exists>p. plain_packet g p else g = []"
    "sent b = sent a @ [i_s b]" "audit b = audit a" "peer_id_line b = peer_id_line a"
    using b by (rule exchange_kexinit_ok)
  obtain b2 ci fill out blob h sig where vc: "inp b = b2 @ inp c"
    "plain_packet b2 (SSH_MSG_KEX_HYBRID_INIT # ssh_string ci)"
    "hybrid_exchange_with (kem E) ci fill = Inr out" "public_key_blob hk = Some blob"
    "exchange_hash (sha256 (kem E))
       \<lparr>eh_client_id = peer_id_line b, eh_server_id = SERVER_ID, eh_client_kexinit = i_c b, eh_server_kexinit = i_s b,
        eh_host_key_blob = blob, eh_client_init = ci, eh_server_reply = server_reply out,
        eh_shared_secret = shared_secret out\<rparr> = Some h"
    "host_key_sign (sigp E) hk h = Inr (Some sig)" "nk_exchange_hash c = h" "nk_shared_secret c = shared_secret out"
    "nk_negotiated c = hi_negotiated b" "nk_client_id c = peer_id_line b"
    "sent c = sent b @ [the (hybrid_reply blob (server_reply out) sig)]" "audit c = audit b"
    using c by (rule run_hybrid_ok)
  obtain b3 rx0 tx0 where vd: "inp c = b3 @ inp d" "plain_packet b3 [SSH_MSG_NEWKEYS]" "n = nk_negotiated c"
    "derive_cipher_pair E (nk_shared_secret c) (nk_exchange_hash c) (nk_exchange_hash c)
       (cipher_c2s n) (cipher_s2c n) = Inr (rx0, tx0)"
    "session_id d = nk_exchange_hash c" "client_id d = nk_client_id c" "seq_rx d = 0" "rx d = rx0"
    "sent d = sent c @ [[SSH_MSG_NEWKEYS]] @ (if ext_info n then [the ext_info_payload] else [])"
    "audit d = audit c"
    using d by (rule newkeys_ok)
  obtain b4 p where ve: "inp d = b4 @ inp e" "sealed_packet (aead E) rx0 0 b4 p" "parse_service_request p = Inr service"
    "session_id e = session_id d" "client_id e = client_id d" "sent e = sent d"
    "audit e = audit d @ [KexCompleted (kex_algorithm n) (host_key_algorithm n)]"
    "rx e = cipher_advance 1 rx0" "seq_rx e = 1"
    using service_request_ok[OF e] vd(7,8) by auto
  note vf = accept_ok[OF f]
  let ?s = "[i_s b, the (hybrid_reply blob (server_reply out) sig), [SSH_MSG_NEWKEYS]] @
          (if ext_info n then [the ext_info_payload] else [])"
  have "plain_transcript E hk (inp s) n line (shared_secret out) h (inp d) ?s"
    unfolding plain_transcript_def
    by (rule exI[of _ b1], rule exI[of _ g], rule exI[of _ b2], rule exI[of _ b3], rule exI[of _ "i_c b"],
        rule exI[of _ "i_s b"], rule exI[of _ peer], rule exI[of _ ci], rule exI[of _ fill], rule exI[of _ out],
        rule exI[of _ blob], rule exI[of _ sig]) (use va vb vc vd in auto)
  moreover have "derive_cipher_pair E (shared_secret out) h h (cipher_c2s n) (cipher_s2c n) = Inr (rx0, tx0)"
    using vc vd by simp
  moreover have "inp d = b4 @ inp f \<and> sealed_packet (aead E) rx0 0 b4 p \<and>
      parse_service_request p = Inr (ascii ''ssh-userauth'') \<and> rx f = cipher_advance 1 rx0 \<and> seq_rx f = 1 \<and>
      session_id f = h \<and> client_id f = line \<and> sent f = sent s @ ?s @ [[SSH_MSG_SERVICE_ACCEPT]] \<and>
      audit f = audit s @ [KexCompleted (kex_algorithm n) (host_key_algorithm n)] \<and>
      authenticate E keys cas f = Inr acc"
    using va vb vc vd ve vf service k by simp
  ultimately show ?thesis by - (rule that, assumption, assumption, blast)
qed

text \<open>
  C1 (safety). A connection that comes out of the handshake authenticated went through exactly this
  transcript, byte for byte: one identification line, one KEXINIT that the profile accepts with
  strict key exchange, at most the one announced and wrongly guessed packet, one hybrid exchange,
  one NEWKEYS, and then, sealed under the derived keys from sequence number 0, the
  \<^verbatim>\<open>ssh-userauth\<close> request and the authentication requests, the last of which proves an accepted
  key for the session identifier. That identifier is the hash of the transcript, signed by the
  host key before NEWKEYS; no other packet can be inserted before the keys are in force.
\<close>

theorem handshake_binds_transcript:
  assumes "auth_phase E hk keys cas s = Inr acc"
  shows "\<exists>n line k tail sents rx0 tx0 b4 p4 pre j b payload.
    plain_transcript E hk (inp s) n line k (session_id acc) tail sents \<and> client_id acc = line \<and>
    derive_cipher_pair E k (session_id acc) (session_id acc) (cipher_c2s n) (cipher_s2c n) = Inr (rx0, tx0) \<and>
    tail = b4 @ pre @ b @ inp acc \<and>
    sealed_packet (aead E) rx0 0 b4 p4 \<and> parse_service_request p4 = Inr (ascii ''ssh-userauth'') \<and>
    j < 12 \<and> sealed_packet (aead E) (cipher_advance (Suc j) rx0) (word_of_nat (Suc j)) b payload \<and>
    proves_key E keys cas (session_id acc) payload (authenticated acc) \<and>
    (\<exists>ps. sent acc = sent s @ sents @ ps \<and> length ps = j + 2)"
proof -
  obtain n tx0 rx0 line k h tail sents b4 p4 t2 where
    pt: "plain_transcript E hk (inp s) n line k h tail sents" and
    d: "derive_cipher_pair E k h h (cipher_c2s n) (cipher_s2c n) = Inr (rx0, tx0)" and
    t2: "tail = b4 @ inp t2" "sealed_packet (aead E) rx0 0 b4 p4" "parse_service_request p4 = Inr (ascii ''ssh-userauth'')"
      "rx t2 = cipher_advance 1 rx0" "seq_rx t2 = 1" "session_id t2 = h" "client_id t2 = line"
      "sent t2 = sent s @ sents @ [[SSH_MSG_SERVICE_ACCEPT]]" "authenticate E keys cas t2 = Inr acc"
    using handshake_parts[OF assms] by metis
  have "(0 :: nat) < MAX_AUTH_ATTEMPTS" by (simp add: MAX_AUTH_ATTEMPTS_def)
  from auth_loop_sound[OF t2(9)[unfolded authenticate_def] this]
  obtain j pre b payload ps where a: "j < MAX_AUTH_ATTEMPTS" "inp t2 = pre @ b @ inp acc"
    "sealed_packet (aead E) (cipher_advance j (rx t2)) (seq_rx t2 + word_of_nat j) b payload"
    "proves_key E keys cas (session_id t2) payload (authenticated acc)"
    "session_id acc = session_id t2" "client_id acc = client_id t2"
    "sent acc = sent t2 @ ps @ [build_success_payload]" "length ps = j"
    by (metis add_0)
  have "sealed_packet (aead E) (cipher_advance (Suc j) rx0) (word_of_nat (Suc j)) b payload"
    using a(3) t2(4,5) by (simp add: cipher_advance_add)
  moreover have "j < 12" using a(1) by (simp add: MAX_AUTH_ATTEMPTS_def)
  moreover have "sent acc = sent s @ sents @ ([[SSH_MSG_SERVICE_ACCEPT]] @ ps @ [build_success_payload])"
    using a(7) t2(8) by simp
  ultimately show ?thesis
    using pt d t2 a
    by (rule_tac x = n in exI, rule_tac x = line in exI, rule_tac x = k in exI, rule_tac x = tail in exI,
        rule_tac x = sents in exI, rule_tac x = rx0 in exI, rule_tac x = tx0 in exI, rule_tac x = b4 in exI,
        rule_tac x = p4 in exI, rule_tac x = pre in exI, rule_tac x = j in exI, rule_tac x = b in exI,
        rule_tac x = payload in exI) auto
qed

section \<open>Witnesses\<close>

text \<open>Stand-ins for the key exchange primitives, a world in which everything works, and a client
  with one authorised key.\<close>

definition toy_kem :: kem_prims where
  "toy_kem = \<lparr>mlkem_valid_ek = \<lambda>k. True, mlkem_encapsulate = \<lambda>ek m. (replicate 1088 (hd m), take 32 ek),
     x25519_public = \<lambda>k. replicate 32 9, x25519_dh = \<lambda>k p. p, was_contributory = \<lambda>k. True,
     sha256 = \<lambda>m. replicate 32 3\<rparr>"

definition toy_env :: env where
  "toy_env = \<lparr>kem = toy_kem, aead = toy_prims, sigp = toy_sig, rand = \<lambda>i. zeros, write_ok = \<lambda>i. True,
     wall = \<lambda>i. None, mono = \<lambda>i. i, chunk = \<lambda>i. 8192\<rparr>"

definition toy_keys :: "bytes key_line list" where
  "toy_keys = [\<lparr>kl_blob = [1, 2], kl_fingerprint = [7], kl_key = replicate 32 5\<rparr>]"

definition toy_login_sig :: bytes where
  "toy_login_sig = replicate 64 (5 + foldr (+)
     (ssh_string (replicate 32 3) @ request_data (ascii ''alice'') 1 KEY_ALGORITHM [1, 2]) 0)"

definition toy_login :: bytes where
  "toy_login = request_data (ascii ''alice'') 1 KEY_ALGORITHM [1, 2] @
     ssh_string (ssh_string KEY_ALGORITHM @ ssh_string toy_login_sig)"

definition toy_sealed :: "bytes \<Rightarrow> sealed" where
  "toy_sealed input = \<lparr>outp = [], sent = [], audit = [], inp = input, draws = 0, writes = 0, clock_reads = 0,
     seq_tx = 0, seq_rx = 0, rx = toy_chacha, tx = toy_chacha, session_id = replicate 32 3, client_id = []\<rparr>"

lemma toy_env_works [simp]: "env_works toy_env"
  by (simp add: env_works_def toy_env_def) (simp add: toy_prims_def)

lemma toy_login_parses:
  "parse_userauth_request toy_login = Inr (PublicKey (ascii ''alice'') KEY_ALGORITHM [1, 2]
     (Some \<lparr>sd_data = request_data (ascii ''alice'') 1 KEY_ALGORITHM [1, 2], sd_signature = toy_login_sig\<rparr>))"
proof -
  have "utf8_valid (ascii ''alice'')" by code_simp
  then show ?thesis
    unfolding toy_login_def
    by (intro parse_signed_request_complete) (simp_all add: CERT_BLOB_BOUND_def KEY_BLOB_BOUND_def toy_login_sig_def)
qed

lemma toy_login_resolves:
  "resolve toy_sig KEY_ALGORITHM [1, 2] (ascii ''alice'') toy_keys None None =
     Some \<lparr>cand_key = replicate 32 5,
       cand_outcome = \<lparr>ao_fingerprint = [7], ao_certificate = None, ao_pty_permitted = True\<rparr>\<rparr>"
  by (simp add: resolve_def toy_keys_def lookup_key_def)

lemma toy_login_verifies:
  "verify_auth_signature toy_sig (replicate 32 3) (request_data (ascii ''alice'') 1 KEY_ALGORITHM [1, 2])
     toy_login_sig (replicate 32 5) = Some True"
  by (simp add: verify_auth_signature_def auth_signed_data_def writer_simps toy_login_sig_def toy_sig_def
      del: ssh_string_def)

lemma toy_login_sealed: obtains c pkt where "cipher_seal toy_prims zeros toy_chacha 0 toy_login = (c, Inr pkt)"
proof -
  have "length toy_login \<le> 34995"
    by (simp add: toy_login_def request_data_def toy_login_sig_def KEY_ALGORITHM_def)
  then have "length toy_login \<le> (case toy_chacha of ChaCha c \<Rightarrow> 34995 | Gcm c \<Rightarrow> 34987)"
    by (simp add: toy_chacha_def)
  moreover have "\<forall>k n a p. gcm_encrypt toy_prims k n a p \<noteq> None" "\<forall>n. zeros n \<noteq> None"
    by (simp_all add: toy_prims_def)
  ultimately have "\<exists>pkt. snd (cipher_seal toy_prims zeros toy_chacha 0 toy_login) = Inr pkt"
    using seal_accepts_iff[OF toy_ok(2)] by blast
  then show ?thesis using that by (metis prod.collapse)
qed

lemma toy_sealed_simps [simp]:
  "inp (toy_sealed i) = i" "rx (toy_sealed i) = toy_chacha" "seq_rx (toy_sealed i) = 0"
  "session_id (toy_sealed i) = replicate 32 3" "clock_reads (toy_sealed i) = 0"
  by (simp_all add: toy_sealed_def)

lemma toy_env_simps [simp]:
  "aead toy_env = toy_prims" "sigp toy_env = toy_sig" "kem toy_env = toy_kem" "wall toy_env i = None"
  "rand toy_env i = zeros" "write_ok toy_env i"
  by (simp_all add: toy_env_def)

lemma authenticate_accepts_witness:
  "\<exists>pkt acc. authenticate toy_env toy_keys None (toy_sealed (pkt @ [9])) = Inr acc \<and>
     ao_fingerprint (authenticated acc) = [7] \<and> inp acc = [9]"
proof -
  obtain c pkt where p: "cipher_seal toy_prims zeros toy_chacha 0 toy_login = (c, Inr pkt)"
    by (rule toy_login_sealed)
  have "\<exists>acc. authenticate toy_env toy_keys None (toy_sealed (pkt @ [9])) = Inr acc \<and>
     authenticated acc = cand_outcome \<lparr>cand_key = replicate 32 5,
       cand_outcome = \<lparr>ao_fingerprint = [7], ao_certificate = None, ao_pty_permitted = True\<rparr>\<rparr> \<and>
     session_id acc = session_id (toy_sealed (pkt @ [9])) \<and> inp acc = [9]"
    by (rule authenticate_accepts[OF toy_env_works toy_login_parses, where fill = zeros and peer = c and pkt = pkt])
      (use p toy_login_resolves toy_login_verifies in simp_all)
  then show ?thesis by (elim exE conjE, rule_tac x = pkt in exI) auto
qed

theorem authenticate_sound_witness:
  "\<exists>pkt acc payload. authenticate toy_env toy_keys None (toy_sealed pkt) = Inr acc \<and>
     proves_key toy_env toy_keys None (replicate 32 3) payload (authenticated acc)"
proof -
  obtain c pkt where p: "cipher_seal toy_prims zeros toy_chacha 0 toy_login = (c, Inr pkt)"
    by (rule toy_login_sealed)
  have "\<exists>acc. authenticate toy_env toy_keys None (toy_sealed (pkt @ [])) = Inr acc \<and>
     authenticated acc = cand_outcome \<lparr>cand_key = replicate 32 5,
       cand_outcome = \<lparr>ao_fingerprint = [7], ao_certificate = None, ao_pty_permitted = True\<rparr>\<rparr> \<and>
     session_id acc = session_id (toy_sealed (pkt @ [])) \<and> inp acc = []"
    by (rule auth_accepts[OF toy_env_works toy_login_parses, where fill = zeros and peer = c and pkt = pkt])
      (use p toy_login_resolves toy_login_verifies in simp_all)
  then obtain acc where acc: "authenticate toy_env toy_keys None (toy_sealed pkt) = Inr acc" by auto
  from authenticate_sound[OF this] show ?thesis using acc by auto
qed

lemma authenticate_fails_closed_witness:
  "\<exists>t ps. authenticate toy_env toy_keys None (toy_sealed []) = Inl (Io, t) \<and> sent t = ps \<and>
     build_success_payload \<notin> set ps"
proof -
  have "authenticate toy_env toy_keys None (toy_sealed []) = Inl (Io, trace.truncate (toy_sealed []))"
    by (simp add: authenticate_def auth_loop.simps auth_step_def read_sealed_def read_exact_def fail_def)
  from this authenticate_fails_closed[OF this] show ?thesis by (auto simp: toy_sealed_def trace.defs)
qed

end
