(* ===== verification/HandshakeLive.thy ===== *)
theory HandshakeLive
  imports Handshake
begin

text \<open>
  The other half of \<^verbatim>\<open>Handshake\<close>: a client that follows the protocol gets through every stage, and
  no input makes a stage panic. \<open>crypto_ok\<close> states what the key exchange relies on: the output
  lengths of the hash, the key encapsulation and X25519, and signatures that succeed and have
  their documented length.
\<close>

section \<open>Hypotheses on the world\<close>

definition kem_ok :: "kem_prims \<Rightarrow> bool" where
  "kem_ok K \<longleftrightarrow> (\<forall>m. length (sha256 K m) = 32) \<and> (\<forall>ek m. length (fst (mlkem_encapsulate K ek m)) = 1088) \<and>
     (\<forall>k. length (x25519_public K k) = 32)"

definition crypto_ok :: "env \<Rightarrow> bool" where
  "crypto_ok E \<longleftrightarrow> kem_ok (kem E) \<and> sig_ok (sigp E)"

lemma env_works_draw:
  assumes "env_works E"
  obtains c where "rand E i n = Some c" "length c = n"
proof -
  obtain c where "rand E i n = Some c" using assms unfolding env_works_def by blast
  moreover have "fills (rand E i)" using assms by (simp add: env_works_def)
  ultimately show ?thesis using that by (simp add: fills_def)
qed

section \<open>Plaintext packets\<close>

lemma plain_packet_encode:
  assumes "fills fill" and "encode_packet fill p = Inr pkt"
  shows "plain_packet pkt p"
proof -
  obtain body where b: "pkt = u32_to_be_bytes (word_of_nat (length body)) @ body"
    "validate_packet_length (word_of_nat (length body)) = Inr (length body)" "decode_packet_body body = Inr p"
    using packet_decodes[OF assms] by blast
  then show ?thesis by (simp add: plain_packet_def)
qed

lemma read_plain_packet:
  "plain_packet b p \<Longrightarrow> inp s = b @ rest \<Longrightarrow> read_plain s = Inr (p, s\<lparr>inp := rest, seq_rx := seq_rx s + 1\<rparr>)"
  unfolding read_plain_Inr by auto

lemma plain_packet_short:
  assumes "plain_packet b p"
  shows "length p \<le> 35000"
proof -
  obtain n where "n \<le> 35000" "length b = 4 + n" "decode_packet_body (drop 4 b) = Inr p"
    using assms by (auto simp: plain_packet_def validate_packet_length_Inr_iff)
  then show ?thesis
    by (auto simp: decode_packet_body_def split: list.splits if_splits dest!: arg_cong[where f = length])
qed

lemma write_plain_works:
  assumes "env_works E" and "length p \<le> 34991"
  obtains pkt where "write_plain E p s = Inr (s\<lparr>draws := Suc (draws s), writes := Suc (writes s),
      outp := outp s @ [pkt], seq_tx := seq_tx s + 1, sent := sent s @ [p]\<rparr>)"
proof -
  obtain pad where "rand E (draws s) (choose_padding 8 (5 + length p)) = Some pad"
    using assms(1) by (rule env_works_draw)
  then have "\<exists>pkt. encode_packet (rand E (draws s)) p = Inr pkt"
    using assms(2) by (simp add: encode_packet_eq Let_def)
  moreover have "write_ok E (writes s)" using assms(1) by (simp add: env_works_def)
  ultimately show ?thesis using that by (auto simp: write_plain_Inr)
qed

section \<open>Identification\<close>

lemma read_id_line_complete:
  assumes "0x0A \<notin> set xs" and "length acc + length xs < 255"
  shows "read_id_line acc (xs @ 0x0A # rest) =
    Some (let l = acc @ xs in if l \<noteq> [] \<and> last l = 0x0D then butlast l else l, rest)"
  using assms
proof (induction xs arbitrary: acc)
  case Nil
  then show ?case by (subst read_id_line.simps) (simp add: MAX_ID_LINE_def)
next
  case (Cons x xs)
  have "read_id_line acc ((x # xs) @ 0x0A # rest) = read_id_line (acc @ [x]) (xs @ 0x0A # rest)"
    using Cons.prems by (subst read_id_line.simps) (auto simp: MAX_ID_LINE_def)
  then show ?case using Cons.IH[of "acc @ [x]"] Cons.prems by simp
qed

lemma version_exchange_completes:
  assumes "env_works E" and "0x0A \<notin> set line" and "length line \<le> 253" and "parse_peer_id line = Inr i"
    and "inp s = line @ [0x0D, 0x0A] @ rest"
  shows "\<exists>t. version_exchange E s = Inr t \<and> peer_id_line t = line \<and> inp t = rest"
proof -
  have "read_id_line [] ((line @ [0x0D]) @ 0x0A # rest) = Some (line, rest)"
    using assms(2,3) by (subst read_id_line_complete) auto
  then show ?thesis
    using assms by (simp add: version_exchange_def write_all_def env_works_def Let_def)
qed

section \<open>Key exchange\<close>

lemma built_kexinit_works:
  assumes "env_works E"
  obtains p where "build_kexinit (rand E i) = Inr (Some p)" "length p \<le> 34991"
proof -
  obtain c where c: "rand E i 16 = Some c" "length c = 16" using assms by (rule env_works_draw)
  have l: "length KEX_LIST = 50" "length HOST_KEY_LIST = 19" "length ENCRYPTION_LIST = 52" "length MAC_LIST = 29"
    "length COMPRESSION_LIST = 4"
    by code_simp+
  have "build_kexinit (rand E i) = Inr (Some (20 # c @ ssh_string KEX_LIST @ ssh_string HOST_KEY_LIST @
            ssh_string ENCRYPTION_LIST @ ssh_string ENCRYPTION_LIST @
            ssh_string MAC_LIST @ ssh_string MAC_LIST @
            ssh_string COMPRESSION_LIST @ ssh_string COMPRESSION_LIST @
            ssh_string [] @ ssh_string [] @ 0 # u32_to_be_bytes 0))"
    unfolding build_kexinit_def build_kexinit_with_Inr_iff using c l by simp
  then show ?thesis by (rule that) (simp add: c l)
qed

lemma parse_kexinit_head: "parse_kexinit p = Inr k \<Longrightarrow> p \<noteq> [] \<and> hd p = SSH_MSG_KEXINIT"
  by (cases p) (auto simp: parse_kexinit_def parse_kexinit_body_def reader_byte_def reader_take_def
      rd_bind_def try_bind_iff split: if_splits)

lemma exchange_kexinit_completes:
  assumes "env_works E" and "plain_packet b theirs" and "parse_kexinit theirs = Inr peer"
    and "negotiate peer True = Inr n" and "if skip_guessed_packet n then \<exists>p. plain_packet g p else g = []"
    and "inp s = b @ g @ rest"
  shows "\<exists>t. exchange_kexinit E s = Inr t \<and> i_c t = theirs \<and> hi_negotiated t = n \<and> inp t = rest \<and>
    peer_id_line t = peer_id_line s \<and> length (i_s t) \<le> 34991"
proof -
  let ?s0 = "s\<lparr>draws := Suc (draws s)\<rparr>"
  obtain ours where o: "build_kexinit (rand E (draws s)) = Inr (Some ours)" "length ours \<le> 34991"
    using built_kexinit_works[OF assms(1)] by blast
  obtain pkt where w: "write_plain E ours ?s0 = Inr (?s0\<lparr>draws := Suc (draws ?s0), writes := Suc (writes ?s0),
      outp := outp ?s0 @ [pkt], seq_tx := seq_tx ?s0 + 1, sent := sent ?s0 @ [ours]\<rparr>)" (is "_ = Inr ?s1")
    using write_plain_works[OF assms(1) o(2)] by blast
  have r: "read_plain ?s1 = Inr (theirs, ?s1\<lparr>inp := g @ rest, seq_rx := seq_rx s + 1\<rparr>)" (is "_ = Inr (_, ?s2)")
    using read_plain_packet[OF assms(2), of ?s1 "g @ rest"] assms(6) by simp
  have "\<exists>s3. (if skip_guessed_packet n then try_bind (read_plain ?s2) (\<lambda>(skipped, s). Inr s) else Inr ?s2) = Inr s3 \<and>
      inp s3 = rest \<and> peer_id_line s3 = peer_id_line s"
  proof (cases "skip_guessed_packet n")
    case True
    then obtain q where "plain_packet g q" using assms(5) by auto
    from read_plain_packet[OF this, of ?s2 rest] show ?thesis using True by simp
  next
    case False
    then show ?thesis using assms(5) by simp
  qed
  then obtain s3 where g: "(if skip_guessed_packet n then try_bind (read_plain ?s2) (\<lambda>(skipped, s). Inr s)
      else Inr ?s2) = Inr s3" "inp s3 = rest" "peer_id_line s3 = peer_id_line s" by blast
  have "exchange_kexinit E s = Inr (kex_init.extend s3 (hybrid_init.fields theirs ours n))"
    using parse_kexinit_head[OF assms(3)]
    by (simp only: exchange_kexinit_def draw_def Let_def prod.case o sum.case send_msg_def option.case w
        try_bind_simps r assms(3,4) g) simp
  then show ?thesis using g o by simp
qed

lemma hybrid_out_lengths:
  assumes "kem_ok (kem E)" and "hybrid_exchange_with (kem E) ci fill = Inr out"
  shows "length (server_reply out) = 1120" "length (shared_secret out) = 32" "length ci = 1216"
proof -
  obtain m secret ct k_pq k_cl where o: "mlkem_encapsulate (kem E) (take 1184 ci) m = (ct, k_pq)"
    "out = \<lparr>server_reply = ct @ x25519_public (kem E) secret, shared_secret = sha256 (kem E) (k_pq @ k_cl)\<rparr>"
    and ci: "length ci = 1216"
    using assms(2) hybrid_exchange_iff[of "kem E" ci fill out] by blast
  have "length ct = 1088" using assms(1) o(1) unfolding kem_ok_def by (metis fst_conv)
  then show "length (server_reply out) = 1120" "length (shared_secret out) = 32" "length ci = 1216"
    using assms(1) o(2) ci by (simp_all add: kem_ok_def)
qed

definition server_key :: "env \<Rightarrow> signing_key \<Rightarrow> bool" where
  "server_key E hk \<longleftrightarrow> (\<exists>seeds. hk = signing_key_from_seeds (sigp E) seeds)"

lemma server_key_blob:
  assumes "sig_ok (sigp E)" and "server_key E hk"
  obtains blob where "public_key_blob hk = Some blob" "length blob = 1371"
proof -
  have l: "length (sk_public hk) = 1344" "length ALGORITHM = 19"
    using assms by (auto simp: server_key_def signing_key_from_seeds_def Let_def sig_ok_def ALGORITHM_def)
  then have "public_key_blob hk = Some (ssh_string ALGORITHM @ ssh_string (sk_public hk))"
    by (simp add: public_key_blob_def writer_simps)
  then show ?thesis by (rule that) (simp add: l)
qed

lemma server_key_signature:
  assumes "sig_ok (sigp E)" and "host_key_sign (sigp E) hk h = Inr sig"
  obtains g where "sig = Some g" "length g = 2511"
proof -
  let ?m = "message_representative (sigp E) h"
  obtain s where s: "mldsa_sign (sigp E) (sk_mldsa hk) ?m COMP_LABEL = Some s"
    "sig = run_writer [put_string ALGORITHM, put_string (s @ ed_sign (sigp E) (sk_ed25519 hk) ?m)]"
    using assms(2) by (auto simp: host_key_sign_def signing_key_sign_def Let_def split: option.splits)
  have l: "length s = 2420" "length (ed_sign (sigp E) (sk_ed25519 hk) ?m) = 64" "length ALGORITHM = 19"
    using assms(1) s(1) by (auto simp: sig_ok_def ALGORITHM_def)
  then have "sig = Some (ssh_string ALGORITHM @ ssh_string (s @ ed_sign (sigp E) (sk_ed25519 hk) ?m))"
    using s(2) by (simp add: writer_simps)
  then show ?thesis by (rule that) (simp add: l)
qed

lemma exchange_hash_works:
  assumes "kem_ok (kem E)" and "length (eh_client_id x) \<le> u32_max" and "length (eh_client_kexinit x) \<le> u32_max"
    and "length (eh_server_kexinit x) \<le> u32_max" and "eh_server_id x = SERVER_ID" and "length (eh_host_key_blob x) = 1371"
    and "length (eh_client_init x) = 1216" and "length (eh_server_reply x) = 1120" and "length (eh_shared_secret x) = 32"
  obtains h where "exchange_hash (sha256 (kem E)) x = Some h" "length h = 32"
proof -
  have "length SERVER_ID \<le> u32_max" by (simp add: SERVER_ID_def)
  then obtain b where "exchange_hash_buf x = Some b"
    using assms by (simp add: exchange_hash_buf_Some_iff)
  then show ?thesis using that assms(1) by (simp add: exchange_hash_def kem_ok_def)
qed

lemma hybrid_reply_works:
  assumes "length blob = 1371" and "length r = 1120" and "length g = 2511"
  obtains q where "hybrid_reply blob r g = Some q" "length q \<le> 34987"
proof -
  have "hybrid_reply blob r g = Some (SSH_MSG_KEX_HYBRID_REPLY # ssh_string blob @ ssh_string r @ ssh_string g)"
    using assms by (simp add: hybrid_reply_def writer_simps)
  then show ?thesis by (rule that) (simp add: assms)
qed

lemma run_hybrid_completes:
  assumes "env_works E" and "crypto_ok E" and "server_key E hk" and "\<forall>s m c. mldsa_sign (sigp E) s m c \<noteq> None"
    and "plain_packet b (SSH_MSG_KEX_HYBRID_INIT # ssh_string ci)" and "length ci = 1216"
    and "mlkem_valid_ek (kem E) (take 1184 ci)"
    and "\<forall>secret. was_contributory (kem E) (x25519_dh (kem E) secret (drop 1184 ci))"
    and "length (peer_id_line s) \<le> 255" and "length (i_c s) \<le> 35000" and "length (i_s s) \<le> 34991"
    and "inp s = b @ rest"
  shows "\<exists>t. run_hybrid E hk s = Inr t \<and> inp t = rest \<and> nk_negotiated t = hi_negotiated s \<and>
    nk_client_id t = peer_id_line s \<and> length (nk_shared_secret t) = 32 \<and> length (nk_exchange_hash t) = 32"
proof -
  have k: "kem_ok (kem E)" "sig_ok (sigp E)" using assms(2) by (simp_all add: crypto_ok_def)
  let ?s1 = "s\<lparr>inp := rest, seq_rx := seq_rx s + 1\<rparr>"
  have r: "read_plain s = Inr (SSH_MSG_KEX_HYBRID_INIT # ssh_string ci, ?s1)"
    by (rule read_plain_packet[OF assms(5,12)])
  have ci: "read_client_init (ssh_string ci) = Inr (ci, [])"
    using assms(6) by (simp add: read_client_init_Inr)
  let ?fill = "\<lambda>i. rand E (draws s + i)"
  obtain m secret where "?fill 0 32 = Some m" "?fill 1 32 = Some secret"
    using env_works_draw[OF assms(1)] by metis
  then obtain out where out: "hybrid_exchange_with (kem E) ci ?fill = Inr out"
    using assms(6-8) hybrid_exchange_iff[of "kem E" ci ?fill]
    by (metis (no_types, lifting) prod.exhaust)
  note ol = hybrid_out_lengths[OF k(1) out]
  obtain blob where blob: "public_key_blob hk = Some blob" "length blob = 1371"
    by (rule server_key_blob[OF k(2) assms(3)])
  let ?x = "\<lparr>eh_client_id = peer_id_line s, eh_server_id = SERVER_ID, eh_client_kexinit = i_c s,
     eh_server_kexinit = i_s s, eh_host_key_blob = blob, eh_client_init = ci, eh_server_reply = server_reply out,
     eh_shared_secret = shared_secret out\<rparr>"
  obtain h where h: "exchange_hash (sha256 (kem E)) ?x = Some h" "length h = 32"
    by (rule exchange_hash_works[OF k(1), of ?x]) (use assms(9-11) ol blob in simp_all)
  obtain ms where "mldsa_sign (sigp E) (sk_mldsa hk) (message_representative (sigp E) h) COMP_LABEL = Some ms"
    using assms(4) by blast
  then obtain sg where sg: "host_key_sign (sigp E) hk h = Inr sg"
    by (simp add: host_key_sign_def signing_key_sign_def Let_def)
  obtain g where g: "sg = Some g" "length g = 2511" by (rule server_key_signature[OF k(2) sg])
  obtain q where q: "hybrid_reply blob (server_reply out) g = Some q" "length q \<le> 34987"
    by (rule hybrid_reply_works[OF blob(2) ol(1) g(2)])
  let ?s = "?s1\<lparr>draws := draws s + 2\<rparr>"
  have "length q \<le> 34991" using q(2) by simp
  then obtain pkt where w: "write_plain E q ?s = Inr (?s\<lparr>draws := Suc (draws ?s), writes := Suc (writes ?s),
      outp := outp ?s @ [pkt], seq_tx := seq_tx ?s + 1, sent := sent ?s @ [q]\<rparr>)"
    using write_plain_works[OF assms(1)] by blast
  show ?thesis
    by (simp add: run_hybrid_def r ci out blob(1) h sg g q(1) send_msg_def w Let_def ol del: add_2_eq_Suc' add_2_eq_Suc)
qed

lemma negotiate_ciphers:
  assumes "negotiate peer initial = Inr n"
  shows "cipher_c2s n \<in> {CHACHA20_POLY1305, AES256_GCM}" "cipher_s2c n \<in> {CHACHA20_POLY1305, AES256_GCM}"
proof -
  have p: "c \<in> {CHACHA20_POLY1305, AES256_GCM}" if "pick_cipher l = Some c" for l c
    using that our_ciphers unfolding pick_cipher_iff client_choice_def CHACHA20_POLY1305_def AES256_GCM_def by auto
  have "pick_cipher (encryption_c2s peer) = Some (cipher_c2s n) \<and> pick_cipher (encryption_s2c peer) = Some (cipher_s2c n)"
    using assms unfolding negotiate_def Let_def by (auto split: if_splits option.splits)
  then show "cipher_c2s n \<in> {CHACHA20_POLY1305, AES256_GCM}" "cipher_s2c n \<in> {CHACHA20_POLY1305, AES256_GCM}"
    using p by blast+
qed

lemma derive_key_len:
  assumes "kem_ok K" and "length k = 32"
  obtains key where "derive_key (sha256 K) k h letter sid len = Some key" "length key = len"
proof -
  have "\<And>m. length (sha256 K m) = 32" using assms(1) by (simp add: kem_ok_def)
  then show ?thesis using derive_key_works[of "sha256 K" k h letter sid len] assms(2) that by auto
qed

lemma derive_cipher_pair_works:
  assumes "kem_ok (kem E)" and "length k = 32"
    and "c2s \<in> {CHACHA20_POLY1305, AES256_GCM}" and "s2c \<in> {CHACHA20_POLY1305, AES256_GCM}"
  obtains r w where "derive_cipher_pair E k h sid c2s s2c = Inr (r, w)"
proof -
  obtain kc ic kd id where d:
    "derive_key (sha256 (kem E)) k h 0x43 sid (key_len c2s) = Some kc" "length kc = key_len c2s"
    "derive_key (sha256 (kem E)) k h 0x41 sid (iv_len c2s) = Some ic" "length ic = iv_len c2s"
    "derive_key (sha256 (kem E)) k h 0x44 sid (key_len s2c) = Some kd" "length kd = key_len s2c"
    "derive_key (sha256 (kem E)) k h 0x42 sid (iv_len s2c) = Some id" "length id = iv_len s2c"
    using derive_key_len[OF assms(1,2)] by metis
  have new: "\<exists>c. packet_cipher_new name key iv = Inr c"
    if "name \<in> {CHACHA20_POLY1305, AES256_GCM}" "length key = key_len name" "length iv = iv_len name" for name key iv
    using that by (auto simp: packet_cipher_new_def)
  obtain r w where "packet_cipher_new c2s kc ic = Inr r" "packet_cipher_new s2c kd id = Inr w"
    using new[OF assms(3) d(2,4)] new[OF assms(4) d(6,8)] by blast
  then show ?thesis using that d by (simp add: derive_cipher_pair_def Let_def)
qed

lemma ext_info_works: obtains p where "ext_info_payload = Some p" "length p \<le> 34987"
proof -
  have "ext_info_payload = Some (SSH_MSG_EXT_INFO # u32_to_be_bytes 1 @ ssh_string (ascii ''server-sig-algs'') @
      ssh_string KEY_ALGORITHM)"
    by (simp add: ext_info_payload_def writer_simps put_uint32_def KEY_ALGORITHM_def)
  then show ?thesis by (rule that) (simp add: KEY_ALGORITHM_def)
qed

lemma exchange_newkeys_completes:
  assumes "env_works E" and "kem_ok (kem E)" and "length (nk_shared_secret s) = 32"
    and "cipher_c2s (nk_negotiated s) \<in> {CHACHA20_POLY1305, AES256_GCM}"
    and "cipher_s2c (nk_negotiated s) \<in> {CHACHA20_POLY1305, AES256_GCM}"
    and "plain_packet b [SSH_MSG_NEWKEYS]" and "inp s = b @ rest"
  shows "\<exists>t. exchange_newkeys E s = Inr (nk_negotiated s, t) \<and> inp t = rest"
proof -
  let ?n = "nk_negotiated s"
  obtain pkt where w: "write_plain E [SSH_MSG_NEWKEYS] s = Inr (s\<lparr>draws := Suc (draws s), writes := Suc (writes s),
      outp := outp s @ [pkt], seq_tx := seq_tx s + 1, sent := sent s @ [[SSH_MSG_NEWKEYS]]\<rparr>)" (is "_ = Inr ?s1")
    using write_plain_works[OF assms(1), of "[SSH_MSG_NEWKEYS]" s] by auto
  have r: "read_plain (?s1\<lparr>seq_tx := 0\<rparr>) = Inr ([SSH_MSG_NEWKEYS], ?s1\<lparr>seq_tx := 0, inp := rest, seq_rx := seq_rx s + 1\<rparr>)"
    using read_plain_packet[OF assms(6), of "?s1\<lparr>seq_tx := 0\<rparr>" rest] assms(7) by simp
  obtain rx0 tx0 where d: "derive_cipher_pair E (nk_shared_secret s) (nk_exchange_hash s) (nk_exchange_hash s)
      (cipher_c2s ?n) (cipher_s2c ?n) = Inr (rx0, tx0)"
    by (rule derive_cipher_pair_works[OF assms(2-5)])
  obtain p where p: "ext_info_payload = Some p" "length p \<le> 34987" by (rule ext_info_works)
  have "\<exists>t. send_msg (write_sealed E) ext_info_payload u = Inr t \<and> inp t = inp u" for u :: sealed
  proof -
    obtain pkt where "write_sealed E p u = Inr (u\<lparr>draws := Suc (draws u), writes := Suc (writes u), outp := outp u @ [pkt],
               seq_tx := seq_tx u + 1, sent := sent u @ [p], tx := cipher_advance 1 (tx u)\<rparr>)"
      by (rule env_works_write[OF assms(1) p(2)])
    then show ?thesis by (simp add: send_msg_def p)
  qed
  note ext = this
  show ?thesis
    unfolding exchange_newkeys_def w try_bind_simps Let_def r prod.case
    using ext[of "conn.extend (conn.truncate (?s1\<lparr>seq_tx := 0, inp := rest, seq_rx := 0\<rparr>))
        (sealed.fields rx0 tx0 (nk_exchange_hash s) (nk_client_id s))"]
    by (cases "ext_info ?n") (auto simp: d)
qed

section \<open>The whole handshake\<close>

lemma read_sealed_packet:
  assumes "sealed_packet (aead E) (rx s) (seq_rx s) b p" and "inp s = b @ rest"
  shows "read_sealed E s = Inr (p, s\<lparr>inp := rest, rx := cipher_advance 1 (rx s), seq_rx := seq_rx s + 1\<rparr>)"
  using assms unfolding read_sealed_Inr by (intro exI[of _ b]) simp

lemma accept_works:
  assumes "env_works E"
  obtains t where "accept E s = Inr t"
proof -
  obtain pkt where "write_sealed E [SSH_MSG_SERVICE_ACCEPT] s = Inr (s\<lparr>draws := Suc (draws s), writes := Suc (writes s),
      outp := outp s @ [pkt], seq_tx := seq_tx s + 1, sent := sent s @ [[SSH_MSG_SERVICE_ACCEPT]], tx := cipher_advance 1 (tx s)\<rparr>)"
    by (rule env_works_write[OF assms, of "[SSH_MSG_SERVICE_ACCEPT]" s]) auto
  then show ?thesis using that by (simp add: accept_def send_msg_def writer_simps)
qed

text \<open>The messages of a client that follows the protocol, up to NEWKEYS.\<close>

definition good_client ::
  "env \<Rightarrow> bytes \<Rightarrow> bytes \<Rightarrow> bytes \<Rightarrow> bytes \<Rightarrow> bytes \<Rightarrow> bytes \<Rightarrow> negotiated \<Rightarrow> bool" where
  "good_client E line b1 g b2 b3 ci n \<longleftrightarrow>
     0x0A \<notin> set line \<and> length line \<le> 253 \<and> (\<exists>i. parse_peer_id line = Inr i) \<and>
     (\<exists>theirs peer. plain_packet b1 theirs \<and> parse_kexinit theirs = Inr peer \<and> negotiate peer True = Inr n \<and>
        (if skip_guessed_packet n then \<exists>p. plain_packet g p else g = [])) \<and>
     plain_packet b2 (SSH_MSG_KEX_HYBRID_INIT # ssh_string ci) \<and> length ci = 1216 \<and>
     mlkem_valid_ek (kem E) (take 1184 ci) \<and>
     (\<forall>secret. was_contributory (kem E) (x25519_dh (kem E) secret (drop 1184 ci))) \<and>
     plain_packet b3 [SSH_MSG_NEWKEYS]"

text \<open>The stages up to the keys, as \<^verbatim>\<open>run_connection\<close> composes them.\<close>

definition key_phase :: "env \<Rightarrow> signing_key \<Rightarrow> conn \<Rightarrow> (negotiated \<times> sealed) outcome" where
  "key_phase E hk s =
     try_bind (version_exchange E s) (\<lambda>t. try_bind (exchange_kexinit E t) (\<lambda>t.
     try_bind (run_hybrid E hk t) (\<lambda>t. exchange_newkeys E t)))"

lemma handshake_keys:
  assumes "env_works E" and "crypto_ok E" and "server_key E hk" and "\<forall>s m c. mldsa_sign (sigp E) s m c \<noteq> None"
    and "good_client E line b1 g b2 b3 ci n"
    and "inp s = line @ [0x0D, 0x0A] @ b1 @ g @ b2 @ b3 @ rest"
  shows "\<exists>t. key_phase E hk s = Inr (n, t) \<and> inp t = rest \<and> length (session_id t) = 32 \<and> client_id t = line \<and> seq_rx t = 0"
proof -
  obtain i theirs peer where c: "0x0A \<notin> set line" "length line \<le> 253" "parse_peer_id line = Inr i"
    "plain_packet b1 theirs" "parse_kexinit theirs = Inr peer" "negotiate peer True = Inr n"
    "if skip_guessed_packet n then \<exists>p. plain_packet g p else g = []"
    "plain_packet b2 (SSH_MSG_KEX_HYBRID_INIT # ssh_string ci)" "length ci = 1216"
    "mlkem_valid_ek (kem E) (take 1184 ci)"
    "\<forall>secret. was_contributory (kem E) (x25519_dh (kem E) secret (drop 1184 ci))"
    "plain_packet b3 [SSH_MSG_NEWKEYS]"
    using assms(5) unfolding good_client_def by blast
  obtain a where a: "version_exchange E s = Inr a" "peer_id_line a = line" "inp a = b1 @ g @ b2 @ b3 @ rest"
    using version_exchange_completes[OF assms(1) c(1-3)] assms(6) by auto
  obtain b where b: "exchange_kexinit E a = Inr b" "i_c b = theirs" "hi_negotiated b = n" "inp b = b2 @ b3 @ rest"
    "peer_id_line b = line" "length (i_s b) \<le> 34991"
    using exchange_kexinit_completes[OF assms(1) c(4-7) a(3)] a(2) by auto
  have "length (peer_id_line b) \<le> 255" "length (i_c b) \<le> 35000"
    using b c(2) plain_packet_short[OF c(4)] by simp_all
  from run_hybrid_completes[OF assms(1-4) c(8-11) this b(6,4)]
  obtain d where d: "run_hybrid E hk b = Inr d" "inp d = b3 @ rest" "nk_negotiated d = n" "nk_client_id d = line"
    "length (nk_shared_secret d) = 32" "length (nk_exchange_hash d) = 32"
    using b by auto
  obtain t where t: "exchange_newkeys E d = Inr (n, t)" "inp t = rest"
    using exchange_newkeys_completes[OF assms(1) _ d(5) _ _ c(12) d(2)] negotiate_ciphers[OF c(6)] d(3) assms(2)
    by (auto simp: crypto_ok_def)
  have "session_id t = nk_exchange_hash d \<and> client_id t = nk_client_id d \<and> seq_rx t = 0"
    using newkeys_ok[OF t(1)] by metis
  then show ?thesis using a b d t by (simp add: key_phase_def)
qed

lemma auth_after_keys:
  assumes "env_works E" and "key_phase E hk s = Inr (n, t)" and "seq_rx t = 0" and "inp t = b4 @ b5 @ rest"
    and "sealed_packet (aead E) (rx t) 0 b4 p4" and "parse_service_request p4 = Inr (ascii ''ssh-userauth'')"
    and "sealed_packet (aead E) (cipher_advance 1 (rx t)) 1 b5 p5"
    and "parse_userauth_request p5 = Inr (PublicKey user alg blob (Some sd))"
    and "\<forall>now. resolve (sigp E) alg blob user keys cas now = Some cand"
    and "verify_auth_signature (sigp E) (session_id t) (sd_data sd) (sd_signature sd) (cand_key cand) = Some True"
  shows "\<exists>acc. auth_phase E hk keys cas s = Inr acc \<and> authenticated acc = cand_outcome cand \<and>
    session_id acc = session_id t \<and> inp acc = rest"
proof -
  let ?t = "t\<lparr>audit := audit t @ [KexCompleted (kex_algorithm n) (host_key_algorithm n)]\<rparr>"
  let ?e = "?t\<lparr>inp := b5 @ rest, rx := cipher_advance 1 (rx t), seq_rx := 1\<rparr>"
  have "read_service_request E ?t = Inr (ascii ''ssh-userauth'', ?e)"
    using read_sealed_packet[of E ?t b4 p4 "b5 @ rest"] assms(3-6) by (simp add: read_service_request_def)
  moreover obtain f where f: "accept E ?e = Inr f" by (rule accept_works[OF assms(1)])
  ultimately have ph: "auth_phase E hk keys cas s = authenticate E keys cas f"
    using assms(2) by (auto simp: auth_phase_def key_phase_def try_bind_iff Let_def)
  note af = accept_ok[OF f]
  have "sealed_packet (aead E) (rx f) (seq_rx f) b5 p5" "inp f = b5 @ rest" using af assms(7) by simp_all
  from auth_accepts_packet[OF assms(1,8) _ _ this] show ?thesis
    unfolding ph using assms(9,10) af by simp
qed


section \<open>No panic\<close>

lemma plain_rejected: "length (reason r) \<le> u32_max \<Longrightarrow> fst (reject_plain E r s) \<noteq> Panicked"
  unfolding reject_plain_def
  by (rule plain_w.disconnect_trace[where E = E and r = r and
        s = "if disconnect_code r = DISCONNECT_KEY_EXCHANGE_FAILED
             then s\<lparr>audit := audit s @ [KexFailedEvent (reason r) (disconnect_code r)]\<rparr> else s"]) auto

lemma kex_reasons:
  "try_bind (parse_kexinit p) (\<lambda>peer. negotiate peer i) = Inl (KexRejected r) \<Longrightarrow> length (reason r) \<le> u32_max"
  "hybrid_exchange_with K ci fill = Inl (KexRejected r) \<Longrightarrow> length (reason r) \<le> u32_max"
  by (auto simp: try_bind_iff parse_kexinit_def map_err_def negotiate_def hybrid_exchange_with_def Let_def kex_failed_def
      split: if_splits option.splits sum.splits prod.splits)

text \<open>An outcome that is not a panic, and how it composes.\<close>

definition safe :: "'a outcome \<Rightarrow> bool" where
  "safe r \<longleftrightarrow> (case r of Inl (e, t) \<Rightarrow> e \<noteq> Panicked | Inr x \<Rightarrow> True)"

lemma safe_simps [simp]: "safe (Inr x)" "safe (Inl y) \<longleftrightarrow> fst y \<noteq> Panicked" "safe (fail e s) \<longleftrightarrow> e \<noteq> Panicked"
  by (auto simp: safe_def fail_def split: prod.splits)

lemma safe_bind:
  assumes "safe m" and "\<And>x. m = Inr x \<Longrightarrow> safe (k x)"
  shows "safe (try_bind m k)"
  using assms by (cases m) simp_all

lemma safe_io [simp]: "safe (read_plain s)" "safe (read_sealed E u)" "safe (write_plain E p s)" "safe (write_sealed E p u)"
  "safe (write_all E p s)"
proof -
  show "safe (read_plain s)"
    using read_plain_Inl[of s] by (cases "read_plain s") (auto simp: safe_def split: prod.splits)
  show "safe (read_sealed E u)"
    using read_sealed_Inl[of E u] by (cases "read_sealed E u") (auto simp: safe_def split: prod.splits)
  show "safe (write_plain E p s)"
    using write_plain_Inl[of E p s] by (cases "write_plain E p s") auto
  show "safe (write_sealed E p u)"
    using write_sealed_Inl[of E p u] by (cases "write_sealed E p u") auto
  show "safe (write_all E p s)" by (simp add: write_all_def Let_def)
qed

lemma safe_msg: "m \<noteq> None \<Longrightarrow> (\<And>p. safe (send p s)) \<Longrightarrow> safe (send_msg send m s)"
  by (auto simp: send_msg_def split: option.splits)

lemma sealed_rejected_safe: "length (reason r) \<le> u32_max \<Longrightarrow> fst (reject_sealed E r s) \<noteq> Panicked"
  unfolding reject_sealed_def by (rule sealed_w.disconnect_trace[where E = E and r = r and s = s]) auto

lemma version_exchange_safe: "safe (version_exchange E s)"
  unfolding version_exchange_def
  by (rule safe_bind) (simp_all add: Let_def split: option.split sum.split prod.split)

lemma build_kexinit_some: "build_kexinit fill = Inr ours \<Longrightarrow> ours \<noteq> None"
proof -
  have "length KEX_LIST \<le> u32_max" by (simp add: KEX_LIST_def)
  then show "build_kexinit fill = Inr ours \<Longrightarrow> ours \<noteq> None"
    by (auto simp: build_kexinit_def build_kexinit_with_Inr_iff)
qed

lemma exchange_kexinit_safe: "safe (exchange_kexinit E s)"
proof -
  have g: "safe (if skip_guessed_packet n then try_bind (read_plain u) (\<lambda>(skipped, s). Inr s) else Inr u)"
    for n and u :: kex_init
    by (auto intro!: safe_bind split: prod.splits)
  show ?thesis
    unfolding exchange_kexinit_def draw_def Let_def prod.case
    by (auto split: sum.split kex_error.split intro!: safe_bind safe_msg plain_rejected g
        dest: build_kexinit_some kex_reasons)
qed

lemma run_hybrid_safe:
  assumes "crypto_ok E" and "server_key E hk" and "length (peer_id_line s) \<le> 255" and "length (i_c s) \<le> 35000"
    and "length (i_s s) \<le> 34991"
  shows "safe (run_hybrid E hk s)"
proof -
  have k: "kem_ok (kem E)" "sig_ok (sigp E)" using assms(1) by (simp_all add: crypto_ok_def)
  obtain blob where blob: "public_key_blob hk = Some blob" "length blob = 1371"
    by (rule server_key_blob[OF k(2) assms(2)])
  have core: "safe (case exchange_hash (sha256 (kem E))
      \<lparr>eh_client_id = peer_id_line s, eh_server_id = SERVER_ID, eh_client_kexinit = i_c s,
       eh_server_kexinit = i_s s, eh_host_key_blob = blob, eh_client_init = ci, eh_server_reply = server_reply out,
       eh_shared_secret = shared_secret out\<rparr> of None \<Rightarrow> fail Panicked u | Some h \<Rightarrow>
      case host_key_sign (sigp E) hk h of
        Inl _ \<Rightarrow> Inl (reject_plain E (kex_failed ''rng-failure'') u)
      | Inr None \<Rightarrow> fail Panicked u
      | Inr (Some signature) \<Rightarrow>
         try_bind (send_msg (write_plain E) (hybrid_reply blob (server_reply out) signature) u) (\<lambda>s. Inr (f h s)))"
    if out: "hybrid_exchange_with (kem E) ci fill = Inr out"
    for out ci fill and u :: hybrid_init and f :: "bytes \<Rightarrow> hybrid_init \<Rightarrow> new_keys"
  proof -
    note ol = hybrid_out_lengths[OF k(1) out]
    let ?x = "\<lparr>eh_client_id = peer_id_line s, eh_server_id = SERVER_ID, eh_client_kexinit = i_c s,
       eh_server_kexinit = i_s s, eh_host_key_blob = blob, eh_client_init = ci, eh_server_reply = server_reply out,
       eh_shared_secret = shared_secret out\<rparr>"
    obtain h where h: "exchange_hash (sha256 (kem E)) ?x = Some h" "length h = 32"
      by (rule exchange_hash_works[OF k(1), of ?x]) (use assms(3-5) ol blob in simp_all)
    show ?thesis
    proof (cases "host_key_sign (sigp E) hk h")
      case (Inl x)
      then show ?thesis by (auto simp: h intro!: plain_rejected) (simp add: kex_failed_def)
    next
      case (Inr sg)
      obtain g where g: "sg = Some g" "length g = 2511" by (rule server_key_signature[OF k(2) Inr])
      obtain q where "hybrid_reply blob (server_reply out) g = Some q"
        by (rule hybrid_reply_works[OF blob(2) ol(1) g(2)])
      then show ?thesis by (auto simp: h Inr g intro!: safe_bind safe_msg)
    qed
  qed
  have s1: "peer_id_line s1 = peer_id_line s \<and> i_c s1 = i_c s \<and> i_s s1 = i_s s"
    if r: "read_plain s = Inr (p, s1)" for p s1
  proof -
    obtain b where b: "s1 = s\<lparr>inp := inp s1, seq_rx := seq_rx s + 1\<rparr>" using r by (rule plain_read_ok)
    show ?thesis by (subst (1 2 3) b) simp
  qed
  show ?thesis
    unfolding run_hybrid_def Let_def
    apply (rule safe_bind)
     apply simp
    apply (auto simp: blob split: sum.split kex_error.split intro!: plain_rejected core
        dest!: s1 dest: kex_reasons)
    done
qed

lemma exchange_newkeys_safe:
  assumes "kem_ok (kem E)" and "length (nk_shared_secret s) = 32"
    and "cipher_c2s (nk_negotiated s) \<in> {CHACHA20_POLY1305, AES256_GCM}"
    and "cipher_s2c (nk_negotiated s) \<in> {CHACHA20_POLY1305, AES256_GCM}"
  shows "safe (exchange_newkeys E s)"
proof -
  obtain x where x: "ext_info_payload = Some x" by (rule ext_info_works)
  obtain rx0 tx0 where d: "derive_cipher_pair E (nk_shared_secret s) (nk_exchange_hash s) (nk_exchange_hash s)
      (cipher_c2s (nk_negotiated s)) (cipher_s2c (nk_negotiated s)) = Inr (rx0, tx0)"
    by (rule derive_cipher_pair_works[OF assms])
  have same: "nk_shared_secret s2 = nk_shared_secret s \<and> nk_exchange_hash s2 = nk_exchange_hash s \<and> nk_negotiated s2 = nk_negotiated s"
    if w: "write_plain E q s = Inr s1" and r: "read_plain (s1\<lparr>seq_tx := 0\<rparr>) = Inr (p, s2)" for p q s1 s2
  proof -
    obtain b where b: "s2 = s1\<lparr>seq_tx := 0, inp := inp s2, seq_rx := seq_rx s1 + 1\<rparr>"
      using r by (rule plain_read_ok) auto
    show ?thesis using w by (subst (1 2 3) b) (auto simp: write_plain_Inr)
  qed
  show ?thesis
    unfolding exchange_newkeys_def Let_def
    by (auto simp: d x dest!: same intro!: safe_bind safe_msg plain_rejected)
qed

lemma pk_ok_some:
  assumes "parse_userauth_request p = Inr (PublicKey user alg blob None)"
  shows "build_pk_ok alg blob \<noteq> None"
proof -
  have "length alg \<le> KEY_ALGO_BOUND \<and> length blob \<le> CERT_BLOB_BOUND"
    using assms
    by (auto simp: parse_userauth_request_def read_request_def rd_bind_Inr_iff try_bind_iff string_codec.dec_iff
        KEY_BLOB_BOUND_def CERT_BLOB_BOUND_def split: list.splits if_splits)
  then show ?thesis
    by (simp add: build_pk_ok_def writer_simps KEY_ALGO_BOUND_def CERT_BLOB_BOUND_def)
qed

lemma auth_refused_safe: "safe (auth_refused E a f m s)"
  using auth_refused_fail[of E a f m s] by (cases "auth_refused E a f m s") (auto split: prod.splits)

lemma auth_step_safe:
  assumes "length (session_id s) \<le> u32_max"
  shows "safe (auth_step E keys cas a f s)"
proof (cases rule: auth_step_cases[of E s keys cas a f])
  case (io e)
  then show ?thesis using safe_io(2)[of E s] by simp
next
  case (malformed payload s1 err)
  then show ?thesis by (simp add: sealed_rejected_safe)
next
  case (refused payload s1 m)
  then show ?thesis by (simp add: auth_refused_safe)
next
  case (signed payload s1 user alg blob sd)
  have v: "verify_auth_signature (sigp E) (session_id s1) d g k \<noteq> None" for d g k
    using assms read_sealed_frame[OF signed(1)]
    by (simp add: verify_auth_signature_def auth_signed_data_def writer_simps)
  show ?thesis
    unfolding signed(3)
  proof (cases rule: auth_signed_cases[of E alg blob user keys cas s1 sd a f])
    case (panic c)
    then show "safe (auth_signed E keys cas a f user alg blob sd s1)" using v by blast
  qed (auto simp: auth_refused_safe intro!: safe_bind)
next
  case (probe payload s1 user alg blob)
  then show ?thesis
    using pk_ok_some[OF probe(2)]
    by (auto simp: auth_probe_def resolve_now_def auth_refused_safe sealed_rejected_safe intro!: safe_bind safe_msg)
qed

lemma auth_loop_safe:
  "length (session_id s) \<le> u32_max \<Longrightarrow> safe (auth_loop E keys cas a f s)"
proof (induction E keys cas a f s rule: auth_loop.induct)
  case (1 E keys cas a f s)
  show ?case
  proof (cases rule: auth_loop_cases[of E keys cas a f s])
    case (stop e)
    then show ?thesis using auth_step_safe[OF "1.prems", of E keys cas a f] by simp
  next
    case (again a' f' s')
    then show ?thesis using "1.IH"[OF again(1) refl] "1.prems" auth_step_more[OF again(1)] by simp
  qed simp
qed

lemma service_safe: "safe (read_service_request E s)" "safe (accept E s)" "fst (deny E s) \<noteq> Panicked"
proof -
  show "safe (read_service_request E s)"
    unfolding read_service_request_def
    by (rule safe_bind) (auto split: sum.split intro!: sealed_rejected_safe)
  show "safe (accept E s)"
    unfolding accept_def by (rule safe_msg) (simp_all add: writer_simps)
  let ?r = "\<lparr>reason = ''service-not-available'', disconnect_code = DISCONNECT_SERVICE_NOT_AVAILABLE\<rparr>"
  have "safe (send_msg (write_sealed E) (disconnect_payload ?r) s)"
    by (rule safe_msg) (simp_all add: disconnect_payload_def writer_simps)
  then show "fst (deny E s) \<noteq> Panicked"
    by (auto simp: deny_def Let_def split: sum.split)
qed

lemma peer_id_short: "parse_peer_id line = Inr i \<Longrightarrow> length line \<le> 255"
  by (auto simp: parse_peer_id_def MAX_ID_LINE_def split: if_splits)

lemma built_kexinit_short:
  assumes "fills fill" and "build_kexinit fill = Inr (Some p)"
  shows "length p \<le> 34991"
proof -
  have l: "length KEX_LIST = 50" "length HOST_KEY_LIST = 19" "length ENCRYPTION_LIST = 52" "length MAC_LIST = 29"
    "length COMPRESSION_LIST = 4"
    by code_simp+
  show ?thesis
    using assms by (auto simp: build_kexinit_def build_kexinit_with_Inr_iff fills_def l)
qed

text \<open>
  C15 (safety). No input makes the handshake panic: whatever bytes the peer sends and however the
  random source and the socket fail, every stage ends in a value, a rejection or an I/O error.
  The hypotheses are the documented output lengths of the cryptographic primitives, a host key
  made from seeds, and a random source that fills the buffer it is given when it succeeds.
\<close>

theorem handshake_never_panics:
  assumes "crypto_ok E" and "server_key E hk" and "\<forall>i. fills (rand E i)"
  shows "case auth_phase E hk keys cas s of Inl (e, t) \<Rightarrow> e \<noteq> Panicked | Inr acc \<Rightarrow> True"
proof -
  have k: "kem_ok (kem E)" using assms(1) by (simp add: crypto_ok_def)
  have "safe (auth_phase E hk keys cas s)"
    unfolding auth_phase_def Let_def
  proof (intro safe_bind)
    show "safe (version_exchange E s)" by (rule version_exchange_safe)
    fix a assume a: "version_exchange E s = Inr a"
    show "safe (exchange_kexinit E a)" by (rule exchange_kexinit_safe)
    fix b assume b: "exchange_kexinit E a = Inr b"
    obtain peer b1 where i: "plain_packet b1 (i_c b)" "negotiate peer True = Inr (hi_negotiated b)"
      "build_kexinit (rand E (draws a)) = Inr (Some (i_s b))" "peer_id_line b = peer_id_line a"
      by (rule exchange_kexinit_ok[OF b])
    have id: "length (peer_id_line b) \<le> 255"
      unfolding i(4) by (rule version_exchange_ok[OF a]) (auto dest: peer_id_short)
    have "fills (rand E (draws a))" using assms(3) by blast
    then show "safe (run_hybrid E hk b)"
      using id plain_packet_short[OF i(1)] built_kexinit_short[OF _ i(3)] by (intro run_hybrid_safe[OF assms(1,2)])
    fix d assume d: "run_hybrid E hk b = Inr d"
    obtain ci fill out h where o: "hybrid_exchange_with (kem E) ci fill = Inr out"
      "exchange_hash (sha256 (kem E)) h = Some (nk_exchange_hash d)"
      "nk_shared_secret d = shared_secret out" "nk_negotiated d = hi_negotiated b"
      by (rule run_hybrid_ok[OF d]) blast
    show "safe (exchange_newkeys E d)"
      using hybrid_out_lengths[OF k o(1)] negotiate_ciphers[OF i(2)] o(3,4)
      by (intro exchange_newkeys_safe[OF k]) simp_all
    fix x assume x: "exchange_newkeys E d = Inr x"
    obtain n t where nt: "x = (n, t)" by (cases x)
    have h: "length (session_id t) = 32"
      using newkeys_ok[OF x[unfolded nt]] o(2) k by (metis exchange_hash_def kem_ok_def map_option_eq_Some)
    have "safe (try_bind (read_service_request E u) (\<lambda>(service, responder).
      if service = ascii ''ssh-userauth'' then try_bind (accept E responder) (authenticate E keys cas)
      else Inl (deny E responder)))" if "session_id u = session_id t" for u
    proof (rule safe_bind, rule service_safe)
      fix y assume y: "read_service_request E u = Inr y"
      obtain service e where e: "y = (service, e)" by (cases y)
      have se: "length (session_id e) \<le> u32_max"
        by (rule service_request_ok[OF y[unfolded e]]) (use that h in simp)
      have "safe (try_bind (accept E e) (authenticate E keys cas))"
      proof (rule safe_bind, rule service_safe)
        fix f assume f: "accept E e = Inr f"
        show "safe (authenticate E keys cas f)"
          unfolding authenticate_def by (rule auth_loop_safe) (use accept_ok[OF f] se in simp)
      qed
      then show "safe (case y of (service, responder) \<Rightarrow> if service = ascii ''ssh-userauth''
          then try_bind (accept E responder) (authenticate E keys cas) else Inl (deny E responder))"
        by (simp add: e service_safe(3))
    qed
    then show "safe (case x of (n, t) \<Rightarrow> try_bind (read_service_request E
        (t\<lparr>audit := audit t @ [KexCompleted (kex_algorithm n) (host_key_algorithm n)]\<rparr>)) (\<lambda>(service, responder).
      if service = ascii ''ssh-userauth'' then try_bind (accept E responder) (authenticate E keys cas)
      else Inl (deny E responder)))"
      by (simp add: nt)
  qed
  then show ?thesis by (simp add: safe_def)
qed

section \<open>Witnesses\<close>

definition toy_hk :: signing_key where
  "toy_hk = signing_key_from_seeds toy_sig (replicate 64 1)"

definition toy_list :: bytes where
  "toy_list = ascii ''mlkem768x25519-sha256,kex-strict-c-v00@openssh.com''"

definition toy_negotiated :: negotiated where
  "toy_negotiated = \<lparr>kex_algorithm = KEX_ALGORITHM, host_key_algorithm = HOST_KEY_LIST,
     cipher_c2s = ascii ''chacha20-poly1305@openssh.com'', cipher_s2c = ascii ''chacha20-poly1305@openssh.com'',
     ext_info = False, skip_guessed_packet = False\<rparr>"

definition toy_rx :: packet_cipher where
  "toy_rx = ChaCha (chacha_new (replicate 64 3))"

lemma toy_plain: "length p \<le> 34991 \<Longrightarrow> \<exists>b. plain_packet b p"
  by (rule exI[of _ "projr (encode_packet zeros p)"], rule plain_packet_encode[of zeros])
    (simp_all add: encode_packet_eq zeros_def Let_def)

lemma toy_seal: "length p \<le> 34987 \<Longrightarrow> \<exists>b. sealed_packet toy_prims c n b p"
proof -
  assume "length p \<le> 34987"
  then have "length p \<le> (case c of ChaCha c \<Rightarrow> 34995 | Gcm c \<Rightarrow> 34987)" by (simp split: packet_cipher.split)
  moreover have "\<forall>k n a p. gcm_encrypt toy_prims k n a p \<noteq> None" "\<forall>n. zeros n \<noteq> None"
    by (simp_all add: toy_prims_def)
  ultimately obtain c' b where "cipher_seal toy_prims zeros c n p = (c', Inr b)"
    using seal_accepts_iff[OF toy_ok(2), of toy_prims] by (metis prod.collapse)
  then show ?thesis using sealed_packet_of_seal[OF toy_ok(1,2)] by blast
qed

lemma toy_client: "\<exists>b1 b2 b3. good_client toy_env (ascii ''SSH-2.0-x'') b1 [] b2 b3 (replicate 1216 1) toy_negotiated"
proof -
  have gl: "good_list toy_list" by code_simp
  have "\<exists>w. build_kexinit_with zeros toy_list = Inr w" by (simp add: build_kexinit_with_def zeros_def)
  then obtain p where p: "build_kexinit_with zeros toy_list = Inr (Some p)" and k: "parse_kexinit p = Inr
    \<lparr>kex_algorithms = NameList toy_list, server_host_key_algorithms = NameList HOST_KEY_LIST,
     encryption_c2s = NameList ENCRYPTION_LIST, encryption_s2c = NameList ENCRYPTION_LIST,
     compression_c2s = NameList COMPRESSION_LIST, compression_s2c = NameList COMPRESSION_LIST,
     first_kex_packet_follows = False\<rparr>"
    using parse_built_kexinit[OF toy_ok(2) gl] by blast
  have n: "negotiate \<lparr>kex_algorithms = NameList toy_list, server_host_key_algorithms = NameList HOST_KEY_LIST,
     encryption_c2s = NameList ENCRYPTION_LIST, encryption_s2c = NameList ENCRYPTION_LIST,
     compression_c2s = NameList COMPRESSION_LIST, compression_s2c = NameList COMPRESSION_LIST,
     first_kex_packet_follows = False\<rparr> True = Inr toy_negotiated"
    by code_simp
  have "length toy_list = 50" "length HOST_KEY_LIST = 19" "length ENCRYPTION_LIST = 52" "length MAC_LIST = 29"
    "length COMPRESSION_LIST = 4"
    by code_simp+
  then have "length p \<le> 34991" using p by (auto simp: build_kexinit_with_Inr_iff zeros_def)
  then obtain b1 where b1: "plain_packet b1 p" using toy_plain by blast
  have "length (SSH_MSG_KEX_HYBRID_INIT # ssh_string (replicate 1216 1)) \<le> 34991" by simp
  then obtain b2 where b2: "plain_packet b2 (SSH_MSG_KEX_HYBRID_INIT # ssh_string (replicate 1216 1))"
    using toy_plain by blast
  obtain b3 where b3: "plain_packet b3 [SSH_MSG_NEWKEYS]" using toy_plain[of "[SSH_MSG_NEWKEYS]"] by auto
  have line: "0x0A \<notin> set (ascii ''SSH-2.0-x'')" "length (ascii ''SSH-2.0-x'') \<le> 253"
    "parse_peer_id (ascii ''SSH-2.0-x'') = Inr \<lparr>protoversion = ascii ''2.0'', softwareversion = ascii ''x''\<rparr>"
    by code_simp+
  show ?thesis
    unfolding good_client_def
    using line b1 b2 b3 k n by (intro exI[of _ b1] exI[of _ b2] exI[of _ b3])
      (auto simp: toy_negotiated_def toy_kem_def)
qed

lemma toy_crypto [simp]: "crypto_ok toy_env" "server_key toy_env toy_hk" "\<forall>s m c. mldsa_sign (sigp toy_env) s m c \<noteq> None"
  by (auto simp: crypto_ok_def kem_ok_def toy_kem_def toy_sig_ok server_key_def toy_hk_def)
    (simp add: toy_sig_def)

lemma toy_derive: "derive_key (\<lambda>m. replicate 32 3) k h letter sid len = Some x \<Longrightarrow> x = replicate len 3"
proof -
  have ks: "\<exists>j. key_stream (\<lambda>m. replicate 32 3) ks h (replicate 32 3) n = replicate j 3" for ks n
  proof (induction n)
    case 0
    show ?case by (rule exI[of _ 32]) simp
  next
    case (Suc n)
    then obtain j where "key_stream (\<lambda>m. replicate 32 3) ks h (replicate 32 3) n = replicate j 3" by blast
    then show ?case by (intro exI[of _ "j + 32"]) (simp add: Let_def replicate_add)
  qed
  assume d: "derive_key (\<lambda>m. replicate 32 3) k h letter sid len = Some x"
  then obtain kstr y where y: "derive_extend (\<lambda>m. replicate 32 3) kstr h len (replicate 32 3) = Some y" "x = take len y"
    by (auto simp: derive_key_def split: option.splits)
  obtain n where n: "derive_extend (\<lambda>m. replicate 32 3) kstr h len (replicate 32 3) =
      Some (key_stream (\<lambda>m. replicate 32 3) kstr h (replicate 32 3) n)" "len \<le> 32 * Suc n"
    using derive_extend_stream[of "\<lambda>m. replicate 32 3" "replicate 32 3" len 0 len kstr h] by auto
  have "length (key_stream (\<lambda>m. replicate 32 3) kstr h (replicate 32 (3 :: u8)) n) = 32 * Suc n"
    by (rule length_key_stream) simp_all
  moreover obtain j where "key_stream (\<lambda>m. replicate 32 3) kstr h (replicate 32 (3 :: u8)) n = replicate j 3"
    using ks by blast
  ultimately have "x = take len (replicate j 3)" "len \<le> j" using y n by (auto dest: arg_cong[where f = length])
  then show ?thesis by (simp add: min_def)
qed

lemma toy_session:
  assumes "key_phase toy_env toy_hk s = Inr (toy_negotiated, t)"
  shows "session_id t = replicate 32 3" "rx t = toy_rx"
proof -
  obtain b d where c: "run_hybrid toy_env toy_hk b = Inr d" and n: "exchange_newkeys toy_env d = Inr (toy_negotiated, t)"
    using assms by (auto simp: key_phase_def try_bind_iff)
  have sha: "sha256 toy_kem = (\<lambda>m. replicate 32 3)" by (simp add: toy_kem_def)
  have h: "nk_exchange_hash d = replicate 32 3"
    by (rule run_hybrid_ok[OF c]) (auto simp: exchange_hash_def sha)
  obtain rx0 tx0 where r: "derive_cipher_pair toy_env (nk_shared_secret d) (nk_exchange_hash d) (nk_exchange_hash d)
       (cipher_c2s toy_negotiated) (cipher_s2c toy_negotiated) = Inr (rx0, tx0)"
    and t: "session_id t = nk_exchange_hash d" "rx t = rx0"
    by (rule newkeys_ok[OF n]) blast
  show "session_id t = replicate 32 3" using t(1) h by simp
  have kl: "key_len (cipher_c2s toy_negotiated) = 64" "iv_len (cipher_c2s toy_negotiated) = 0"
    "cipher_c2s toy_negotiated = CHACHA20_POLY1305"
    by (simp_all add: toy_negotiated_def key_len_def iv_len_def CHACHA20_POLY1305_def)
  obtain key iv where "derive_key (\<lambda>m. replicate 32 3) (nk_shared_secret d) (nk_exchange_hash d) 0x43 (nk_exchange_hash d) 64 = Some key"
    "packet_cipher_new CHACHA20_POLY1305 (take 64 key) iv = Inr rx0"
    using r unfolding derive_cipher_pair_def Let_def toy_env_simps sha kl(1,2) kl(3)
    by (auto simp: try_bind_iff kl(1)[unfolded kl(3)])
  then show "rx t = toy_rx"
    by (auto simp: t(2) packet_cipher_new_def toy_rx_def dest!: toy_derive split: if_splits)
qed

definition toy_service :: bytes where
  "toy_service = SSH_MSG_SERVICE_REQUEST # ssh_string (ascii ''ssh-userauth'')"

lemma toy_service_parses: "parse_service_request toy_service = Inr (ascii ''ssh-userauth'')"
proof -
  have "utf8_valid (ascii ''ssh-userauth'')" by code_simp
  moreover have "reader_string SERVICE_BOUND (ssh_string (ascii ''ssh-userauth'')) = Inr (ascii ''ssh-userauth'', [])"
    by (simp add: string_codec.dec_iff SERVICE_BOUND_def)
  ultimately show ?thesis
    by (simp add: parse_service_request_def toy_service_def reader_byte_def reader_take_def rd_bind_def reader_finish_def)
qed

definition toy_conn :: "bytes \<Rightarrow> conn" where
  "toy_conn input = \<lparr>outp = [], sent = [], audit = [], inp = input, draws = 0, writes = 0, clock_reads = 0,
     seq_tx = 0, seq_rx = 0\<rparr>"

lemma toy_packets:
  obtains b4 b5 where "sealed_packet toy_prims toy_rx 0 b4 toy_service"
    "sealed_packet toy_prims (cipher_advance 1 toy_rx) 1 b5 toy_login"
proof -
  have "length toy_service \<le> 34987" "length toy_login \<le> 34987"
    by (simp_all add: toy_service_def toy_login_def request_data_def toy_login_sig_def KEY_ALGORITHM_def)
  then show ?thesis using toy_seal that by blast
qed

lemma toy_run:
  obtains b1 b2 b3 b4 b5 where
    "good_client toy_env (ascii ''SSH-2.0-x'') b1 [] b2 b3 (replicate 1216 1) toy_negotiated"
    "sealed_packet toy_prims toy_rx 0 b4 toy_service"
    "sealed_packet toy_prims (cipher_advance 1 toy_rx) 1 b5 toy_login"
  using toy_client toy_packets by metis

lemma toy_resolves: "\<forall>now. resolve (sigp toy_env) KEY_ALGORITHM [1, 2] (ascii ''alice'') toy_keys None now =
  Some \<lparr>cand_key = replicate 32 5, cand_outcome = \<lparr>ao_fingerprint = [7], ao_certificate = None, ao_pty_permitted = True\<rparr>\<rparr>"
  by (simp add: resolve_def toy_keys_def lookup_key_def)


theorem handshake_binds_transcript_witness:
  "\<exists>input acc n line k tail sents. auth_phase toy_env toy_hk toy_keys None (toy_conn input) = Inr acc \<and>
     plain_transcript toy_env toy_hk input n line k (session_id acc) tail sents"
proof -
  obtain b1 b2 b3 b4 b5 where
    c: "good_client toy_env (ascii ''SSH-2.0-x'') b1 [] b2 b3 (replicate 1216 1) toy_negotiated"
    and s: "sealed_packet toy_prims toy_rx 0 b4 toy_service"
      "sealed_packet toy_prims (cipher_advance 1 toy_rx) 1 b5 toy_login"
    by (rule toy_run)
  let ?i = "ascii ''SSH-2.0-x'' @ [0x0D, 0x0A] @ b1 @ [] @ b2 @ b3 @ b4 @ b5 @ []"
  have i: "inp (toy_conn ?i) = ?i" by (simp add: toy_conn_def)
  obtain t where t: "key_phase toy_env toy_hk (toy_conn ?i) = Inr (toy_negotiated, t)" "inp t = b4 @ b5 @ []" "seq_rx t = 0"
    using handshake_keys[OF toy_env_works toy_crypto c i] by blast
  obtain acc where acc: "auth_phase toy_env toy_hk toy_keys None (toy_conn ?i) = Inr acc"
    using auth_after_keys[OF toy_env_works t(1,3,2) _ toy_service_parses _ toy_login_parses toy_resolves]
      s toy_login_verifies toy_session[OF t(1)] by auto
  from handshake_binds_transcript[OF this] show ?thesis using acc i by (metis (no_types, lifting))
qed

theorem handshake_never_panics_witness:
  "\<exists>e t. auth_phase toy_env toy_hk toy_keys None (toy_conn [0]) = Inl (e, t) \<and> e \<noteq> Panicked"
proof -
  have f: "\<forall>i. fills (rand toy_env i)" by simp
  have "auth_phase toy_env toy_hk toy_keys None (toy_conn [0]) \<noteq> Inr acc" for acc
    by (simp add: auth_phase_def version_exchange_def write_all_def toy_conn_def read_id_line.simps MAX_ID_LINE_def fail_def)
  then show ?thesis
    using handshake_never_panics[OF toy_crypto(1,2) f, of toy_keys None "toy_conn [0]"]
    by (auto split: sum.splits prod.splits)
qed

end
