(* ===== verification/Serve.thy ===== *)
theory Serve
  imports Admission
begin

text \<open>
  \<^verbatim>\<open>crates/quantumssh-core/src/server.rs\<close>: the accept loop, the task of each connection and the drain.

  \<^item> \<open>serve_state\<close> has the locals of \<^verbatim>\<open>serve\<close>, the admission state its guards share, the tasks of the \<^verbatim>\<open>JoinSet\<close>, the
    shutdown deadlines broadcast and not yet received, the audit records of connections and a clock.
  \<^item> Each arm of the \<^verbatim>\<open>select!\<close> is a function; \<open>serve_step\<close> takes one whose guard holds, in any order, and interleaves
    the arms with the steps of the tasks. What a connection does inside \<^verbatim>\<open>run_connection\<close> is the subject of the
    handshake and channel theories; here it authenticates or not, and ends with a result.
  \<^item> A task that is dropped, by a panic or an abort, drops its guard.
  \<^item> Times are natural numbers. That a deadline and the grace fit an \<^verbatim>\<open>Instant\<close> is a matter of the configured drain
    timeout; \<open>Startup\<close> says for which ones they do.
\<close>

section \<open>Errors of accept\<close>

datatype accept_errno = EBADF | ENOTSOCK | EINVAL | ECONNABORTED | ECONNRESET | EPROTO | ENOPROTOOPT | EOPNOTSUPP
  | ENETDOWN | ENETUNREACH | EHOSTDOWN | EHOSTUNREACH | EOther nat

datatype accept_failure = Listener | Connection | Pause

fun classify_accept_error :: "accept_errno option \<Rightarrow> accept_failure" where
  "classify_accept_error e =
     (if e \<in> {Some EBADF, Some ENOTSOCK, Some EINVAL} then Listener
      else if e \<in> {Some ECONNABORTED, Some ECONNRESET, Some EPROTO, Some ENOPROTOOPT, Some EOPNOTSUPP, Some ENETDOWN,
                  Some ENETUNREACH, Some EHOSTDOWN, Some EHOSTUNREACH} then Connection
      else Pause)"

section \<open>State\<close>

definition ABORT_GRACE :: nat where "ABORT_GRACE = 2 * 10 ^ 9"
definition ACCEPT_BACKOFF :: nat where "ACCEPT_BACKOFF = 10 ^ 9"

text \<open>An audit record, with the number of the connection whose span it is in.\<close>

datatype srv_event = ConnAccepted (ev_conn: nat) | ConnRefused (ev_conn: nat) string | ConnClosed (ev_conn: nat) string

datatype conn_result = ConnOk | ConnRejected string | ConnIo string

text \<open>
  \<open>Marking\<close> is between the two halves of \<^verbatim>\<open>mark_authenticated\<close>, \<open>Logged\<close> between the last record and the drop of the
  guard; neither has a point at which the task could be cancelled. The last three are what the \<^verbatim>\<open>JoinSet\<close> yields.
\<close>

datatype task_stage = Spawned | Serving | Marking | DrainUntil nat | Closing string | Logged | Finished | Panicked | Cancelled

record task =
  t_id :: nat
  t_guard :: guard
  t_stage :: task_stage
  t_told :: "nat list" \<comment> \<open>the deadlines broadcast since the task's receiver exists\<close>

datatype serve_end = ServeOk | ServeErr

datatype serve_phase = Looping | Aborting | Returned serve_end

record serve_state =
  sv_adm :: adm_state
  sv_tasks :: "task list"
  sv_abort_at :: "nat option"
  sv_resume_at :: "nat option"
  sv_signals :: "nat list"
  sv_log :: "srv_event list"
  sv_next :: nat
  sv_clock :: nat
  sv_phase :: serve_phase

definition serve_start :: "nat \<Rightarrow> serve_state" where
  "serve_start now = \<lparr>sv_adm = adm_new, sv_tasks = [], sv_abort_at = None, sv_resume_at = None, sv_signals = [],
     sv_log = [], sv_next = 0, sv_clock = now, sv_phase = Looping\<rparr>"

section \<open>The task of a connection\<close>

definition close_reason :: "conn_result \<Rightarrow> string" where
  "close_reason r =
     (case r of ConnOk \<Rightarrow> ''session closed'' | ConnRejected why \<Rightarrow> ''rejected: '' @ why | ConnIo e \<Rightarrow> e)"

definition ended :: "task \<Rightarrow> bool" where
  "ended t \<longleftrightarrow> t_stage t \<in> {Finished, Panicked, Cancelled}"

definition cancellable :: "task \<Rightarrow> bool" where
  "cancellable t \<longleftrightarrow> \<not> ended t \<and> t_stage t \<noteq> Marking \<and> t_stage t \<noteq> Logged"

text \<open>
  The spawned future and \<^verbatim>\<open>handle\<close>: the connection against the shutdown, then the close. A receiver that lags behind
  the broadcast gets a later deadline than the first. A panic needs the task to have run.
\<close>

inductive task_step :: "limits \<Rightarrow> nat \<Rightarrow> task \<times> adm_state \<times> srv_event list \<Rightarrow> task \<times> adm_state \<times> srv_event list \<Rightarrow> bool"
  for l now where
  start: "t_stage t = Spawned \<Longrightarrow>
    task_step l now (t, st, L) (t\<lparr>t_stage := Serving\<rparr>, st, L @ [ConnAccepted (t_id t)])"
| mark_flag: "t_stage t = Serving \<Longrightarrow> \<not> authenticated (t_guard t) \<Longrightarrow>
    task_step l now (t, st, L) (t\<lparr>t_guard := (t_guard t)\<lparr>authenticated := True\<rparr>, t_stage := Marking\<rparr>, st, L)"
| mark_lock: "t_stage t = Marking \<Longrightarrow>
    task_step l now (t, st, L) (t\<lparr>t_stage := Serving\<rparr>, mark_release (t_guard t) st, L)"
| finish: "t_stage t = Serving \<or> t_stage t = DrainUntil d \<Longrightarrow>
    task_step l now (t, st, L) (t\<lparr>t_stage := Closing (close_reason r)\<rparr>, st, L)"
| drain: "t_stage t = Serving \<Longrightarrow> deadline \<in> set (t_told t) \<Longrightarrow> authenticated (t_guard t) \<Longrightarrow>
    task_step l now (t, st, L) (t\<lparr>t_stage := DrainUntil deadline\<rparr>, st, L)"
| give_up: "t_stage t = Serving \<Longrightarrow> deadline \<in> set (t_told t) \<Longrightarrow> \<not> authenticated (t_guard t) \<Longrightarrow>
    task_step l now (t, st, L) (t\<lparr>t_stage := Closing (close_reason (ConnRejected ''shutdown''))\<rparr>, st, L)"
| deadline: "t_stage t = DrainUntil d \<Longrightarrow> d \<le> now \<Longrightarrow>
    task_step l now (t, st, L) (t\<lparr>t_stage := Closing (close_reason (ConnRejected ''shutdown''))\<rparr>, st, L)"
| close: "t_stage t = Closing why \<Longrightarrow>
    task_step l now (t, st, L) (t\<lparr>t_stage := Logged\<rparr>, st, L @ [ConnClosed (t_id t) why])"
| release: "t_stage t = Logged \<Longrightarrow>
    task_step l now (t, st, L) (t\<lparr>t_stage := Finished\<rparr>, guard_drop l now (t_guard t) st, L)"
| panic: "cancellable t \<Longrightarrow> t_stage t \<noteq> Spawned \<Longrightarrow>
    task_step l now (t, st, L) (t\<lparr>t_stage := Panicked\<rparr>, guard_drop l now (t_guard t) st, L)"

section \<open>The arms of the loop\<close>

definition on_accept :: "limits \<Rightarrow> ip_addr \<Rightarrow> serve_state \<Rightarrow> serve_state" where
  "on_accept l ip s =
     (case try_admit l ip (sv_clock s) (sv_adm s) of
        (st, Inl refusal) \<Rightarrow>
          s\<lparr>sv_adm := st, sv_next := Suc (sv_next s), sv_log := sv_log s @ [ConnRefused (sv_next s) (refusal_as_str refusal)]\<rparr>
      | (st, Inr g) \<Rightarrow>
          s\<lparr>sv_adm := st, sv_next := Suc (sv_next s),
            sv_tasks := sv_tasks s @ [\<lparr>t_id = sv_next s, t_guard = g, t_stage = Spawned, t_told = []\<rparr>]\<rparr>)"

definition on_accept_error :: "accept_errno option \<Rightarrow> serve_state \<Rightarrow> serve_state" where
  "on_accept_error e s =
     (case classify_accept_error e of
        Listener \<Rightarrow> s\<lparr>sv_phase := Returned ServeErr\<rparr>
      | Pause \<Rightarrow> s\<lparr>sv_resume_at := Some (sv_clock s + ACCEPT_BACKOFF)\<rparr>
      | Connection \<Rightarrow> s)"

text \<open>A task that returned has logged its own close. The text of a panic is not modelled.\<close>

definition log_join :: "task \<Rightarrow> srv_event list \<Rightarrow> srv_event list" where
  "log_join t L =
     (case t_stage t of
        Cancelled \<Rightarrow> L @ [ConnClosed (t_id t) ''shutdown'']
      | Panicked \<Rightarrow> L @ [ConnClosed (t_id t) ''panic'']
      | _ \<Rightarrow> L)"

definition reap :: "task \<Rightarrow> serve_state \<Rightarrow> serve_state" where
  "reap t s = s\<lparr>sv_tasks := remove1 t (sv_tasks s), sv_log := log_join t (sv_log s)\<rparr>"

definition on_join :: "task \<Rightarrow> serve_state \<Rightarrow> serve_state" where
  "on_join t s =
     (let s' = reap t s in
      if sv_abort_at s' \<noteq> None \<and> sv_tasks s' = [] then s'\<lparr>sv_phase := Returned ServeOk\<rparr> else s')"

definition on_shutdown :: "nat \<Rightarrow> serve_state \<Rightarrow> serve_state" where
  "on_shutdown deadline s =
     (if sv_abort_at s \<noteq> None then s\<lparr>sv_abort_at := Some (sv_clock s)\<rparr>
      else if sv_tasks s = [] then s\<lparr>sv_phase := Returned ServeOk\<rparr>
      else s\<lparr>sv_abort_at := Some (deadline + ABORT_GRACE)\<rparr>)"

text \<open>
  The \<^verbatim>\<open>select!\<close> of \<^verbatim>\<open>serve\<close>. The abort arm marks every task and then reaps them all; it is the phase \<open>Aborting\<close>, in
  which the runtime cancels each task at the next point where it waits.
\<close>

inductive serve_arm :: "limits \<Rightarrow> serve_state \<Rightarrow> serve_state \<Rightarrow> bool" for l where
  accept: "sv_phase s = Looping \<Longrightarrow> sv_abort_at s = None \<Longrightarrow> sv_resume_at s = None \<Longrightarrow>
    serve_arm l s (on_accept l ip s)"
| accept_error: "sv_phase s = Looping \<Longrightarrow> sv_abort_at s = None \<Longrightarrow> sv_resume_at s = None \<Longrightarrow>
    serve_arm l s (on_accept_error e s)"
| join: "sv_phase s = Looping \<Longrightarrow> t \<in> set (sv_tasks s) \<Longrightarrow> ended t \<Longrightarrow> serve_arm l s (on_join t s)"
| shutdown: "sv_phase s = Looping \<Longrightarrow> sv_signals s = deadline # rest \<Longrightarrow>
    serve_arm l s (on_shutdown deadline (s\<lparr>sv_signals := rest\<rparr>))"
| lagged: "sv_phase s = Looping \<Longrightarrow> sv_signals s = deadline # rest \<Longrightarrow> rest \<noteq> [] \<Longrightarrow>
    serve_arm l s (s\<lparr>sv_signals := rest\<rparr>)"
| resume: "sv_phase s = Looping \<Longrightarrow> sv_resume_at s = Some at \<Longrightarrow> at \<le> sv_clock s \<Longrightarrow>
    serve_arm l s (s\<lparr>sv_resume_at := None\<rparr>)"
| abort: "sv_phase s = Looping \<Longrightarrow> sv_abort_at s = Some at \<Longrightarrow> at \<le> sv_clock s \<Longrightarrow>
    serve_arm l s (s\<lparr>sv_phase := Aborting\<rparr>)"
| abort_join: "sv_phase s = Aborting \<Longrightarrow> t \<in> set (sv_tasks s) \<Longrightarrow> ended t \<Longrightarrow> serve_arm l s (reap t s)"
| abort_end: "sv_phase s = Aborting \<Longrightarrow> sv_tasks s = [] \<Longrightarrow> serve_arm l s (s\<lparr>sv_phase := Returned ServeOk\<rparr>)"

text \<open>The loop and the tasks, one step at a time, until \<^verbatim>\<open>serve\<close> has returned.\<close>

inductive serve_work :: "limits \<Rightarrow> serve_state \<Rightarrow> serve_state \<Rightarrow> bool" for l where
  arm: "serve_arm l s s' \<Longrightarrow> serve_work l s s'"
| task: "\<forall>e. sv_phase s \<noteq> Returned e \<Longrightarrow> sv_tasks s = us @ t # vs \<Longrightarrow>
    task_step l (sv_clock s) (t, sv_adm s, sv_log s) (t', st, L) \<Longrightarrow>
    serve_work l s (s\<lparr>sv_tasks := us @ t' # vs, sv_adm := st, sv_log := L\<rparr>)"
| cancel: "sv_phase s = Aborting \<Longrightarrow> sv_tasks s = us @ t # vs \<Longrightarrow> cancellable t \<Longrightarrow>
    serve_work l s (s\<lparr>sv_tasks := us @ t\<lparr>t_stage := Cancelled\<rparr> # vs,
      sv_adm := guard_drop l (sv_clock s) (t_guard t) (sv_adm s)\<rparr>)"

text \<open>A deadline is broadcast to the loop and to every task whose receiver exists.\<close>

definition broadcast :: "nat \<Rightarrow> serve_state \<Rightarrow> serve_state" where
  "broadcast deadline s =
     s\<lparr>sv_signals := sv_signals s @ [deadline], sv_tasks := map (\<lambda>t. t\<lparr>t_told := t_told t @ [deadline]\<rparr>) (sv_tasks s)\<rparr>"

inductive serve_step :: "limits \<Rightarrow> serve_state \<Rightarrow> serve_state \<Rightarrow> bool" for l where
  work: "serve_work l s s' \<Longrightarrow> serve_step l s s'"
| signal: "serve_step l s (broadcast deadline s)"
| tick: "serve_step l s (s\<lparr>sv_clock := sv_clock s + n\<rparr>)"

abbreviation serve_reaches :: "limits \<Rightarrow> serve_state \<Rightarrow> bool" where
  "serve_reaches l s \<equiv> \<exists>now. (serve_step l)\<^sup>*\<^sup>* (serve_start now) s"

section \<open>The loop drives admission as its protocol asks\<close>

text \<open>The guards that live tasks own, as the admission theory counts them.\<close>

definition entry :: "task \<Rightarrow> conns" where
  "entry t = (if ended t then {#} else {#(t_guard t, t_stage t = Marking)#})"

definition guards_of :: "task list \<Rightarrow> conns" where
  "guards_of ts = sum_list (map entry ts)"

definition adm_view :: "serve_state \<Rightarrow> adm_state \<times> conns" where
  "adm_view s = (sv_adm s, guards_of (sv_tasks s))"

lemma guards_of_simps [simp]:
  "guards_of [] = {#}" "guards_of (t # ts) = entry t + guards_of ts" "guards_of (us @ vs) = guards_of us + guards_of vs"
  by (simp_all add: guards_of_def)

lemma entry_simps:
  "ended t \<Longrightarrow> entry t = {#}"
  "\<not> ended t \<Longrightarrow> entry t = {#(t_guard t, t_stage t = Marking)#}"
  by (simp_all add: entry_def)

lemma guards_of_reap: "ended t \<Longrightarrow> guards_of (remove1 t ts) = guards_of ts"
  by (induction ts) (auto simp: entry_simps)

lemma guards_of_told: "guards_of (map (\<lambda>t. t\<lparr>t_told := f t\<rparr>) ts) = guards_of ts"
  by (induction ts) (auto simp: entry_def ended_def)

lemma size_guards_of: "size (guards_of ts) = length (filter (\<lambda>t. \<not> ended t) ts)"
  by (induction ts) (auto simp: entry_def)

lemma adm_drop: "adm_step l (st, {#(g, False)#} + N) (guard_drop l now g st, N)"
  using adm_step.drop[of l st g N now] by simp

lemma task_step_admission:
  assumes "task_step l now (t, st, L) (t', st', L')"
  shows "(adm_step l)\<^sup>*\<^sup>* (st, entry t + N) (st', entry t' + N)"
  using assms
proof cases
  case mark_flag
  then show ?thesis
    using adm_step.mark_flag[of "t_guard t" l st N] by (auto simp: entry_def ended_def)
next
  case mark_lock
  then show ?thesis
    using adm_step.mark_lock[of l st "t_guard t" N] by (auto simp: entry_def ended_def)
next
  case release
  then show ?thesis
    using adm_step.drop[of l st "t_guard t" N now] by (auto simp: entry_def ended_def)
next
  case panic
  then show ?thesis
    using adm_step.drop[of l st "t_guard t" N now] by (auto simp: entry_def ended_def cancellable_def)
qed (auto simp: entry_def ended_def)

lemma adm_view_same [simp]:
  "adm_view (s\<lparr>sv_phase := p\<rparr>) = adm_view s" "adm_view (s\<lparr>sv_signals := ds\<rparr>) = adm_view s"
  "adm_view (s\<lparr>sv_abort_at := a\<rparr>) = adm_view s" "adm_view (s\<lparr>sv_resume_at := r\<rparr>) = adm_view s"
  "adm_view (s\<lparr>sv_clock := n\<rparr>) = adm_view s"
  by (simp_all add: adm_view_def)

lemma adm_view_reap [simp]:
  assumes "ended t"
  shows "adm_view (reap t s) = adm_view s" and "adm_view (on_join t s) = adm_view s"
proof -
  show reap: "adm_view (reap t s) = adm_view s"
    using assms by (simp add: adm_view_def reap_def guards_of_reap)
  show "adm_view (on_join t s) = adm_view s"
    by (simp add: on_join_def Let_def reap)
qed

lemma serve_arm_admission:
  assumes "serve_arm l s s'"
  shows "(adm_step l)\<^sup>*\<^sup>* (adm_view s) (adm_view s')"
  using assms
proof cases
  case (accept ip)
  show ?thesis
  proof (cases "try_admit l ip (sv_clock s) (sv_adm s)")
    case (Pair st r)
    then show ?thesis
      using accept adm_step.refuse[of l ip "sv_clock s" "sv_adm s" st _ "guards_of (sv_tasks s)"]
        adm_step.admit[of l ip "sv_clock s" "sv_adm s" st _ "guards_of (sv_tasks s)"]
      by (cases r) (auto simp: on_accept_def adm_view_def entry_def ended_def)
  qed
qed (simp_all add: on_accept_error_def on_shutdown_def split: accept_failure.splits)

lemma serve_step_admission:
  assumes "serve_step l s s'"
  shows "(adm_step l)\<^sup>*\<^sup>* (adm_view s) (adm_view s')"
  using assms
proof cases
  case work
  then show ?thesis
  proof cases
    case arm
    then show ?thesis by (rule serve_arm_admission)
  next
    case (task us t vs t' st L)
    then show ?thesis
      using task_step_admission[OF task(4), of "guards_of us + guards_of vs"] by (simp add: adm_view_def ac_simps)
  next
    case (cancel us t vs)
    then show ?thesis
      using adm_step.drop[of l "sv_adm s" "t_guard t" "guards_of us + guards_of vs" "sv_clock s"]
      by (auto simp: adm_view_def entry_def ended_def cancellable_def)
  qed
qed (simp_all add: adm_view_def broadcast_def guards_of_told)

text \<open>
  C17 (refinement). The accept loop and its tasks implement the admission protocol: whatever the arrivals, the errors of
  \<^verbatim>\<open>accept\<close>, the shutdowns, the panics, the cancellations and their order, each step of the server is a sequence of
  admission steps on the guards that live tasks own. So every reachable state of the server is one the admission
  theory speaks of, and the counter of connections is the number of tasks that have not ended.
\<close>

theorem serve_refines_admission:
  assumes "serve_reaches l s" and "0 < max_per_source l"
  shows "(adm_step l)\<^sup>*\<^sup>* (adm_new, {#}) (adm_view s) \<and>
    connections (sv_adm s) = length (filter (\<lambda>t. \<not> ended t) (sv_tasks s)) \<and>
    length (filter (\<lambda>t. \<not> ended t) (sv_tasks s)) \<le> max_connections l \<and>
    half_open_of (snd (adm_view s)) \<le> max_half_open l"
proof -
  obtain now where "(serve_step l)\<^sup>*\<^sup>* (serve_start now) s"
    using assms(1) by blast
  then have run: "(adm_step l)\<^sup>*\<^sup>* (adm_new, {#}) (adm_view s)"
  proof (induction rule: rtranclp_induct)
    case base
    then show ?case by (simp add: serve_start_def adm_view_def)
  next
    case (step a b)
    then show ?case using serve_step_admission[of l a b] by (meson rtranclp_trans)
  qed
  have "adm_inv l (adm_view s)"
    using run by (induction rule: rtranclp_induct) (auto simp: adm_inv_init intro: adm_inv_step assms(2))
  then show ?thesis
    using run by (simp add: adm_inv_def adm_view_def size_guards_of)
qed

section \<open>The audit records of a connection\<close>

definition conn_records :: "nat \<Rightarrow> srv_event list \<Rightarrow> srv_event list" where
  "conn_records i L = filter (\<lambda>e. ev_conn e = i) L"

lemma conn_records_simps [simp]:
  "conn_records i [] = []"
  "conn_records i (L @ [e]) = conn_records i L @ (if ev_conn e = i then [e] else [])"
  by (simp_all add: conn_records_def)

text \<open>What a connection that is over leaves in the log, and what it has left at each stage of its task.\<close>

definition settled :: "nat \<Rightarrow> srv_event list \<Rightarrow> bool" where
  "settled i R \<longleftrightarrow> (\<exists>why. R = [ConnRefused i why]) \<or> (\<exists>why. R = [ConnAccepted i, ConnClosed i why]) \<or>
     R = [ConnClosed i ''shutdown'']"

fun stage_records :: "nat \<Rightarrow> task_stage \<Rightarrow> srv_event list \<Rightarrow> bool" where
  "stage_records i Spawned R \<longleftrightarrow> R = []"
| "stage_records i Logged R \<longleftrightarrow> (\<exists>why. R = [ConnAccepted i, ConnClosed i why])"
| "stage_records i Finished R \<longleftrightarrow> (\<exists>why. R = [ConnAccepted i, ConnClosed i why])"
| "stage_records i Cancelled R \<longleftrightarrow> R = [] \<or> R = [ConnAccepted i]"
| "stage_records i _ R \<longleftrightarrow> R = [ConnAccepted i]"

definition task_ok :: "srv_event list \<Rightarrow> task \<Rightarrow> bool" where
  "task_ok L t \<longleftrightarrow> stage_records (t_id t) (t_stage t) (conn_records (t_id t) L) \<and>
     (t_stage t = Marking \<longrightarrow> authenticated (t_guard t))"

definition audit_inv :: "serve_state \<Rightarrow> bool" where
  "audit_inv s \<longleftrightarrow>
     distinct (map t_id (sv_tasks s)) \<and>
     (\<forall>t\<in>set (sv_tasks s). t_id t < sv_next s \<and> task_ok (sv_log s) t) \<and>
     (\<forall>i < sv_next s. i \<notin> t_id ` set (sv_tasks s) \<longrightarrow> settled i (conn_records i (sv_log s))) \<and>
     (\<forall>i\<ge>sv_next s. conn_records i (sv_log s) = []) \<and>
     (sv_phase s = Returned ServeOk \<longrightarrow> sv_tasks s = [])"

lemma task_step_log:
  assumes "task_step l now (t, st, L) (t', st', L')"
  shows "t_id t' = t_id t" and "task_ok L t \<Longrightarrow> task_ok L' t'"
    and "i \<noteq> t_id t \<Longrightarrow> conn_records i L' = conn_records i L"
  using assms by (cases; auto simp: task_ok_def cancellable_def ended_def elim!: stage_records.elims)+

lemma task_ok_other: "conn_records (t_id t) L' = conn_records (t_id t) L \<Longrightarrow> task_ok L' t = task_ok L t"
  by (simp add: task_ok_def)

lemma log_join_records:
  assumes "ended t" and "task_ok L t"
  shows "settled (t_id t) (conn_records (t_id t) (log_join t L))"
    and "i \<noteq> t_id t \<Longrightarrow> conn_records i (log_join t L) = conn_records i L"
  using assms by (auto simp: log_join_def ended_def task_ok_def settled_def split: task_stage.splits)

text \<open>One task of the list takes a step.\<close>

lemma audit_inv_task:
  assumes inv: "audit_inv s" and ts: "sv_tasks s = us @ t # vs"
    and id: "t_id t' = t_id t" and ok: "task_ok (sv_log s) t \<Longrightarrow> task_ok L t'"
    and other: "\<And>i. i \<noteq> t_id t \<Longrightarrow> conn_records i L = conn_records i (sv_log s)"
    and running: "\<forall>e. sv_phase s \<noteq> Returned e"
  shows "audit_inv (s\<lparr>sv_tasks := us @ t' # vs, sv_adm := st, sv_log := L\<rparr>)"
proof -
  have "t_id u \<noteq> t_id t" if "u \<in> set us \<union> set vs" for u
    using inv that unfolding audit_inv_def ts by (auto simp: image_iff)
  then have "task_ok L u \<longleftrightarrow> task_ok (sv_log s) u" if "u \<in> set us \<union> set vs" for u
    using that by (intro task_ok_other other) blast
  moreover have "conn_records i L = []" if "i \<ge> sv_next s" for i
    using inv that other[of i] unfolding audit_inv_def ts by fastforce
  ultimately show ?thesis
    using inv ok other running unfolding audit_inv_def ts by (auto simp: id)
qed

lemma audit_inv_reap:
  assumes inv: "audit_inv s" and t: "t \<in> set (sv_tasks s)" "ended t"
  shows "audit_inv (reap t s)"
proof -
  have ok: "task_ok (sv_log s) t" and bound: "t_id t < sv_next s" and dist: "distinct (map t_id (sv_tasks s))"
    using inv t by (auto simp: audit_inv_def)
  have rest: "set (remove1 t (sv_tasks s)) = set (sv_tasks s) - {t}"
    using dist by (simp add: distinct_map)
  have other: "t_id u \<noteq> t_id t" if "u \<in> set (sv_tasks s) - {t}" for u
    using dist t that by (auto simp: distinct_map inj_on_def)
  have "distinct (map t_id (remove1 t (sv_tasks s)))"
    using dist by (auto simp: distinct_map inj_on_def notin_set_remove1)
  moreover have "task_ok (log_join t (sv_log s)) u \<longleftrightarrow> task_ok (sv_log s) u" if "u \<in> set (sv_tasks s) - {t}" for u
    using other[OF that] by (intro task_ok_other log_join_records(2) t ok) simp
  moreover have "settled i (conn_records i (log_join t (sv_log s)))"
    if "i < sv_next s" "i \<notin> t_id ` (set (sv_tasks s) - {t})" for i
    using inv that log_join_records[OF t(2) ok] by (cases "i = t_id t") (auto simp: audit_inv_def)
  moreover have "conn_records i (log_join t (sv_log s)) = []" if "i \<ge> sv_next s" for i
    using inv that bound log_join_records(2)[OF t(2) ok, of i] by (auto simp: audit_inv_def)
  ultimately show ?thesis
    using inv unfolding audit_inv_def reap_def by (auto simp: rest)
qed

lemma audit_inv_accept:
  assumes inv: "audit_inv s" and "sv_phase s = Looping"
  shows "audit_inv (on_accept l ip s)"
proof (cases "try_admit l ip (sv_clock s) (sv_adm s)")
  case (Pair st r)
  have fresh: "conn_records (sv_next s) (sv_log s) = []" and new: "sv_next s \<notin> t_id ` set (sv_tasks s)"
    using inv by (auto simp: audit_inv_def)
  show ?thesis
  proof (cases r)
    case (Inl refusal)
    have "task_ok (sv_log s @ [ConnRefused (sv_next s) why]) t \<longleftrightarrow> task_ok (sv_log s) t"
      if "t \<in> set (sv_tasks s)" for t why
      using new that by (intro task_ok_other) auto
    then show ?thesis
      using inv assms(2) fresh new unfolding audit_inv_def on_accept_def Pair Inl
      by (auto simp: settled_def less_Suc_eq)
  next
    case (Inr g)
    then show ?thesis
      using inv assms(2) fresh new unfolding audit_inv_def on_accept_def Pair
      by (auto simp: task_ok_def less_Suc_eq)
  qed
qed

lemma audit_inv_arm:
  assumes "serve_arm l s s'" and inv: "audit_inv s"
  shows "audit_inv s'"
  using assms(1)
proof cases
  case (accept ip)
  then show ?thesis using audit_inv_accept inv by blast
next
  case (join t)
  then show ?thesis
    using audit_inv_reap[OF inv join(3,4)] by (auto simp: on_join_def Let_def audit_inv_def)
next
  case (abort_join t)
  then show ?thesis
    using audit_inv_reap[OF inv abort_join(3,4)] by simp
qed (use inv in \<open>auto simp: audit_inv_def on_accept_error_def on_shutdown_def split: accept_failure.splits\<close>)

lemma audit_inv_step:
  assumes "serve_step l s s'" and inv: "audit_inv s"
  shows "audit_inv s'"
  using assms(1)
proof cases
  case work
  then show ?thesis
  proof cases
    case arm
    then show ?thesis using audit_inv_arm inv by blast
  next
    case (task us t vs t' st L)
    then show ?thesis
      using audit_inv_task[OF inv task(3)] task_step_log[OF task(4)] by blast
  next
    case (cancel us t vs)
    have "audit_inv (s\<lparr>sv_tasks := us @ t\<lparr>t_stage := Cancelled\<rparr> # vs,
        sv_adm := guard_drop l (sv_clock s) (t_guard t) (sv_adm s), sv_log := sv_log s\<rparr>)"
      using cancel by (intro audit_inv_task[OF inv])
        (auto simp: task_ok_def cancellable_def ended_def elim!: stage_records.elims)
    then show ?thesis using cancel by simp
  qed
next
  case (signal deadline)
  then show ?thesis
    using inv by (auto simp: broadcast_def audit_inv_def task_ok_def comp_def image_image)
next
  case tick
  then show ?thesis using inv by (simp add: audit_inv_def)
qed

lemma audit_inv_start: "audit_inv (serve_start now)"
  by (simp add: audit_inv_def serve_start_def)

lemma audit_inv_reaches:
  assumes "serve_reaches l s"
  shows "audit_inv s"
proof -
  obtain now where "(serve_step l)\<^sup>*\<^sup>* (serve_start now) s"
    using assms by blast
  then show ?thesis
    by (induction rule: rtranclp_induct) (auto simp: audit_inv_start intro: audit_inv_step)
qed

text \<open>
  C18 (safety). However the connections arrive, end, panic or are cancelled, when \<^verbatim>\<open>serve\<close> returns \<^verbatim>\<open>Ok\<close> no task is left
  and the audit log has, for each connection that was accepted by the listener, either the one record of its refusal,
  or its acceptance followed by one close, or the one close of a task that was aborted before it ran; and at every
  moment before, a connection that is over has exactly these records.
\<close>

theorem serve_audit_settled:
  assumes "serve_reaches l s" and "i < sv_next s"
  shows "(sv_phase s = Returned ServeOk \<longrightarrow> sv_tasks s = []) \<and>
    (i \<notin> t_id ` set (sv_tasks s) \<longrightarrow> settled i (conn_records i (sv_log s)))"
  using audit_inv_reaches[OF assms(1)] assms(2) by (simp add: audit_inv_def)

section \<open>The drain\<close>

fun rank :: "task \<Rightarrow> nat" where
  "rank t =
     (case t_stage t of
        Spawned \<Rightarrow> 7
      | Serving \<Rightarrow> if authenticated (t_guard t) then 4 else 6
      | Marking \<Rightarrow> 5
      | DrainUntil _ \<Rightarrow> 3
      | Closing _ \<Rightarrow> 2
      | Logged \<Rightarrow> 1
      | _ \<Rightarrow> 0)"

definition drain_size :: "serve_state \<Rightarrow> nat" where
  "drain_size s = (\<Sum>t\<leftarrow>sv_tasks s. Suc (rank t)) + length (sv_signals s) +
     (case sv_resume_at s of None \<Rightarrow> 0 | Some _ \<Rightarrow> 1) +
     (case sv_phase s of Looping \<Rightarrow> 2 | Aborting \<Rightarrow> 1 | Returned _ \<Rightarrow> 0)"

text \<open>A shutdown has been received and its deadline is over.\<close>

definition overdue :: "serve_state \<Rightarrow> bool" where
  "overdue s \<longleftrightarrow> (case sv_abort_at s of None \<Rightarrow> False | Some at \<Rightarrow> at \<le> sv_clock s) \<and> sv_phase s \<noteq> Returned ServeErr"

lemma task_step_rank:
  assumes "task_step l now (t, st, L) (t', st', L')" and "t_stage t = Marking \<longrightarrow> authenticated (t_guard t)"
  shows "rank t' < rank t"
  using assms by (cases; auto simp: cancellable_def ended_def split: task_stage.splits)

lemma rank_le: "rank t \<le> 7"
  by (simp split: task_stage.splits)

lemma drain_size_le: "drain_size s \<le> 8 * length (sv_tasks s) + length (sv_signals s) + 3"
proof -
  have "(\<Sum>t\<leftarrow>ts. Suc (rank t)) \<le> 8 * length ts" for ts
  proof (induction ts)
    case (Cons t ts)
    then show ?case using rank_le[of t] by simp
  qed simp
  from this[of "sv_tasks s"] show ?thesis
    by (simp add: drain_size_def split: option.splits serve_phase.splits)
qed

lemma sum_remove1:
  fixes f :: "'a \<Rightarrow> nat"
  assumes "t \<in> set ts"
  shows "(\<Sum>t\<leftarrow>remove1 t ts. f t) + f t = (\<Sum>t\<leftarrow>ts. f t)"
  using assms by (induction ts) auto

lemma reap_size:
  assumes "t \<in> set (sv_tasks s)"
  shows "drain_size (reap t s) < drain_size s"
  using sum_remove1[OF assms, of "\<lambda>t. Suc (rank t)"] by (simp add: drain_size_def reap_def)

lemma serve_arm_drains:
  assumes "serve_arm l s s'" and "overdue s"
  shows "overdue s' \<and> sv_next s' = sv_next s \<and> drain_size s' < drain_size s"
  using assms(1)
proof cases
  case (join t)
  then show ?thesis
    using assms(2) reap_size[OF join(3)]
    by (auto simp: on_join_def Let_def overdue_def reap_def drain_size_def split: option.splits)
next
  case (abort_join t)
  then show ?thesis
    using assms(2) reap_size[OF abort_join(3)] by (auto simp: overdue_def reap_def split: option.splits)
qed (use assms(2) in \<open>auto simp: overdue_def on_shutdown_def drain_size_def split: option.splits\<close>)

text \<open>Preservation and progress of the drain.\<close>

lemma serve_work_drains:
  assumes "serve_work l s s'" and "overdue s" and inv: "audit_inv s"
  shows "overdue s' \<and> sv_next s' = sv_next s \<and> drain_size s' < drain_size s"
  using assms(1)
proof cases
  case arm
  then show ?thesis using serve_arm_drains assms(2) by blast
next
  case (task us t vs t' st L)
  have "rank t' < rank t"
    using inv task(3) task_step_rank[OF task(4)] by (auto simp: audit_inv_def task_ok_def)
  then show ?thesis
    using assms(2) task(1,3) by (auto simp: overdue_def drain_size_def simp del: rank.simps split: option.splits)
next
  case (cancel us t vs)
  have "rank (t\<lparr>t_stage := Cancelled\<rparr>) < rank t"
    using cancel(4) by (auto simp: cancellable_def ended_def split: task_stage.splits)
  then show ?thesis
    using assms(2) cancel(1,3) by (auto simp: overdue_def drain_size_def simp del: rank.simps split: option.splits)
qed

lemma serve_work_progress:
  assumes "overdue s" and "sv_phase s \<noteq> Returned ServeOk"
  shows "\<exists>s'. serve_work l s s'"
proof (cases "sv_phase s")
  case Looping
  then show ?thesis
    using assms serve_arm.abort[of s _ l] by (auto simp: overdue_def intro: serve_work.arm split: option.splits)
next
  case Aborting
  show ?thesis
  proof (cases "sv_tasks s")
    case Nil
    then show ?thesis using Aborting serve_arm.abort_end serve_work.arm by blast
  next
    case (Cons t ts)
    then have split: "sv_tasks s = [] @ t # ts" by simp
    consider "ended t" | "cancellable t" | "t_stage t = Marking" | "t_stage t = Logged"
      by (auto simp: cancellable_def)
    then show ?thesis
    proof cases
      case 1
      then show ?thesis using Aborting Cons serve_arm.abort_join[of s t l] serve_work.arm by fastforce
    next
      case 2
      then show ?thesis using serve_work.cancel[OF Aborting split] by blast
    next
      case 3
      then show ?thesis using Aborting serve_work.task[OF _ split task_step.mark_lock] by fastforce
    next
      case 4
      then show ?thesis using Aborting serve_work.task[OF _ split task_step.release] by fastforce
    qed
  qed
qed (use assms in \<open>auto simp: overdue_def intro: serve_end.exhaust\<close>)

lemma returned_stuck: "sv_phase s = Returned e \<Longrightarrow> \<not> serve_work l s s'"
  by (auto elim!: serve_work.cases serve_arm.cases)

lemma drain_run:
  assumes "(serve_work l ^^ n) s s'" and "overdue s" and "audit_inv s"
  shows "overdue s' \<and> sv_next s' = sv_next s \<and> n + drain_size s' \<le> drain_size s"
  using assms
proof (induction n arbitrary: s')
  case (Suc n)
  from Suc.prems(1) obtain u where u: "(serve_work l ^^ n) s u" "serve_work l u s'"
    by auto
  have "(serve_step l)\<^sup>*\<^sup>* s u"
    using u(1) by (metis mono_rtranclp relpowp_imp_rtranclp serve_step.work)
  then have "audit_inv u"
    by (induction rule: rtranclp_induct) (auto simp: assms(3) intro: audit_inv_step)
  then show ?case
    using Suc.IH[OF u(1) assms(2,3)] serve_work_drains[OF u(2)] by fastforce
qed simp


section \<open>Witnesses\<close>

text \<open>A connection is admitted, a shutdown arrives before its task runs, and the grace passes.\<close>

definition sample_accepted :: serve_state where
  "sample_accepted = on_accept default_limits sample_source (serve_start 0)"

definition sample_overdue :: serve_state where
  "sample_overdue = sample_accepted\<lparr>
     sv_tasks := map (\<lambda>t. t\<lparr>t_told := [5]\<rparr>) (sv_tasks sample_accepted),
     sv_abort_at := Some (5 + ABORT_GRACE), sv_clock := 5 + ABORT_GRACE\<rparr>"

definition sample_returned :: serve_state where
  "sample_returned = sample_overdue\<lparr>sv_tasks := [], sv_log := [ConnClosed 0 ''shutdown''],
     sv_adm := guard_drop default_limits (5 + ABORT_GRACE) \<lparr>g_source = sample_source, authenticated = False\<rparr> sample_admitted,
     sv_phase := Returned ServeOk\<rparr>"

definition sample_task :: task where
  "sample_task = \<lparr>t_id = 0, t_guard = \<lparr>g_source = sample_source, authenticated = False\<rparr>, t_stage = Spawned, t_told = [5]\<rparr>"

lemma sample_accepted_eq:
  "sample_accepted = (serve_start 0)\<lparr>sv_adm := sample_admitted, sv_next := 1, sv_tasks := [sample_task\<lparr>t_told := []\<rparr>]\<rparr>"
  by (simp add: sample_accepted_def on_accept_def serve_start_def sample_admit sample_task_def)

lemma sample_accepted_reached: "serve_reaches default_limits sample_accepted"
proof -
  have "serve_arm default_limits (serve_start 0) sample_accepted"
    unfolding sample_accepted_def by (rule serve_arm.accept) (simp_all add: serve_start_def)
  then show ?thesis
    using serve_step.work[OF serve_work.arm] by blast
qed

lemma sample_overdue_reached:
  "(serve_step default_limits)\<^sup>*\<^sup>* sample_accepted sample_overdue"
proof -
  let ?told = "broadcast 5 sample_accepted"
  let ?draining = "on_shutdown 5 (?told\<lparr>sv_signals := []\<rparr>)"
  have "serve_arm default_limits ?told ?draining"
    by (rule serve_arm.shutdown) (simp_all add: broadcast_def sample_accepted_eq serve_start_def)
  then have "serve_step default_limits ?told ?draining"
    by (intro serve_step.work serve_work.arm)
  moreover have "sample_overdue = ?draining\<lparr>sv_clock := sv_clock ?draining + (5 + ABORT_GRACE)\<rparr>"
    by (simp add: sample_overdue_def on_shutdown_def broadcast_def sample_accepted_eq serve_start_def)
  then have "serve_step default_limits ?draining sample_overdue"
    using serve_step.tick[of default_limits ?draining "5 + ABORT_GRACE"] by simp
  ultimately show ?thesis
    using serve_step.signal[of default_limits sample_accepted 5] by (meson r_into_rtranclp rtranclp.rtrancl_into_rtrancl)
qed

lemma sample_overdue_eq:
  "sample_overdue = (serve_start 0)\<lparr>sv_adm := sample_admitted, sv_next := 1, sv_tasks := [sample_task],
     sv_abort_at := Some (5 + ABORT_GRACE), sv_clock := 5 + ABORT_GRACE\<rparr>"
  by (simp add: sample_overdue_def sample_accepted_eq sample_task_def serve_start_def)

lemma sample_drain: "(serve_work default_limits ^^ 4) sample_overdue sample_returned"
proof -
  let ?aborting = "sample_overdue\<lparr>sv_phase := Aborting\<rparr>"
  let ?cancelled = "?aborting\<lparr>sv_tasks := [sample_task\<lparr>t_stage := Cancelled\<rparr>],
     sv_adm := guard_drop default_limits (5 + ABORT_GRACE) (t_guard sample_task) sample_admitted\<rparr>"
  have "serve_arm default_limits sample_overdue ?aborting"
    by (rule serve_arm.abort[of _ "5 + ABORT_GRACE"]) (simp_all add: sample_overdue_eq serve_start_def)
  then have 1: "serve_work default_limits sample_overdue ?aborting" by (rule serve_work.arm)
  have 2: "serve_work default_limits ?aborting ?cancelled"
    using serve_work.cancel[of ?aborting "[]" sample_task "[]" default_limits]
    by (simp add: sample_overdue_eq serve_start_def cancellable_def ended_def sample_task_def)
  let ?reaped = "reap (sample_task\<lparr>t_stage := Cancelled\<rparr>) ?cancelled"
  have "serve_arm default_limits ?cancelled ?reaped"
    by (rule serve_arm.abort_join) (simp_all add: ended_def)
  then have 3: "serve_work default_limits ?cancelled ?reaped" by (rule serve_work.arm)
  have "serve_arm default_limits ?reaped (?reaped\<lparr>sv_phase := Returned ServeOk\<rparr>)"
    by (rule serve_arm.abort_end) (simp_all add: reap_def)
  moreover have "?reaped\<lparr>sv_phase := Returned ServeOk\<rparr> = sample_returned"
    by (simp add: sample_returned_def sample_overdue_eq serve_start_def reap_def log_join_def sample_task_def)
  ultimately have "serve_work default_limits ?reaped sample_returned"
    by (metis serve_work.arm)
  with 1 2 3 show ?thesis by (auto simp: eval_nat_numeral)
qed

lemma sample_returned_reached: "serve_reaches default_limits sample_returned"
proof -
  have "(serve_step default_limits)\<^sup>*\<^sup>* sample_overdue sample_returned"
    using sample_drain by (metis mono_rtranclp relpowp_imp_rtranclp serve_step.work)
  then show ?thesis
    using sample_accepted_reached sample_overdue_reached by (meson rtranclp_trans)
qed

text \<open>
  A listener error ends \<^verbatim>\<open>serve\<close> at once, and with it the \<^verbatim>\<open>JoinSet\<close>: a connection that is being served stays in the
  log as accepted, with no close.
\<close>

lemma listener_error_abandons:
  "\<exists>s t. serve_reaches default_limits s \<and> sv_phase s = Returned ServeErr \<and> t \<in> set (sv_tasks s) \<and>
     t_stage t = Serving \<and> conn_records (t_id t) (sv_log s) = [ConnAccepted (t_id t)] \<and>
     (\<forall>s'. \<not> serve_work default_limits s s')"
proof -
  let ?run = "sample_accepted\<lparr>sv_tasks := [sample_task\<lparr>t_told := [], t_stage := Serving\<rparr>],
    sv_adm := sample_admitted, sv_log := [ConnAccepted 0]\<rparr>"
  let ?last = "on_accept_error (Some EBADF) ?run"
  have "serve_work default_limits sample_accepted ?run"
    using serve_work.task[of sample_accepted "[]" "sample_task\<lparr>t_told := []\<rparr>" "[]" default_limits,
        OF _ _ task_step.start]
    by (simp add: sample_accepted_eq serve_start_def sample_task_def)
  moreover have "serve_arm default_limits ?run ?last"
    by (rule serve_arm.accept_error) (simp_all add: sample_accepted_eq serve_start_def)
  ultimately have "serve_reaches default_limits ?last"
    using sample_accepted_reached serve_step.work serve_work.arm by (meson rtranclp.rtrancl_into_rtrancl)
  moreover have "sv_phase ?last = Returned ServeErr" "sv_tasks ?last = sv_tasks ?run" "sv_log ?last = sv_log ?run"
    by (simp_all add: on_accept_error_def)
  ultimately show ?thesis
    using returned_stuck[of ?last ServeErr default_limits]
    by (intro exI[of _ ?last] exI[of _ "sample_task\<lparr>t_told := [], t_stage := Serving\<rparr>"]) (simp add: sample_task_def conn_records_def)
qed

theorem serve_refines_admission_witness:
  "connections (sv_adm sample_accepted) = 1 \<and> 1 \<le> max_connections default_limits"
proof -
  have "0 < max_per_source default_limits"
    by (simp add: default_limits_def)
  from serve_refines_admission[OF sample_accepted_reached this] show ?thesis
    by (simp add: sample_accepted_eq sample_task_def ended_def)
qed

theorem serve_audit_settled_witness: "settled 0 (conn_records 0 (sv_log sample_returned))"
proof -
  have "0 < sv_next sample_returned"
    by (simp add: sample_returned_def sample_overdue_eq)
  from serve_audit_settled[OF sample_returned_reached this] show ?thesis
    by (simp add: sample_returned_def)
qed


end
