(* ===== verification/Logging.thy ===== *)
theory Logging
  imports Main
begin

text \<open>
  \<^verbatim>\<open>crates/quantumssh/src/log_json.rs\<close> and \<^verbatim>\<open>log_fields.rs\<close>: the two formats of a log record, and from \<^verbatim>\<open>main.rs\<close> the layers
  that decide which records are written.

  \<^item> A Rust string is the list of its Unicode scalar values, since both encoders work by \<^verbatim>\<open>chars\<close>.
  \<^item> The visitors of \<^verbatim>\<open>tracing\<close> are a list of recorded fields in the order of the call site; the text of a floating-point
    number, of an error and of a \<^verbatim>\<open>Debug\<close> value is input, and so is the timestamp.
  \<^item> \<open>json_object\<close> is a reader of flat JSON objects with the string syntax of RFC 8259. It is no part of the program: it
    says what a consumer of the log reads.
\<close>

section \<open>Scalars\<close>

type_synonym scalars = "nat list"

definition lit :: "string \<Rightarrow> scalars" where
  "lit s = map of_char s"

text \<open>\<^verbatim>\<open>char::is_control\<close>: the general category Cc.\<close>

definition is_control :: "nat \<Rightarrow> bool" where
  "is_control c \<longleftrightarrow> c < 0x20 \<or> 0x7F \<le> c \<and> c \<le> 0x9F"

definition hex_digit :: "nat \<Rightarrow> nat" where
  "hex_digit d = (if d < 10 then 0x30 + d else 0x57 + d)"

fun hex :: "nat \<Rightarrow> scalars" where
  "hex n = (if n < 16 then [hex_digit n] else hex (n div 16) @ [hex_digit (n mod 16)])"

declare hex.simps [simp del]

text \<open>\<^verbatim>\<open>{:0wx}\<close>.\<close>

definition hex_pad :: "nat \<Rightarrow> nat \<Rightarrow> scalars" where
  "hex_pad w n = replicate (w - length (hex n)) 0x30 @ hex n"

fun digits :: "nat \<Rightarrow> scalars" where
  "digits n = (if n < 10 then [0x30 + n] else digits (n div 10) @ [0x30 + n mod 10])"

declare digits.simps [simp del]

definition int_text :: "int \<Rightarrow> scalars" where
  "int_text i = (if i < 0 then 0x2D # digits (nat (- i)) else digits (nat i))"

section \<open>The JSON line\<close>

definition SCHEMA_VERSION :: nat where "SCHEMA_VERSION = 1"

definition AUDIT_TARGET :: scalars where "AUDIT_TARGET = lit ''audit''"

definition ENVELOPE_KEYS :: "scalars list" where
  "ENVELOPE_KEYS = map lit [''schema_version'', ''timestamp'', ''level'', ''event'', ''message'', ''peer_addr'']"

fun json_char :: "nat \<Rightarrow> scalars" where
  "json_char c =
     (if c = 0x22 then [0x5C, 0x22]
      else if c = 0x5C then [0x5C, 0x5C]
      else if is_control c then [0x5C, 0x75] @ hex_pad 4 c
      else [c])"

declare json_char.simps [simp del]

definition write_string :: "scalars \<Rightarrow> scalars" where
  "write_string s = [0x22] @ concat (map json_char s) @ [0x22]"

datatype log_value = VStr scalars | VRaw scalars

text \<open>What the visitor is called with: the methods of \<^verbatim>\<open>Visit\<close>. For a floating-point
  number: whether it is finite, its \<^verbatim>\<open>Display\<close> and its \<^verbatim>\<open>Debug\<close> text.\<close>

datatype recorded = RecStr scalars | RecBool bool | RecInt int | RecF64 bool scalars scalars | RecError scalars | RecDebug scalars

fun record_value :: "recorded \<Rightarrow> log_value" where
  "record_value (RecStr s) = VStr s"
| "record_value (RecBool b) = VRaw (lit (if b then ''true'' else ''false''))"
| "record_value (RecInt i) = VRaw (int_text i)"
| "record_value (RecF64 fin s dbg) = (if fin then VRaw s else VStr s)"
| "record_value (RecError s) = VStr s"
| "record_value (RecDebug s) = VStr s"

record fields =
  f_message :: "scalars option"
  f_values :: "(scalars \<times> log_value) list"

definition no_fields :: fields where
  "no_fields = \<lparr>f_message = None, f_values = []\<rparr>"

definition push :: "scalars \<Rightarrow> log_value \<Rightarrow> fields \<Rightarrow> fields" where
  "push name v f =
     (if name = lit ''message'' then (case v of VStr s \<Rightarrow> f\<lparr>f_message := Some s\<rparr> | VRaw _ \<Rightarrow> f)
      else if name \<notin> set ENVELOPE_KEYS then f\<lparr>f_values := f_values f @ [(name, v)]\<rparr>
      else f)"

definition record_fields :: "(scalars \<times> recorded) list \<Rightarrow> fields" where
  "record_fields rs = fold (\<lambda>(name, r). push name (record_value r)) rs no_fields"

text \<open>What a visitor writes that overrides only \<^verbatim>\<open>record_str\<close> and \<^verbatim>\<open>record_debug\<close>: the other methods pass the value on.\<close>

fun debug_text :: "recorded \<Rightarrow> scalars" where
  "debug_text (RecBool b) = lit (if b then ''true'' else ''false'')"
| "debug_text (RecInt i) = int_text i"
| "debug_text (RecStr s) = s"
| "debug_text (RecF64 _ _ s) = s"
| "debug_text (RecError s) = s"
| "debug_text (RecDebug s) = s"

text \<open>\<^verbatim>\<open>ConnectionPeer\<close> and the lookup of the address in the scope of the event, from the root.\<close>

record span =
  sp_name :: scalars
  sp_attrs :: "(scalars \<times> recorded) list"

definition peer_visit :: "scalars \<times> recorded \<Rightarrow> scalars option \<Rightarrow> scalars option" where
  "peer_visit a p =
     (if fst a = lit ''peer_addr'' then Some (debug_text (snd a)) else p)"

definition on_new_span :: "span \<Rightarrow> scalars option" where
  "on_new_span s = (if sp_name s \<noteq> lit ''connection'' then None else fold peer_visit (sp_attrs s) None)"

fun peer_of_scope :: "span list \<Rightarrow> scalars option" where
  "peer_of_scope [] = None"
| "peer_of_scope (s # ss) = (case on_new_span s of Some p \<Rightarrow> Some p | None \<Rightarrow> peer_of_scope ss)"

record event =
  ev_level :: scalars
  ev_target :: scalars
  ev_fields :: "(scalars \<times> recorded) list"

definition write_value :: "log_value \<Rightarrow> scalars" where
  "write_value v = (case v of VStr s \<Rightarrow> write_string s | VRaw s \<Rightarrow> s)"

definition write_field :: "scalars \<times> log_value \<Rightarrow> scalars" where
  "write_field f = [0x2C] @ write_string (fst f) @ [0x3A] @ write_value (snd f)"

definition name_key :: "event \<Rightarrow> scalars" where
  "name_key ev = (if ev_target ev = AUDIT_TARGET then lit ''event'' else lit ''message'')"

definition format_event :: "scalars \<Rightarrow> span list \<Rightarrow> event \<Rightarrow> scalars" where
  "format_event timestamp scope ev =
     (let f = record_fields (ev_fields ev) in
      lit ''{\"schema_version\":'' @ digits SCHEMA_VERSION @ lit '',\"timestamp\":'' @ write_string timestamp @
      lit '',\"level\":'' @ write_string (ev_level ev) @
      lit '',\"'' @ name_key ev @ lit ''\":'' @ write_string (case f_message f of Some m \<Rightarrow> m | None \<Rightarrow> []) @
      (case peer_of_scope scope of None \<Rightarrow> [] | Some p \<Rightarrow> lit '',\"peer_addr\":'' @ write_string p) @
      concat (map write_field (f_values f)) @ lit ''}'' @ [0x0A])"

section \<open>The human format\<close>

definition write_escaped :: "scalars \<Rightarrow> scalars" where
  "write_escaped s = concat (map (\<lambda>c. if is_control c then [0x5C, 0x78] @ hex_pad 2 c else [c]) s)"

definition human_field :: "scalars \<times> recorded \<Rightarrow> scalars" where
  "human_field f = (if fst f \<noteq> lit ''message'' then fst f @ [0x3D] else []) @ write_escaped (debug_text (snd f))"

fun format_fields :: "(scalars \<times> recorded) list \<Rightarrow> scalars" where
  "format_fields [] = []"
| "format_fields [f] = human_field f"
| "format_fields (f # fs) = human_field f @ [0x20] @ format_fields fs"

section \<open>The two layers\<close>

text \<open>
  The lines \<^verbatim>\<open>subscriber\<close> writes for an event: the general layer, with the outcome of the environment's filter for the
  event and for each span, then the audit layer, which admits every span.
\<close>

definition layer_lines :: "(event \<Rightarrow> bool) \<Rightarrow> (span \<Rightarrow> bool) \<Rightarrow> scalars \<Rightarrow> span list \<Rightarrow> event \<Rightarrow> scalars list" where
  "layer_lines env_event env_span timestamp scope ev =
     (if ev_target ev \<noteq> AUDIT_TARGET \<and> env_event ev then [format_event timestamp (filter env_span scope) ev] else []) @
     (if ev_target ev = AUDIT_TARGET then [format_event timestamp scope ev] else [])"

section \<open>What a reader of JSON reads\<close>

definition unhex :: "nat \<Rightarrow> nat option" where
  "unhex c =
     (if 0x30 \<le> c \<and> c \<le> 0x39 then Some (c - 0x30)
      else if 0x61 \<le> c \<and> c \<le> 0x66 then Some (c - 0x57)
      else if 0x41 \<le> c \<and> c \<le> 0x46 then Some (c - 0x37)
      else None)"

definition simple_escape :: "nat \<Rightarrow> nat option" where
  "simple_escape c =
     map_of [(0x22, 0x22), (0x5C, 0x5C), (0x2F, 0x2F), (0x62, 0x08), (0x66, 0x0C), (0x6E, 0x0A), (0x72, 0x0D), (0x74, 0x09)] c"

text \<open>An escape after its backslash.\<close>

fun json_escape :: "scalars \<Rightarrow> (nat \<times> scalars) option" where
  "json_escape [] = None"
| "json_escape (e # r) =
     (if e = 0x75 then
        (case map unhex (take 4 r) of
           [Some a, Some b, Some c, Some d] \<Rightarrow> Some (((a * 16 + b) * 16 + c) * 16 + d, drop 4 r)
         | _ \<Rightarrow> None)
      else map_option (\<lambda>c. (c, r)) (simple_escape e))"

lemma json_escape_shorter: "json_escape s = Some (c, r) \<Longrightarrow> length r < length s"
  by (cases s) (auto split: if_splits list.splits option.splits)

text \<open>The characters of a string after its opening quote, and what follows the closing one.\<close>

function (sequential) json_chars :: "scalars \<Rightarrow> (scalars \<times> scalars) option" where
  "json_chars [] = None"
| "json_chars (c # s) =
     (if c = 0x22 then Some ([], s)
      else if c = 0x5C then
        (case json_escape s of
           None \<Rightarrow> None
         | Some (x, r) \<Rightarrow> map_option (apfst (Cons x)) (json_chars r))
      else if c < 0x20 then None
      else map_option (apfst (Cons c)) (json_chars s))"
  by pat_completeness auto
termination
  by (relation "measure length") (auto dest: json_escape_shorter)

lemma json_chars_shorter: "json_chars s = Some (t, r) \<Longrightarrow> length r < length s"
proof (induction s arbitrary: t r rule: json_chars.induct)
  case (2 c s)
  consider "c = 0x22" | "c = 0x5C" | "c \<noteq> 0x22" "c \<noteq> 0x5C" by blast
  then show ?case
  proof cases
    case 2
    with "2.prems" obtain x u v where "json_escape s = Some (x, u)" "json_chars u = Some (v, r)"
      by (auto split: option.splits)
    then show ?thesis
      using "2.IH"(1)[of "(x, u)" x u v r] 2 json_escape_shorter by fastforce
  qed (use 2 in \<open>auto split: if_splits\<close>)
qed simp

definition raw_char :: "nat \<Rightarrow> bool" where
  "raw_char c \<longleftrightarrow> 0x30 \<le> c \<and> c \<le> 0x39 \<or> 0x61 \<le> c \<and> c \<le> 0x7A \<or> c \<in> {0x2B, 0x2D, 0x2E, 0x45}"

definition json_value :: "scalars \<Rightarrow> (log_value \<times> scalars) option" where
  "json_value s =
     (if s \<noteq> [] \<and> hd s = 0x22 then map_option (apfst VStr) (json_chars (tl s))
      else if takeWhile raw_char s = [] then None
      else Some (VRaw (takeWhile raw_char s), dropWhile raw_char s))"

definition json_member :: "scalars \<Rightarrow> ((scalars \<times> log_value) \<times> scalars) option" where
  "json_member s =
     (if s = [] \<or> hd s \<noteq> 0x22 then None
      else (case json_chars (tl s) of
              Some (k, colon # r) \<Rightarrow>
                if colon = 0x3A then map_option (apfst (Pair k)) (json_value r) else None
            | _ \<Rightarrow> None))"

lemma json_value_shorter: "json_value s = Some (v, r) \<Longrightarrow> length r < length s"
  by (cases s) (auto simp: json_value_def less_Suc_eq_le length_dropWhile_le dest: json_chars_shorter split: if_splits)

lemma json_member_shorter: "json_member s = Some (m, r) \<Longrightarrow> length r < length s"
  by (cases s)
    (fastforce simp: json_member_def dest!: json_chars_shorter json_value_shorter split: if_splits option.splits list.splits)+

function (sequential) json_members :: "scalars \<Rightarrow> ((scalars \<times> log_value) list \<times> scalars) option" where
  "json_members s =
     (case json_member s of
        Some (m, c # r) \<Rightarrow>
          if c = 0x7D then Some ([m], r)
          else if c = 0x2C then map_option (apfst (Cons m)) (json_members r)
          else None
      | _ \<Rightarrow> None)"
  by pat_completeness auto
termination
  by (relation "measure length") (auto dest!: json_member_shorter)

declare json_members.simps [simp del]

definition json_object :: "scalars \<Rightarrow> ((scalars \<times> log_value) list \<times> scalars) option" where
  "json_object s = (if s \<noteq> [] \<and> hd s = 0x7B then json_members (tl s) else None)"

section \<open>A line reads back\<close>

lemma hex_small:
  assumes "c < 256"
  shows "hex c = (if c < 16 then [hex_digit c] else [hex_digit (c div 16), hex_digit (c mod 16)])"
proof -
  have "c div 16 < 16" using assms by simp
  then show ?thesis by (simp add: hex.simps[of c] hex.simps[of "c div 16"])
qed

lemma small_replicate: "replicate 2 x = [x, x]" "replicate 3 x = [x, x, x]"
  by (simp_all add: numeral_eq_Suc)

lemma hex_pad_control:
  assumes "is_control c"
  shows "hex_pad 4 c = [0x30, 0x30, hex_digit (c div 16), hex_digit (c mod 16)]"
    and "hex_pad 2 c = [hex_digit (c div 16), hex_digit (c mod 16)]"
proof -
  have "c < 256"
    using assms by (auto simp: is_control_def)
  then show "hex_pad 4 c = [0x30, 0x30, hex_digit (c div 16), hex_digit (c mod 16)]"
    and "hex_pad 2 c = [hex_digit (c div 16), hex_digit (c mod 16)]"
    using small_replicate[of "0x30 :: nat"] by (simp_all add: hex_pad_def hex_small hex_digit_def)
qed

lemma unhex_digit [simp]: "d < 16 \<Longrightarrow> unhex (hex_digit d) = Some d"
  by (auto simp: unhex_def hex_digit_def)

lemma json_chars_char: "json_chars (json_char c @ s) = map_option (apfst (Cons c)) (json_chars s)"
proof -
  consider (quote) "c = 0x22 \<or> c = 0x5C" | (control) "is_control c" "c \<noteq> 0x22" "c \<noteq> 0x5C"
    | (plain) "\<not> is_control c" "c \<noteq> 0x22" "c \<noteq> 0x5C"
    by blast
  then show ?thesis
  proof cases
    case control
    then have "c < 256"
      by (auto simp: is_control_def)
    then have digits: "unhex (hex_digit (c div 16)) = Some (c div 16)" "unhex (hex_digit (c mod 16)) = Some (c mod 16)"
      "unhex 0x30 = Some 0"
      by (simp, simp, simp add: unhex_def)
    have "json_escape (0x75 # hex_pad 4 c @ s) = Some (c, s)"
      by (simp add: hex_pad_control[OF control(1)] digits)
    then show ?thesis
      using control by (simp add: json_char.simps)
  qed (auto simp: json_char.simps simple_escape_def is_control_def)
qed

lemma json_chars_written: "json_chars (concat (map json_char s) @ 0x22 # r) = Some (s, r)"
  by (induction s) (simp_all add: json_chars_char)

definition token :: "scalars \<Rightarrow> bool" where
  "token t \<longleftrightarrow> t \<noteq> [] \<and> (\<forall>c\<in>set t. raw_char c)"

fun printable_value :: "log_value \<Rightarrow> bool" where
  "printable_value (VStr _) \<longleftrightarrow> True"
| "printable_value (VRaw t) \<longleftrightarrow> token t"

definition ends_value :: "scalars \<Rightarrow> bool" where
  "ends_value r \<longleftrightarrow> r \<noteq> [] \<and> (hd r = 0x2C \<or> hd r = 0x7D)"

definition write_member :: "scalars \<times> log_value \<Rightarrow> scalars" where
  "write_member m = write_string (fst m) @ [0x3A] @ write_value (snd m)"

lemma write_field_member: "write_field m = 0x2C # write_member m"
  by (simp add: write_field_def write_member_def)

lemma json_value_written:
  assumes "printable_value v" and "ends_value r"
  shows "json_value (write_value v @ r) = Some (v, r)"
proof (cases v)
  case (VStr s)
  then show ?thesis
    by (simp add: json_value_def write_value_def write_string_def json_chars_written)
next
  case (VRaw t)
  with assms(1) have t: "t \<noteq> []" "\<forall>c\<in>set t. raw_char c"
    by (simp_all add: token_def)
  have "\<not> raw_char (hd r)" "r \<noteq> []"
    using assms(2) by (auto simp: ends_value_def raw_char_def)
  then have "takeWhile raw_char (t @ r) = t" "dropWhile raw_char (t @ r) = r"
    using t(2) by (cases r; simp)+
  moreover have "hd (t @ r) \<noteq> 0x22"
    using t by (cases t) (auto simp: raw_char_def)
  ultimately show ?thesis
    using t(1) VRaw by (simp add: json_value_def write_value_def)
qed

lemma json_member_written:
  assumes "printable_value (snd m)" and "ends_value r"
  shows "json_member (write_member m @ r) = Some (m, r)"
  using json_value_written[OF assms]
  by (simp add: json_member_def write_member_def write_string_def json_chars_written)

lemma json_members_written:
  assumes "\<forall>m\<in>set (m # ms). printable_value (snd m)"
  shows "json_members (write_member m @ concat (map write_field ms) @ 0x7D # r) = Some (m # ms, r)"
  using assms
proof (induction ms arbitrary: m)
  case Nil
  then show ?case
    using json_member_written[of m "0x7D # r"] by (simp add: json_members.simps ends_value_def)
next
  case (Cons n ms)
  let ?rest = "write_member n @ concat (map write_field ms) @ 0x7D # r"
  have "json_member (write_member m @ 0x2C # ?rest) = Some (m, 0x2C # ?rest)"
    using Cons.prems by (intro json_member_written) (simp_all add: ends_value_def)
  then show ?case
    using Cons by (simp add: json_members.simps[of "write_member m @ 0x2C # ?rest"] write_field_member[of n])
qed

text \<open>What a record means: its envelope, and its own fields without the reserved names.\<close>

definition message_of :: "(scalars \<times> recorded) list \<Rightarrow> scalars" where
  "message_of rs = (case f_message (record_fields rs) of Some m \<Rightarrow> m | None \<Rightarrow> [])"

definition envelope :: "scalars \<Rightarrow> span list \<Rightarrow> event \<Rightarrow> (scalars \<times> log_value) list" where
  "envelope timestamp scope ev =
     [(lit ''schema_version'', VRaw (lit ''1'')), (lit ''timestamp'', VStr timestamp), (lit ''level'', VStr (ev_level ev)),
      (name_key ev, VStr (message_of (ev_fields ev)))] @
     (case peer_of_scope scope of None \<Rightarrow> [] | Some p \<Rightarrow> [(lit ''peer_addr'', VStr p)])"

definition own_fields :: "(scalars \<times> recorded) list \<Rightarrow> (scalars \<times> log_value) list" where
  "own_fields rs = map (apsnd record_value) (filter (\<lambda>r. fst r \<notin> set ENVELOPE_KEYS) rs)"

lemma message_is_envelope: "lit ''message'' \<in> set ENVELOPE_KEYS"
  by (simp add: ENVELOPE_KEYS_def)

lemma record_fields_values: "f_values (record_fields rs) = own_fields rs"
proof -
  have "f_values (fold (\<lambda>(name, r). push name (record_value r)) rs f) = f_values f @ own_fields rs" for f
    by (induction rs arbitrary: f)
      (auto simp: own_fields_def push_def message_is_envelope split: log_value.splits)
  then show ?thesis
    by (simp add: record_fields_def no_fields_def)
qed

lemma key_texts:
  "lit ''{\"schema_version\":'' = 0x7B # write_string (lit ''schema_version'') @ [0x3A]"
  "lit '',\"timestamp\":'' = 0x2C # write_string (lit ''timestamp'') @ [0x3A]"
  "lit '',\"level\":'' = 0x2C # write_string (lit ''level'') @ [0x3A]"
  "lit '',\"peer_addr\":'' = 0x2C # write_string (lit ''peer_addr'') @ [0x3A]"
  "lit '',\"'' @ lit ''event'' @ lit ''\":'' = 0x2C # write_string (lit ''event'') @ [0x3A]"
  "lit '',\"'' @ lit ''message'' @ lit ''\":'' = 0x2C # write_string (lit ''message'') @ [0x3A]"
  by (simp_all add: lit_def write_string_def json_char.simps is_control_def)

lemma name_key_text: "lit '',\"'' @ name_key ev @ lit ''\":'' @ r = 0x2C # write_string (name_key ev) @ 0x3A # r"
  using arg_cong[OF key_texts(5), of "\<lambda>t. t @ r"] arg_cong[OF key_texts(6), of "\<lambda>t. t @ r"]
  by (simp add: name_key_def)

lemma format_event_members:
  "format_event timestamp scope ev =
     0x7B # write_member (hd (envelope timestamp scope ev)) @
     concat (map write_field (tl (envelope timestamp scope ev) @ own_fields (ev_fields ev))) @ 0x7D # [0x0A]"
proof -
  have one: "digits SCHEMA_VERSION = lit ''1''" and brace: "lit ''}'' = [0x7D]"
    by (simp_all add: SCHEMA_VERSION_def lit_def digits.simps)
  show ?thesis
    by (simp add: format_event_def Let_def record_fields_values key_texts(1-4) name_key_text one brace envelope_def
        write_member_def write_field_def write_value_def message_of_def split: option.splits)
qed

text \<open>A finite floating-point number is shown as digits, a sign and a point.\<close>

definition finite_texts :: "(scalars \<times> recorded) list \<Rightarrow> bool" where
  "finite_texts rs \<longleftrightarrow> (\<forall>(name, r)\<in>set rs. case r of RecF64 True t _ \<Rightarrow> token t | _ \<Rightarrow> True)"

lemma digits_raw: "c \<in> set (digits n) \<Longrightarrow> raw_char c"
  by (induction n rule: digits.induct) (subst (asm) (2) digits.simps, auto simp: raw_char_def split: if_splits)

lemma digits_nonempty: "digits n \<noteq> []"
  by (subst digits.simps) simp

lemma int_text_token: "token (int_text i)"
  using digits_raw digits_nonempty by (auto simp: int_text_def token_def raw_char_def)

lemma own_fields_printable:
  assumes "finite_texts rs" and "f \<in> set (own_fields rs)"
  shows "printable_value (snd f)"
proof -
  obtain name r where "(name, r) \<in> set rs" "snd f = record_value r"
    using assms(2) by (auto simp: own_fields_def)
  moreover have "printable_value (record_value r)" if "case r of RecF64 True t _ \<Rightarrow> token t | _ \<Rightarrow> True"
    using that int_text_token by (cases r) (auto simp: token_def lit_def raw_char_def split: bool.splits)
  ultimately show ?thesis
    using assms(1) by (auto simp: finite_texts_def)
qed

lemma envelope_printable: "f \<in> set (envelope timestamp scope ev) \<Longrightarrow> printable_value (snd f)"
  by (auto simp: envelope_def token_def lit_def raw_char_def split: option.splits)

lemma line_printable:
  assumes "finite_texts (ev_fields ev)"
  shows "\<forall>m\<in>set (hd (envelope timestamp scope ev) # tl (envelope timestamp scope ev) @ own_fields (ev_fields ev)).
    printable_value (snd m)"
proof -
  have "hd (envelope timestamp scope ev) # tl (envelope timestamp scope ev) = envelope timestamp scope ev"
    by (simp add: envelope_def)
  then have "set (hd (envelope timestamp scope ev) # tl (envelope timestamp scope ev) @ own_fields (ev_fields ev)) =
      set (envelope timestamp scope ev) \<union> set (own_fields (ev_fields ev))"
    by (metis append_Cons set_append)
  then show ?thesis
    using own_fields_printable[OF assms] envelope_printable by blast
qed


section \<open>Nothing forges a line\<close>

lemma hex_digit_plain: "d < 16 \<Longrightarrow> \<not> is_control (hex_digit d)"
  by (auto simp: hex_digit_def is_control_def)

lemma control_digits: "is_control c \<Longrightarrow> c div 16 < 16"
  by (auto simp: is_control_def)

lemma json_char_plain: "x \<in> set (json_char c) \<Longrightarrow> \<not> is_control x"
  using hex_digit_plain[of "c div 16"] hex_digit_plain[of "c mod 16"] control_digits[of c]
  by (auto simp: json_char.simps hex_pad_control split: if_splits) (auto simp: is_control_def)

lemma write_string_plain: "x \<in> set (write_string s) \<Longrightarrow> \<not> is_control x"
  using json_char_plain by (auto simp: write_string_def is_control_def)

lemma token_plain: "token t \<Longrightarrow> x \<in> set t \<Longrightarrow> \<not> is_control x"
  by (auto simp: token_def raw_char_def is_control_def)

lemma write_member_plain: "printable_value (snd m) \<Longrightarrow> x \<in> set (write_member m) \<Longrightarrow> \<not> is_control x"
  using write_string_plain token_plain
  by (cases "snd m") (auto simp: write_member_def write_value_def is_control_def[of "0x3A"])

lemma object_plain:
  assumes "\<forall>m\<in>set (h # t). printable_value (snd m)"
  shows "\<forall>c\<in>set (0x7B # write_member h @ concat (map write_field t) @ [0x7D]). \<not> is_control c"
proof -
  have "\<not> is_control c" if "m \<in> set (h # t)" "c \<in> set (write_member m)" for m c
    using that assms write_member_plain by blast
  moreover have "\<not> is_control 0x7B" "\<not> is_control 0x7D" "\<not> is_control 0x2C"
    by (simp_all add: is_control_def)
  ultimately show ?thesis
    by (cases h) (auto simp: write_field_member)
qed

lemma format_event_plain:
  assumes "finite_texts (ev_fields ev)"
  shows "\<exists>line. format_event timestamp scope ev = line @ [0x0A] \<and> (\<forall>c\<in>set line. \<not> is_control c)"
proof -
  let ?h = "hd (envelope timestamp scope ev)" and ?t = "tl (envelope timestamp scope ev) @ own_fields (ev_fields ev)"
  have "\<forall>m\<in>set (?h # ?t). printable_value (snd m)"
    by (rule line_printable[OF assms])
  then have "\<forall>c\<in>set (0x7B # write_member ?h @ concat (map write_field ?t) @ [0x7D]). \<not> is_control c"
    by (rule object_plain)
  then show ?thesis
    unfolding format_event_members by (intro exI[of _ "0x7B # write_member ?h @ concat (map write_field ?t) @ [0x7D]"]) simp
qed

lemma write_escaped_plain: "x \<in> set (write_escaped s) \<Longrightarrow> \<not> is_control x"
  using hex_digit_plain[of "_ div 16"] hex_digit_plain[of "_ mod 16"] control_digits
  by (auto simp: write_escaped_def hex_pad_control split: if_splits) (auto simp: is_control_def)

lemma format_fields_plain:
  assumes "\<forall>(name, r)\<in>set rs. \<forall>c\<in>set name. \<not> is_control c" and "x \<in> set (format_fields rs)"
  shows "\<not> is_control x"
  using assms
  by (induction rs rule: format_fields.induct)
    (auto simp: human_field_def is_control_def[of "0x3D"] is_control_def[of "0x20"] dest: write_escaped_plain split: if_splits)

text \<open>
  C37 (safety). No text a peer supplies can end a log line, start another or send a control sequence to a terminal: every
  line of the JSON format ends in its only control character, the newline, and the fields of the human format have
  none, if the names written in the source have none. And an audit event gives exactly one line, whatever the filter
  that the environment sets.
\<close>

theorem log_lines_unforgeable:
  assumes "finite_texts (ev_fields ev)" and "\<forall>(name, r)\<in>set (ev_fields ev). \<forall>c\<in>set name. \<not> is_control c"
  shows "(\<forall>l\<in>set (layer_lines env_event env_span timestamp scope ev).
      \<exists>line. l = line @ [0x0A] \<and> (\<forall>c\<in>set line. \<not> is_control c)) \<and>
    (\<forall>c\<in>set (format_fields (ev_fields ev)). \<not> is_control c) \<and>
    (ev_target ev = AUDIT_TARGET \<longrightarrow> layer_lines env_event env_span timestamp scope ev = [format_event timestamp scope ev])"
  using format_event_plain[OF assms(1)] format_fields_plain[OF assms(2)]
  by (auto simp: layer_lines_def)

section \<open>Witnesses\<close>

definition sample_event :: event where
  "sample_event = \<lparr>ev_level = lit ''WARN'', ev_target = AUDIT_TARGET,
     ev_fields = [(lit ''message'', RecDebug (lit ''auth.failed'')), (lit ''event'', RecStr (lit ''forged'')),
       (lit ''auth_method'', RecDebug ([0x0A, 0x22] @ lit ''x'')), (lit ''failure_count'', RecInt 1)]\<rparr>"


theorem log_lines_unforgeable_witness:
  "list_all (\<lambda>c. \<not> is_control c) (format_fields (ev_fields sample_event)) \<and>
     layer_lines (\<lambda>_. False) (\<lambda>_. False) (lit ''T'') [] sample_event = [format_event (lit ''T'') [] sample_event]"
proof -
  have "finite_texts (ev_fields sample_event)"
    "\<forall>(name, r)\<in>set (ev_fields sample_event). \<forall>c\<in>set name. \<not> is_control c"
    by (simp_all add: finite_texts_def sample_event_def lit_def is_control_def)
  moreover have target: "ev_target sample_event = AUDIT_TARGET"
    by (simp add: sample_event_def)
  ultimately show ?thesis
    using log_lines_unforgeable[of sample_event] by (simp add: list_all_iff target)
qed

end
