(* ===== verification/Config.thy ===== *)
theory Config
  imports Str Admission
begin

text \<open>
  \<^verbatim>\<open>crates/quantumssh/src/config.rs\<close>: the schema of the configuration file, the checks after deserialising, and the
  \<^verbatim>\<open>StrictModes\<close> check of the trusted files.

  \<^item> The TOML deserialiser is a third-party crate and a parameter: from the text of the file, a record with the
    types of the schema, or an error with its message and the position it was found at. That a record comes out
    whose fields fit their widths is the type.
  \<^item> The calls on the file system are the record \<open>cfs\<close>, each outcome a function of the path: the check and the read
    see one file system. The source accepts the race between them.
  \<^item> Strings are their UTF-8 bytes.
\<close>

unbundle bit_operations_syntax

section \<open>Errors\<close>

datatype config_error = FileUnavailable bytes | SchemaError bytes | VersionUnsupported bytes | InsecurePermissions bytes

fun error_class :: "config_error \<Rightarrow> bytes" where
  "error_class (FileUnavailable _) = ascii ''file_unavailable''"
| "error_class (SchemaError _) = ascii ''schema_error''"
| "error_class (VersionUnsupported _) = ascii ''version_unsupported''"
| "error_class (InsecurePermissions _) = ascii ''insecure_permissions''"

fun error_detail :: "config_error \<Rightarrow> bytes" where
  "error_detail (FileUnavailable d) = d"
| "error_detail (SchemaError d) = d"
| "error_detail (VersionUnsupported d) = d"
| "error_detail (InsecurePermissions d) = d"

section \<open>Schema\<close>

datatype log_format = Json | Human

record 'a server_section =
  sec_listen :: "'a option"
  sec_host_key :: "bytes option"
  sec_handshake_timeout :: "u64 option"
  sec_drain_timeout :: "u64 option"

record auth_section =
  sec_authorized_keys :: "bytes option"
  sec_trusted_user_ca_keys :: "bytes option"

record limits_section =
  sec_max_connections :: "u64 option"
  sec_max_half_open :: "u64 option"
  sec_max_per_source :: "u64 option"
  sec_accept_rate :: "u32 option"
  sec_accept_burst :: "u32 option"

record 'a config_file =
  schema_version :: u32
  cf_server :: "'a server_section"
  cf_auth :: auth_section
  cf_logging :: "log_format option"
  cf_limits :: limits_section

definition SUPPORTED_SCHEMA_VERSIONS :: "u32 list" where
  "SUPPORTED_SCHEMA_VERSIONS = [1]"

text \<open>An error of the deserialiser: its message, and the start of its span in the text.\<close>

record toml_error =
  toml_message :: bytes
  toml_start :: "nat option"

definition newline_to_space :: "u8 \<Rightarrow> u8" where
  "newline_to_space b = (if b = 0x0A then 0x20 else b)"

text \<open>\<^verbatim>\<open>chars().count()\<close>: every byte that is not a continuation byte. A position inside a character takes the whole text.\<close>

definition schema_detail :: "toml_error \<Rightarrow> bytes \<Rightarrow> bytes" where
  "schema_detail e txt =
     (let message = map newline_to_space (str_trim_end (toml_message e)) in
      case toml_start e of
        None \<Rightarrow> message
      | Some at \<Rightarrow>
          let start = min at (length txt);
              before = (if start < length txt \<and> utf8_cont (txt ! start) then txt else take start txt);
              line = count_list before 0x0A + 1;
              last = rev (takeWhile (\<lambda>b. b \<noteq> 0x0A) (rev before));
              column = length (filter (\<lambda>b. \<not> utf8_cont b) last) + 1 in
          message @ ascii '' at line '' @ decimal line @ ascii '' column '' @ decimal column)"

section \<open>Parsing\<close>

definition MAX_TOML_INT :: u64 where "MAX_TOML_INT = 2 ^ 63 - 1"

definition config_integers :: "'a config_file \<Rightarrow> (u64 option \<times> bytes) list" where
  "config_integers file =
     [(sec_handshake_timeout (cf_server file), ascii ''server.handshake_timeout''),
      (sec_drain_timeout (cf_server file), ascii ''server.drain_timeout''),
      (sec_max_connections (cf_limits file), ascii ''limits.max_connections''),
      (sec_max_half_open (cf_limits file), ascii ''limits.max_half_open''),
      (sec_max_per_source (cf_limits file), ascii ''limits.max_per_source''),
      (map_option ucast (sec_accept_rate (cf_limits file)), ascii ''limits.accept_rate''),
      (map_option ucast (sec_accept_burst (cf_limits file)), ascii ''limits.accept_burst'')]"

fun check_integers :: "bytes \<Rightarrow> (u64 option \<times> bytes) list \<Rightarrow> (config_error, unit) result" where
  "check_integers origin [] = Inr ()"
| "check_integers origin ((value, key) # rest) =
     (case value of
        Some v \<Rightarrow>
          if v = 0 then Inl (SchemaError (origin @ ascii '': '' @ key @ ascii '' must be at least 1''))
          else if v > MAX_TOML_INT then
            Inl (SchemaError (origin @ ascii '': '' @ key @ ascii '' must be at most '' @ decimal (unat MAX_TOML_INT)))
          else check_integers origin rest
      | None \<Rightarrow> check_integers origin rest)"

fun join_comma :: "bytes list \<Rightarrow> bytes" where
  "join_comma [] = []"
| "join_comma [x] = x"
| "join_comma (x # xs) = x @ ascii '', '' @ join_comma xs"

definition parse_config ::
  "(bytes \<Rightarrow> (toml_error, 'a config_file) result) \<Rightarrow> bytes \<Rightarrow> bytes \<Rightarrow> (config_error, 'a config_file) result" where
  "parse_config toml txt origin =
     (case toml txt of
        Inl e \<Rightarrow> Inl (SchemaError (origin @ ascii '': '' @ schema_detail e txt))
      | Inr file \<Rightarrow>
          if schema_version file \<notin> set SUPPORTED_SCHEMA_VERSIONS then
            let why = (if list_all (\<lambda>v. schema_version file > v) SUPPORTED_SCHEMA_VERSIONS
                       then ascii ''is newer than this binary understands''
                       else ascii ''is not a version this binary understands'') in
            Inl (VersionUnsupported (origin @ ascii '': schema_version '' @ decimal (unat (schema_version file)) @
              ascii '' '' @ why @ ascii '' (supported: '' @
              join_comma (map (\<lambda>v. decimal (unat v)) SUPPORTED_SCHEMA_VERSIONS) @ ascii '')''))
          else try_bind (check_integers origin (config_integers file)) (\<lambda>_. Inr file))"

section \<open>The file system and the trusted files\<close>

record stat =
  st_mode :: u32
  st_uid :: u32

record cfs =
  canonicalize :: "bytes \<Rightarrow> (bytes, bytes) result"
  cfs_stat :: "bytes \<Rightarrow> (bytes, stat) result"
  read_to_string :: "bytes \<Rightarrow> (bytes, bytes) result"
  geteuid :: u32
  show_path :: "bytes \<Rightarrow> bytes" \<comment> \<open>\<^verbatim>\<open>Path::display\<close>, lossy for a path that is not UTF-8\<close>

definition load_config ::
  "cfs \<Rightarrow> (bytes \<Rightarrow> (toml_error, 'a config_file) result) \<Rightarrow> bytes \<Rightarrow> (config_error, 'a config_file) result" where
  "load_config F toml path =
     (case read_to_string F path of
        Inl e \<Rightarrow> Inl (FileUnavailable (show_path F path @ ascii '': cannot read: '' @ e))
      | Inr txt \<Rightarrow> parse_config toml txt (show_path F path))"

datatype trusted_class = Input | Secret

definition WRITE_OTHERS :: u32 where "WRITE_OTHERS = 0x12"
definition READ_OTHERS :: u32 where "READ_OTHERS = 0x24"

text \<open>\<^verbatim>\<open>{:04o}\<close> of the permission bits.\<close>

fun octal :: "nat \<Rightarrow> bytes" where
  "octal n = (if n < 8 then [0x30 + word_of_nat n] else octal (n div 8) @ [0x30 + word_of_nat (n mod 8)])"

declare octal.simps [simp del]

definition show_mode :: "u32 \<Rightarrow> bytes" where
  "show_mode mode = (let t = octal (unat (mode AND 0xFFF)) in replicate (4 - length t) 0x30 @ t)"

definition file_violation :: "u32 \<Rightarrow> u32 \<Rightarrow> u32 \<Rightarrow> trusted_class \<Rightarrow> bytes option" where
  "file_violation mode owner process_uid cls =
     (if mode AND WRITE_OTHERS \<noteq> 0 then Some (ascii ''group/world-writable (mode '' @ show_mode mode @ ascii '')'')
      else if owner \<noteq> 0 \<and> owner \<noteq> process_uid then
        Some (ascii ''owned by uid '' @ decimal (unat owner) @ ascii '', not root or the process uid '' @
          decimal (unat process_uid))
      else if cls = Secret \<and> mode AND READ_OTHERS \<noteq> 0 then
        Some (ascii ''group/world-readable private key (mode '' @ show_mode mode @ ascii '')'')
      else None)"

definition ancestor_violation :: "u32 \<Rightarrow> bytes option" where
  "ancestor_violation mode =
     (if mode AND WRITE_OTHERS \<noteq> 0
      then Some (ascii ''group/world-writable ancestor directory (mode '' @ show_mode mode @ ascii '')'')
      else None)"

definition stat_or_unavailable :: "cfs \<Rightarrow> bytes \<Rightarrow> (config_error, stat) result" where
  "stat_or_unavailable F path =
     (case cfs_stat F path of
        Inl e \<Rightarrow> Inl (FileUnavailable (show_path F path @ ascii '': cannot stat: '' @ e))
      | Inr st \<Rightarrow> Inr st)"

text \<open>
  \<^verbatim>\<open>Path::parent\<close> on what \<^verbatim>\<open>canonicalize\<close> returns, an absolute path without empty, dot or dot-dot components, and
  \<^verbatim>\<open>ancestors().skip(1)\<close>.
\<close>

definition parent_dir :: "bytes \<Rightarrow> bytes option" where
  "parent_dir p =
     (if p = [0x2F] \<or> 0x2F \<notin> set p then None
      else
        let d = rev (tl (dropWhile (\<lambda>b. b \<noteq> 0x2F) (rev p))) in
        Some (if d = [] then [0x2F] else d))"

lemma parent_dir_shorter:
  assumes "parent_dir p = Some d"
  shows "length d < length p"
proof -
  from assms have p: "p \<noteq> [0x2F]" "0x2F \<in> set p"
    by (auto simp: parent_dir_def split: if_splits)
  let ?r = "dropWhile (\<lambda>b. b \<noteq> 0x2F) (rev p)"
  have r: "?r \<noteq> []" "length ?r \<le> length p"
    using p(2) length_dropWhile_le[of "\<lambda>b. b \<noteq> 0x2F" "rev p"] by auto
  have "length p > 1"
    using p by (cases p rule: list.exhaust; cases "tl p") auto
  then show ?thesis
    using assms p r by (auto simp: parent_dir_def Let_def split: if_splits)
qed

function path_ancestors :: "bytes \<Rightarrow> bytes list" where
  "path_ancestors p = (case parent_dir p of None \<Rightarrow> [] | Some d \<Rightarrow> d # path_ancestors d)"
  by pat_completeness auto
termination
  by (relation "measure length") (simp_all add: parent_dir_shorter)

declare path_ancestors.simps [simp del]

fun check_ancestors :: "cfs \<Rightarrow> bytes \<Rightarrow> bytes list \<Rightarrow> (config_error, unit) result" where
  "check_ancestors F canon [] = Inr ()"
| "check_ancestors F canon (dir # rest) =
     try_bind (stat_or_unavailable F dir) (\<lambda>st.
     case ancestor_violation (st_mode st) of
       Some violation \<Rightarrow>
         Inl (InsecurePermissions (show_path F canon @ ascii '': '' @ violation @ ascii '' at '' @ show_path F dir))
     | None \<Rightarrow> check_ancestors F canon rest)"

definition check_trusted_file :: "cfs \<Rightarrow> bytes \<Rightarrow> trusted_class \<Rightarrow> (config_error, bytes) result" where
  "check_trusted_file F path cls =
     (case canonicalize F path of
        Inl e \<Rightarrow> Inl (FileUnavailable (show_path F path @ ascii '': cannot canonicalise: '' @ e))
      | Inr canon \<Rightarrow>
          try_bind (stat_or_unavailable F canon) (\<lambda>st.
          case file_violation (st_mode st) (st_uid st) (geteuid F) cls of
            Some violation \<Rightarrow> Inl (InsecurePermissions (show_path F canon @ ascii '': '' @ violation))
          | None \<Rightarrow> try_bind (check_ancestors F canon (path_ancestors canon)) (\<lambda>_. Inr canon)))"

section \<open>What the schema check accepts\<close>

definition in_range :: "u64 option \<Rightarrow> bool" where
  "in_range v \<longleftrightarrow> (case v of None \<Rightarrow> True | Some n \<Rightarrow> 1 \<le> n \<and> n \<le> MAX_TOML_INT)"

lemma word_nonzero_ge: "(v :: u64) \<noteq> 0 \<longleftrightarrow> 1 \<le> v"
  using unat_gt_0[of v] by (simp add: word_le_nat_alt Suc_le_eq)

lemma check_integers_Inr: "check_integers origin xs = Inr u \<longleftrightarrow> (\<forall>(v, key)\<in>set xs. in_range v)"
  by (induction origin xs rule: check_integers.induct)
    (auto simp: in_range_def word_nonzero_ge not_less split: option.splits)

lemma check_integers_Inl: "check_integers origin xs = Inl e \<Longrightarrow> \<exists>d. e = SchemaError d"
  by (induction origin xs rule: check_integers.induct) (auto split: option.splits if_splits)

lemma parse_config_Inr:
  "parse_config toml txt origin = Inr file \<longleftrightarrow>
     toml txt = Inr file \<and> schema_version file = 1 \<and> (\<forall>(v, key)\<in>set (config_integers file). in_range v)"
  by (auto simp: parse_config_def SUPPORTED_SCHEMA_VERSIONS_def try_bind_Inr_iff check_integers_Inr Let_def
      split: sum.splits if_splits)


section \<open>What a trusted file is\<close>

text \<open>A path by its components, and the permission bits by their positions.\<close>

definition path_of :: "bytes list \<Rightarrow> bytes" where
  "path_of cs = (if cs = [] then [0x2F] else concat (map (Cons 0x2F) cs))"

definition file_names :: "bytes list \<Rightarrow> bool" where
  "file_names cs \<longleftrightarrow> (\<forall>c\<in>set cs. c \<noteq> [] \<and> 0x2F \<notin> set c)"

definition others_write :: "u32 \<Rightarrow> bool" where
  "others_write mode \<longleftrightarrow> bit mode 1 \<or> bit mode 4"

definition others_read :: "u32 \<Rightarrow> bool" where
  "others_read mode \<longleftrightarrow> bit mode 2 \<or> bit mode 5"

definition file_trusted :: "u32 \<Rightarrow> trusted_class \<Rightarrow> stat \<Rightarrow> bool" where
  "file_trusted uid cls st \<longleftrightarrow>
     \<not> others_write (st_mode st) \<and> (st_uid st = 0 \<or> st_uid st = uid) \<and> (cls = Secret \<longrightarrow> \<not> others_read (st_mode st))"

lemma two_bits: "((m :: u32) AND (push_bit i 1 OR push_bit j 1) = 0) \<longleftrightarrow> \<not> (bit m i \<or> bit m j)"
proof
  assume zero: "m AND (push_bit i 1 OR push_bit j 1) = 0"
  have "\<not> bit m k" if "k = i \<or> k = j" for k
  proof
    assume "bit m k"
    then have "k < 32"
      using bit_imp_le_length by fastforce
    then have "bit (m AND (push_bit i 1 OR push_bit j 1)) k"
      using \<open>bit m k\<close> that by (auto simp: bit_and_iff bit_or_iff bit_exp_iff)
    then show False unfolding zero by simp
  qed
  then show "\<not> (bit m i \<or> bit m j)" by blast
next
  assume "\<not> (bit m i \<or> bit m j)"
  then show "m AND (push_bit i 1 OR push_bit j 1) = 0"
    by (intro bit_eqI) (auto simp: bit_and_iff bit_or_iff bit_exp_iff)
qed

lemma others_masks:
  "mode AND WRITE_OTHERS \<noteq> 0 \<longleftrightarrow> others_write mode" "mode AND READ_OTHERS \<noteq> 0 \<longleftrightarrow> others_read mode"
  using two_bits[of mode 1 4] two_bits[of mode 2 5]
  by (simp_all add: WRITE_OTHERS_def READ_OTHERS_def others_write_def others_read_def)

lemma file_violation_None: "file_violation (st_mode st) (st_uid st) uid cls = None \<longleftrightarrow> file_trusted uid cls st"
  unfolding file_violation_def others_masks file_trusted_def by auto

lemma ancestor_violation_None: "ancestor_violation mode = None \<longleftrightarrow> \<not> others_write mode"
  unfolding ancestor_violation_def others_masks by simp

lemma stat_Inr: "stat_or_unavailable F p = Inr st \<longleftrightarrow> cfs_stat F p = Inr st"
  by (auto simp: stat_or_unavailable_def split: sum.splits)

text \<open>
  The contract of a walk over directories, which the start-up check and \<^verbatim>\<open>keygen\<close> each implement with their own
  messages: it goes on past a directory iff it can be examined and violates nothing.
\<close>

locale dir_walk =
  fixes F :: cfs and walk :: "bytes list \<Rightarrow> ('e, unit) result"
  assumes walk_Nil: "walk [] = Inr ()"
    and walk_Cons: "walk (d # ds) = Inr () \<longleftrightarrow>
      (\<exists>st. cfs_stat F d = Inr st \<and> ancestor_violation (st_mode st) = None) \<and> walk ds = Inr ()"
begin

lemma walk_Inr: "walk ds = Inr u \<longleftrightarrow> (\<forall>d\<in>set ds. \<exists>st. cfs_stat F d = Inr st \<and> \<not> others_write (st_mode st))"
  by (induction ds) (simp_all add: walk_Nil walk_Cons ancestor_violation_None)

end

interpretation trusted_walk: dir_walk F "check_ancestors F canon" for F canon
  by unfold_locales (auto simp: stat_or_unavailable_def split: option.splits sum.splits)

lemma parent_dir_path:
  assumes "file_names (cs @ [c])"
  shows "parent_dir (path_of (cs @ [c])) = Some (path_of cs)"
proof -
  have c: "c \<noteq> []" "0x2F \<notin> set c"
    using assms by (auto simp: file_names_def)
  let ?p = "concat (map (Cons 0x2F) cs)"
  have "dropWhile (\<lambda>b. b \<noteq> 0x2F) (rev (?p @ 0x2F # c)) = 0x2F # rev ?p"
    using c(2) by (subst rev_append, subst rev.simps, subst append_assoc, subst dropWhile_append2) auto
  moreover have "?p @ 0x2F # c \<noteq> [0x2F]"
    using c(1) by (cases ?p) auto
  ultimately show ?thesis
    by (cases cs) (simp_all add: parent_dir_def path_of_def Let_def)
qed

lemma path_ancestors_set:
  "file_names cs \<Longrightarrow> set (path_ancestors (path_of cs)) = (\<lambda>n. path_of (take n cs)) ` {..<length cs}"
proof (induction cs rule: rev_induct)
  case Nil
  have "parent_dir (path_of []) = None"
    by (simp add: parent_dir_def path_of_def)
  then show ?case
    by (simp add: path_ancestors.simps)
next
  case (snoc c cs)
  then have "file_names cs"
    by (simp add: file_names_def)
  moreover have "(\<lambda>n. path_of (take n (cs @ [c]))) ` {..<length (cs @ [c])} =
      insert (path_of cs) ((\<lambda>n. path_of (take n cs)) ` {..<length cs})"
    by (auto simp: lessThan_Suc)
  ultimately show ?case
    using snoc by (simp add: path_ancestors.simps[of "path_of (cs @ [c])"] parent_dir_path)
qed

lemma check_trusted_file_Inr:
  "check_trusted_file F path cls = Inr canon \<longleftrightarrow>
     canonicalize F path = Inr canon \<and> (\<exists>st. cfs_stat F canon = Inr st \<and> file_trusted (geteuid F) cls st) \<and>
     (\<forall>d\<in>set (path_ancestors canon). \<exists>st. cfs_stat F d = Inr st \<and> \<not> others_write (st_mode st))"
proof (cases "canonicalize F path")
  case (Inr p)
  show ?thesis
  proof (cases "cfs_stat F p")
    case (Inl e)
    then show ?thesis
      using Inr by (auto simp: check_trusted_file_def stat_or_unavailable_def)
  next
    case st: (Inr st)
    have "check_trusted_file F path cls = Inr canon \<longleftrightarrow>
        file_violation (st_mode st) (st_uid st) (geteuid F) cls = None \<and>
        (\<exists>u. check_ancestors F p (path_ancestors p) = Inr u) \<and> canon = p"
      using Inr st by (auto simp: check_trusted_file_def stat_or_unavailable_def try_bind_Inr_iff split: option.splits)
    then show ?thesis
      using Inr st by (auto simp: file_violation_None trusted_walk.walk_Inr)
  qed
qed (simp add: check_trusted_file_def)

text \<open>
  C39 (safety). The check of a trusted file passes iff the path resolves to a canonical one, that file is owned by root or
  the process, nobody else can write it, nobody else can read it if it is a secret, and no directory on the way from
  the root is writable by others; it returns the resolved path, and an unreadable directory fails it.
\<close>

theorem check_trusted_file_exact:
  assumes "file_names cs"
  shows "check_trusted_file F path cls = Inr (path_of cs) \<longleftrightarrow>
    canonicalize F path = Inr (path_of cs) \<and>
    (\<exists>st. cfs_stat F (path_of cs) = Inr st \<and> file_trusted (geteuid F) cls st) \<and>
    (\<forall>n<length cs. \<exists>st. cfs_stat F (path_of (take n cs)) = Inr st \<and> \<not> others_write (st_mode st))"
  unfolding check_trusted_file_Inr path_ancestors_set[OF assms] by auto

section \<open>Witnesses\<close>

definition sample_config :: "unit config_file" where
  "sample_config = \<lparr>schema_version = 1,
     cf_server = \<lparr>sec_listen = None, sec_host_key = Some (ascii ''/k''), sec_handshake_timeout = Some 10, sec_drain_timeout = None\<rparr>,
     cf_auth = \<lparr>sec_authorized_keys = None, sec_trusted_user_ca_keys = None\<rparr>, cf_logging = Some Json,
     cf_limits = \<lparr>sec_max_connections = Some 5, sec_max_half_open = None, sec_max_per_source = None,
       sec_accept_rate = Some 2, sec_accept_burst = None\<rparr>\<rparr>"


definition sample_cfs :: cfs where
  "sample_cfs = \<lparr>canonicalize = Inr, cfs_stat = (\<lambda>p. Inr \<lparr>st_mode = (if p = ascii ''/k'' then 0x8180 else 0x41ED), st_uid = 0\<rparr>),
     read_to_string = (\<lambda>p. Inr []), geteuid = 7, show_path = id\<rparr>"

theorem check_trusted_file_exact_witness: "check_trusted_file sample_cfs (ascii ''/k'') Secret = Inr (ascii ''/k'')"
proof -
  have "file_names [ascii ''k'']" and p: "path_of [ascii ''k''] = ascii ''/k''"
    by (simp_all add: file_names_def path_of_def ascii_def)
  from check_trusted_file_exact[OF this(1), of sample_cfs "ascii ''/k''" Secret] show ?thesis
    unfolding p
    by (simp add: sample_cfs_def file_trusted_def others_write_def others_read_def)
qed

end
