(* ===== verification/Startup.thy ===== *)
theory Startup
  imports Config Serve KeyFile Transport
begin

text \<open>
  \<^verbatim>\<open>crates/quantumssh/src/main.rs\<close> and \<^verbatim>\<open>notify.rs\<close>: the command line, the merge with the configuration file, and the start of
  the server up to the accept loop.

  \<^item> \<open>start_env\<close> is what start-up meets outside: the file system, the deserialiser, the parser of socket addresses of the
    standard library with the type of its result, the terminal, the runtime, the socket, and how \<^verbatim>\<open>serve\<close> ends.
  \<^item> Audit events are logged to a list. What is printed to the standard streams is left out, and so are the
    datagrams to the service manager but for their text.
  \<^item> A detail that formats an error of the key files or of the host key is that error with the path.
\<close>

section \<open>Command line\<close>

record 'a cli =
  config_path :: "bytes option"
  cli_listen :: "'a option"
  cli_host_key_path :: "bytes option"
  cli_authorized_keys_path :: "bytes option"
  cli_handshake_timeout :: "u64 option"
  cli_log_format :: "log_format option"

definition cli_default :: "'a cli" where
  "cli_default = \<lparr>config_path = None, cli_listen = None, cli_host_key_path = None, cli_authorized_keys_path = None,
     cli_handshake_timeout = None, cli_log_format = None\<rparr>"

datatype exit_code = SUCCESS | FAILURE

datatype 'a cli_outcome = CliRun "'a cli" | CliKeygen bytes | CliExit exit_code

text \<open>\<^verbatim>\<open>u64::from_str\<close> with the texts of its errors.\<close>

fun u64_digits :: "nat \<Rightarrow> bytes \<Rightarrow> (bytes, nat) result" where
  "u64_digits acc [] = Inr acc"
| "u64_digits acc (c # cs) =
     (if c < 0x30 \<or> 0x39 < c then Inl (ascii ''invalid digit found in string'')
      else
        let n = acc * 10 + unat (c - 0x30) in
        if n > u64_max then Inl (ascii ''number too large to fit in target type'')
        else u64_digits n cs)"

definition parse_u64 :: "bytes \<Rightarrow> (bytes, u64) result" where
  "parse_u64 s =
     (if s = [] then Inl (ascii ''cannot parse integer from empty string'')
      else if s = [0x2B] \<or> s = [0x2D] then Inl (ascii ''invalid digit found in string'')
      else try_bind (u64_digits 0 (if hd s = 0x2B then tl s else s)) (\<lambda>n. Inr (word_of_nat n)))"

definition KEYGEN_USAGE :: bytes where "KEYGEN_USAGE = ascii ''usage: quantumssh keygen <PATH>''"

definition flag_value :: "bytes list \<Rightarrow> string \<Rightarrow> (bytes, bytes \<times> bytes list) result" where
  "flag_value rest missing = (case rest of [] \<Rightarrow> Inl (ascii missing) | v # r \<Rightarrow> Inr (v, r))"

text \<open>One turn of the argument loop: the flags with what is left of the arguments, or the end.\<close>

definition cli_step ::
  "(bytes \<Rightarrow> (bytes, 'a) result) \<Rightarrow> bytes \<Rightarrow> bytes list \<Rightarrow> 'a cli \<Rightarrow> (bytes, exit_code + 'a cli \<times> bytes list) result" where
  "cli_step parse_addr arg rest cli =
     (if arg = ascii ''--config'' then
        try_bind (flag_value rest ''--config requires a path'') (\<lambda>(v, r).
        Inr (Inr (cli\<lparr>config_path := Some v\<rparr>, r)))
      else if arg = ascii ''--listen'' then
        try_bind (flag_value rest ''--listen requires an address'') (\<lambda>(v, r).
        try_bind (map_err (\<lambda>e. ascii ''invalid --listen address '' @ [0x27] @ v @ [0x27] @ ascii '': '' @ e) (parse_addr v)) (\<lambda>a.
        Inr (Inr (cli\<lparr>cli_listen := Some a\<rparr>, r))))
      else if arg = ascii ''--host-key'' then
        try_bind (flag_value rest ''--host-key requires a path'') (\<lambda>(v, r).
        Inr (Inr (cli\<lparr>cli_host_key_path := Some v\<rparr>, r)))
      else if arg = ascii ''--authorized-keys'' then
        try_bind (flag_value rest ''--authorized-keys requires a path'') (\<lambda>(v, r).
        Inr (Inr (cli\<lparr>cli_authorized_keys_path := Some v\<rparr>, r)))
      else if arg = ascii ''--handshake-timeout'' then
        try_bind (flag_value rest ''--handshake-timeout requires seconds'') (\<lambda>(v, r).
        try_bind (map_err (\<lambda>e. ascii ''invalid --handshake-timeout '' @ [0x27] @ v @ [0x27] @ ascii '': '' @ e) (parse_u64 v)) (\<lambda>secs.
        if secs = 0 then Inl (ascii ''--handshake-timeout must be at least 1 second'')
        else Inr (Inr (cli\<lparr>cli_handshake_timeout := Some secs\<rparr>, r))))
      else if arg = ascii ''--log-format'' then
        try_bind (flag_value rest (''--log-format requires '' @ [CHR 0x27] @ ''json'' @ [CHR 0x27] @ '' or '' @ [CHR 0x27] @ ''human'' @ [CHR 0x27]))
          (\<lambda>(v, r).
        if v = ascii ''json'' then Inr (Inr (cli\<lparr>cli_log_format := Some Json\<rparr>, r))
        else if v = ascii ''human'' then Inr (Inr (cli\<lparr>cli_log_format := Some Human\<rparr>, r))
        else Inl (ascii ''invalid --log-format '' @ [0x27] @ v @ [0x27]))
      else if arg = ascii ''--help'' \<or> arg = ascii ''--version'' then Inr (Inl SUCCESS)
      else Inl (ascii ''unknown argument '' @ [0x27] @ arg @ [0x27]))"

lemma flag_value_Inr: "flag_value rest m = Inr (v, r) \<longleftrightarrow> rest = v # r"
  by (auto simp: flag_value_def split: list.splits)

lemma cli_step_shorter: "cli_step parse_addr arg rest cli = Inr (Inr (c, r)) \<Longrightarrow> length r < length (arg # rest)"
  by (auto simp: cli_step_def try_bind_Inr_iff flag_value_Inr split: if_splits sum.split_asm)

function (sequential) cli_loop ::
  "(bytes \<Rightarrow> (bytes, 'a) result) \<Rightarrow> 'a cli \<Rightarrow> bytes list \<Rightarrow> (bytes, 'a cli_outcome) result" where
  "cli_loop parse_addr cli [] = Inr (CliRun cli)"
| "cli_loop parse_addr cli (arg # rest) =
     (case cli_step parse_addr arg rest cli of
        Inl e \<Rightarrow> Inl e
      | Inr (Inl code) \<Rightarrow> Inr (CliExit code)
      | Inr (Inr (cli', rest')) \<Rightarrow> cli_loop parse_addr cli' rest')"
  by pat_completeness auto
termination
  by (relation "measure (\<lambda>(_, _, args). length args)") (use cli_step_shorter in fastforce)+

definition parse_cli :: "(bytes \<Rightarrow> (bytes, 'a) result) \<Rightarrow> bytes list \<Rightarrow> (bytes, 'a cli_outcome) result" where
  "parse_cli parse_addr args =
     (case args of
        first # rest \<Rightarrow>
          if first = ascii ''keygen'' then
            (case rest of
               [path] \<Rightarrow> if starts_with (ascii ''-'') path then Inl KEYGEN_USAGE else Inr (CliKeygen path)
             | _ \<Rightarrow> Inl KEYGEN_USAGE)
          else cli_loop parse_addr cli_default args
      | [] \<Rightarrow> cli_loop parse_addr cli_default args)"

section \<open>Precedence\<close>

definition DEFAULT_LISTEN :: bytes where "DEFAULT_LISTEN = ascii ''127.0.0.1:2222''"
definition DEFAULT_HANDSHAKE_TIMEOUT_SECS :: u64 where "DEFAULT_HANDSHAKE_TIMEOUT_SECS = 30"
definition DEFAULT_DRAIN_TIMEOUT_SECS :: u64 where "DEFAULT_DRAIN_TIMEOUT_SECS = 30"
definition BLOCKING_THREADS_PER_CONNECTION :: nat where "BLOCKING_THREADS_PER_CONNECTION = 4"

definition pick_opt :: "'v option \<Rightarrow> 'v option \<Rightarrow> bytes \<Rightarrow> bytes list \<Rightarrow> 'v option \<times> bytes list" where
  "pick_opt cli file key overrides =
     (case cli of Some _ \<Rightarrow> cli | None \<Rightarrow> file, if cli \<noteq> None \<and> file \<noteq> None then overrides @ [key] else overrides)"

definition pick :: "'v option \<Rightarrow> 'v option \<Rightarrow> 'v \<Rightarrow> bytes \<Rightarrow> bytes list \<Rightarrow> 'v \<times> bytes list" where
  "pick cli file otherwise key overrides =
     (case (case cli of Some _ \<Rightarrow> cli | None \<Rightarrow> file) of Some v \<Rightarrow> v | None \<Rightarrow> otherwise,
      if cli \<noteq> None \<and> file \<noteq> None then overrides @ [key] else overrides)"

record 'a resolved =
  r_listen :: 'a
  r_host_key_path :: "bytes option"
  r_authorized_keys_path :: "bytes option"
  r_trusted_user_ca_keys_path :: "bytes option"
  r_handshake_timeout :: u64
  r_log_format :: log_format
  r_limits :: limits
  r_drain_timeout :: u64
  r_overrides :: "bytes list"

definition resolve_config :: "'a cli \<Rightarrow> 'a config_file option \<Rightarrow> 'a \<Rightarrow> log_format \<Rightarrow> 'a resolved" where
  "resolve_config cli file default_listen tty_default =
     (let server = map_option cf_server file;
          (listen, o1) = pick (cli_listen cli) (Option.bind server sec_listen) default_listen (ascii ''server.listen'') [];
          (host_key, o2) = pick_opt (cli_host_key_path cli) (Option.bind server sec_host_key) (ascii ''server.host_key'') o1;
          (keys, o3) = pick_opt (cli_authorized_keys_path cli) (Option.bind file (\<lambda>f. sec_authorized_keys (cf_auth f)))
             (ascii ''auth.authorized_keys'') o2;
          (timeout, o4) = pick (cli_handshake_timeout cli) (Option.bind server sec_handshake_timeout)
             DEFAULT_HANDSHAKE_TIMEOUT_SECS (ascii ''server.handshake_timeout'') o3;
          (fmt, o5) = pick (cli_log_format cli) (Option.bind file cf_logging) tty_default (ascii ''logging.format'') o4;
          section = map_option cf_limits file;
          get = (\<lambda>value def. case Option.bind section value of Some v \<Rightarrow> unat (v :: u64) | None \<Rightarrow> def);
          get32 = (\<lambda>value def. case Option.bind section value of Some v \<Rightarrow> unat (v :: u32) | None \<Rightarrow> def) in
      \<lparr>r_listen = listen, r_host_key_path = host_key, r_authorized_keys_path = keys,
       r_trusted_user_ca_keys_path = Option.bind file (\<lambda>f. sec_trusted_user_ca_keys (cf_auth f)),
       r_handshake_timeout = timeout, r_log_format = fmt,
       r_limits = \<lparr>max_connections = get sec_max_connections (max_connections default_limits),
         max_half_open = get sec_max_half_open (max_half_open default_limits),
         max_per_source = get sec_max_per_source (max_per_source default_limits),
         accept_rate = get32 sec_accept_rate (accept_rate default_limits),
         accept_burst = get32 sec_accept_burst (accept_burst default_limits)\<rparr>,
       r_drain_timeout = (case Option.bind server sec_drain_timeout of Some d \<Rightarrow> d | None \<Rightarrow> DEFAULT_DRAIN_TIMEOUT_SECS),
       r_overrides = o5\<rparr>)"

section \<open>Start-up\<close>

datatype start_detail =
    DText bytes
  | DHostKey bytes host_key_error \<comment> \<open>cannot load host key\<close>
  | DKeyFile bytes bytes auth_error \<comment> \<open>cannot load, with the name of the file's kind and its path\<close>

datatype 'a start_event =
    ConfigErrorEvent bytes start_detail bytes
  | ConfigOverride bytes
  | ServerStarted 'a "bytes option" bytes

record 'a start_env =
  s_cfs :: cfs
  s_prims :: sig_prims
  s_toml :: "bytes \<Rightarrow> (toml_error, 'a config_file) result"
  s_parse_addr :: "bytes \<Rightarrow> (bytes, 'a) result"
  s_show_addr :: "'a \<Rightarrow> bytes"
  s_stderr_tty :: bool
  s_runtime :: "nat \<Rightarrow> (bytes, unit) result"
  s_bind :: "'a \<Rightarrow> (bytes, 'a) result" \<comment> \<open>the address the listener got\<close>
  s_linux :: bool
  s_current_exe :: "bytes option"
  s_serve :: "(bytes, unit) result"

record 'a srv_config =
  sc_listen :: 'a
  sc_handshake_timeout :: u64
  sc_host_key :: signing_key
  sc_authorized_keys :: "bytes key_line list"
  sc_trusted_user_ca_keys :: "verifying_key key_line list option"
  sc_rekey :: rekey_thresholds
  sc_limits :: limits
  sc_helper :: "bytes option"

definition load_config_file :: "'a start_env \<Rightarrow> 'a cli \<Rightarrow> bytes \<times> (config_error, 'a config_file option) result" where
  "load_config_file E cli =
     (case config_path cli of
        None \<Rightarrow> ([], Inr None)
      | Some p \<Rightarrow>
          (case check_trusted_file (s_cfs E) p Input of
             Inl e \<Rightarrow> (p, Inl e)
           | Inr canon \<Rightarrow>
               (show_path (s_cfs E) canon, try_bind (load_config (s_cfs E) (s_toml E) canon) (\<lambda>f. Inr (Some f)))))"

text \<open>The loaders: the event they log, or the value.\<close>

definition load_host_key :: "'a start_env \<Rightarrow> bytes \<Rightarrow> bytes \<Rightarrow> ('a start_event, signing_key) result" where
  "load_host_key E path config_file =
     (case check_trusted_file (s_cfs E) path Secret of
        Inl e \<Rightarrow> Inl (ConfigErrorEvent (error_class e) (DText (error_detail e)) config_file)
      | Inr canon \<Rightarrow>
          (case read_to_string (s_cfs E) canon of
             Inl e \<Rightarrow> Inl (ConfigErrorEvent (ascii ''file_unavailable'')
                 (DText (ascii ''cannot read host key '' @ show_path (s_cfs E) canon @ ascii '': '' @ e)) config_file)
           | Inr pem \<Rightarrow>
               (case from_openssh_pem (s_prims E) pem of
                  Inl e \<Rightarrow> Inl (ConfigErrorEvent (ascii ''invalid_host_key'') (DHostKey canon e) config_file)
                | Inr k \<Rightarrow> Inr k)))"

definition read_key_file :: "cfs \<Rightarrow> bytes \<Rightarrow> (auth_error, bytes) result" where
  "read_key_file F path = map_err (\<lambda>_. AuthIo) (read_to_string F path)"

definition load_key_file ::
  "'a start_env \<Rightarrow> bytes \<Rightarrow> bytes \<Rightarrow> (bytes \<Rightarrow> (auth_error, 'k) result) \<Rightarrow> bytes \<Rightarrow> ('a start_event, 'k) result" where
  "load_key_file E path name parse config_file =
     (case check_trusted_file (s_cfs E) path Input of
        Inl e \<Rightarrow> Inl (ConfigErrorEvent (error_class e) (DText (error_detail e)) config_file)
      | Inr canon \<Rightarrow>
          (case try_bind (read_key_file (s_cfs E) canon) parse of
             Inl e \<Rightarrow> Inl (ConfigErrorEvent (ascii ''invalid_'' @ name) (DKeyFile name canon e) config_file)
           | Inr k \<Rightarrow> Inr k))"

definition missing_setting :: "string \<Rightarrow> bytes \<Rightarrow> 'a start_event" where
  "missing_setting content config_file = ConfigErrorEvent (ascii ''missing_setting'') (DText (ascii content)) config_file"

definition helper :: "'a start_env \<Rightarrow> bytes option" where
  "helper E = (if s_linux E then Some (ascii ''/proc/self/exe'') else s_current_exe E)"

text \<open>\<^verbatim>\<open>run\<close> up to the socket: the configuration of the server, or the event that ends it.\<close>

definition build_config :: "'a start_env \<Rightarrow> 'a resolved \<Rightarrow> bytes \<Rightarrow> ('a start_event, 'a srv_config) result" where
  "build_config E r config_file =
     try_bind (ok_or (missing_setting ''host key is required (--host-key or [server].host_key)'' config_file)
        (r_host_key_path r)) (\<lambda>host_key_path.
     try_bind (load_host_key E host_key_path config_file) (\<lambda>host_key.
     try_bind (ok_or (missing_setting ''authorized_keys is required (--authorized-keys or [auth].authorized_keys)'' config_file)
        (r_authorized_keys_path r)) (\<lambda>keys_path.
     try_bind (load_key_file E keys_path (ascii ''authorized_keys'') (parse_key_file (s_prims E)) config_file) (\<lambda>keys.
     try_bind (case r_trusted_user_ca_keys_path r of
         None \<Rightarrow> Inr None
       | Some path \<Rightarrow>
           try_bind (load_key_file E path (ascii ''trusted_user_ca_keys'') (parse_ca_file (s_prims E)) config_file)
             (\<lambda>cas. Inr (Some cas))) (\<lambda>cas.
     Inr \<lparr>sc_listen = r_listen r, sc_handshake_timeout = r_handshake_timeout r, sc_host_key = host_key,
       sc_authorized_keys = keys, sc_trusted_user_ca_keys = cas,
       sc_rekey = bsi_defaults (unat (r_handshake_timeout r) * 10 ^ 9), sc_limits = r_limits r, sc_helper = helper E\<rparr>)))))"

text \<open>The whole of \<^verbatim>\<open>run\<close>: the events, the exit code, and the configuration it served with, if it did.\<close>

definition run_server ::
  "'a start_env \<Rightarrow> 'a resolved \<Rightarrow> bytes \<Rightarrow> 'a start_event list \<times> exit_code \<times> 'a srv_config option" where
  "run_server E r config_file =
     (case build_config E r config_file of
        Inl ev \<Rightarrow> ([ev], FAILURE, None)
      | Inr config \<Rightarrow>
          (case s_bind E (sc_listen config) of
             Inl e \<Rightarrow>
               ([ConfigErrorEvent (ascii ''bind_failed'')
                  (DText (ascii ''cannot bind '' @ s_show_addr E (r_listen r) @ ascii '': '' @ e)) config_file], FAILURE, None)
           | Inr listen_addr \<Rightarrow>
               let started = ServerStarted listen_addr
                     (map_option (fingerprint_sha256 (s_prims E)) (public_key_blob (sc_host_key config))) config_file in
               (case s_serve E of
                  Inr _ \<Rightarrow> ([started], SUCCESS, Some config)
                | Inl e \<Rightarrow>
                    ([started, ConfigErrorEvent (ascii ''listener_failed'') (DText (ascii ''accept loop failed: '' @ e)) config_file],
                     FAILURE, Some config))))"

datatype 'a main_outcome = Usage bytes | Keygen bytes | Exited exit_code | Ran "'a start_event list" exit_code "'a srv_config option"

definition main_run :: "'a start_env \<Rightarrow> 'a cli \<Rightarrow> 'a \<Rightarrow> 'a main_outcome" where
  "main_run E cli default_listen =
     (let tty_default = (if s_stderr_tty E then Human else Json) in
      case load_config_file E cli of
        (config_file, Inl e) \<Rightarrow>
          Ran [ConfigErrorEvent (error_class e) (DText (error_detail e)) config_file] FAILURE None
      | (config_file, Inr file) \<Rightarrow>
          let r = resolve_config cli file default_listen tty_default;
              log = map ConfigOverride (r_overrides r) in
          (case s_runtime E (max (min u64_max (BLOCKING_THREADS_PER_CONNECTION * max_connections (r_limits r))) 1) of
             Inl e \<Rightarrow>
               Ran (log @ [ConfigErrorEvent (ascii ''runtime_failed'') (DText (ascii ''cannot build the runtime: '' @ e)) config_file])
                 FAILURE None
           | Inr _ \<Rightarrow> (case run_server E r config_file of (evs, code, config) \<Rightarrow> Ran (log @ evs) code config)))"

definition main :: "'a start_env \<Rightarrow> bytes list \<Rightarrow> 'a main_outcome" where
  "main E args =
     (case parse_cli (s_parse_addr E) args of
        Inl message \<Rightarrow> Usage message
      | Inr (CliKeygen path) \<Rightarrow> Keygen path
      | Inr (CliExit code) \<Rightarrow> Exited code
      | Inr (CliRun cli) \<Rightarrow>
          (case s_parse_addr E DEFAULT_LISTEN of
             Inl e \<Rightarrow> Usage (ascii ''internal default listen address invalid: '' @ e)
           | Inr default_listen \<Rightarrow> main_run E cli default_listen))"

section \<open>Deadlines and notification\<close>

text \<open>An \<^verbatim>\<open>Instant\<close> in nanoseconds, up to what its 63-bit seconds hold; times are given in nanoseconds.\<close>

definition INSTANT_MAX :: nat where "INSTANT_MAX = 2 ^ 63 * 10 ^ 9 - 1"
definition FAR_FUTURE :: nat where "FAR_FUTURE = 24 * 365 * 30 * 3600 * 10 ^ 9"

definition drain_deadline :: "nat \<Rightarrow> u64 \<Rightarrow> nat" where
  "drain_deadline now drain =
     (if now + unat drain * 10 ^ 9 \<le> INSTANT_MAX then now + unat drain * 10 ^ 9 else now + FAR_FUTURE)"

definition STOP_MARGIN :: u64 where "STOP_MARGIN = 5"

definition stopping :: "u64 \<Rightarrow> bytes" where
  "stopping drain =
     (let extend = (if unat drain + unat STOP_MARGIN > u64_max then u64_max * 1000000 + 999999
                    else (unat drain + unat STOP_MARGIN) * 1000000) in
      ascii ''STOPPING=1'' @ [0x0A] @ ascii ''EXTEND_TIMEOUT_USEC='' @ decimal extend)"

section \<open>Limits\<close>

definition limits_ok :: "limits \<Rightarrow> bool" where
  "limits_ok l \<longleftrightarrow> 1 \<le> max_connections l \<and> 1 \<le> max_half_open l \<and> 1 \<le> max_per_source l \<and> 1 \<le> accept_rate l \<and>
     1 \<le> accept_burst l \<and> accept_rate l \<le> u32_max \<and> accept_burst l \<le> u32_max"

lemma in_range_or:
  assumes "in_range v" and "1 \<le> d"
  shows "1 \<le> (case v of Some n \<Rightarrow> unat n | None \<Rightarrow> d)"
  using assms by (auto simp: in_range_def word_le_nat_alt split: option.splits)

lemma in_range_or_u32:
  assumes "in_range (map_option ucast (v :: u32 option))" and "1 \<le> d" and "d \<le> u32_max"
  shows "1 \<le> (case v of Some n \<Rightarrow> unat n | None \<Rightarrow> d)" and "(case v of Some n \<Rightarrow> unat n | None \<Rightarrow> d) \<le> u32_max"
proof -
  have "unat n \<le> u32_max" for n :: u32
    using unsigned_less[of n] by simp
  then show "1 \<le> (case v of Some n \<Rightarrow> unat n | None \<Rightarrow> d)" and "(case v of Some n \<Rightarrow> unat n | None \<Rightarrow> d) \<le> u32_max"
    using assms by (auto simp: in_range_def word_le_nat_alt split: option.splits)
qed

lemma resolve_limits_ok:
  assumes "\<And>f. file = Some f \<Longrightarrow> \<forall>(v, key)\<in>set (config_integers f). in_range v"
  shows "limits_ok (r_limits (resolve_config cli file dl tty))"
proof (cases "file :: _ config_file option")
  case None
  then show ?thesis
    by (simp add: resolve_config_def Let_def limits_ok_def default_limits_def pick_def pick_opt_def split: prod.splits)
next
  case (Some f)
  then have r: "in_range (sec_max_connections (cf_limits f))" "in_range (sec_max_half_open (cf_limits f))"
    "in_range (sec_max_per_source (cf_limits f))" "in_range (map_option ucast (sec_accept_rate (cf_limits f)))"
    "in_range (map_option ucast (sec_accept_burst (cf_limits f)))"
    using assms by (auto simp: config_integers_def)
  show ?thesis
    using Some in_range_or[OF r(1)] in_range_or[OF r(2)] in_range_or[OF r(3)] in_range_or_u32[OF r(4)] in_range_or_u32[OF r(5)]
    by (simp add: resolve_config_def Let_def limits_ok_def default_limits_def pick_def pick_opt_def)
qed

section \<open>A server that starts\<close>

text \<open>A text that came from a file which passed the check, read at the path that was checked.\<close>

definition trusted_text :: "cfs \<Rightarrow> bytes \<Rightarrow> trusted_class \<Rightarrow> bytes \<Rightarrow> bool" where
  "trusted_text F path cls content \<longleftrightarrow> (\<exists>canon. check_trusted_file F path cls = Inr canon \<and> read_to_string F canon = Inr content)"

definition config_trusted :: "'a start_env \<Rightarrow> 'a cli \<Rightarrow> 'a config_file option \<Rightarrow> bool" where
  "config_trusted E cli file \<longleftrightarrow>
     (case config_path cli of
        None \<Rightarrow> file = None
      | Some p \<Rightarrow> \<exists>content f. file = Some f \<and> trusted_text (s_cfs E) p Input content \<and> s_toml E content = Inr f \<and>
          schema_version f = 1 \<and> (\<forall>(v, key)\<in>set (config_integers f). in_range v))"

definition keys_trusted :: "'a start_env \<Rightarrow> 'a resolved \<Rightarrow> 'a srv_config \<Rightarrow> bool" where
  "keys_trusted E r c \<longleftrightarrow>
     (\<exists>path pem. r_host_key_path r = Some path \<and> trusted_text (s_cfs E) path Secret pem \<and>
        from_openssh_pem (s_prims E) pem = Inr (sc_host_key c)) \<and>
     (\<exists>path content. r_authorized_keys_path r = Some path \<and> trusted_text (s_cfs E) path Input content \<and>
        parse_key_file (s_prims E) content = Inr (sc_authorized_keys c)) \<and>
     (case r_trusted_user_ca_keys_path r of
        None \<Rightarrow> sc_trusted_user_ca_keys c = None
      | Some path \<Rightarrow> \<exists>content cas. sc_trusted_user_ca_keys c = Some cas \<and> trusted_text (s_cfs E) path Input content \<and>
          parse_ca_file (s_prims E) content = Inr cas)"

lemma load_config_file_Inr:
  assumes "load_config_file E cli = (cf, Inr file)"
  shows "config_trusted E cli file"
proof (cases "config_path cli")
  case (Some p)
  with assms obtain canon f where canon: "check_trusted_file (s_cfs E) p Input = Inr canon"
    and f: "load_config (s_cfs E) (s_toml E) canon = Inr f" "file = Some f"
    by (auto simp: load_config_file_def try_bind_Inr_iff split: sum.splits)
  from f obtain content where "read_to_string (s_cfs E) canon = Inr content"
    "parse_config (s_toml E) content (show_path (s_cfs E) canon) = Inr f"
    by (auto simp: load_config_def split: sum.splits)
  then show ?thesis
    using Some canon f(2) parse_config_Inr by (fastforce simp: config_trusted_def trusted_text_def)
qed (use assms in \<open>simp add: load_config_file_def config_trusted_def\<close>)

lemma load_host_key_Inr:
  "load_host_key E path cf = Inr k \<Longrightarrow> \<exists>pem. trusted_text (s_cfs E) path Secret pem \<and> from_openssh_pem (s_prims E) pem = Inr k"
  by (auto simp: load_host_key_def trusted_text_def split: sum.splits)

lemma load_key_file_Inr:
  "load_key_file E path name parse cf = Inr k \<Longrightarrow> \<exists>content. trusted_text (s_cfs E) path Input content \<and> parse content = Inr k"
  by (auto simp: load_key_file_def trusted_text_def read_key_file_def try_bind_Inr_iff map_err_def split: sum.splits)

lemma load_Inl_event:
  "load_host_key E path cf = Inl ev \<Longrightarrow> \<exists>cls d. ev = ConfigErrorEvent cls d cf"
  "load_key_file E path name parse cf = Inl ev \<Longrightarrow> \<exists>cls d. ev = ConfigErrorEvent cls d cf"
  by (auto simp: load_host_key_def load_key_file_def split: sum.splits)

lemma ok_or_Inl: "ok_or e m = Inl x \<longleftrightarrow> m = None \<and> x = e"
  by (auto simp: ok_or_def split: option.splits)

lemma build_config_Inr:
  assumes "build_config E r cf = Inr c"
  shows "keys_trusted E r c" and "sc_limits c = r_limits r" and "sc_handshake_timeout c = r_handshake_timeout r"
    and "sc_listen c = r_listen r"
  using assms unfolding build_config_def keys_trusted_def
  by (auto simp: try_bind_Inr_iff ok_or_Inr_iff dest!: load_host_key_Inr load_key_file_Inr split: option.split option.split_asm)

lemma build_config_Inl: "build_config E r cf = Inl ev \<Longrightarrow> \<exists>cls d. ev = ConfigErrorEvent cls d cf"
  unfolding build_config_def
  by (auto simp: try_bind_Inl_iff ok_or_Inl missing_setting_def dest: load_Inl_event split: option.split_asm)

lemma cli_step_timeout:
  "cli_step parse_addr arg rest cli = Inr (Inr (c, r)) \<Longrightarrow> cli_handshake_timeout cli \<noteq> Some 0 \<Longrightarrow>
     cli_handshake_timeout c \<noteq> Some 0"
  by (auto simp: cli_step_def try_bind_Inr_iff split: if_splits)

lemma cli_loop_timeout:
  "cli_loop parse_addr cli args = Inr (CliRun c) \<Longrightarrow> cli_handshake_timeout cli \<noteq> Some 0 \<Longrightarrow>
     cli_handshake_timeout c \<noteq> Some 0"
proof (induction parse_addr cli args rule: cli_loop.induct)
  case (2 parse_addr cli arg rest)
  then obtain cli' rest' where step: "cli_step parse_addr arg rest cli = Inr (Inr (cli', rest'))"
    and loop: "cli_loop parse_addr cli' rest' = Inr (CliRun c)"
    by (auto split: sum.split_asm)
  show ?case
    by (rule "2.IH"[OF step refl refl loop cli_step_timeout[OF step "2.prems"(2)]])
qed simp

lemma parse_cli_timeout: "parse_cli parse_addr args = Inr (CliRun c) \<Longrightarrow> cli_handshake_timeout c \<noteq> Some 0"
  by (rule cli_loop_timeout[of parse_addr cli_default args])
    (auto simp: parse_cli_def cli_default_def simp del: cli_loop.simps split: list.split_asm if_splits)

lemma resolve_timeout:
  assumes "cli_handshake_timeout cli \<noteq> Some 0"
    and "\<And>f. file = Some f \<Longrightarrow> \<forall>(v, key)\<in>set (config_integers f). in_range v"
  shows "r_handshake_timeout (resolve_config cli file dl tty) \<noteq> 0"
proof -
  have "sec_handshake_timeout (cf_server f) \<noteq> Some 0" if "file = Some f" for f
    using assms(2)[OF that] by (auto simp: config_integers_def in_range_def)
  then show ?thesis
    using assms(1)
    by (cases "file :: _ config_file option")
      (auto simp: resolve_config_def Let_def pick_def pick_opt_def DEFAULT_HANDSHAKE_TIMEOUT_SECS_def split: option.splits)
qed

definition served_ok :: "'a start_env \<Rightarrow> 'a cli \<Rightarrow> 'a srv_config \<Rightarrow> bool" where
  "served_ok E cli c \<longleftrightarrow>
     (\<exists>file dl tty. config_trusted E cli file \<and> keys_trusted E (resolve_config cli file dl tty) c) \<and>
     limits_ok (sc_limits c) \<and> sc_handshake_timeout c \<noteq> 0"

fun start_log :: "exit_code \<Rightarrow> bool \<Rightarrow> 'a start_event list \<Rightarrow> bool" where
  "start_log code False evs \<longleftrightarrow> code = FAILURE \<and> (\<exists>cls d cf. evs = [ConfigErrorEvent cls d cf])"
| "start_log SUCCESS True evs \<longleftrightarrow> (\<exists>addr fp cf. evs = [ServerStarted addr fp cf])"
| "start_log FAILURE True evs \<longleftrightarrow>
     (\<exists>addr fp cf d. evs = [ServerStarted addr fp cf, ConfigErrorEvent (ascii ''listener_failed'') d cf])"

lemma run_server_ok:
  assumes "run_server E r cf = (evs, code, served)"
  shows "start_log code (served \<noteq> None) evs" and "served = Some c \<Longrightarrow> build_config E r cf = Inr c"
  using assms build_config_Inl[of E r cf]
  by (auto simp: run_server_def Let_def split: sum.split_asm)

text \<open>
  C19 (safety). Start-up fails closed. The server serves only with a configuration file that passed the check of its
  permissions and of the schema, with a host key from a file nobody else can read or change, and with key files nobody
  else can change, each read at the path that was checked; its limits and its handshake timeout are positive. Then
  it has logged one \<^verbatim>\<open>server.started\<close>. In every other case it logs exactly one \<^verbatim>\<open>server.config_error\<close>, last, and
  exits with failure.
\<close>

theorem startup_fails_closed:
  assumes "main E args = Ran evs code served"
  shows "\<exists>cli. parse_cli (s_parse_addr E) args = Inr (CliRun cli) \<and>
    (\<exists>keys log. evs = map ConfigOverride keys @ log \<and> start_log code (served \<noteq> None) log) \<and>
    (\<forall>c. served = Some c \<longrightarrow> served_ok E cli c)"
proof -
  obtain cli dl where cli: "parse_cli (s_parse_addr E) args = Inr (CliRun cli)"
    and run: "main_run E cli dl = Ran evs code served"
    using assms by (auto simp: main_def split: sum.split_asm cli_outcome.split_asm)
  obtain cf l where l: "load_config_file E cli = (cf, l)"
    by fastforce
  show ?thesis
  proof (cases l)
    case (Inl e)
    then have "evs = map ConfigOverride [] @ evs \<and> start_log code (served \<noteq> None) evs \<and> served = None"
      using run l by (auto simp: main_run_def Let_def)
    then show ?thesis using cli by fast
  next
    case (Inr cfg)
    define r where "r = resolve_config cli cfg dl (if s_stderr_tty E then Human else Json)"
    have trusted: "config_trusted E cli cfg"
      using load_config_file_Inr l Inr by blast
    then have range: "\<forall>(v, key)\<in>set (config_integers f). in_range v" if "cfg = Some f" for f
      using that by (auto simp: config_trusted_def split: option.splits)
    consider (runtime) e where "served = None" "code = FAILURE" "evs = map ConfigOverride (r_overrides r) @ [e]"
        "\<exists>cls d. e = ConfigErrorEvent cls d cf"
      | (served) log where "evs = map ConfigOverride (r_overrides r) @ log" "run_server E r cf = (log, code, served)"
      using run l Inr by (auto simp: main_run_def Let_def r_def split: sum.split_asm prod.split_asm)
    then show ?thesis
    proof cases
      case runtime
      then show ?thesis using cli by fastforce
    next
      case (served log)
      have "served_ok E cli c" if "served = Some c" for c
        using build_config_Inr[OF run_server_ok(2)[OF served(2) that]] trusted range resolve_limits_ok[of cfg cli dl]
          resolve_timeout[OF parse_cli_timeout[OF cli], of cfg dl]
        unfolding served_ok_def r_def by metis
      then show ?thesis
        using cli served run_server_ok(1)[OF served(2)] by blast
    qed
  qed
qed

section \<open>The command line, exactly\<close>

datatype 'a flag = FConfig bytes | FListen 'a | FHostKey bytes | FAuthorizedKeys bytes | FTimeout u64 | FFormat log_format

fun apply_flag :: "'a flag \<Rightarrow> 'a cli \<Rightarrow> 'a cli" where
  "apply_flag (FConfig v) c = c\<lparr>config_path := Some v\<rparr>"
| "apply_flag (FListen a) c = c\<lparr>cli_listen := Some a\<rparr>"
| "apply_flag (FHostKey v) c = c\<lparr>cli_host_key_path := Some v\<rparr>"
| "apply_flag (FAuthorizedKeys v) c = c\<lparr>cli_authorized_keys_path := Some v\<rparr>"
| "apply_flag (FTimeout n) c = c\<lparr>cli_handshake_timeout := Some n\<rparr>"
| "apply_flag (FFormat f) c = c\<lparr>cli_log_format := Some f\<rparr>"

text \<open>The two arguments that a flag is given by.\<close>

fun spells :: "(bytes \<Rightarrow> (bytes, 'a) result) \<Rightarrow> 'a flag \<Rightarrow> bytes \<Rightarrow> bytes \<Rightarrow> bool" where
  "spells A (FConfig v) arg w \<longleftrightarrow> arg = ascii ''--config'' \<and> w = v"
| "spells A (FListen a) arg w \<longleftrightarrow> arg = ascii ''--listen'' \<and> A w = Inr a"
| "spells A (FHostKey v) arg w \<longleftrightarrow> arg = ascii ''--host-key'' \<and> w = v"
| "spells A (FAuthorizedKeys v) arg w \<longleftrightarrow> arg = ascii ''--authorized-keys'' \<and> w = v"
| "spells A (FTimeout n) arg w \<longleftrightarrow> arg = ascii ''--handshake-timeout'' \<and> parse_u64 w = Inr n \<and> n \<noteq> 0"
| "spells A (FFormat f) arg w \<longleftrightarrow> arg = ascii ''--log-format'' \<and> w = ascii (case f of Json \<Rightarrow> ''json'' | Human \<Rightarrow> ''human'')"

inductive spelled :: "(bytes \<Rightarrow> (bytes, 'a) result) \<Rightarrow> 'a flag list \<Rightarrow> bytes list \<Rightarrow> bool" for A where
  none: "spelled A [] []"
| flag: "spells A f arg w \<Longrightarrow> spelled A fs args \<Longrightarrow> spelled A (f # fs) (arg # w # args)"

inductive_simps spelled_simps: "spelled A fs []" "spelled A fs (arg # rest)" "spelled A [] args" "spelled A (f # fs) args"

lemma ascii_eq: "ascii s = ascii t \<longleftrightarrow> map of_char s = (map of_char t :: bytes)"
  by (simp add: ascii_def)

lemma flag_names_distinct:
  "distinct (map ascii [''--config'', ''--listen'', ''--host-key'', ''--authorized-keys'', ''--handshake-timeout'',
     ''--log-format'', ''--help'', ''--version'', ''keygen''])"
  by (simp add: ascii_eq)

lemma flag_names_distinct_rev:
  "distinct (rev (map ascii [''--config'', ''--listen'', ''--host-key'', ''--authorized-keys'', ''--handshake-timeout'',
     ''--log-format'', ''--help'', ''--version'', ''keygen'']))"
  using flag_names_distinct by (simp only: distinct_rev)

lemmas flag_neq = flag_names_distinct[simplified] flag_names_distinct_rev[unfolded list.map rev.simps append.simps, simplified]

lemma format_names: "ascii ''json'' \<noteq> ascii ''human''"
  by (simp add: ascii_eq)

lemma cli_step_flag:
  "cli_step A arg rest cli = Inr (Inr (c, r)) \<longleftrightarrow> (\<exists>f w. rest = w # r \<and> spells A f arg w \<and> c = apply_flag f cli)"
proof
  assume "cli_step A arg rest cli = Inr (Inr (c, r))"
  then show "\<exists>f w. rest = w # r \<and> spells A f arg w \<and> c = apply_flag f cli"
    by (auto simp: cli_step_def try_bind_Inr_iff map_err_Inr_iff flag_value_Inr split: if_splits
        intro: exI[of _ "FConfig _"] exI[of _ "FListen _"] exI[of _ "FHostKey _"] exI[of _ "FAuthorizedKeys _"]
          exI[of _ "FTimeout _"] exI[of _ "FFormat Json"] exI[of _ "FFormat Human"])
next
  assume "\<exists>f w. rest = w # r \<and> spells A f arg w \<and> c = apply_flag f cli"
  then obtain f w where f: "rest = w # r" "spells A f arg w" "c = apply_flag f cli"
    by blast
  show "cli_step A arg rest cli = Inr (Inr (c, r))"
    using f by (cases f) (simp_all add: cli_step_def flag_value_def flag_neq format_names format_names[symmetric] split: log_format.split_asm)
qed

lemma cli_loop_spelled:
  "cli_loop A cli args = Inr (CliRun c) \<longleftrightarrow> (\<exists>fs. spelled A fs args \<and> c = fold apply_flag fs cli)"
proof (induction A cli args rule: cli_loop.induct)
  case (1 A cli)
  show ?case by (auto simp: spelled_simps)
next
  case (2 A cli arg rest)
  have "cli_loop A cli (arg # rest) = Inr (CliRun c) \<longleftrightarrow>
      (\<exists>cli' rest'. cli_step A arg rest cli = Inr (Inr (cli', rest')) \<and> cli_loop A cli' rest' = Inr (CliRun c))"
    by (auto split: sum.split)
  also have "\<dots> \<longleftrightarrow> (\<exists>cli' rest'. cli_step A arg rest cli = Inr (Inr (cli', rest')) \<and>
      (\<exists>fs. spelled A fs rest' \<and> c = fold apply_flag fs cli'))"
    using "2.IH" by metis
  also have "\<dots> \<longleftrightarrow> (\<exists>fs. spelled A fs (arg # rest) \<and> c = fold apply_flag fs cli)"
    unfolding cli_step_flag by (auto simp: spelled_simps) (metis comp_apply fold_simps(2))+
  finally show ?case .
qed

text \<open>
  The command line starts the server iff it is a sequence of known flags, each with its value and each value
  well formed (an address the standard library reads, a number of seconds that is not zero and fits 64 bits, one of
  the two formats); the settings are those flags applied in order, so that the last of two equal flags counts and a
  setting that no flag names stays unset.
\<close>

lemma parse_cli_exact:
  "parse_cli A args = Inr (CliRun c) \<longleftrightarrow> (\<exists>fs. spelled A fs args \<and> c = fold apply_flag fs cli_default)"
proof (cases "\<exists>rest. args = ascii ''keygen'' # rest")
  case True
  then obtain rest where args: "args = ascii ''keygen'' # rest" ..
  have "parse_cli A args \<noteq> Inr (CliRun c)"
    by (simp add: args parse_cli_def split: list.split)
  moreover have "\<not> spelled A fs args" for fs
  proof
    assume "spelled A fs args"
    then obtain f w where "spells A f (ascii ''keygen'') w"
      by (auto simp: args spelled_simps)
    then show False
      using flag_names_distinct by (cases f) auto
  qed
  ultimately show ?thesis by blast
next
  case False
  then have "parse_cli A args = cli_loop A cli_default args"
    by (auto simp: parse_cli_def split: list.split)
  then show ?thesis
    by (simp only: cli_loop_spelled)
qed

lemma digit_facts:
  assumes "d < 10"
  shows "\<not> (0x30 + word_of_nat d :: u8) < 0x30" and "\<not> 0x39 < (0x30 + word_of_nat d :: u8)"
    and "unat ((0x30 + word_of_nat d :: u8) - 0x30) = d"
proof -
  have d: "unat (word_of_nat d :: u8) = d"
    using assms by (simp add: unat_of_nat)
  then have "unat (0x30 + word_of_nat d :: u8) = 0x30 + d"
    using assms by (subst unat_plus_if') simp
  then show "\<not> (0x30 + word_of_nat d :: u8) < 0x30" and "\<not> 0x39 < (0x30 + word_of_nat d :: u8)"
    using assms by (simp_all add: word_less_nat_alt)
  show "unat ((0x30 + word_of_nat d :: u8) - 0x30) = d"
    using d by simp
qed

lemma u64_digits_decimal: "n \<le> u64_max \<Longrightarrow> u64_digits 0 (decimal n @ r) = u64_digits n r"
proof (induction n arbitrary: r rule: decimal.induct)
  case (1 n)
  show ?case
  proof (cases "n < 10")
    case True
    then show ?thesis
      using digit_facts[OF True] "1.prems" by (simp add: decimal.simps[of n])
  next
    case False
    have small: "n mod 10 < 10" by simp
    have n: "n div 10 * 10 + n mod 10 = n" by simp
    have "u64_digits 0 (decimal n @ r) = u64_digits (n div 10) ((0x30 + word_of_nat (n mod 10)) # r)"
      using False 1 by (simp add: decimal.simps[of n])
    also have "\<dots> = u64_digits n r"
      unfolding u64_digits.simps using digit_facts[OF small] "1.prems" by (simp add: n Let_def)
    finally show ?thesis .
  qed
qed

lemma less_word_numerals: "(0x2B :: u8) < 0x30" "(0x2D :: u8) < 0x30"
  by simp_all

lemma decimal_first: "\<exists>d ds. decimal n = (0x30 + word_of_nat d) # ds \<and> d < 10"
proof (induction n rule: decimal.induct)
  case (1 n)
  then show ?case
    by (cases "n < 10") (fastforce simp: decimal.simps[of n])+
qed

lemma parse_u64_decimal: "parse_u64 (decimal (unat v)) = Inr v"
proof -
  obtain d ds where dec: "decimal (unat v) = (0x30 + word_of_nat d) # ds" "d < 10"
    using decimal_first by blast
  have "unat v < 2 ^ 64"
    using unsigned_less[where ?'a = nat and w = v] by simp
  then have "u64_digits 0 (decimal (unat v)) = Inr (unat v)"
    using u64_digits_decimal[of "unat v" "[]"] by simp
  moreover have "0x30 + word_of_nat d \<noteq> (0x2B :: u8)" "0x30 + word_of_nat d \<noteq> (0x2D :: u8)"
    using digit_facts(1)[OF dec(2)] by (metis less_word_numerals)+
  ultimately show ?thesis
    using dec by (simp add: parse_u64_def)
qed

section \<open>Precedence, exactly\<close>

text \<open>A flag wins over the file, the file over the default; the overrides are the keys that both set, in order.\<close>

definition flag_or :: "'v option \<Rightarrow> 'v option \<Rightarrow> 'v option" where
  "flag_or cli file = (if cli = None then file else cli)"

lemma resolve_precedence:
  fixes cfg :: "'a config_file option"
  assumes r_def: "r = resolve_config cli cfg dl tty"
  shows "Some (r_listen r) = flag_or (flag_or (cli_listen cli) (Option.bind cfg (\<lambda>f. sec_listen (cf_server f)))) (Some dl)"
    and "r_host_key_path r = flag_or (cli_host_key_path cli) (Option.bind cfg (\<lambda>f. sec_host_key (cf_server f)))"
    and "r_authorized_keys_path r = flag_or (cli_authorized_keys_path cli) (Option.bind cfg (\<lambda>f. sec_authorized_keys (cf_auth f)))"
    and "Some (r_log_format r) = flag_or (flag_or (cli_log_format cli) (Option.bind cfg cf_logging)) (Some tty)"
    and "r_overrides r = map fst (filter snd
      [(ascii ''server.listen'', cli_listen cli \<noteq> None \<and> Option.bind cfg (\<lambda>f. sec_listen (cf_server f)) \<noteq> None),
       (ascii ''server.host_key'', cli_host_key_path cli \<noteq> None \<and> Option.bind cfg (\<lambda>f. sec_host_key (cf_server f)) \<noteq> None),
       (ascii ''auth.authorized_keys'',
          cli_authorized_keys_path cli \<noteq> None \<and> Option.bind cfg (\<lambda>f. sec_authorized_keys (cf_auth f)) \<noteq> None),
       (ascii ''server.handshake_timeout'',
          cli_handshake_timeout cli \<noteq> None \<and> Option.bind cfg (\<lambda>f. sec_handshake_timeout (cf_server f)) \<noteq> None),
       (ascii ''logging.format'', cli_log_format cli \<noteq> None \<and> Option.bind cfg cf_logging \<noteq> None)])"
  unfolding r_def
  by (cases cfg; simp add: resolve_config_def Let_def pick_def pick_opt_def flag_or_def split: option.split)+

section \<open>Drain deadlines\<close>

text \<open>
  The accept loop adds \<^verbatim>\<open>ABORT_GRACE\<close> to the deadline, an addition that panics past what an \<^verbatim>\<open>Instant\<close> holds. Up to
  \<open>2 ^ 62\<close> seconds of drain it fits.
\<close>

lemma drain_deadline_fits:
  assumes "now \<le> 2 ^ 61 * 10 ^ 9" and "unat drain \<le> 2 ^ 62"
  shows "drain_deadline now drain = now + unat drain * 10 ^ 9 \<and> drain_deadline now drain + ABORT_GRACE \<le> INSTANT_MAX"
proof -
  have "unat drain * 10 ^ 9 \<le> 2 ^ 62 * (10 ^ 9 :: nat)"
    using assms(2) by (intro mult_right_mono) simp_all
  then have "now + unat drain * 10 ^ 9 + ABORT_GRACE \<le> INSTANT_MAX"
    using assms(1) by (simp add: INSTANT_MAX_def ABORT_GRACE_def)
  then show ?thesis by (simp add: drain_deadline_def)
qed

text \<open>But of the drain timeouts the configuration accepts, one reaches the last second an \<^verbatim>\<open>Instant\<close> has.\<close>

lemma drain_deadline_gap:
  assumes "now \<le> 2 ^ 61 * 10 ^ 9"
  shows "\<exists>drain. in_range (Some drain) \<and> drain_deadline now drain \<le> INSTANT_MAX \<and>
    INSTANT_MAX < drain_deadline now drain + ABORT_GRACE"
proof -
  define secs where "secs = 2 ^ 63 - 1 - now div 10 ^ 9"
  have now: "now = now div 10 ^ 9 * 10 ^ 9 + now mod 10 ^ 9" "now mod 10 ^ 9 < 10 ^ 9" "now div 10 ^ 9 \<le> 2 ^ 61"
    using assms by (simp_all add: div_le_mono[of now "2 ^ 61 * 10 ^ 9" "10 ^ 9", simplified])
  then have secs: "1 \<le> secs" "secs \<le> 2 ^ 63 - 1" "secs + now div 10 ^ 9 = 2 ^ 63 - 1"
    by (simp_all add: secs_def)
  then have u: "unat (word_of_nat secs :: u64) = secs"
    by (simp add: unat_of_nat)
  have "now + secs * 10 ^ 9 = (secs + now div 10 ^ 9) * 10 ^ 9 + now mod 10 ^ 9"
    by (subst (1) now(1)) (simp add: distrib_right)
  then have "now + secs * 10 ^ 9 = (2 ^ 63 - 1) * 10 ^ 9 + now mod 10 ^ 9"
    by (simp only: secs(3))
  then have at: "now + secs * 10 ^ 9 \<le> INSTANT_MAX" "INSTANT_MAX < now + secs * 10 ^ 9 + ABORT_GRACE"
    using now(2) by (simp_all add: INSTANT_MAX_def ABORT_GRACE_def)
  have "in_range (Some (word_of_nat secs))"
    using secs u by (simp add: in_range_def word_le_nat_alt MAX_TOML_INT_def)
  moreover have "drain_deadline now (word_of_nat secs) = now + secs * 10 ^ 9"
    using at u by (simp add: drain_deadline_def)
  ultimately show ?thesis
    using at by (intro exI[of _ "word_of_nat secs"]) simp
qed

section \<open>Witnesses\<close>

definition sample_start :: "bytes \<Rightarrow> unit start_env" where
  "sample_start pem = \<lparr>s_cfs = sample_cfs\<lparr>read_to_string := (\<lambda>p. Inr (if p = ascii ''/k'' then pem else sample_ed_line))\<rparr>,
     s_prims = toy_sig, s_toml = (\<lambda>_. Inr sample_config), s_parse_addr = (\<lambda>_. Inr ()), s_show_addr = (\<lambda>_. []),
     s_stderr_tty = False, s_runtime = (\<lambda>_. Inr ()), s_bind = Inr, s_linux = True, s_current_exe = None, s_serve = Inr ()\<rparr>"

definition sample_args :: "bytes list" where
  "sample_args = map ascii [''--host-key'', ''/k'', ''--authorized-keys'', ''/a'']"

lemma sample_spelled: "spelled A [FHostKey (ascii ''/k''), FAuthorizedKeys (ascii ''/a'')] sample_args"
  by (simp add: sample_args_def spelled_simps)

lemma sample_cli:
  "parse_cli A sample_args =
     Inr (CliRun (cli_default\<lparr>cli_host_key_path := Some (ascii ''/k''), cli_authorized_keys_path := Some (ascii ''/a'')\<rparr>))"
proof -
  have "parse_cli A sample_args = cli_loop A cli_default sample_args"
    by (simp add: parse_cli_def sample_args_def flag_neq del: cli_loop.simps)
  then show ?thesis
    using sample_spelled[of A] cli_loop_spelled[of A cli_default sample_args] by fastforce
qed

lemma sample_checked:
  assumes "c \<noteq> []" "0x2F \<notin> set c" and "cls = Input \<or> 0x2F # c = ascii ''/k''"
  shows "check_trusted_file (s_cfs (sample_start pem)) (0x2F # c) cls = Inr (0x2F # c)"
proof -
  have path: "path_of [c] = 0x2F # c" and names: "file_names [c]"
    using assms by (simp_all add: path_of_def file_names_def)
  have "set (path_ancestors (0x2F # c)) = {path_of []}"
    using path_ancestors_set[OF names] by (simp add: path lessThan_Suc)
  then show ?thesis
    unfolding check_trusted_file_Inr
    using assms(3) by (auto simp: sample_start_def sample_cfs_def file_trusted_def others_write_def others_read_def)
qed

lemma sample_serves:
  assumes "from_openssh_pem toy_sig pem = Inr k"
  shows "\<exists>evs c. main (sample_start pem) sample_args = Ran evs SUCCESS (Some c)"
proof -
  let ?E = "sample_start pem"
  have files: "ascii ''/k'' = 0x2F # ascii ''k''" "ascii ''/a'' = 0x2F # ascii ''a''" "ascii ''/a'' \<noteq> ascii ''/k''"
    by (simp_all add: ascii_def)
  have k: "check_trusted_file (s_cfs ?E) (ascii ''/k'') Secret = Inr (ascii ''/k'')"
    using sample_checked[of "ascii ''k''" Secret pem] by (simp add: files ascii_def[of "''k''"])
  have a: "check_trusted_file (s_cfs ?E) (ascii ''/a'') Input = Inr (ascii ''/a'')"
    using sample_checked[of "ascii ''a''" Input pem] by (simp add: files ascii_def[of "''a''"])
  obtain l where "parse_key_file toy_sig sample_ed_line = Inr [l]"
    using sample_ed_loads by blast
  then have keys: "load_key_file ?E (ascii ''/a'') n (parse_key_file toy_sig) cf = Inr [l]" for n cf
    using a files(3) by (simp add: load_key_file_def read_key_file_def sample_start_def)
  have host: "load_host_key ?E (ascii ''/k'') cf = Inr k" for cf
    using k assms by (simp add: load_host_key_def sample_start_def)
  have env: "s_parse_addr ?E x = Inr ()" "s_runtime ?E n = Inr ()" "s_bind ?E u = Inr u" "s_serve ?E = Inr ()"
    "s_prims ?E = toy_sig" for x n u
    by (simp_all add: sample_start_def)
  show ?thesis
    by (simp add: main_def sample_cli main_run_def load_config_file_def cli_default_def resolve_config_def Let_def pick_def pick_opt_def
        run_server_def build_config_def ok_or_def keys host env)
qed

theorem startup_fails_closed_witness:
  "\<exists>pem cli evs c. main (sample_start pem) sample_args = Ran evs SUCCESS (Some c) \<and> served_ok (sample_start pem) cli c"
proof -
  have "fills (\<lambda>n. Some (replicate n 7))"
    by (simp add: fills_def)
  then obtain pem k where "from_openssh_pem toy_sig pem = Inr k"
    using generated_key_loads[OF toy_sig_ok, of "\<lambda>n. Some (replicate n 7)"] by blast
  then obtain evs c where run: "main (sample_start pem) sample_args = Ran evs SUCCESS (Some c)"
    using sample_serves by blast
  then obtain cli where "served_ok (sample_start pem) cli c"
    using startup_fails_closed[OF run] by blast
  with run show ?thesis by blast
qed

end
