(* ===== verification/Keygen.thy ===== *)
theory Keygen
  imports Startup
begin

text \<open>
  \<^verbatim>\<open>crates/quantumssh/src/keygen.rs\<close>: writing a new host key and its public line.

  \<^item> The directory is a map from names to files. \<open>kgen\<close> carries it together with every state it went through, since the
    mode of the private file is promised from the moment it exists.
  \<^item> \<open>kenv\<close> holds what the system answers: each call may fail, a write may fail after a part, and the umask takes bits
    away. A name is opened, changed, written and examined at most once, so that a call is named by its file.
  \<^item> The key is the argument \<^verbatim>\<open>generate\<close> of the source; \<open>generate_key\<close> is the function of \<^verbatim>\<open>host_key.rs\<close>.
\<close>

unbundle bit_operations_syntax

section \<open>The directory and the system\<close>

record kfile =
  kf_mode :: u32
  kf_data :: bytes

type_synonym kdir = "bytes \<rightharpoonup> kfile"

record kgen =
  kg_dir :: kdir
  kg_past :: "kdir list"
  kg_created :: "(bytes \<times> bytes) list" \<comment> \<open>leaf and path of what this run created\<close>

record kenv =
  k_cfs :: cfs
  k_open_dir :: "bytes \<Rightarrow> (bytes, unit) result"
  k_fstat_dir :: "(bytes, stat) result"
  k_umask :: u32
  k_create_error :: "bytes \<Rightarrow> bytes option"
  k_chmod_error :: "bytes \<Rightarrow> bytes option"
  k_write_error :: "bytes \<Rightarrow> (nat \<times> bytes) option" \<comment> \<open>how much was written before\<close>
  k_fsync_error :: "bytes \<Rightarrow> bytes option"
  k_fstat_error :: "bytes \<Rightarrow> bytes option"
  k_unlink_error :: "bytes \<Rightarrow> bytes option"

definition set_file :: "bytes \<Rightarrow> kfile option \<Rightarrow> kgen \<Rightarrow> kgen" where
  "set_file leaf f g = g\<lparr>kg_dir := (kg_dir g)(leaf := f), kg_past := kg_past g @ [(kg_dir g)(leaf := f)]\<rparr>"

record failure =
  fl_message :: bytes
  key_written :: bool

record target =
  tg_leaf :: bytes
  tg_path :: bytes

section \<open>The steps\<close>

definition split_path :: "cfs \<Rightarrow> bytes \<Rightarrow> (bytes, bytes \<times> bytes) result" where
  "split_path F path =
     (let back = takeWhile (\<lambda>b. b \<noteq> 0x2F) (rev path);
          (parent, leaf) =
            (if 0x2F \<notin> set path then (ascii ''.'', path)
             else if length back + 1 = length path then (ascii ''/'', drop 1 path)
             else (take (length path - length back - 1) path, rev back)) in
      if leaf = [] \<or> leaf = ascii ''.'' \<or> leaf = ascii ''..''
      then Inl (show_path F path @ ascii '': the path must end in a file name'')
      else Inr (parent, leaf))"

definition refused_there :: "cfs \<Rightarrow> bytes \<Rightarrow> bytes \<Rightarrow> bytes" where
  "refused_there F at violation =
     show_path F at @ ascii '': '' @ violation @ ascii ''; the server would refuse a key there (ADR-0029)''"

fun check_above :: "cfs \<Rightarrow> bytes list \<Rightarrow> (bytes, unit) result" where
  "check_above F [] = Inr ()"
| "check_above F (ancestor # rest) =
     (case cfs_stat F ancestor of
        Inl e \<Rightarrow> Inl (show_path F ancestor @ ascii '': cannot stat: '' @ e)
      | Inr st \<Rightarrow>
          (case ancestor_violation (st_mode st) of
             Some violation \<Rightarrow> Inl (refused_there F ancestor violation)
           | None \<Rightarrow> check_above F rest))"

definition check_directory :: "kenv \<Rightarrow> bytes \<Rightarrow> (bytes, unit) result" where
  "check_directory K canonical =
     (case k_fstat_dir K of
        Inl e \<Rightarrow> Inl (show_path (k_cfs K) canonical @ ascii '': cannot stat: '' @ e)
      | Inr st \<Rightarrow>
          (case ancestor_violation (st_mode st) of
             Some violation \<Rightarrow> Inl (refused_there (k_cfs K) canonical violation)
           | None \<Rightarrow> check_above (k_cfs K) (path_ancestors canonical)))"

definition create_file :: "kenv \<Rightarrow> target \<Rightarrow> u32 \<Rightarrow> kgen \<Rightarrow> kgen \<times> (failure, unit) result" where
  "create_file K t mode g =
     (let failed = (\<lambda>why. (g, Inl \<lparr>fl_message = show_path (k_cfs K) (tg_path t) @ ascii '': '' @ why, key_written = False\<rparr>)) in
      if kg_dir g (tg_leaf t) \<noteq> None then failed (ascii ''already exists; keygen never replaces a file'')
      else case k_create_error K (tg_leaf t) of
        Some e \<Rightarrow> failed (ascii ''cannot create: '' @ e)
      | None \<Rightarrow>
          let g' = set_file (tg_leaf t) (Some \<lparr>kf_mode = mode AND NOT (k_umask K), kf_data = []\<rparr>) g in
          (g'\<lparr>kg_created := kg_created g' @ [(tg_leaf t, tg_path t)]\<rparr>, Inr ()))"

definition update_file :: "bytes \<Rightarrow> (kfile \<Rightarrow> kfile) \<Rightarrow> kgen \<Rightarrow> kgen" where
  "update_file leaf f g = set_file leaf (map_option f (kg_dir g leaf)) g"

definition chmod_file :: "kenv \<Rightarrow> target \<Rightarrow> u32 \<Rightarrow> kgen \<Rightarrow> kgen \<times> (failure, unit) result" where
  "chmod_file K t mode g =
     (case k_chmod_error K (tg_leaf t) of
        Some e \<Rightarrow>
          (g, Inl \<lparr>fl_message = show_path (k_cfs K) (tg_path t) @ ascii '': cannot set its mode: '' @ e, key_written = False\<rparr>)
      | None \<Rightarrow> (update_file (tg_leaf t) (\<lambda>f. f\<lparr>kf_mode := mode\<rparr>) g, Inr ()))"

definition write_synced :: "kenv \<Rightarrow> target \<Rightarrow> bytes \<Rightarrow> kgen \<Rightarrow> kgen \<times> (failure, unit) result" where
  "write_synced K t data g =
     (let failed = (\<lambda>e. Inl \<lparr>fl_message = show_path (k_cfs K) (tg_path t) @ ascii '': cannot write: '' @ e, key_written = True\<rparr>);
          put = (\<lambda>d. update_file (tg_leaf t) (\<lambda>f. f\<lparr>kf_data := kf_data f @ d\<rparr>) g) in
      case k_write_error K (tg_leaf t) of
        Some (n, e) \<Rightarrow> (put (take n data), failed e)
      | None \<Rightarrow> (put data, case k_fsync_error K (tg_leaf t) of Some e \<Rightarrow> failed e | None \<Rightarrow> Inr ()))"

definition observed :: "kenv \<Rightarrow> target \<Rightarrow> kgen \<Rightarrow> (failure, u32) result" where
  "observed K t g =
     (case k_fstat_error K (tg_leaf t) of
        Some e \<Rightarrow> Inl \<lparr>fl_message = show_path (k_cfs K) (tg_path t) @ ascii '': cannot stat: '' @ e, key_written = True\<rparr>
      | None \<Rightarrow> Inr (case kg_dir g (tg_leaf t) of Some f \<Rightarrow> kf_mode f AND 0xFFF | None \<Rightarrow> 0))"

text \<open>Sequencing of steps that can fail.\<close>

definition then_do ::
  "kgen \<times> (failure, 'a) result \<Rightarrow> ('a \<Rightarrow> kgen \<Rightarrow> kgen \<times> (failure, 'b) result) \<Rightarrow> kgen \<times> (failure, 'b) result" where
  "then_do m k = (case m of (g, Inl e) \<Rightarrow> (g, Inl e) | (g, Inr x) \<Rightarrow> k x g)"

definition PRIVATE_MODE :: u32 where "PRIVATE_MODE = 0x180"
definition PUBLIC_MODE :: u32 where "PUBLIC_MODE = 0x1A4"

text \<open>\<^verbatim>\<open>write_pair\<close>, in two parts: once both files exist, the modes, the key, the two texts and the report.\<close>

definition fill_pair ::
  "kenv \<Rightarrow> (bytes, generated_host_key) result \<Rightarrow> target \<Rightarrow> target \<Rightarrow> kgen \<Rightarrow> kgen \<times> (failure, bytes) result" where
  "fill_pair K generate private public g =
     then_do (chmod_file K private PRIVATE_MODE g) (\<lambda>_ g.
     then_do (chmod_file K public PUBLIC_MODE g) (\<lambda>_ g.
     then_do (g, map_err (\<lambda>e. \<lparr>fl_message = e @ ascii ''; no key was written'', key_written = False\<rparr>) generate) (\<lambda>key g.
     then_do (write_synced K private (private_pem key) g) (\<lambda>_ g.
     then_do (write_synced K public (public_line key @ [0x0A]) g) (\<lambda>_ g.
     then_do (g, observed K private g) (\<lambda>private_observed g.
     then_do (g, observed K public g) (\<lambda>public_observed g.
     (g, Inr (ascii ''wrote '' @ show_path (k_cfs K) (tg_path private) @ ascii '' (private, '' @ show_mode private_observed @ ascii '')'' @
        [0x0A] @ ascii ''wrote '' @ show_path (k_cfs K) (tg_path public) @ ascii '' (public, '' @ show_mode public_observed @ ascii '')'' @
        [0x0A] @ gen_fingerprint key @ [0x0A])))))))))"

definition write_pair ::
  "kenv \<Rightarrow> (bytes, generated_host_key) result \<Rightarrow> target \<Rightarrow> target \<Rightarrow> kgen \<Rightarrow> kgen \<times> (failure, bytes) result" where
  "write_pair K generate private public g =
     then_do (create_file K private PRIVATE_MODE g) (\<lambda>_ g.
     then_do (create_file K public PUBLIC_MODE g) (\<lambda>_ g.
     fill_pair K generate private public g))"

fun unlink_all :: "kenv \<Rightarrow> (bytes \<times> bytes) list \<Rightarrow> bytes \<Rightarrow> kgen \<Rightarrow> kgen \<times> bytes" where
  "unlink_all K [] message g = (g, message)"
| "unlink_all K ((leaf, path) # rest) message g =
     (case k_unlink_error K leaf of
        Some e \<Rightarrow>
          unlink_all K rest (message @ [0x0A] @ ascii ''error: cannot remove '' @ show_path (k_cfs K) path @
            ascii '' after that failure: '' @ e @ ascii ''; remove it before running keygen again'') g
      | None \<Rightarrow> unlink_all K rest message (set_file leaf None g))"

definition remove_created :: "kenv \<Rightarrow> failure \<Rightarrow> kgen \<Rightarrow> kgen \<times> bytes" where
  "remove_created K f g =
     unlink_all K (kg_created g)
       (fl_message f @ (if key_written f
          then ascii ''; part of the private key may have reached the disk: treat that key as never used'' else [])) g"

definition join_path :: "bytes \<Rightarrow> bytes \<Rightarrow> bytes" where
  "join_path parent leaf = (if parent \<noteq> [] \<and> last parent = 0x2F then parent @ leaf else parent @ [0x2F] @ leaf)"

definition keygen_run :: "kenv \<Rightarrow> (bytes, generated_host_key) result \<Rightarrow> bytes \<Rightarrow> kdir \<Rightarrow> kgen \<times> (bytes, bytes) result" where
  "keygen_run K generate path dir =
     (let F = k_cfs K; g = \<lparr>kg_dir = dir, kg_past = [dir], kg_created = []\<rparr> in
      case split_path F path of
        Inl e \<Rightarrow> (g, Inl e)
      | Inr (given, leaf) \<Rightarrow>
          (case canonicalize F given of
             Inl e \<Rightarrow> (g, Inl (show_path F given @ ascii '': cannot resolve the directory: '' @ e))
           | Inr parent \<Rightarrow>
               (case k_open_dir K parent of
                  Inl e \<Rightarrow> (g, Inl (show_path F parent @ ascii '': cannot open the directory: '' @ e))
                | Inr _ \<Rightarrow>
                    (case check_directory K parent of
                       Inl e \<Rightarrow> (g, Inl e)
                     | Inr _ \<Rightarrow>
                         let private = \<lparr>tg_leaf = leaf, tg_path = join_path parent leaf\<rparr>;
                             public = \<lparr>tg_leaf = leaf @ ascii ''.pub'', tg_path = join_path parent (leaf @ ascii ''.pub'')\<rparr> in
                         (case write_pair K generate private public g of
                            (g', Inr report) \<Rightarrow> (g', Inr report)
                          | (g', Inl f) \<Rightarrow> (case remove_created K f g' of (g'', message) \<Rightarrow> (g'', Inl message)))))))"

section \<open>What every step keeps\<close>

text \<open>
  Nothing that was there changes, at any moment; what is new is on the list of created files; the private file has no bit
  beyond owner read and write.
\<close>

definition narrow :: "kfile \<Rightarrow> bool" where
  "narrow f \<longleftrightarrow> kf_mode f AND NOT PRIVATE_MODE = 0"

definition dir_ok :: "kdir \<Rightarrow> bytes \<Rightarrow> kdir \<Rightarrow> bool" where
  "dir_ok dir leaf d \<longleftrightarrow>
     (\<forall>n. dir n \<noteq> None \<longrightarrow> d n = dir n) \<and> (dir leaf = None \<longrightarrow> (\<forall>f. d leaf = Some f \<longrightarrow> narrow f))"

definition kg_inv :: "kdir \<Rightarrow> bytes \<Rightarrow> kgen \<Rightarrow> bool" where
  "kg_inv dir leaf g \<longleftrightarrow>
     (\<forall>n\<in>fst ` set (kg_created g). dir n = None) \<and> (\<forall>n. n \<notin> fst ` set (kg_created g) \<longrightarrow> kg_dir g n = dir n) \<and>
     dir_ok dir leaf (kg_dir g) \<and> (\<forall>d\<in>set (kg_past g). dir_ok dir leaf d)"

lemma private_mode_narrow: "PRIVATE_MODE AND NOT PRIVATE_MODE = 0"
  by (simp add: PRIVATE_MODE_def)

lemma masked_narrow: "narrow \<lparr>kf_mode = PRIVATE_MODE AND NOT um, kf_data = d\<rparr>"
  unfolding narrow_def by (intro bit_eqI) (auto simp: bit_and_iff bit_not_iff)

lemma dir_ok_upd:
  assumes "dir_ok dir leaf d" and "dir n = None" and "n = leaf \<Longrightarrow> (case f of None \<Rightarrow> True | Some k \<Rightarrow> narrow k)"
  shows "dir_ok dir leaf (d(n := f))"
  using assms by (auto simp: dir_ok_def)

lemma set_file_inv:
  assumes inv: "kg_inv dir leaf g" and n: "dir n = None" "n \<in> fst ` set (kg_created g)"
    and f: "n = leaf \<Longrightarrow> (case f of None \<Rightarrow> True | Some k \<Rightarrow> narrow k)"
  shows "kg_inv dir leaf (set_file n f g)"
proof -
  have "dir_ok dir leaf ((kg_dir g)(n := f))"
    using inv n(1) f by (intro dir_ok_upd) (auto simp: kg_inv_def)
  then show ?thesis
    using inv n by (auto simp: kg_inv_def set_file_def)
qed

lemma update_file_inv:
  assumes inv: "kg_inv dir leaf g" and n: "n \<in> fst ` set (kg_created g)" and f: "\<And>k. n = leaf \<Longrightarrow> narrow k \<Longrightarrow> narrow (f k)"
  shows "kg_inv dir leaf (update_file n f g)"
  unfolding update_file_def
proof (rule set_file_inv[OF inv _ n])
  show "dir n = None"
    using inv n by (auto simp: kg_inv_def)
  then show "case map_option f (kg_dir g n) of None \<Rightarrow> True | Some k \<Rightarrow> narrow k" if "n = leaf"
    using inv f that by (auto simp: kg_inv_def dir_ok_def split: option.splits)
qed

lemma update_file_created [simp]: "kg_created (update_file n f g) = kg_created g"
  by (simp add: update_file_def set_file_def)

lemma create_file_inv:
  assumes "kg_inv dir leaf g" and "create_file K t mode g = (g', r)" and "tg_leaf t = leaf \<Longrightarrow> mode = PRIVATE_MODE"
  shows "kg_inv dir leaf g' \<and> (r = Inr () \<longrightarrow> kg_created g' = kg_created g @ [(tg_leaf t, tg_path t)]) \<and>
    (\<forall>e. r = Inl e \<longrightarrow> g' = g)"
proof (cases "kg_dir g (tg_leaf t) \<noteq> None \<or> k_create_error K (tg_leaf t) \<noteq> None")
  case True
  then show ?thesis
    using assms(1,2) by (auto simp: create_file_def Let_def split: if_splits option.split_asm)
next
  case False
  let ?f = "\<lparr>kf_mode = mode AND NOT (k_umask K), kf_data = []\<rparr>"
  let ?d = "(kg_dir g)(tg_leaf t \<mapsto> ?f)"
  have g': "g' = \<lparr>kg_dir = ?d, kg_past = kg_past g @ [?d], kg_created = kg_created g @ [(tg_leaf t, tg_path t)]\<rparr>" "r = Inr ()"
    using False assms(2) by (auto simp: create_file_def Let_def set_file_def)
  have none: "dir (tg_leaf t) = None"
    using False assms(1) by (auto simp: kg_inv_def dir_ok_def)
  then have "dir_ok dir leaf ?d"
    using assms(1,3) masked_narrow[of "k_umask K" "[]"] by (intro dir_ok_upd) (auto simp: kg_inv_def)
  then show ?thesis
    using assms(1) none by (auto simp: g' kg_inv_def)
qed

lemma chmod_file_inv:
  assumes "kg_inv dir leaf g" and "chmod_file K t mode g = (g', r)" and "tg_leaf t \<in> fst ` set (kg_created g)"
    and "tg_leaf t = leaf \<Longrightarrow> mode = PRIVATE_MODE"
  shows "kg_inv dir leaf g' \<and> kg_created g' = kg_created g"
  using assms update_file_inv[OF assms(1,3), of "\<lambda>f. f\<lparr>kf_mode := mode\<rparr>"]
  by (auto simp: chmod_file_def narrow_def private_mode_narrow split: option.splits)

lemma write_synced_inv:
  assumes "kg_inv dir leaf g" and "write_synced K t data g = (g', r)" and "tg_leaf t \<in> fst ` set (kg_created g)"
  shows "kg_inv dir leaf g' \<and> kg_created g' = kg_created g"
proof -
  have "kg_inv dir leaf (update_file (tg_leaf t) (\<lambda>f. f\<lparr>kf_data := kf_data f @ d\<rparr>) g)" for d
    using assms(1,3) by (intro update_file_inv) (auto simp: narrow_def)
  then show ?thesis
    using assms(2) by (auto simp: write_synced_def Let_def split: option.splits)
qed

text \<open>The steps in sequence: a property of the state that each step keeps holds at the end, failed or not.\<close>

lemma then_do_fst:
  assumes "Q (fst m)" and "\<And>x. Q (fst m) \<Longrightarrow> P (fst (k x (fst m)))" and "\<And>g. Q g \<Longrightarrow> P g"
  shows "P (fst (then_do m k))"
  using assms by (auto simp: then_do_def split: prod.splits sum.splits)

lemma chmod_file_keeps:
  assumes "kg_inv dir leaf g \<and> S \<subseteq> fst ` set (kg_created g)" and "tg_leaf t \<in> S"
    and "tg_leaf t = leaf \<Longrightarrow> mode = PRIVATE_MODE"
  shows "kg_inv dir leaf (fst (chmod_file K t mode g)) \<and> S \<subseteq> fst ` set (kg_created (fst (chmod_file K t mode g)))"
proof -
  obtain g' r where eq: "chmod_file K t mode g = (g', r)"
    by fastforce
  have "tg_leaf t \<in> fst ` set (kg_created g)"
    using assms by blast
  with assms(1) have "kg_inv dir leaf g' \<and> kg_created g' = kg_created g"
    using chmod_file_inv[OF _ eq] assms(3) by blast
  then show ?thesis
    using assms(1) by (simp add: eq)
qed

lemma write_synced_keeps:
  assumes "kg_inv dir leaf g \<and> S \<subseteq> fst ` set (kg_created g)" and "tg_leaf t \<in> S"
  shows "kg_inv dir leaf (fst (write_synced K t data g)) \<and> S \<subseteq> fst ` set (kg_created (fst (write_synced K t data g)))"
proof -
  obtain g' r where eq: "write_synced K t data g = (g', r)"
    by fastforce
  have "tg_leaf t \<in> fst ` set (kg_created g)"
    using assms by blast
  with assms(1) have "kg_inv dir leaf g' \<and> kg_created g' = kg_created g"
    using write_synced_inv[OF _ eq] by blast
  then show ?thesis
    using assms(1) by (simp add: eq)
qed

lemma fill_pair_inv:
  assumes "kg_inv dir leaf g" and "tg_leaf pr = leaf" and "tg_leaf pu \<noteq> leaf"
    and "{leaf, tg_leaf pu} \<subseteq> fst ` set (kg_created g)"
  shows "kg_inv dir leaf (fst (fill_pair K generate pr pu g))"
proof -
  let ?Q = "\<lambda>g. kg_inv dir leaf g \<and> {leaf, tg_leaf pu} \<subseteq> fst ` set (kg_created g)"
  have "?Q (fst (fill_pair K generate pr pu g))"
    unfolding fill_pair_def
    by (intro then_do_fst[where P = ?Q and Q = ?Q] chmod_file_keeps write_synced_keeps) (use assms in auto)
  then show ?thesis by blast
qed

lemma write_pair_inv:
  assumes "kg_inv dir leaf g" and "tg_leaf pr = leaf" and "tg_leaf pu \<noteq> leaf"
  shows "kg_inv dir leaf (fst (write_pair K generate pr pu g))"
proof (cases "create_file K pr PRIVATE_MODE g")
  case (Pair g1 r1)
  note one = create_file_inv[OF assms(1) Pair]
  show ?thesis
  proof (cases r1)
    case (Inl e)
    then show ?thesis using Pair one by (auto simp: write_pair_def then_do_def)
  next
    case (Inr u)
    obtain g2 r2 where two: "create_file K pu PUBLIC_MODE g1 = (g2, r2)"
      by fastforce
    have inv: "kg_inv dir leaf g2" "r2 = Inr () \<Longrightarrow> kg_created g2 = kg_created g1 @ [(tg_leaf pu, tg_path pu)]"
      using create_file_inv[OF _ two, of dir leaf] one assms(3) by auto
    then show ?thesis
      using one Inr Pair two fill_pair_inv[OF inv(1) assms(2,3)]
      by (cases r2) (auto simp: write_pair_def then_do_def assms(2))
  qed
qed

section \<open>What a run leaves\<close>

lemma then_do_Inr: "then_do m k = (g', Inr y) \<longleftrightarrow> (\<exists>g x. m = (g, Inr x) \<and> k x g = (g', Inr y))"
  by (auto simp: then_do_def split: prod.splits sum.splits)

lemma steps_Inr:
  "create_file K t mode g = (g', Inr u) \<longleftrightarrow>
     kg_dir g (tg_leaf t) = None \<and> k_create_error K (tg_leaf t) = None \<and>
     g' = (set_file (tg_leaf t) (Some \<lparr>kf_mode = mode AND NOT (k_umask K), kf_data = []\<rparr>) g)
       \<lparr>kg_created := kg_created g @ [(tg_leaf t, tg_path t)]\<rparr>"
  "chmod_file K t mode g = (g', Inr u) \<longleftrightarrow>
     k_chmod_error K (tg_leaf t) = None \<and> g' = update_file (tg_leaf t) (\<lambda>f. f\<lparr>kf_mode := mode\<rparr>) g"
  "write_synced K t data g = (g', Inr u) \<longleftrightarrow>
     k_write_error K (tg_leaf t) = None \<and> k_fsync_error K (tg_leaf t) = None \<and>
     g' = update_file (tg_leaf t) (\<lambda>f. f\<lparr>kf_data := kf_data f @ data\<rparr>) g"
  by (auto simp: create_file_def chmod_file_def write_synced_def Let_def set_file_def split: option.splits if_splits)

lemma write_pair_Inr:
  assumes "write_pair K generate pr pu g = (g', Inr report)" and "tg_leaf pu \<noteq> tg_leaf pr"
  shows "\<exists>key. generate = Inr key \<and> kg_dir g (tg_leaf pr) = None \<and> kg_dir g (tg_leaf pu) = None \<and>
    kg_dir g' = (kg_dir g)(tg_leaf pr \<mapsto> \<lparr>kf_mode = PRIVATE_MODE, kf_data = private_pem key\<rparr>,
      tg_leaf pu \<mapsto> \<lparr>kf_mode = PUBLIC_MODE, kf_data = public_line key @ [0x0A]\<rparr>)"
  using assms
  by (auto simp: write_pair_def fill_pair_def then_do_Inr steps_Inr set_file_def update_file_def)

lemma unlink_all_dir:
  "kg_dir (fst (unlink_all K cs m g)) n = (if n \<in> fst ` set cs \<and> k_unlink_error K n = None then None else kg_dir g n)"
proof (induction K cs m g rule: unlink_all.induct)
  case (2 K leaf path rest message g)
  then show ?case
    by (cases "k_unlink_error K leaf"; cases "n = leaf") (simp_all add: set_file_def)
qed simp

lemma unlink_all_past:
  assumes "\<And>d n. D d \<Longrightarrow> n \<in> fst ` set cs \<Longrightarrow> D (d(n := None))"
    and "\<forall>d\<in>set (kg_past g). D d" and "D (kg_dir g)"
  shows "\<forall>d\<in>set (kg_past (fst (unlink_all K cs m g))). D d"
  using assms
proof (induction cs arbitrary: m g)
  case (Cons c cs)
  obtain leaf path where c: "c = (leaf, path)" by fastforce
  have keep: "D (d(n := None))" if "D d" "n \<in> fst ` set cs" for d n
    using Cons.prems(1)[OF that(1)] that(2) by (metis image_insert insertCI list.simps(15))
  show ?case
  proof (cases "k_unlink_error K leaf")
    case None
    then have "\<forall>d\<in>set (kg_past (fst (unlink_all K cs m (set_file leaf None g)))). D d"
      using Cons.prems(2,3) keep Cons.prems(1)[of "kg_dir g" leaf]
      by (intro Cons.IH) (auto simp: set_file_def c simp del: fun_upd_apply)
    then show ?thesis using None by (simp add: c)
  next
    case (Some e)
    show ?thesis
      using Some Cons.IH[OF keep Cons.prems(2,3)] by (simp add: c)
  qed
qed simp

lemma unlink_all_extends: "\<exists>post. snd (unlink_all K cs m g) = m @ post"
proof (induction cs arbitrary: m g)
  case (Cons c cs)
  obtain leaf path where c: "c = (leaf, path)" by fastforce
  show ?case
  proof (cases "k_unlink_error K leaf")
    case None
    then show ?thesis using Cons.IH by (simp add: c)
  next
    case (Some e)
    obtain post where "snd (unlink_all K cs (m @ [0x0A] @ ascii ''error: cannot remove '' @ show_path (k_cfs K) path @
        ascii '' after that failure: '' @ e @ ascii ''; remove it before running keygen again'') g) =
      (m @ [0x0A] @ ascii ''error: cannot remove '' @ show_path (k_cfs K) path @
        ascii '' after that failure: '' @ e @ ascii ''; remove it before running keygen again'') @ post"
      using Cons.IH by blast
    then show ?thesis using Some by (simp add: c)
  qed
qed simp

text \<open>A file that is left behind is named in the message.\<close>

definition names_left :: "kenv \<Rightarrow> bytes \<Rightarrow> bytes \<Rightarrow> bool" where
  "names_left K path message \<longleftrightarrow>
     (\<exists>pre post. message = pre @ ascii ''error: cannot remove '' @ show_path (k_cfs K) path @ post)"

lemma unlink_all_names:
  assumes "(n, path) \<in> set cs" and "k_unlink_error K n = Some e"
  shows "names_left K path (snd (unlink_all K cs m g))"
  using assms
proof (induction cs arbitrary: m g)
  case (Cons c cs)
  show ?case
  proof (cases "c = (n, path)")
    case True
    let ?m = "m @ [0x0A] @ ascii ''error: cannot remove '' @ show_path (k_cfs K) path @
        ascii '' after that failure: '' @ e @ ascii ''; remove it before running keygen again''"
    have "snd (unlink_all K (c # cs) m g) = snd (unlink_all K cs ?m g)"
      using True Cons.prems(2) by simp
    then obtain post where "snd (unlink_all K (c # cs) m g) = ?m @ post"
      using unlink_all_extends[of K cs ?m g] by metis
    then show ?thesis
      unfolding names_left_def by (intro exI[of _ "m @ [0x0A]"] exI) simp
  next
    case False
    then show ?thesis
      using Cons by (cases c) (auto split: option.split)
  qed
qed simp

lemma remove_created_ok:
  assumes inv: "kg_inv dir leaf g" and run: "remove_created K f g = (g', message)"
  shows "\<forall>d\<in>set (kg_past g'). dir_ok dir leaf d"
    and "kg_dir g' n \<noteq> dir n \<Longrightarrow> dir n = None \<and> k_unlink_error K n \<noteq> None \<and>
      (\<exists>path. (n, path) \<in> set (kg_created g) \<and> names_left K path message)"
proof -
  obtain m where m: "unlink_all K (kg_created g) m g = (g', message)"
    using run by (auto simp: remove_created_def)
  have g': "g' = fst (unlink_all K (kg_created g) m g)" "message = snd (unlink_all K (kg_created g) m g)"
    by (simp_all add: m)
  have "dir_ok dir leaf (d(n := None))" if "dir_ok dir leaf d" "n \<in> fst ` set (kg_created g)" for d n
    using that inv by (intro dir_ok_upd) (auto simp: kg_inv_def)
  then show "\<forall>d\<in>set (kg_past g'). dir_ok dir leaf d"
    unfolding g' using inv by (intro unlink_all_past) (auto simp: kg_inv_def)
  show "dir n = None \<and> k_unlink_error K n \<noteq> None \<and> (\<exists>path. (n, path) \<in> set (kg_created g) \<and> names_left K path message)"
    if "kg_dir g' n \<noteq> dir n"
  proof -
    have created: "n \<in> fst ` set (kg_created g)" and err: "k_unlink_error K n \<noteq> None"
      using that inv unfolding g' unlink_all_dir by (auto simp: kg_inv_def split: if_splits)
    then show ?thesis
      using inv unlink_all_names[of n _ "kg_created g" K] unfolding g' by (fastforce simp: kg_inv_def)
  qed
qed

section \<open>All or nothing\<close>

abbreviation pub_leaf :: "bytes \<Rightarrow> bytes" where
  "pub_leaf leaf \<equiv> leaf @ ascii ''.pub''"

lemma keygen_run_cases:
  assumes "split_path (k_cfs K) path = Inr (given, leaf)" and "keygen_run K generate path dir = (g, r)"
  obtains (early) message where "g = \<lparr>kg_dir = dir, kg_past = [dir], kg_created = []\<rparr>" "r = Inl message"
  | (written) parent pr pu report where "canonicalize (k_cfs K) given = Inr parent" "check_directory K parent = Inr ()"
      "pr = \<lparr>tg_leaf = leaf, tg_path = join_path parent leaf\<rparr>"
      "pu = \<lparr>tg_leaf = pub_leaf leaf, tg_path = join_path parent (pub_leaf leaf)\<rparr>"
      "write_pair K generate pr pu \<lparr>kg_dir = dir, kg_past = [dir], kg_created = []\<rparr> = (g, Inr report)" "r = Inr report"
  | (failed) parent pr pu g' f message where "pr = \<lparr>tg_leaf = leaf, tg_path = join_path parent leaf\<rparr>"
      "pu = \<lparr>tg_leaf = pub_leaf leaf, tg_path = join_path parent (pub_leaf leaf)\<rparr>"
      "write_pair K generate pr pu \<lparr>kg_dir = dir, kg_past = [dir], kg_created = []\<rparr> = (g', Inl f)"
      "remove_created K f g' = (g, message)" "r = Inl message"
  using assms(2) assms(1)
  unfolding keygen_run_def Let_def by (auto split: sum.split_asm prod.split_asm)


section \<open>The key starts the server\<close>

interpretation keygen_walk: dir_walk F "check_above F" for F
  by unfold_locales (auto split: option.splits sum.splits)

lemma check_directory_Inr:
  "check_directory K p = Inr u \<longleftrightarrow> (\<exists>st. k_fstat_dir K = Inr st \<and> \<not> others_write (st_mode st)) \<and>
     (\<forall>d\<in>set (path_ancestors p). \<exists>st. cfs_stat (k_cfs K) d = Inr st \<and> \<not> others_write (st_mode st))"
proof (cases "k_fstat_dir K")
  case (Inr st)
  then show ?thesis
    using ancestor_violation_None[of "st_mode st"] by (auto simp: check_directory_def keygen_walk.walk_Inr split: option.splits)
qed (simp add: check_directory_def)

lemma split_path_leaf:
  assumes "split_path F path = Inr (given, leaf)"
  shows "leaf \<noteq> []" and "0x2F \<notin> set leaf"
proof -
  have tail: "0x2F \<notin> set (takeWhile (\<lambda>b. b \<noteq> 0x2F) (rev path))"
    by (auto dest: set_takeWhileD)
  have root: "drop 1 path = rev (takeWhile (\<lambda>b. b \<noteq> 0x2F) (rev path))"
    if "length (takeWhile (\<lambda>b. b \<noteq> 0x2F) (rev path)) + 1 = length path"
  proof -
    have "takeWhile (\<lambda>b. b \<noteq> 0x2F) (rev path) = take (length path - 1) (rev path)"
      using that takeWhile_eq_take[of "\<lambda>b. b \<noteq> 0x2F" "rev path"] by (metis add_diff_cancel_right')
    then show ?thesis
      using that by (simp add: rev_take)
  qed
  have root_tail: "0x2F \<notin> set (drop 1 path)"
    if "length (takeWhile (\<lambda>b. b \<noteq> 0x2F) (rev path)) + 1 = length path"
    using tail unfolding root[OF that] by simp
  show "leaf \<noteq> []" and "0x2F \<notin> set leaf"
    using assms tail root_tail by (auto simp: split_path_def Let_def split: if_splits)
qed

text \<open>What a later start of the server by the same user sees of the directory after the run.\<close>

definition sees :: "kenv \<Rightarrow> kgen \<Rightarrow> bytes list \<Rightarrow> bytes \<Rightarrow> cfs \<Rightarrow> bool" where
  "sees K g cs leaf F \<longleftrightarrow>
     (\<forall>f. kg_dir g leaf = Some f \<longrightarrow>
        cfs_stat F (path_of (cs @ [leaf])) = Inr \<lparr>st_mode = 0x8000 OR kf_mode f, st_uid = geteuid F\<rparr> \<and>
        read_to_string F (path_of (cs @ [leaf])) = Inr (kf_data f)) \<and>
     cfs_stat F (path_of cs) = k_fstat_dir K \<and>
     (\<forall>n<length cs. cfs_stat F (path_of (take n cs)) = cfs_stat (k_cfs K) (path_of (take n cs)))"

text \<open>
  C40 (liveness). A host key that \<^verbatim>\<open>keygen\<close> reports as written is one the server loads: whenever a later start by the same
  user resolves its configured path to that file and finds the directories as they were, the check of its permissions
  passes and the key that comes out is the one whose seeds were drawn.
\<close>

theorem keygen_key_loads:
  assumes "sig_ok P" and "fills fill" and "fill 68 = Some seeds" and "generate_host_key_with P fill = Inr (Some key)"
    and split: "split_path (k_cfs K) path = Inr (given, leaf)"
    and run: "keygen_run K (Inr key) path dir = (g, Inr report)"
    and parent: "canonicalize (k_cfs K) given = Inr (path_of cs)" "file_names cs"
    and later: "sees K g cs leaf (s_cfs E)" "canonicalize (s_cfs E) configured = Inr (path_of (cs @ [leaf]))" "s_prims E = P"
  shows "load_host_key E configured config_file = Inr (signing_key_from_seeds P (take 64 seeds))"
proof -
  have names: "file_names (cs @ [leaf])"
    using split_path_leaf[OF split] parent(2) by (simp add: file_names_def)
  obtain pr pu where w: "check_directory K (path_of cs) = Inr ()" "tg_leaf pr = leaf" "tg_leaf pu = pub_leaf leaf"
    "write_pair K (Inr key) pr pu \<lparr>kg_dir = dir, kg_past = [dir], kg_created = []\<rparr> = (g, Inr report)"
    using split run
  proof (cases rule: keygen_run_cases)
    case (written p pr pu report')
    then show ?thesis
      using that[of pr pu] parent(1) by simp
  qed auto
  have entry: "kg_dir g leaf = Some \<lparr>kf_mode = PRIVATE_MODE, kf_data = private_pem key\<rparr>"
    using write_pair_Inr[OF w(4)] w(2,3) by (auto simp: ascii_def)
  then have st: "cfs_stat (s_cfs E) (path_of (cs @ [leaf])) = Inr \<lparr>st_mode = 0x8000 OR PRIVATE_MODE, st_uid = geteuid (s_cfs E)\<rparr>"
    and data: "read_to_string (s_cfs E) (path_of (cs @ [leaf])) = Inr (private_pem key)"
    using later(1) by (auto simp: sees_def)
  have dirs: "\<exists>st. cfs_stat (s_cfs E) d = Inr st \<and> \<not> others_write (st_mode st)"
    if mem: "d \<in> set (path_ancestors (path_of (cs @ [leaf])))" for d
  proof -
    obtain n where n: "n < Suc (length cs)" "d = path_of (take n (cs @ [leaf]))"
      using mem unfolding path_ancestors_set[OF names] by auto
    show ?thesis
      using n later(1) w(1) path_ancestors_set[OF parent(2)]
      unfolding check_directory_Inr sees_def by (cases "n = length cs") auto
  qed
  have "check_trusted_file (s_cfs E) configured Secret = Inr (path_of (cs @ [leaf]))"
    unfolding check_trusted_file_Inr using later(2) st dirs
    by (auto simp: file_trusted_def others_write_def others_read_def PRIVATE_MODE_def)
  then show ?thesis
    using data generated_key_loads[OF assms(1-3)] assms(4) later(3) by (auto simp: load_host_key_def)
qed

section \<open>Witnesses\<close>

definition sample_kenv :: kenv where
  "sample_kenv = \<lparr>k_cfs = sample_cfs, k_open_dir = (\<lambda>_. Inr ()), k_fstat_dir = Inr \<lparr>st_mode = 0x41ED, st_uid = 0\<rparr>,
     k_umask = 0x3F, k_create_error = (\<lambda>_. None), k_chmod_error = (\<lambda>_. None), k_write_error = (\<lambda>_. None),
     k_fsync_error = (\<lambda>_. None), k_fstat_error = (\<lambda>_. None), k_unlink_error = (\<lambda>_. None)\<rparr>"

lemma sample_split: "split_path F (ascii ''/key'') = Inr (ascii ''/'', ascii ''key'')"
  by (simp add: split_path_def ascii_def)

lemma sample_root: "path_of [] = ascii ''/''" "check_directory sample_kenv (ascii ''/'') = Inr ()"
proof -
  show root: "path_of [] = ascii ''/''"
    by (simp add: path_of_def ascii_def)
  have "path_ancestors (ascii ''/'') = []"
    by (simp add: path_ancestors.simps parent_dir_def ascii_def)
  then show "check_directory sample_kenv (ascii ''/'') = Inr ()"
    by (simp add: check_directory_Inr) (simp add: sample_kenv_def others_write_def)
qed

lemma sample_keygen: "\<exists>g report. keygen_run sample_kenv (Inr key) (ascii ''/key'') Map.empty = (g, Inr report)"
proof -
  have env: "canonicalize (k_cfs sample_kenv) p = Inr p" "k_open_dir sample_kenv p = Inr ()" "k_create_error sample_kenv p = None"
    "k_chmod_error sample_kenv p = None" "k_write_error sample_kenv p = None" "k_fsync_error sample_kenv p = None"
    "k_fstat_error sample_kenv p = None" for p
    by (simp_all add: sample_kenv_def sample_cfs_def)
  have leafs: "ascii ''key'' @ ascii ''.pub'' \<noteq> ascii ''key''"
    by (simp add: ascii_def)
  have "\<exists>g' report. write_pair sample_kenv (Inr key) pr pu g = (g', Inr report)"
    if "kg_dir g = Map.empty" "tg_leaf pu \<noteq> tg_leaf pr" for pr pu g
    unfolding write_pair_def fill_pair_def then_do_Inr steps_Inr
    using that by (auto simp: env observed_def set_file_def)
  from this[of "\<lparr>kg_dir = Map.empty, kg_past = [Map.empty], kg_created = []\<rparr>"
      "\<lparr>tg_leaf = pub_leaf (ascii ''key''), tg_path = join_path (ascii ''/'') (pub_leaf (ascii ''key''))\<rparr>"
      "\<lparr>tg_leaf = ascii ''key'', tg_path = join_path (ascii ''/'') (ascii ''key'')\<rparr>"] obtain g' report where
    "write_pair sample_kenv (Inr key) \<lparr>tg_leaf = ascii ''key'', tg_path = join_path (ascii ''/'') (ascii ''key'')\<rparr>
       \<lparr>tg_leaf = pub_leaf (ascii ''key''), tg_path = join_path (ascii ''/'') (pub_leaf (ascii ''key''))\<rparr>
       \<lparr>kg_dir = Map.empty, kg_past = [Map.empty], kg_created = []\<rparr> = (g', Inr report)"
    using leafs by auto
  then show ?thesis
    by (simp add: keygen_run_def Let_def sample_split sample_root(2) env)
qed


definition sample_later :: "bytes \<Rightarrow> unit start_env" where
  "sample_later pem = (sample_start pem)\<lparr>s_cfs := \<lparr>canonicalize = Inr,
     cfs_stat = (\<lambda>p. Inr (if p = ascii ''/key'' then \<lparr>st_mode = 0x8180, st_uid = 7\<rparr> else \<lparr>st_mode = 0x41ED, st_uid = 0\<rparr>)),
     read_to_string = (\<lambda>_. Inr pem), geteuid = 7, show_path = id\<rparr>\<rparr>"

theorem keygen_key_loads_witness:
  "\<exists>key :: generated_host_key. load_host_key (sample_later (private_pem key)) (ascii ''/key'') [] =
     Inr (signing_key_from_seeds toy_sig (take 64 (replicate 68 7)))"
proof -
  have fill: "fills (\<lambda>n. Some (replicate n 7))"
    by (simp add: fills_def)
  obtain key where key: "generate_host_key_with toy_sig (\<lambda>n. Some (replicate n 7)) = Inr (Some key)"
    using generated_key_loads[OF toy_sig_ok fill refl] by blast
  obtain g report where run: "keygen_run sample_kenv (Inr key) (ascii ''/key'') Map.empty = (g, Inr report)"
    using sample_keygen by blast
  have dir: "kg_dir g (ascii ''key'') = Some \<lparr>kf_mode = PRIVATE_MODE, kf_data = private_pem key\<rparr>"
    using sample_split run
  proof (cases rule: keygen_run_cases)
    case (written parent pr pu report')
    then show ?thesis
      using write_pair_Inr[OF written(5)] by (auto simp: ascii_def)
  qed simp_all
  have path: "path_of ([] @ [ascii ''key'']) = ascii ''/key''" "path_of [] \<noteq> ascii ''/key''"
    by (simp_all add: path_of_def ascii_def)
  have "sees sample_kenv g [] (ascii ''key'') (s_cfs (sample_later (private_pem key)))"
    unfolding sees_def path dir using path(2) by (simp add: sample_later_def sample_kenv_def PRIVATE_MODE_def)
  moreover have "canonicalize (k_cfs sample_kenv) (ascii ''/'') = Inr (path_of [])"
    by (simp add: sample_kenv_def sample_cfs_def sample_root(1))
  moreover have "canonicalize (s_cfs (sample_later (private_pem key))) (ascii ''/key'') = Inr (path_of ([] @ [ascii ''key'']))"
    unfolding path by (simp add: sample_later_def)
  moreover have "file_names []" "s_prims (sample_later (private_pem key)) = toy_sig"
    by (simp_all add: file_names_def sample_later_def sample_start_def)
  ultimately have "load_host_key (sample_later (private_pem key)) (ascii ''/key'') [] =
      Inr (signing_key_from_seeds toy_sig (take 64 (replicate 68 7)))"
    by (intro keygen_key_loads[OF toy_sig_ok fill refl key sample_split run])
  then show ?thesis ..
qed

end
