(* ===== verification/Session.thy ===== *)
theory Session
  imports HandshakeLive
begin

text \<open>
  The session stage of \<^verbatim>\<open>crates/quantumssh-core/src/transport.rs\<close>: the cancel-safe packet reader,
  the accounting writer, and the re-keying sub-machine (\<^verbatim>\<open>begin_rekey\<close>, \<^verbatim>\<open>step_rekey\<close> and what they
  call).

  \<^item> \<open>session\<close> is \<^verbatim>\<open>Expect<S, Session>\<close>, with the fields of \<^verbatim>\<open>RekeyState\<close> inlined; \<open>ticks\<close> and
    \<open>reads\<close> count the readings of the monotonic clock and the partial reads of the stream.
  \<^item> A partial read returns between one byte and what was asked for; \<open>chunk\<close> decides, and 0 stands
    for a \<^verbatim>\<open>select!\<close> that drops the pending read. \<open>read_packet\<close> then yields \<open>None\<close> and the machine
    as it was left.
  \<^item> Instants and durations are nanoseconds. \<^verbatim>\<open>Instant::checked_add\<close> fails beyond \<^verbatim>\<open>i64::MAX\<close> seconds.
\<close>

section \<open>State\<close>

datatype rekey_phase =
    RkIdle
  | SentKexInit bytes \<comment> \<open>our KEXINIT\<close>
  | AwaitHybridInit bytes bytes negotiated bool \<comment> \<open>theirs, ours, the outcome, skip a guessed packet\<close>
  | AwaitNewKeys packet_cipher \<comment> \<open>the staged receive cipher\<close>

record session = auth_accepted +
  inbuf :: bytes
  host_key :: signing_key
  bytes_rx :: u64
  bytes_tx :: u64
  last_kex :: nat
  started :: nat
  initiator :: string
  trigger :: string
  thresholds :: rekey_thresholds
  phase :: rekey_phase
  ticks :: nat
  reads :: nat

datatype rekey_step = Continued | Completed | PassToChannel

definition now :: "env \<Rightarrow> session \<Rightarrow> nat \<times> session" where
  "now E s = (mono E (ticks s), s\<lparr>ticks := Suc (ticks s)\<rparr>)"

definition sat_add :: "u64 \<Rightarrow> nat \<Rightarrow> u64" where
  "sat_add a n = (if unat a + n > u64_max then word_of_nat u64_max else a + word_of_nat n)"

text \<open>The entry of the stage, in \<^verbatim>\<open>serve\<close>.\<close>

definition serve_session :: "env \<Rightarrow> signing_key \<Rightarrow> rekey_thresholds \<Rightarrow> auth_accepted \<Rightarrow> session" where
  "serve_session E hk th s = auth_accepted.extend s
     (session.fields [] hk 0 0 (mono E 0) (mono E 1) ''server'' ''bytes'' th RkIdle 2 0)"

section \<open>Reading\<close>

definition fill_inbuf :: "env \<Rightarrow> nat \<Rightarrow> session \<Rightarrow> (bool \<times> session) outcome" where
  "fill_inbuf E want s =
     (let need = want - length (inbuf s); tk = min need 8192; c = chunk E (reads s);
          s = s\<lparr>reads := Suc (reads s)\<rparr> in
      if c = 0 then Inr (False, s)
      else
        let n = min (min c tk) (length (inp s)) in
        if n = 0 then fail Io s
        else Inr (True, s\<lparr>inbuf := inbuf s @ take n (inp s), inp := drop n (inp s)\<rparr>))"

lemma fill_inbuf_grows:
  "fill_inbuf E want s = Inr (True, s') \<Longrightarrow> length (inbuf s) < length (inbuf s')"
  by (auto simp: fill_inbuf_def fail_def Let_def split: if_splits)

function fill_until :: "env \<Rightarrow> nat \<Rightarrow> session \<Rightarrow> (bool \<times> session) outcome" where
  "fill_until E want s =
     (if length (inbuf s) < want then
        (case fill_inbuf E want s of
           Inl e \<Rightarrow> Inl e
         | Inr (ready, s') \<Rightarrow> if ready then fill_until E want s' else Inr (False, s'))
      else Inr (True, s))"
  by pat_completeness auto
termination
  by (relation "measure (\<lambda>(E, want, s). want - length (inbuf s))") (auto dest!: fill_inbuf_grows)

declare fill_until.simps [simp del]

definition read_packet :: "env \<Rightarrow> session \<Rightarrow> (bytes option \<times> session) outcome" where
  "read_packet E s =
     try_bind (fill_until E 4 s) (\<lambda>(ready, s).
     if \<not> ready then Inr (None, s)
     else
       let len4 = take 4 (inbuf s); seqnr = seq_rx s in
       case frame_body_len E (rx s) seqnr len4 of
         Inl e \<Rightarrow> fail e s
       | Inr body_len \<Rightarrow>
           let total = 4 + body_len in
           try_bind (fill_until E total s) (\<lambda>(ready, s).
           if \<not> ready then Inr (None, s)
           else
             let frame = take total (inbuf s); s = s\<lparr>inbuf := drop total (inbuf s)\<rparr>;
                 (c, r) = open_frame E (rx s) seqnr len4 (drop 4 frame); s = s\<lparr>rx := c\<rparr> in
             case r of
               Inl e \<Rightarrow> fail e s
             | Inr payload \<Rightarrow>
                 Inr (Some payload, s\<lparr>seq_rx := seq_rx s + 1, bytes_rx := sat_add (bytes_rx s) (length payload)\<rparr>)))"

section \<open>Writing\<close>

definition write_packet :: "env \<Rightarrow> bytes \<Rightarrow> session \<Rightarrow> session outcome" where
  "write_packet E payload s = write_sealed E payload (s\<lparr>bytes_tx := sat_add (bytes_tx s) (length payload)\<rparr>)"

definition protocol_disconnect :: "env \<Rightarrow> string \<Rightarrow> session \<Rightarrow> transport_error \<times> trace" where
  "protocol_disconnect E r s = send_disconnect (write_sealed E) (protocol_error r) s"

section \<open>Re-keying\<close>

definition rekey_active :: "session \<Rightarrow> bool" where
  "rekey_active s \<longleftrightarrow> phase s \<noteq> RkIdle"

definition session_rekey_due :: "env \<Rightarrow> session \<Rightarrow> bool \<times> session" where
  "session_rekey_due E s =
     (if phase s = RkIdle then
        let (n, s) = now E s in
        (rekey_due (bytes_rx s) (bytes_tx s) (seq_rx s) (seq_tx s) (n - last_kex s) (thresholds s), s)
      else (False, s))"

definition INSTANT_MAX :: nat where "INSTANT_MAX = (2 ^ 63 - 1) * 10 ^ 9 + 999999999"

definition rekey_deadline :: "session \<Rightarrow> nat option" where
  "rekey_deadline s =
     (if \<not> rekey_active s then None
      else
        let at = started s + completion_deadline (thresholds s) in
        if at \<le> INSTANT_MAX then Some at else None)"

definition rekey_wake_at :: "session \<Rightarrow> nat option" where
  "rekey_wake_at s = (if phase s = RkIdle then Some (last_kex s + max_interval (thresholds s)) else None)"

definition begin_rekey :: "env \<Rightarrow> session \<Rightarrow> session outcome" where
  "begin_rekey E s =
     (let (fill, s) = draw E s in
      case build_rekey_kexinit fill of
        Inl _ \<Rightarrow> fail Io s
      | Inr ours \<Rightarrow>
          try_bind (send_msg (write_packet E) ours s) (\<lambda>s.
          let (n1, s) = now E s; (n2, s) = now E s in
          Inr (s\<lparr>started := n1, initiator := ''server'',
                 trigger := (if n2 - last_kex s \<ge> max_interval (thresholds s) then ''time''
                             else if bytes_rx s \<ge> max_bytes (thresholds s) \<or> bytes_tx s \<ge> max_bytes (thresholds s)
                             then ''bytes'' else ''packets''),
                 phase := SentKexInit (the ours)\<rparr>)))"

definition rekey_reject :: "env \<Rightarrow> rejection \<Rightarrow> session \<Rightarrow> transport_error \<times> trace" where
  "rekey_reject E r s =
     send_disconnect (write_sealed E) r
       (s\<lparr>audit := audit s @ [KexFailedEvent (reason r) (disconnect_code r)]\<rparr>)"

definition rekey_timeout :: "env \<Rightarrow> session \<Rightarrow> transport_error \<times> trace" where
  "rekey_timeout E s =
     rekey_reject E \<lparr>reason = ''rekey-timeout'', disconnect_code = DISCONNECT_KEY_EXCHANGE_FAILED\<rparr> s"

definition negotiate_rekey :: "env \<Rightarrow> bytes \<Rightarrow> session \<Rightarrow> negotiated outcome" where
  "negotiate_rekey E payload s =
     (case try_bind (parse_kexinit payload) (\<lambda>peer. negotiate peer False) of
        Inr n \<Rightarrow> Inr n
      | Inl (KexRejected r) \<Rightarrow> Inl (rekey_reject E r s)
      | Inl (KexWire _) \<Rightarrow> Inl (protocol_disconnect E ''malformed-rekey-kexinit'' s))"

definition complete_rekey_reply ::
  "env \<Rightarrow> bytes \<Rightarrow> bytes \<Rightarrow> bytes \<Rightarrow> negotiated \<Rightarrow> session \<Rightarrow> (rekey_step \<times> session) outcome" where
  "complete_rekey_reply E init_payload theirs ours n s =
     (case read_client_init (tl init_payload) of
        Inl _ \<Rightarrow> Inl (protocol_disconnect E ''malformed-hybrid-init'' s)
      | Inr (client_init, _) \<Rightarrow>
          let fill = (\<lambda>i. rand E (draws s + i)); s = s\<lparr>draws := draws s + 2\<rparr> in
          case hybrid_exchange_with (kem E) client_init fill of
            Inl (KexRejected r) \<Rightarrow> Inl (rekey_reject E r s)
          | Inl (KexWire _) \<Rightarrow> Inl (protocol_disconnect E ''malformed-hybrid-init'' s)
          | Inr out \<Rightarrow>
              case public_key_blob (host_key s) of None \<Rightarrow> fail Panicked s | Some host_key_blob \<Rightarrow>
              case exchange_hash (sha256 (kem E))
                 \<lparr>eh_client_id = client_id s, eh_server_id = SERVER_ID,
                  eh_client_kexinit = theirs, eh_server_kexinit = ours,
                  eh_host_key_blob = host_key_blob, eh_client_init = client_init,
                  eh_server_reply = server_reply out, eh_shared_secret = shared_secret out\<rparr>
              of None \<Rightarrow> fail Panicked s | Some h \<Rightarrow>
              case host_key_sign (sigp E) (host_key s) h of
                Inl _ \<Rightarrow> Inl (rekey_reject E (kex_failed ''rng-failure'') s)
              | Inr None \<Rightarrow> fail Panicked s
              | Inr (Some signature) \<Rightarrow>
                  (case derive_cipher_pair E (shared_secret out) h (session_id s) (cipher_c2s n) (cipher_s2c n) of
                     Inl e \<Rightarrow> fail e s
                   | Inr (new_rx, new_tx) \<Rightarrow>
                       try_bind (send_msg (write_packet E)
                         (hybrid_reply host_key_blob (server_reply out) signature) s) (\<lambda>s.
                       try_bind (write_packet E [SSH_MSG_NEWKEYS] s) (\<lambda>s.
                       Inr (Continued, s\<lparr>tx := new_tx, seq_tx := 0, phase := AwaitNewKeys new_rx\<rparr>)))))"

definition step_rekey :: "env \<Rightarrow> bytes \<Rightarrow> session \<Rightarrow> (rekey_step \<times> session) outcome" where
  "step_rekey E payload s =
     (let msg = (case payload of [] \<Rightarrow> 0 | b # _ \<Rightarrow> b); ph = phase s; s = s\<lparr>phase := RkIdle\<rparr>;
          unexpected = Inl (protocol_disconnect E ''unexpected-during-rekey'' s) in
      case ph of
        RkIdle \<Rightarrow>
          if msg = SSH_MSG_KEXINIT then
            let (n1, s) = now E s; s = s\<lparr>started := n1, initiator := ''peer'', trigger := ''peer''\<rparr>;
                (fill, s) = draw E s in
            (case build_rekey_kexinit fill of
               Inl _ \<Rightarrow> fail Io s
             | Inr ours \<Rightarrow>
                 try_bind (send_msg (write_packet E) ours s) (\<lambda>s.
                 try_bind (negotiate_rekey E payload s) (\<lambda>n.
                 Inr (Continued, s\<lparr>phase := AwaitHybridInit payload (the ours) n (skip_guessed_packet n)\<rparr>))))
          else unexpected
      | SentKexInit ours \<Rightarrow>
          if msg = SSH_MSG_KEXINIT then
            try_bind (negotiate_rekey E payload s) (\<lambda>n.
            Inr (Continued, s\<lparr>phase := AwaitHybridInit payload ours n (skip_guessed_packet n)\<rparr>))
          else Inr (PassToChannel, s\<lparr>phase := ph\<rparr>)
      | AwaitHybridInit theirs ours n skip_guessed \<Rightarrow>
          if skip_guessed then Inr (Continued, s\<lparr>phase := AwaitHybridInit theirs ours n False\<rparr>)
          else if msg = SSH_MSG_KEX_HYBRID_INIT then complete_rekey_reply E payload theirs ours n s
          else unexpected
      | AwaitNewKeys new_rx \<Rightarrow>
          if msg = SSH_MSG_NEWKEYS then
            if payload \<noteq> [SSH_MSG_NEWKEYS] then Inl (protocol_disconnect E ''expected-newkeys'' s)
            else
              let (n1, s) = now E (s\<lparr>rx := new_rx, seq_rx := 0\<rparr>); seconds = (n1 - last_kex s) div 10 ^ 9;
                  s = s\<lparr>audit := audit s @
                         [RekeyCompleted (initiator s) (trigger s) (bytes_rx s) (bytes_tx s) seconds]\<rparr>;
                  (n2, s) = now E s in
              Inr (Completed, s\<lparr>bytes_rx := 0, bytes_tx := 0, last_kex := n2, phase := RkIdle\<rparr>)
          else unexpected)"

section \<open>The packet reader against the handshake's reader\<close>

interpretation session_w: packet_writer "write_packet E" for E
proof unfold_locales
  show "sent s' = sent s @ [p] \<and> audit s' = audit s \<and> inp s' = inp s \<and> seq_tx s' = seq_tx s + 1 \<and>
      seq_rx s' = seq_rx s \<and> clock_reads s' = clock_reads s \<and> (\<exists>b. outp s' = outp s @ [b])"
    if "write_packet E p s = Inr s'" for p s s'
    using that sealed_w.send_ok[of E p _ s'] by (fastforce simp: write_packet_def)
  show "x = (Io, trace.truncate s)" if "write_packet E p s = Inl x" for p s x
    using that[unfolded write_packet_def, THEN sealed_w.send_err] by (simp add: trace.defs)
qed

text \<open>
  The stream as the reader of the handshake would find it: what is buffered is still to be read.
  The two counters that only the session's reader keeps are left out.
\<close>

definition flat :: "session \<Rightarrow> session" where
  "flat s = s\<lparr>inp := inbuf s @ inp s, inbuf := [], reads := 0, bytes_rx := 0\<rparr>"

lemma fill_inbuf_Inr:
  "fill_inbuf E w s = Inr (b, s') \<Longrightarrow>
     \<exists>n. n \<le> w - length (inbuf s) \<and>
       s' = s\<lparr>reads := Suc (reads s), inbuf := inbuf s @ take n (inp s), inp := drop n (inp s)\<rparr>"
  by (rule exI[of _ "if chunk E (reads s) = 0 then 0
      else min (min (chunk E (reads s)) (min (w - length (inbuf s)) 8192)) (length (inp s))"])
    (auto simp: fill_inbuf_def Let_def fail_def split: if_splits)

lemma fill_until_Inr:
  "fill_until E w s = Inr (b, s') \<Longrightarrow>
     \<exists>n k. n \<le> w - length (inbuf s) \<and> (b \<longrightarrow> w \<le> length (inbuf s @ take n (inp s))) \<and>
       s' = s\<lparr>reads := k, inbuf := inbuf s @ take n (inp s), inp := drop n (inp s)\<rparr>"
proof (induction E w s rule: fill_until.induct)
  case (1 E w s)
  show ?case
  proof (cases "length (inbuf s) < w")
    case False
    then show ?thesis
      using "1.prems" by (auto simp: fill_until.simps[of E w s] intro!: exI[of _ 0] exI[of _ "reads s"])
  next
    case True
    then obtain r u where f: "fill_inbuf E w s = Inr (r, u)"
      using "1.prems" by (auto simp: fill_until.simps[of E w s] split: sum.splits prod.splits)
    then obtain n where n: "n \<le> w - length (inbuf s)"
      "u = s\<lparr>reads := Suc (reads s), inbuf := inbuf s @ take n (inp s), inp := drop n (inp s)\<rparr>"
      using fill_inbuf_Inr by blast
    show ?thesis
    proof (cases r)
      case False
      then have "s' = u" "\<not> b" using "1.prems" True f by (simp_all add: fill_until.simps[of E w s])
      then show ?thesis using n by (intro exI[of _ n] exI[of _ "Suc (reads s)"]) simp
    next
      case r: True
      have "fill_until E w u = Inr (b, s')"
        using "1.prems" True f r by (simp add: fill_until.simps[of E w s])
      from "1.IH"[OF True f refl r this] obtain m k where m: "m \<le> w - length (inbuf u)"
        "b \<longrightarrow> w \<le> length (inbuf u @ take m (inp u))"
        "s' = u\<lparr>reads := k, inbuf := inbuf u @ take m (inp u), inp := drop m (inp u)\<rparr>"
        by blast
      let ?n = "min n (length (inp s))"
      have tk: "take (?n + m) (inp s) = take n (inp s) @ take m (drop n (inp s))"
        by (cases "n \<le> length (inp s)") (simp_all add: take_add)
      have dr: "drop (?n + m) (inp s) = drop m (drop n (inp s))"
        by (cases "n \<le> length (inp s)") (simp_all add: add.commute)
      have s': "s' = s\<lparr>reads := k, inbuf := inbuf s @ take (?n + m) (inp s), inp := drop (?n + m) (inp s)\<rparr>"
        unfolding m(3) n(2) tk dr by simp
      have "?n + m \<le> w - length (inbuf s)" using n m(1) by simp
      moreover have "b \<longrightarrow> w \<le> length (inbuf s @ take (?n + m) (inp s))"
        using m(2) n(2) unfolding tk by simp
      ultimately show ?thesis using s' by blast
    qed
  qed
qed

lemma fill_until_Inl:
  "fill_until E w s = Inl x \<Longrightarrow> x = (Io, trace.truncate s) \<and> length (inbuf s @ inp s) < w"
proof (induction E w s rule: fill_until.induct)
  case (1 E w s)
  show ?case
  proof (cases "length (inbuf s) < w")
    case False
    then show ?thesis using "1.prems" by (auto simp: fill_until.simps[of E w s])
  next
    case True
    show ?thesis
    proof (cases "fill_inbuf E w s")
      case (Inl y)
      then show ?thesis
        using "1.prems" True
        by (auto simp: fill_until.simps[of E w s] fill_inbuf_def Let_def fail_def trace.defs split: if_splits)
    next
      case (Inr q)
      then obtain u where f: "fill_inbuf E w s = Inr (True, u)"
        using "1.prems" True by (cases q) (auto simp: fill_until.simps[of E w s] split: if_splits)
      then have u: "length (inbuf u @ inp u) = length (inbuf s @ inp s)" "trace.truncate u = trace.truncate s"
        by (auto simp: fill_inbuf_def Let_def fail_def trace.defs split: if_splits)
      have "fill_until E w u = Inl x"
        using "1.prems" True f by (simp add: fill_until.simps[of E w s])
      from "1.IH"[OF True f refl _ this] show ?thesis using u by simp
    qed
  qed
qed

lemma fill_inbuf_progress: "chunk E (reads s) \<noteq> 0 \<Longrightarrow> fill_inbuf E w s = Inr (b, s') \<Longrightarrow> b"
  by (auto simp: fill_inbuf_def Let_def fail_def split: if_splits)

lemma fill_until_progress: "\<forall>i. chunk E i \<noteq> 0 \<Longrightarrow> fill_until E w s = Inr (b, s') \<Longrightarrow> b"
proof (induction E w s rule: fill_until.induct)
  case (1 E w s)
  show ?case
    using "1.prems" "1.IH" fill_inbuf_progress[of E s w]
    by (auto simp: fill_until.simps[of E w s] split: if_splits sum.splits prod.splits)
qed

lemma fill_until_cut: "fill_until E w s = Inr (False, s') \<Longrightarrow> \<exists>i. chunk E i = 0"
  using fill_until_progress[where b = False] by (metis (full_types))

lemma fill_until_flat:
  assumes "fill_until E w s = Inr (b, s')"
  shows "flat s' = flat s" "inbuf s' @ inp s' = inbuf s @ inp s" "b \<Longrightarrow> w \<le> length (inbuf s')"
    "rx s' = rx s" "seq_rx s' = seq_rx s" "bytes_rx s' = bytes_rx s" "trace.truncate s' = trace.truncate s"
    "length (inbuf s') \<le> max w (length (inbuf s))"
proof -
  obtain n k where n: "n \<le> w - length (inbuf s)" "b \<longrightarrow> w \<le> length (inbuf s @ take n (inp s))"
    and s': "s' = s\<lparr>reads := k, inbuf := inbuf s @ take n (inp s), inp := drop n (inp s)\<rparr>"
    using fill_until_Inr[OF assms] by blast
  show "w \<le> length (inbuf s')" if b using n(2) that s' by simp
  show "length (inbuf s') \<le> max w (length (inbuf s))" using n(1) s' by auto
  show "flat s' = flat s" "inbuf s' @ inp s' = inbuf s @ inp s" "rx s' = rx s" "seq_rx s' = seq_rx s"
    "bytes_rx s' = bytes_rx s" "trace.truncate s' = trace.truncate s"
    by (simp_all add: s' flat_def trace.defs)
qed

lemma read_sealed_split:
  assumes "4 + k \<le> length (inp t)" and "frame_body_len E (rx t) (seq_rx t) (take 4 (inp t)) = Inr k"
    and "open_frame E (rx t) (seq_rx t) (take 4 (inp t)) (take k (drop 4 (inp t))) = (c, Inr p)"
  shows "read_sealed E t = Inr (p, t\<lparr>inp := drop (4 + k) (inp t), rx := c, seq_rx := seq_rx t + 1\<rparr>)"
proof -
  have "\<not> length (inp t) < 4" "\<not> length (drop 4 (inp t)) < k" using assms(1) by auto
  then show ?thesis
    using assms(2,3) by (simp add: read_sealed_def read_exact_def Let_def add.commute del: length_drop)
qed

lemma read_packet_cases:
  obtains (cut) s' where "read_packet E s = Inr (None, s')" "flat s' = flat s"
      "length (inbuf s') \<le> max (length (inbuf s)) 35020" "\<exists>i. chunk E i = 0"
  | (packet) p s' where "read_packet E s = Inr (Some p, s')" "read_sealed E (flat s) = Inr (p, flat s')"
      "bytes_rx s' = sat_add (bytes_rx s) (length p)" "length (inbuf s') \<le> max (length (inbuf s)) 35020"
  | (failed) x where "read_packet E s = Inl x" "read_sealed E (flat s) = Inl x"
proof (cases "fill_until E 4 s")
  case (Inl x)
  from fill_until_Inl[OF this] Inl show ?thesis
    by (intro failed[of x]) (auto simp: read_packet_def read_sealed_def read_exact_def fail_def flat_def trace.defs)
next
  case (Inr q)
  obtain b u where f: "fill_until E 4 s = Inr (b, u)" using Inr by (cases q) auto
  note u = fill_until_flat[OF f]
  have inb: "length (inbuf u) \<le> max (length (inbuf s)) 35020" using u(8) by simp
  show ?thesis
  proof (cases b)
    case False
    then show ?thesis
      using f u inb fill_until_cut[of E 4 s u] by (intro cut[of u]) (auto simp: read_packet_def)
  next
    case b: True
    have len4: "take 4 (inbuf u) = take 4 (inbuf s @ inp s)" "4 \<le> length (inbuf s @ inp s)"
      using u(2) u(3)[OF b] by (metis take_append diff_is_0_eq take0 append_Nil2, metis length_append trans_le_add1)
    show ?thesis
    proof (cases "frame_body_len E (rx s) (seq_rx s) (take 4 (inbuf s @ inp s))")
      case (Inl e)
      then show ?thesis
        using f u b len4
        by (intro failed[of "(e, trace.truncate s)"])
          (auto simp: read_packet_def read_sealed_def read_exact_def fail_def flat_def trace.defs Let_def)
    next
      case bl: (Inr k)
      have k: "k \<le> 35016"
        using bl body_len_bounds by (simp add: frame_body_len_def)
      have fl: "inp (flat s) = inbuf s @ inp s" "rx (flat s) = rx s" "seq_rx (flat s) = seq_rx s"
        by (simp_all add: flat_def)
      show ?thesis
      proof (cases "fill_until E (4 + k) u")
        case (Inl x)
        then have "x = (Io, trace.truncate s)" "length (inbuf s @ inp s) < 4 + k"
          using fill_until_Inl[OF Inl] u by (simp_all flip: length_append)
        then show ?thesis
          using f u b len4 bl Inl
          by (intro failed[of x])
            (auto simp: read_packet_def read_sealed_def read_exact_def fail_def flat_def trace.defs Let_def)
      next
        case (Inr q)
        obtain c v where g: "fill_until E (4 + k) u = Inr (c, v)" using Inr by (cases q) auto
        note v = fill_until_flat[OF g]
        show ?thesis
        proof (cases c)
          case False
          then show ?thesis
            using f g u v b bl len4 k fill_until_cut[of E "4 + k" u v]
            by (intro cut[of v]) (auto simp: read_packet_def Let_def)
        next
          case c: True
          have fr: "take (4 + k) (inbuf v) = take (4 + k) (inbuf s @ inp s)" "4 + k \<le> length (inbuf s @ inp s)"
            "drop (4 + k) (inbuf v) @ inp v = drop (4 + k) (inbuf s @ inp s)"
            unfolding u(2)[symmetric] v(2)[symmetric] using v(3)[OF c] by simp_all
          obtain c' r where o: "open_frame E (rx s) (seq_rx s) (take 4 (inbuf s @ inp s))
              (take k (drop 4 (inbuf s @ inp s))) = (c', r)"
            by fastforce
          have body: "drop 4 (take (4 + k) (inbuf v)) = take k (drop 4 (inbuf s @ inp s))"
            unfolding fr(1) drop_take by simp
          show ?thesis
          proof (cases r)
            case (Inl e)
            then show ?thesis
              using f g u v b c bl len4 fr(2) body o
              by (intro failed[of "(e, trace.truncate s)"])
                (auto simp: read_packet_def read_sealed_def read_exact_def fail_def flat_def trace.defs Let_def)
          next
            case (Inr p)
            let ?v = "v\<lparr>inbuf := drop (4 + k) (inbuf v), rx := c', seq_rx := seq_rx s + 1,
                bytes_rx := sat_add (bytes_rx s) (length p)\<rparr>"
            have rp: "read_packet E s = Inr (Some p, ?v)"
              using f g u v b c bl len4 body o Inr by (simp add: read_packet_def Let_def)
            have "flat ?v = (flat s)\<lparr>inp := drop (4 + k) (inp (flat s)), rx := c', seq_rx := seq_rx (flat s) + 1\<rparr>"
              unfolding fl u(1)[symmetric] v(1)[symmetric] fr(3)[symmetric]
              by (rule session.equality) (use u(5) v(5) v(3)[OF c] in \<open>simp_all add: flat_def\<close>)
            moreover have "read_sealed E (flat s) = Inr (p, (flat s)\<lparr>inp := drop (4 + k) (inp (flat s)),
                rx := c', seq_rx := seq_rx (flat s) + 1\<rparr>)"
              by (rule read_sealed_split) (simp_all only: fl fr(2) bl o Inr)
            ultimately have "read_sealed E (flat s) = Inr (p, flat ?v)" by simp
            then show ?thesis
              by (rule packet[OF rp]) (use u v k in auto)
          qed
        qed
      qed
    qed
  qed
qed

text \<open>
  C8 (refinement). The cancel-safe reader is the handshake's \<^verbatim>\<open>read_sealed\<close> on the stream with the buffered
  bytes put back, however the network cuts the bytes and wherever a \<^verbatim>\<open>select!\<close> drops the read: a
  packet it returns is the one \<^verbatim>\<open>read_sealed\<close> returns, in the same state; a dropped read loses nothing;
  it fails as \<^verbatim>\<open>read_sealed\<close> fails, and the payload is counted. The buffer never holds more than one
  frame (35020 bytes) unless it did before.
\<close>

theorem read_packet_refines:
  "(case read_packet E s of
      Inr (Some p, s') \<Rightarrow> read_sealed E (flat s) = Inr (p, flat s') \<and>
        bytes_rx s' = sat_add (bytes_rx s) (length p) \<and> length (inbuf s') \<le> max (length (inbuf s)) 35020
    | Inr (None, s') \<Rightarrow> flat s' = flat s \<and> length (inbuf s') \<le> max (length (inbuf s)) 35020 \<and>
        (\<exists>i. chunk E i = 0)
    | Inl x \<Rightarrow> read_sealed E (flat s) = Inl x)"
  by (rule read_packet_cases[of E s]) simp_all

text \<open>A driver polls the reader over and over: \<open>k\<close> polls, and the packets they returned.\<close>

fun poll_packets :: "env \<Rightarrow> nat \<Rightarrow> session \<Rightarrow> (bytes list \<times> session) outcome" where
  "poll_packets E 0 s = Inr ([], s)"
| "poll_packets E (Suc k) s =
     try_bind (read_packet E s) (\<lambda>(q, s).
     try_bind (poll_packets E k s) (\<lambda>(ps, s).
     Inr ((case q of None \<Rightarrow> ps | Some p \<Rightarrow> p # ps), s)))"

fun read_all_sealed :: "env \<Rightarrow> nat \<Rightarrow> session \<Rightarrow> (bytes list \<times> session) outcome" where
  "read_all_sealed E 0 s = Inr ([], s)"
| "read_all_sealed E (Suc k) s =
     try_bind (read_sealed E s) (\<lambda>(p, s).
     try_bind (read_all_sealed E k s) (\<lambda>(ps, s). Inr (p # ps, s)))"

text \<open>
  C34 (equivalence). Over a whole session, any interleaving of partial and cancelled reads delivers the
  packets of the byte stream in order, none lost, repeated or cut: they are those of as many
  uninterrupted \<^verbatim>\<open>read_sealed\<close>, and an error is one that these would meet.
\<close>

theorem poll_packets_equiv:
  "(case poll_packets E k s of
      Inr (ps, s') \<Rightarrow> read_all_sealed E (length ps) (flat s) = Inr (ps, flat s')
    | Inl x \<Rightarrow> \<exists>n. read_all_sealed E n (flat s) = Inl x)"
proof (induction k arbitrary: s)
  case 0
  then show ?case by simp
next
  case (Suc k)
  show ?case
  proof (cases rule: read_packet_cases[of E s])
    case (cut u)
    then show ?thesis
      using Suc.IH[of u] by (auto simp: try_bind_def split: sum.splits)
  next
    case (packet p u)
    then have r: "read_all_sealed E (Suc n) (flat s) =
        try_bind (read_all_sealed E n (flat u)) (\<lambda>(ps, s). Inr (p # ps, s))" for n
      by simp
    show ?thesis
    proof (cases "poll_packets E k u")
      case (Inl x)
      then obtain n where "read_all_sealed E n (flat u) = Inl x" using Suc.IH[of u] by auto
      then show ?thesis using packet Inl r[of n] by (auto intro!: exI[of _ "Suc n"])
    next
      case (Inr q)
      then show ?thesis using packet r Suc.IH[of u] by (cases q) simp
    qed
  next
    case (failed x)
    then show ?thesis by (auto intro!: exI[of _ 1])
  qed
qed

end
