(* ===== verification/Rekey.thy ===== *)
theory Rekey
  imports Session
begin

text \<open>
  Properties of the re-keying sub-machine of \<^verbatim>\<open>Session\<close>: it refines the re-key protocol of RFC 4253
  section 9, it is total and fails closed, its keys are bound to its transcript and to the session
  identifier of the first exchange, and it completes with a peer that follows the protocol.
\<close>

section \<open>What the re-keying operations leave alone\<close>

lemma write_packet_frame:
  assumes "write_packet E p s = Inr s'"
  shows "sent s' = sent s @ [p]" "audit s' = audit s" "inp s' = inp s" "seq_rx s' = seq_rx s" "rx s' = rx s"
    "tx s' = cipher_advance 1 (tx s)" "seq_tx s' = seq_tx s + 1" "session_id s' = session_id s"
    "client_id s' = client_id s" "authenticated s' = authenticated s" "inbuf s' = inbuf s" "host_key s' = host_key s"
    "bytes_rx s' = bytes_rx s" "bytes_tx s' = sat_add (bytes_tx s) (length p)" "last_kex s' = last_kex s"
    "started s' = started s" "initiator s' = initiator s" "trigger s' = trigger s" "thresholds s' = thresholds s"
    "phase s' = phase s" "ticks s' = ticks s" "reads s' = reads s" "draws s' = Suc (draws s)"
  using assms by (auto simp: write_packet_def write_sealed_Inr)

lemma send_packet_ok:
  assumes "send_msg (write_packet E) m s = Inr s'"
  obtains p where "m = Some p" "write_packet E p s = Inr s'"
  using assms by (auto simp: send_msg_def fail_def split: option.splits)

lemma negotiate_rekey_ok:
  "negotiate_rekey E p s = Inr n \<longleftrightarrow> try_bind (parse_kexinit p) (\<lambda>peer. negotiate peer False) = Inr n"
  by (auto simp: negotiate_rekey_def split: sum.splits kex_error.splits)

lemma rekey_kexinit_built:
  assumes "build_rekey_kexinit fill = Inr m"
  obtains p where "m = Some (SSH_MSG_KEXINIT # p)" "fills fill \<longrightarrow> length (SSH_MSG_KEXINIT # p) \<le> 34987"
proof -
  have l: "length KEX_LIST_REKEY \<le> 50" "length HOST_KEY_LIST = 19" "length ENCRYPTION_LIST = 52" "length MAC_LIST = 29"
    "length COMPRESSION_LIST = 4"
    by code_simp+
  then show ?thesis
    using assms by (auto simp: build_rekey_kexinit_def build_kexinit_with_Inr_iff fills_def msg_defs intro!: that)
qed

lemma complete_rekey_reply_ok:
  assumes "complete_rekey_reply E p theirs ours n s = Inr (r, s')"
  obtains ci fill out blob h sig new_rx new_tx reply u v where
    "read_client_init (tl p) = Inr (ci, [])" "hybrid_exchange_with (kem E) ci fill = Inr out"
    "public_key_blob (host_key s) = Some blob"
    "exchange_hash (sha256 (kem E))
       \<lparr>eh_client_id = client_id s, eh_server_id = SERVER_ID, eh_client_kexinit = theirs, eh_server_kexinit = ours,
        eh_host_key_blob = blob, eh_client_init = ci, eh_server_reply = server_reply out,
        eh_shared_secret = shared_secret out\<rparr> = Some h"
    "host_key_sign (sigp E) (host_key s) h = Inr (Some sig)"
    "derive_cipher_pair E (shared_secret out) h (session_id s) (cipher_c2s n) (cipher_s2c n) = Inr (new_rx, new_tx)"
    "hybrid_reply blob (server_reply out) sig = Some reply"
    "write_packet E reply (s\<lparr>draws := draws s + 2\<rparr>) = Inr u" "write_packet E [SSH_MSG_NEWKEYS] u = Inr v"
    "r = Continued" "s' = v\<lparr>tx := new_tx, seq_tx := 0, phase := AwaitNewKeys new_rx\<rparr>"
proof -
  have upd: "host_key (s\<lparr>draws := x\<rparr>) = host_key s" "client_id (s\<lparr>draws := x\<rparr>) = client_id s"
    "session_id (s\<lparr>draws := x\<rparr>) = session_id s" for x
    by simp_all
  note k = assms[unfolded complete_rekey_reply_def Let_def upd]
  obtain ci rest where ci: "read_client_init (tl p) = Inr (ci, rest)" using k by (auto split: sum.splits)
  have rest: "rest = []" using ci by (simp add: read_client_init_Inr)
  let ?fill = "\<lambda>i. rand E (draws s + i)"
  note k = k[unfolded ci sum.case prod.case]
  obtain out where out: "hybrid_exchange_with (kem E) ci ?fill = Inr out"
    using k by (auto split: sum.splits kex_error.splits)
  note k = k[unfolded out sum.case]
  obtain blob where blob: "public_key_blob (host_key s) = Some blob" using k by (auto simp: fail_def split: option.splits)
  note k = k[unfolded blob option.case]
  obtain h where h: "exchange_hash (sha256 (kem E))
       \<lparr>eh_client_id = client_id s, eh_server_id = SERVER_ID, eh_client_kexinit = theirs, eh_server_kexinit = ours,
        eh_host_key_blob = blob, eh_client_init = ci, eh_server_reply = server_reply out,
        eh_shared_secret = shared_secret out\<rparr> = Some h"
    using k by (auto simp: fail_def split: option.splits)
  note k = k[unfolded h option.case]
  obtain sig where sig: "host_key_sign (sigp E) (host_key s) h = Inr (Some sig)"
    using k by (auto simp: fail_def split: option.splits sum.splits)
  note k = k[unfolded sig option.case sum.case]
  obtain new_rx new_tx where d:
    "derive_cipher_pair E (shared_secret out) h (session_id s) (cipher_c2s n) (cipher_s2c n) = Inr (new_rx, new_tx)"
    using k by (auto simp: fail_def split: sum.splits prod.splits)
  note k = k[unfolded d sum.case prod.case]
  from k obtain u where u: "send_msg (write_packet E) (hybrid_reply blob (server_reply out) sig) (s\<lparr>draws := draws s + 2\<rparr>) = Inr u"
    "try_bind (write_packet E [SSH_MSG_NEWKEYS] u) (\<lambda>s. Inr (Continued, s\<lparr>tx := new_tx, seq_tx := 0, phase := AwaitNewKeys new_rx\<rparr>)) = Inr (r, s')"
    by (auto simp: try_bind_Inr_iff)
  from u(2) obtain v where v: "write_packet E [SSH_MSG_NEWKEYS] u = Inr v" "r = Continued"
    "s' = v\<lparr>tx := new_tx, seq_tx := 0, phase := AwaitNewKeys new_rx\<rparr>"
    by (auto simp: try_bind_Inr_iff)
  from u(1) obtain reply where reply: "hybrid_reply blob (server_reply out) sig = Some reply"
    "write_packet E reply (s\<lparr>draws := draws s + 2\<rparr>) = Inr u"
    by (rule send_packet_ok)
  show ?thesis by (rule that[OF ci[unfolded rest] out blob h sig d reply v])
qed

section \<open>The protocol of a re-key\<close>

text \<open>
  RFC 4253 section 9 as a machine: where a re-key stands, the message that arrives, the messages
  answered, what the channel layer is told, and where it stands then. \<open>Agreed True\<close> still has to
  drop the packet the peer guessed wrongly.
\<close>

datatype rekey_stage = Settled | Offered | Agreed bool | Switched

inductive rekey_protocol :: "rekey_stage \<Rightarrow> u8 \<Rightarrow> u8 list \<Rightarrow> rekey_step \<Rightarrow> rekey_stage \<Rightarrow> bool" where
  peer_offers: "rekey_protocol Settled SSH_MSG_KEXINIT [SSH_MSG_KEXINIT] Continued (Agreed g)"
| peer_answers: "rekey_protocol Offered SSH_MSG_KEXINIT [] Continued (Agreed g)"
| late_data: "m \<noteq> SSH_MSG_KEXINIT \<Longrightarrow> rekey_protocol Offered m [] PassToChannel Offered"
| guessed: "rekey_protocol (Agreed True) m [] Continued (Agreed False)"
| exchanged: "rekey_protocol (Agreed False) SSH_MSG_KEX_HYBRID_INIT
    [SSH_MSG_KEX_HYBRID_REPLY, SSH_MSG_NEWKEYS] Continued Switched"
| peer_switched: "rekey_protocol Switched SSH_MSG_NEWKEYS [] Completed Settled"

fun stage_of :: "rekey_phase \<Rightarrow> rekey_stage" where
  "stage_of RkIdle = Settled"
| "stage_of (SentKexInit ours) = Offered"
| "stage_of (AwaitHybridInit theirs ours n g) = Agreed g"
| "stage_of (AwaitNewKeys c) = Switched"

definition message_number :: "bytes \<Rightarrow> u8" where
  "message_number p = (case p of [] \<Rightarrow> 0 | b # _ \<Rightarrow> b)"

text \<open>
  What every step keeps: the identifier of the first exchange, the peer's identification, the host
  key, the identity, the input still to be read; and the counters of the direction it does not
  switch.
\<close>

definition same_session :: "session \<Rightarrow> session \<Rightarrow> bool" where
  "same_session s s' \<longleftrightarrow>
     session_id s' = session_id s \<and> client_id s' = client_id s \<and> host_key s' = host_key s \<and>
     authenticated s' = authenticated s \<and> inp s' = inp s \<and> inbuf s' = inbuf s \<and> thresholds s' = thresholds s"

definition rekey_effect :: "bytes list \<Rightarrow> rekey_step \<Rightarrow> session \<Rightarrow> session \<Rightarrow> bool" where
  "rekey_effect ms r s s' \<longleftrightarrow>
     same_session s s' \<and> sent s' = sent s @ ms \<and>
     (if r = Completed
      then phase s = AwaitNewKeys (rx s') \<and> seq_rx s' = 0 \<and> bytes_rx s' = 0 \<and> bytes_tx s' = 0 \<and>
        (\<exists>secs. audit s' = audit s @ [RekeyCompleted (initiator s) (trigger s) (bytes_rx s) (bytes_tx s) secs])
      else rx s' = rx s \<and> seq_rx s' = seq_rx s \<and> bytes_rx s' = bytes_rx s \<and> audit s' = audit s) \<and>
     (if stage_of (phase s) = Agreed False then seq_tx s' = 0
      else tx s' = cipher_advance (length ms) (tx s) \<and> seq_tx s' = seq_tx s + word_of_nat (length ms))"

lemma kexinit_not_zero [simp]: "SSH_MSG_KEXINIT \<noteq> 0" "0 \<noteq> SSH_MSG_KEXINIT"
  by (simp_all add: msg_defs)

lemma hybrid_reply_head: "hybrid_reply a b c = Some m \<Longrightarrow> \<exists>x. m = SSH_MSG_KEX_HYBRID_REPLY # x"
  by (auto simp: hybrid_reply_def writer_simps split: if_splits)

lemma step_rekey_sound:
  assumes "step_rekey E p s = Inr (r, s')"
  shows "\<exists>ms. [] \<notin> set ms \<and> rekey_effect ms r s s' \<and>
    rekey_protocol (stage_of (phase s)) (message_number p) (map hd ms) r (stage_of (phase s'))"
proof (cases "phase s")
  case RkIdle
  then have m: "message_number p = SSH_MSG_KEXINIT"
    using assms by (auto simp: step_rekey_def Let_def message_number_def split: if_splits)
  let ?s = "s\<lparr>phase := RkIdle, ticks := Suc (ticks s), started := mono E (ticks s), initiator := ''peer'',
      trigger := ''peer'', draws := Suc (draws s)\<rparr>"
  obtain ours where b: "build_rekey_kexinit (rand E (draws s)) = Inr ours"
    using assms m RkIdle by (auto simp: step_rekey_def Let_def message_number_def now_def draw_def fail_def split: sum.splits)
  from b obtain q where q: "ours = Some (SSH_MSG_KEXINIT # q)" by (rule rekey_kexinit_built)
  obtain u n where u: "write_packet E (SSH_MSG_KEXINIT # q) ?s = Inr u" and r: "r = Continued"
    "s' = u\<lparr>phase := AwaitHybridInit p (SSH_MSG_KEXINIT # q) n (skip_guessed_packet n)\<rparr>"
    using assms m RkIdle b q
    by (auto simp: step_rekey_def Let_def message_number_def now_def draw_def try_bind_Inr_iff send_msg_def)
  show ?thesis
    using write_packet_frame[OF u] r RkIdle m
    by (auto simp: rekey_effect_def same_session_def intro!: exI[of _ "[SSH_MSG_KEXINIT # q]"] rekey_protocol.intros)
next
  case (SentKexInit ours)
  then show ?thesis
    using assms
    by (auto simp: step_rekey_def Let_def message_number_def rekey_effect_def same_session_def try_bind_Inr_iff
        intro!: exI[of _ "[]"] rekey_protocol.intros split: if_splits list.splits)
next
  case ph: (AwaitHybridInit theirs ours n g)
  show ?thesis
  proof (cases g)
    case True
    then show ?thesis
      using assms ph
      by (auto simp: step_rekey_def Let_def message_number_def rekey_effect_def same_session_def
          intro!: exI[of _ "[]"] rekey_protocol.intros)
  next
    case False
    then have m: "message_number p = SSH_MSG_KEX_HYBRID_INIT"
      and c: "complete_rekey_reply E p theirs ours n (s\<lparr>phase := RkIdle\<rparr>) = Inr (r, s')"
      using assms ph by (auto simp: step_rekey_def Let_def message_number_def split: if_splits)
    from c show ?thesis
    proof (rule complete_rekey_reply_ok)
      fix ci fill out blob h sig new_rx new_tx reply u v
      assume rep: "hybrid_reply blob (server_reply out) sig = Some reply" and r: "r = Continued"
        and u: "write_packet E reply (s\<lparr>phase := RkIdle, draws := draws (s\<lparr>phase := RkIdle\<rparr>) + 2\<rparr>) = Inr u"
        and v: "write_packet E [SSH_MSG_NEWKEYS] u = Inr v"
        and s': "s' = v\<lparr>tx := new_tx, seq_tx := 0, phase := AwaitNewKeys new_rx\<rparr>"
      obtain x where x: "reply = SSH_MSG_KEX_HYBRID_REPLY # x" using hybrid_reply_head[OF rep] by blast
      show ?thesis
        using write_packet_frame[OF u] write_packet_frame[OF v] r s' ph False m x
        by (auto simp: rekey_effect_def same_session_def
            intro!: exI[of _ "[reply, [SSH_MSG_NEWKEYS]]"] rekey_protocol.intros)
    qed
  qed
next
  case (AwaitNewKeys c)
  then show ?thesis
    using assms
    by (auto simp: step_rekey_def Let_def message_number_def rekey_effect_def same_session_def now_def
        intro!: exI[of _ "[]"] rekey_protocol.intros split: if_splits list.splits)
qed


lemma message_number_simps [simp]: "message_number (m # b) = m" "message_number [] = 0"
  by (simp_all add: message_number_def)

text \<open>
  The half-duplex rule of RFC 4253 section 9 over the packets sent: between a KEXINIT and the NEWKEYS that
  answers it, nothing but the key exchange, or a DISCONNECT. \<open>None\<close> if it is broken, else whether
  the window is open at the end.
\<close>

fun window_after :: "bool \<Rightarrow> bytes list \<Rightarrow> bool option" where
  "window_after w [] = Some w"
| "window_after w (m # ms) =
     (if w then
        if message_number m = SSH_MSG_NEWKEYS then window_after False ms
        else if message_number m \<in> {SSH_MSG_KEX_HYBRID_REPLY, SSH_MSG_DISCONNECT} then window_after True ms
        else None
      else window_after (message_number m = SSH_MSG_KEXINIT) ms)"

lemma window_after_append:
  "window_after w (xs @ ys) = Option.bind (window_after w xs) (\<lambda>w. window_after w ys)"
  by (induction w xs rule: window_after.induct) auto

definition in_kex :: "rekey_phase \<Rightarrow> bool" where
  "in_kex ph \<longleftrightarrow> (case ph of SentKexInit _ \<Rightarrow> True | AwaitHybridInit _ _ _ _ \<Rightarrow> True | _ \<Rightarrow> False)"

lemma in_kex_simps [simp]: "\<not> in_kex RkIdle" "in_kex (SentKexInit a)" "in_kex (AwaitHybridInit a b c g)"
  "\<not> in_kex (AwaitNewKeys x)"
  by (simp_all add: in_kex_def)

text \<open>What a re-key may put on the wire when it fails: key-exchange messages and one DISCONNECT.\<close>

definition kex_traffic :: "bool \<Rightarrow> trace \<Rightarrow> trace \<Rightarrow> bool" where
  "kex_traffic w t t' \<longleftrightarrow>
     (\<exists>ms. sent t' = sent t @ ms \<and> window_after w ms \<noteq> None \<and>
       (\<forall>m\<in>set ms. m \<noteq> [] \<and> hd m \<in> {SSH_MSG_KEXINIT, SSH_MSG_KEX_HYBRID_REPLY, SSH_MSG_NEWKEYS, SSH_MSG_DISCONNECT})) \<and>
     (audit t' = audit t \<or> (\<exists>r. audit t' = audit t @ [KexFailedEvent r DISCONNECT_KEY_EXCHANGE_FAILED]))"

lemma kex_traffic_refl [simp]: "sent t' = sent t \<Longrightarrow> audit t' = audit t \<Longrightarrow> kex_traffic w t t'"
  by (simp add: kex_traffic_def)

text \<open>An outcome of a re-keying step that started with trace \<open>t\<close>, and how such outcomes compose.\<close>

definition rekey_fails :: "bool \<Rightarrow> trace \<Rightarrow> 'a outcome \<Rightarrow> bool" where
  "rekey_fails w t m \<longleftrightarrow>
     (case m of Inr x \<Rightarrow> True
      | Inl (e, t') \<Rightarrow> kex_traffic w t t' \<and> (e = Io \<or> (\<exists>r. e = Rejected r)))"

lemma rekey_fails_simps [simp]:
  "rekey_fails w t (Inr x)" "sent s = sent t \<Longrightarrow> audit s = audit t \<Longrightarrow> rekey_fails w t (fail Io s)"
  by (simp_all add: rekey_fails_def fail_def)

lemma rekey_fails_send:
  assumes "hd p \<in> {SSH_MSG_KEXINIT, SSH_MSG_KEX_HYBRID_REPLY, SSH_MSG_NEWKEYS}" and "p \<noteq> []"
    and "window_after w [p] = Some w'"
    and "\<And>u. write_packet E p s = Inr u \<Longrightarrow> rekey_fails w' (trace.truncate u) (k u)"
    and "sent s = sent t" and "audit s = audit t"
  shows "rekey_fails w t (try_bind (write_packet E p s) k)"
proof (cases "write_packet E p s")
  case (Inl x)
  then show ?thesis using session_w.send_err[OF Inl] assms(5,6) by (simp add: rekey_fails_def)
next
  case (Inr u)
  have w: "window_after w (p # ms) = window_after w' ms" for ms
    using window_after_append[of w "[p]" ms] unfolding assms(3) by simp
  have t: "kex_traffic w t t'" if tr: "kex_traffic w' (trace.truncate u) t'" for t'
  proof -
    obtain ms where "sent t' = sent u @ ms" "window_after w' ms \<noteq> None" "\<forall>m\<in>set ms. m \<noteq> [] \<and>
        hd m \<in> {SSH_MSG_KEXINIT, SSH_MSG_KEX_HYBRID_REPLY, SSH_MSG_NEWKEYS, SSH_MSG_DISCONNECT}"
      using tr unfolding kex_traffic_def by auto
    then have "sent t' = sent t @ (p # ms)" "window_after w (p # ms) \<noteq> None" "\<forall>m\<in>set (p # ms). m \<noteq> [] \<and>
        hd m \<in> {SSH_MSG_KEXINIT, SSH_MSG_KEX_HYBRID_REPLY, SSH_MSG_NEWKEYS, SSH_MSG_DISCONNECT}"
      using write_packet_frame(1)[OF Inr] assms(1,2,5) by (auto simp: w simp del: window_after.simps)
    moreover have "audit (trace.truncate u) = audit t" using write_packet_frame(2)[OF Inr] assms(6) by simp
    ultimately show ?thesis using tr unfolding kex_traffic_def by metis
  qed
  show ?thesis
    using assms(4)[OF Inr] t by (auto simp: Inr rekey_fails_def split: sum.splits)
qed

lemma rekey_fails_disconnect:
  assumes "length r \<le> u32_max" and "sent s = sent t" and "audit s = audit t"
  shows "rekey_fails w t (Inl (protocol_disconnect E r s))"
proof -
  obtain t' where "protocol_disconnect E r s = (Rejected r, t')" "audit t' = audit s"
    "sent t' = sent s \<or> (\<exists>b. sent t' = sent s @ [SSH_MSG_DISCONNECT # b])"
    using sealed_w.disconnect_trace[of "protocol_error r" E s] assms(1)
    unfolding protocol_disconnect_def by (auto simp: protocol_error_def)
  then show ?thesis using assms(2,3) by (auto simp: rekey_fails_def kex_traffic_def msg_defs)
qed

lemma rekey_fails_reject:
  assumes "length (reason r) \<le> u32_max" and "disconnect_code r = DISCONNECT_KEY_EXCHANGE_FAILED"
    and "sent s = sent t" and "audit s = audit t"
  shows "rekey_fails w t (Inl (rekey_reject E r s))"
proof -
  let ?s = "s\<lparr>audit := audit s @ [KexFailedEvent (reason r) (disconnect_code r)]\<rparr>"
  obtain t' where "rekey_reject E r s = (Rejected (reason r), t')" "audit t' = audit ?s"
    "sent t' = sent ?s \<or> (\<exists>b. sent t' = sent ?s @ [SSH_MSG_DISCONNECT # b])"
    unfolding rekey_reject_def using sealed_w.disconnect_trace[OF assms(1), of E ?s] by metis
  then show ?thesis using assms(2-4) by (auto simp: rekey_fails_def kex_traffic_def msg_defs)
qed

lemma kex_codes:
  "try_bind (parse_kexinit p) (\<lambda>peer. negotiate peer i) = Inl (KexRejected r) \<Longrightarrow>
     disconnect_code r = DISCONNECT_KEY_EXCHANGE_FAILED"
  "hybrid_exchange_with K ci fill = Inl (KexRejected r) \<Longrightarrow> disconnect_code r = DISCONNECT_KEY_EXCHANGE_FAILED"
  by (auto simp: try_bind_iff parse_kexinit_def map_err_def negotiate_def hybrid_exchange_with_def Let_def kex_failed_def
      split: if_splits option.splits sum.splits prod.splits)

lemma negotiate_rekey_fails:
  assumes "sent s = sent t" and "audit s = audit t" and "\<And>n. negotiate_rekey E p s = Inr n \<Longrightarrow> rekey_fails w t (k n)"
  shows "rekey_fails w t (try_bind (negotiate_rekey E p s) k)"
proof (cases "try_bind (parse_kexinit p) (\<lambda>peer. negotiate peer False)")
  case (Inr n)
  then show ?thesis using assms(3)[of n] by (simp add: negotiate_rekey_def)
next
  case (Inl e)
  then show ?thesis
    using assms(1,2) kex_codes(1)[of p False] kex_reasons(1)[of p False]
    by (cases e) (simp_all add: negotiate_rekey_def rekey_fails_reject rekey_fails_disconnect)
qed

section \<open>Re-keying never gets stuck on its own state\<close>

text \<open>The state a re-key needs: a usable host key and transcripts that fit the exchange hash.\<close>

definition profile_ciphers :: "negotiated \<Rightarrow> bool" where
  "profile_ciphers n \<longleftrightarrow>
     cipher_c2s n \<in> {CHACHA20_POLY1305, AES256_GCM} \<and> cipher_s2c n \<in> {CHACHA20_POLY1305, AES256_GCM}"

definition rekey_wf :: "env \<Rightarrow> session \<Rightarrow> bool" where
  "rekey_wf E s \<longleftrightarrow> server_key E (host_key s) \<and> length (client_id s) \<le> 255 \<and>
     (case phase s of
        SentKexInit ours \<Rightarrow> length ours \<le> 34987
      | AwaitHybridInit theirs ours n g \<Rightarrow> length theirs \<le> 35000 \<and> length ours \<le> 34987 \<and> profile_ciphers n
      | _ \<Rightarrow> True)"

lemma negotiate_rekey_profile: "negotiate_rekey E p s = Inr n \<Longrightarrow> profile_ciphers n"
  by (auto simp: negotiate_rekey_ok try_bind_Inr_iff profile_ciphers_def dest: negotiate_ciphers)

lemma complete_rekey_reply_fails:
  assumes "crypto_ok E" and "server_key E (host_key s)" and "length (client_id s) \<le> 255"
    and "length theirs \<le> 35000" and "length ours \<le> 34987" and "profile_ciphers n"
    and "sent s = sent t" and "audit s = audit t" and w
  shows "rekey_fails w t (complete_rekey_reply E p theirs ours n s)"
proof (cases "read_client_init (tl p)")
  case (Inl e)
  then show ?thesis using assms(7,8) by (simp add: complete_rekey_reply_def rekey_fails_disconnect)
next
  case (Inr x)
  obtain ci rest where ci: "read_client_init (tl p) = Inr (ci, rest)" using Inr by (cases x) simp
  have k: "kem_ok (kem E)" "sig_ok (sigp E)" using assms(1) by (simp_all add: crypto_ok_def)
  let ?fill = "\<lambda>i. rand E (draws s + i)"
  show ?thesis
  proof (cases "hybrid_exchange_with (kem E) ci ?fill")
    case (Inl e)
    then show ?thesis
      using assms(7,8) kex_codes(2)[of "kem E" ci ?fill] kex_reasons(2)[of "kem E" ci ?fill] ci
      by (cases e) (simp_all add: complete_rekey_reply_def rekey_fails_disconnect rekey_fails_reject)
  next
    case out: (Inr out)
    note ol = hybrid_out_lengths[OF k(1) out]
    obtain blob where blob: "public_key_blob (host_key s) = Some blob" "length blob = 1371"
      by (rule server_key_blob[OF k(2) assms(2)])
    let ?x = "\<lparr>eh_client_id = client_id s, eh_server_id = SERVER_ID, eh_client_kexinit = theirs,
       eh_server_kexinit = ours, eh_host_key_blob = blob, eh_client_init = ci, eh_server_reply = server_reply out,
       eh_shared_secret = shared_secret out\<rparr>"
    obtain h where h: "exchange_hash (sha256 (kem E)) ?x = Some h"
      by (rule exchange_hash_works[OF k(1), of ?x]) (use assms(3-5) ol blob in simp_all)
    obtain r c where d: "derive_cipher_pair E (shared_secret out) h (session_id s) (cipher_c2s n) (cipher_s2c n) = Inr (r, c)"
      using assms(6) ol derive_cipher_pair_works[OF k(1)] unfolding profile_ciphers_def by metis
    show ?thesis
    proof (cases "host_key_sign (sigp E) (host_key s) h")
      case (Inl e)
      then show ?thesis
        using ci out blob h assms(7,8)
        by (simp add: complete_rekey_reply_def, intro rekey_fails_reject) (simp_all add: kex_failed_def)
    next
      case (Inr sg)
      obtain g where g: "sg = Some g" "length g = 2511" by (rule server_key_signature[OF k(2) Inr])
      obtain q where q: "hybrid_reply blob (server_reply out) g = Some q"
        by (rule hybrid_reply_works[OF blob(2) ol(1) g(2)])
      obtain y where y: "q = SSH_MSG_KEX_HYBRID_REPLY # y" using hybrid_reply_head[OF q] by blast
      show ?thesis
        using ci out blob h d Inr g q y assms(7-9)
        by (auto simp: complete_rekey_reply_def send_msg_def msg_defs intro!: rekey_fails_send)
    qed
  qed
qed

lemma step_rekey_fails:
  assumes "crypto_ok E" and "\<forall>i. fills (rand E i)" and "rekey_wf E s"
  shows "rekey_fails (in_kex (phase s)) (trace.truncate s) (step_rekey E p s)"
proof (cases "phase s")
  case RkIdle
  show ?thesis
  proof (cases "build_rekey_kexinit (rand E (draws s))")
    case (Inl e)
    then show ?thesis
      using RkIdle by (simp add: step_rekey_def Let_def now_def draw_def rekey_fails_disconnect)
  next
    case (Inr m)
    obtain q where q: "m = Some (SSH_MSG_KEXINIT # q)" using Inr by (rule rekey_kexinit_built)
    then show ?thesis
      using RkIdle Inr
      by (auto simp: step_rekey_def Let_def now_def draw_def rekey_fails_disconnect send_msg_def
          intro!: rekey_fails_send negotiate_rekey_fails)
  qed
next
  case (SentKexInit ours)
  then show ?thesis
    by (auto simp: step_rekey_def Let_def intro!: negotiate_rekey_fails)
next
  case (AwaitHybridInit theirs ours n g)
  then show ?thesis
    using assms(1,3)
    by (auto simp: step_rekey_def Let_def rekey_wf_def rekey_fails_disconnect intro!: complete_rekey_reply_fails)
next
  case (AwaitNewKeys c)
  then show ?thesis by (auto simp: step_rekey_def Let_def now_def rekey_fails_disconnect)
qed

lemma rekey_fills: "build_rekey_kexinit fill = Inr (Some p) \<Longrightarrow> fills fill \<Longrightarrow> length p \<le> 34987"
  by (rule rekey_kexinit_built[of fill "Some p"]) auto

lemma step_rekey_wf:
  assumes "\<forall>i. fills (rand E i)" and "rekey_wf E s" and "length p \<le> 35000" and "step_rekey E p s = Inr (r, s')"
  shows "rekey_wf E s'"
proof -
  obtain ms where e: "rekey_effect ms r s s'" using step_rekey_sound[OF assms(4)] by blast
  have "server_key E (host_key s')" "length (client_id s') \<le> 255"
    using e assms(2) by (simp_all add: rekey_effect_def same_session_def rekey_wf_def)
  moreover have "case phase s' of SentKexInit ours \<Rightarrow> length ours \<le> 34987
      | AwaitHybridInit theirs ours n g \<Rightarrow> length theirs \<le> 35000 \<and> length ours \<le> 34987 \<and> profile_ciphers n
      | _ \<Rightarrow> True"
  proof (cases "phase s")
    case RkIdle
    then show ?thesis
      using assms(1,3,4) rekey_fills[of "rand E (draws s)"]
      by (auto simp: step_rekey_def Let_def now_def draw_def fail_def try_bind_Inr_iff negotiate_rekey_profile
          split: if_splits sum.splits elim!: send_packet_ok)
  next
    case (SentKexInit ours)
    then show ?thesis
      using assms(2-4)
      by (auto simp: step_rekey_def Let_def try_bind_Inr_iff negotiate_rekey_profile rekey_wf_def split: if_splits)
  next
    case (AwaitHybridInit theirs ours n g)
    then show ?thesis
      using assms(2,4)
      by (auto simp: step_rekey_def Let_def rekey_wf_def split: if_splits elim!: complete_rekey_reply_ok)
  next
    case (AwaitNewKeys c)
    then show ?thesis using assms(4) by (auto simp: step_rekey_def Let_def now_def split: if_splits)
  qed
  ultimately show ?thesis by (simp add: rekey_wf_def)
qed



text \<open>
  Re-keying is total and fails closed. From a well-formed session, whatever packet arrives
  and whatever fails, a step never panics; it either keeps the session well formed or ends it with
  an I/O error or a rejection, having sent nothing but key-exchange messages and at most the
  DISCONNECT, in keeping with the half-duplex rule, and having logged at most \<^verbatim>\<open>kex.failed\<close> with code 3.
\<close>

lemma step_rekey_total:
  assumes "crypto_ok E" and "\<forall>i. fills (rand E i)" and "rekey_wf E s" and "length p \<le> 35000"
  shows "case step_rekey E p s of
     Inr (r, s') \<Rightarrow> rekey_wf E s'
   | Inl (e, t) \<Rightarrow> kex_traffic (in_kex (phase s)) (trace.truncate s) t \<and> (e = Io \<or> (\<exists>why. e = Rejected why))"
proof (cases "step_rekey E p s")
  case (Inl x)
  then show ?thesis using step_rekey_fails[OF assms(1-3), of p] by (auto simp: rekey_fails_def split: prod.splits)
next
  case (Inr x)
  then show ?thesis using step_rekey_wf[OF assms(2-4)] by (cases x) auto
qed


section \<open>The keys of a re-key\<close>

text \<open>
  The exchange of one re-key: the client's share, the hash of this transcript under the client's
  identification and the host key, the signature over it, and the pair derived from it with the
  session identifier of the first exchange.
\<close>

definition rekey_exchange ::
  "env \<Rightarrow> session \<Rightarrow> bytes \<Rightarrow> bytes \<Rightarrow> negotiated \<Rightarrow> bytes \<Rightarrow> bytes \<Rightarrow> packet_cipher \<Rightarrow> packet_cipher \<Rightarrow> bool" where
  "rekey_exchange E s theirs ours n ci reply new_rx new_tx \<longleftrightarrow>
     (\<exists>fill out blob h sig. hybrid_exchange_with (kem E) ci fill = Inr out \<and>
        public_key_blob (host_key s) = Some blob \<and>
        exchange_hash (sha256 (kem E))
          \<lparr>eh_client_id = client_id s, eh_server_id = SERVER_ID, eh_client_kexinit = theirs, eh_server_kexinit = ours,
           eh_host_key_blob = blob, eh_client_init = ci, eh_server_reply = server_reply out,
           eh_shared_secret = shared_secret out\<rparr> = Some h \<and>
        host_key_sign (sigp E) (host_key s) h = Inr (Some sig) \<and>
        hybrid_reply blob (server_reply out) sig = Some reply \<and>
        derive_cipher_pair E (shared_secret out) h (session_id s) (cipher_c2s n) (cipher_s2c n) = Inr (new_rx, new_tx))"

lemma rekey_reply_sound:
  assumes "phase s = AwaitHybridInit theirs ours n False" and "step_rekey E p s = Inr (r, s')"
  shows "\<exists>ci reply new_rx. p = SSH_MSG_KEX_HYBRID_INIT # ssh_string ci \<and>
    rekey_exchange E s theirs ours n ci reply new_rx (tx s') \<and> sent s' = sent s @ [reply, [SSH_MSG_NEWKEYS]] \<and>
    phase s' = AwaitNewKeys new_rx \<and> seq_tx s' = 0 \<and> rx s' = rx s \<and> seq_rx s' = seq_rx s"
proof -
  have m: "p \<noteq> [] \<and> hd p = SSH_MSG_KEX_HYBRID_INIT"
    and c: "complete_rekey_reply E p theirs ours n (s\<lparr>phase := RkIdle\<rparr>) = Inr (r, s')"
    using assms by (auto simp: step_rekey_def Let_def msg_defs split: if_splits list.splits)
  from c show ?thesis
  proof (rule complete_rekey_reply_ok, goal_cases)
    case (1 ci fill out blob h sig new_rx new_tx reply u v)
    have "p = SSH_MSG_KEX_HYBRID_INIT # ssh_string ci"
      using 1(1) m by (cases p) (simp_all add: read_client_init_Inr)
    moreover have "rekey_exchange E s theirs ours n ci reply new_rx new_tx"
      using 1(2-7) unfolding rekey_exchange_def by (auto intro!: exI[of _ fill] exI[of _ out])
    ultimately show ?case
      using 1(10,11) write_packet_frame[OF 1(8)] write_packet_frame[OF 1(9)] by auto
  qed
qed

text \<open>
  C27 (safety). The keys of a re-key are bound to its transcript and to the session. When the peer's
  HYBRID_INIT is answered, the send keys installed are derived from the shared secret of that
  exchange, the hash over both KEXINITs, the identification line and the host key, and the session
  identifier of the first exchange; that hash is signed by the host key in the reply, sent
  just before NEWKEYS under the old keys. The receive keys stay the old ones and their
  replacement is only staged.
\<close>

theorem rekey_binds_transcript:
  assumes "phase s = AwaitHybridInit theirs ours n False" and "step_rekey E p s = Inr (r, s')"
  shows "\<exists>ci reply new_rx. p = SSH_MSG_KEX_HYBRID_INIT # ssh_string ci \<and>
    rekey_exchange E s theirs ours n ci reply new_rx (tx s') \<and> sent s' = sent s @ [reply, [SSH_MSG_NEWKEYS]] \<and>
    phase s' = AwaitNewKeys new_rx \<and> seq_tx s' = 0 \<and> rx s' = rx s \<and> seq_rx s' = seq_rx s"
  by (rule rekey_reply_sound[OF assms])

lemma write_packet_works:
  assumes "env_works E" and "length p \<le> 34987"
  obtains u where "write_packet E p s = Inr u"
  by (rule env_works_write[OF assms, of "s\<lparr>bytes_tx := sat_add (bytes_tx s) (length p)\<rparr>"])
    (simp add: write_packet_def that)

lemma begin_rekey_ok:
  assumes "begin_rekey E s = Inr u"
  obtains q where "phase u = SentKexInit (SSH_MSG_KEXINIT # q)" "sent u = sent s @ [SSH_MSG_KEXINIT # q]"
    "same_session s u" "audit u = audit s" "rx u = rx s" "seq_rx u = seq_rx s" "bytes_rx u = bytes_rx s"
    "tx u = cipher_advance 1 (tx s)" "seq_tx u = seq_tx s + 1" "initiator u = ''server''"
    "fills (rand E (draws s)) \<longrightarrow> length (SSH_MSG_KEXINIT # q) \<le> 34987"
proof -
  obtain m where m: "build_rekey_kexinit (rand E (draws s)) = Inr m"
    using assms by (auto simp: begin_rekey_def draw_def fail_def split: sum.splits)
  from m obtain q where q: "m = Some (SSH_MSG_KEXINIT # q)"
    "fills (rand E (draws s)) \<longrightarrow> length (SSH_MSG_KEXINIT # q) \<le> 34987" by (rule rekey_kexinit_built)
  obtain w where w: "write_packet E (SSH_MSG_KEXINIT # q) (s\<lparr>draws := Suc (draws s)\<rparr>) = Inr w"
    using assms m q by (auto simp: begin_rekey_def draw_def send_msg_def try_bind_Inr_iff)
  obtain a t where u: "u = w\<lparr>ticks := Suc (Suc (ticks w)), started := a, initiator := ''server'', trigger := t,
      phase := SentKexInit (SSH_MSG_KEXINIT # q)\<rparr>"
    using assms m q w by (simp add: begin_rekey_def draw_def send_msg_def now_def Let_def) blast
  show ?thesis
    using write_packet_frame[OF w] q(2) u by (intro that[of q]) (simp_all add: same_session_def)
qed

lemma begin_rekey_works:
  assumes "env_works E"
  obtains u where "begin_rekey E s = Inr u"
proof -
  obtain c where c: "rand E (draws s) 16 = Some c" "length c = 16" using assms by (rule env_works_draw)
  then have "\<exists>m. build_rekey_kexinit (rand E (draws s)) = Inr m"
    by (simp add: build_rekey_kexinit_def build_kexinit_with_def)
  then obtain m where m: "build_rekey_kexinit (rand E (draws s)) = Inr m" by blast
  have fl: "fills (rand E (draws s))" using assms by (simp add: env_works_def)
  obtain q where q: "m = Some (SSH_MSG_KEXINIT # q)" "length (SSH_MSG_KEXINIT # q) \<le> 34987"
    using rekey_kexinit_built[OF m] fl by metis
  obtain w where w: "write_packet E (SSH_MSG_KEXINIT # q) (s\<lparr>draws := Suc (draws s)\<rparr>) = Inr w"
    using write_packet_works[OF assms q(2)] by blast
  show ?thesis
    by (rule that) (simp add: begin_rekey_def draw_def send_msg_def now_def Let_def m q w)
qed

lemma complete_rekey_reply_works:
  assumes "env_works E" and "crypto_ok E" and "\<forall>s m c. mldsa_sign (sigp E) s m c \<noteq> None"
    and "server_key E (host_key s)" and "length (client_id s) \<le> 255"
    and "length theirs \<le> 35000" and "length ours \<le> 34987" and "profile_ciphers n"
    and "length ci = 1216" and "mlkem_valid_ek (kem E) (take 1184 ci)"
    and "\<forall>secret. was_contributory (kem E) (x25519_dh (kem E) secret (drop 1184 ci))"
  obtains s' where "complete_rekey_reply E (SSH_MSG_KEX_HYBRID_INIT # ssh_string ci) theirs ours n s = Inr (Continued, s')"
proof -
  have k: "kem_ok (kem E)" "sig_ok (sigp E)" using assms(2) by (simp_all add: crypto_ok_def)
  have ci: "read_client_init (ssh_string ci) = Inr (ci, [])" using assms(9) by (simp add: read_client_init_Inr)
  let ?fill = "\<lambda>i. rand E (draws s + i)"
  obtain m secret where "?fill 0 32 = Some m" "?fill 1 32 = Some secret"
    using env_works_draw[OF assms(1)] by metis
  then obtain out where out: "hybrid_exchange_with (kem E) ci ?fill = Inr out"
    using assms(9-11) hybrid_exchange_iff[of "kem E" ci ?fill] by (metis (no_types, lifting) prod.exhaust)
  note ol = hybrid_out_lengths[OF k(1) out]
  obtain blob where blob: "public_key_blob (host_key s) = Some blob" "length blob = 1371"
    by (rule server_key_blob[OF k(2) assms(4)])
  let ?x = "\<lparr>eh_client_id = client_id s, eh_server_id = SERVER_ID, eh_client_kexinit = theirs,
     eh_server_kexinit = ours, eh_host_key_blob = blob, eh_client_init = ci, eh_server_reply = server_reply out,
     eh_shared_secret = shared_secret out\<rparr>"
  obtain h where h: "exchange_hash (sha256 (kem E)) ?x = Some h"
    by (rule exchange_hash_works[OF k(1), of ?x]) (use assms(5-7) ol blob in simp_all)
  obtain ms where "mldsa_sign (sigp E) (sk_mldsa (host_key s)) (message_representative (sigp E) h) COMP_LABEL = Some ms"
    using assms(3) by blast
  then obtain sg where sg: "host_key_sign (sigp E) (host_key s) h = Inr sg"
    by (simp add: host_key_sign_def signing_key_sign_def Let_def)
  obtain g where g: "sg = Some g" "length g = 2511" by (rule server_key_signature[OF k(2) sg])
  obtain q where q: "hybrid_reply blob (server_reply out) g = Some q" "length q \<le> 34987"
    by (rule hybrid_reply_works[OF blob(2) ol(1) g(2)])
  obtain r w where d: "derive_cipher_pair E (shared_secret out) h (session_id s) (cipher_c2s n) (cipher_s2c n) = Inr (r, w)"
    using assms(8) ol derive_cipher_pair_works[OF k(1)] unfolding profile_ciphers_def by metis
  obtain u where u: "write_packet E q (s\<lparr>draws := draws s + 2\<rparr>) = Inr u"
    by (rule write_packet_works[OF assms(1) q(2)])
  obtain v where v: "write_packet E [SSH_MSG_NEWKEYS] u = Inr v"
    by (rule write_packet_works[OF assms(1), of "[SSH_MSG_NEWKEYS]"]) simp_all
  show ?thesis
    by (rule that)
      (simp add: complete_rekey_reply_def ci out blob(1) h sg g q(1) d send_msg_def u v Let_def
        del: add_2_eq_Suc' add_2_eq_Suc)
qed


text \<open>A peer's side of a re-key: its KEXINIT, negotiating \<open>n\<close>, and its share.\<close>

definition rekey_peer :: "env \<Rightarrow> bytes \<Rightarrow> bytes \<Rightarrow> negotiated \<Rightarrow> bool" where
  "rekey_peer E theirs ci n \<longleftrightarrow>
     (\<exists>peer. parse_kexinit theirs = Inr peer \<and> negotiate peer False = Inr n) \<and> \<not> skip_guessed_packet n \<and>
     length theirs \<le> 35000 \<and> length ci = 1216 \<and> mlkem_valid_ek (kem E) (take 1184 ci) \<and>
     (\<forall>secret. was_contributory (kem E) (x25519_dh (kem E) secret (drop 1184 ci)))"

text \<open>The four operations of a re-key that the server starts, in order.\<close>

definition full_rekey :: "env \<Rightarrow> bytes \<Rightarrow> bytes \<Rightarrow> session \<Rightarrow> (rekey_step \<times> session) outcome" where
  "full_rekey E theirs ci s =
     try_bind (begin_rekey E s) (\<lambda>s.
     try_bind (step_rekey E theirs s) (\<lambda>(_, s).
     try_bind (step_rekey E (SSH_MSG_KEX_HYBRID_INIT # ssh_string ci) s) (\<lambda>(_, s).
     step_rekey E [SSH_MSG_NEWKEYS] s)))"

lemma full_rekey_works:
  assumes "env_works E" and "crypto_ok E" and "\<forall>s m c. mldsa_sign (sigp E) s m c \<noteq> None"
    and "rekey_wf E s" and "rekey_peer E theirs ci n"
  obtains s1 s2 s3 s4 ours reply where "begin_rekey E s = Inr s1" "phase s1 = SentKexInit ours"
    "step_rekey E theirs s1 = Inr (Continued, s2)" "phase s2 = AwaitHybridInit theirs ours n False"
    "step_rekey E (SSH_MSG_KEX_HYBRID_INIT # ssh_string ci) s2 = Inr (Continued, s3)"
    "full_rekey E theirs ci s = Inr (Completed, s4)" "same_session s s4" "phase s4 = RkIdle"
    "rekey_exchange E s theirs ours n ci reply (rx s4) (tx s4)" "seq_tx s4 = 0" "seq_rx s4 = 0"
    "bytes_rx s4 = 0" "bytes_tx s4 = 0" "sent s4 = sent s @ [ours, reply, [SSH_MSG_NEWKEYS]]"
proof -
  obtain peer where pn: "parse_kexinit theirs = Inr peer" "negotiate peer False = Inr n" "\<not> skip_guessed_packet n"
    "length theirs \<le> 35000" "length ci = 1216" "mlkem_valid_ek (kem E) (take 1184 ci)"
    "\<forall>secret. was_contributory (kem E) (x25519_dh (kem E) secret (drop 1184 ci))"
    using assms(5) by (auto simp: rekey_peer_def)
  have fl: "fills (rand E (draws s))" using assms(1) by (simp add: env_works_def)
  obtain s1 where s1: "begin_rekey E s = Inr s1" by (rule begin_rekey_works[OF assms(1)])
  obtain q where q: "phase s1 = SentKexInit (SSH_MSG_KEXINIT # q)" "sent s1 = sent s @ [SSH_MSG_KEXINIT # q]"
    "same_session s s1" "length (SSH_MSG_KEXINIT # q) \<le> 34987"
    by (rule begin_rekey_ok[OF s1]) (use fl in blast)
  let ?ours = "SSH_MSG_KEXINIT # q"
  have th: "\<exists>x. theirs = SSH_MSG_KEXINIT # x" using parse_kexinit_head[OF pn(1)] by (cases theirs) auto
  define s2 where "s2 = s1\<lparr>phase := AwaitHybridInit theirs ?ours n False\<rparr>"
  have 2: "step_rekey E theirs s1 = Inr (Continued, s2)"
    using th q(1) pn(1-3) by (auto simp: step_rekey_def Let_def s2_def negotiate_rekey_def)
  let ?init = "SSH_MSG_KEX_HYBRID_INIT # ssh_string ci"
  have pc: "profile_ciphers n" using negotiate_ciphers[OF pn(2)] by (simp add: profile_ciphers_def)
  have wf: "server_key E (host_key s2)" "length (client_id s2) \<le> 255"
    using assms(4) q(3) by (simp_all add: rekey_wf_def s2_def same_session_def)
  obtain s3 where c: "complete_rekey_reply E ?init theirs ?ours n (s2\<lparr>phase := RkIdle\<rparr>) = Inr (Continued, s3)"
    by (rule complete_rekey_reply_works[OF assms(1-3) _ _ pn(4) q(4) pc pn(5-7), of "s2\<lparr>phase := RkIdle\<rparr>"])
      (use wf in simp_all)
  have 3: "step_rekey E ?init s2 = Inr (Continued, s3)"
    using c by (simp add: step_rekey_def Let_def s2_def)
  obtain reply new_rx where r: "rekey_exchange E s2 theirs ?ours n ci reply new_rx (tx s3)"
    "sent s3 = sent s2 @ [reply, [SSH_MSG_NEWKEYS]]" "phase s3 = AwaitNewKeys new_rx" "seq_tx s3 = 0"
    using rekey_reply_sound[OF _ 3, of theirs ?ours n] by (auto simp: s2_def ssh_string_def)
  obtain ms where "rekey_effect ms Continued s2 s3" using step_rekey_sound[OF 3] by blast
  then have ss: "same_session s s3" using q(3) by (simp add: rekey_effect_def same_session_def s2_def)
  have x: "rekey_exchange E s theirs ?ours n ci reply new_rx (tx s3)"
    using r(1) q(3) by (simp add: rekey_exchange_def s2_def same_session_def)
  obtain s4 where s4: "step_rekey E [SSH_MSG_NEWKEYS] s3 = Inr (Completed, s4)" "rx s4 = new_rx" "tx s4 = tx s3"
    "seq_tx s4 = seq_tx s3" "seq_rx s4 = 0" "phase s4 = RkIdle" "same_session s3 s4" "bytes_rx s4 = 0" "bytes_tx s4 = 0"
    "sent s4 = sent s3"
    using r(3) by (simp add: step_rekey_def Let_def now_def same_session_def)
  have f: "full_rekey E theirs ci s = Inr (Completed, s4)"
    by (simp add: full_rekey_def s1 2 3 s4(1))
  show ?thesis
    by (rule that[OF s1 q(1) 2 _ 3 f])
      (use s4 ss x r q(2) in \<open>simp_all add: s2_def same_session_def\<close>)
qed

text \<open>
  C28 (liveness). A re-key with a peer that follows the protocol completes: from any well-formed session,
  with working primitives, random source and socket, the server's KEXINIT, the peer's KEXINIT, its
  share and its NEWKEYS lead to \<^verbatim>\<open>Completed\<close>, with both directions on the pair derived from the new
  exchange, both sequence numbers 0 and the byte counters reset, after exactly the server's KEXINIT,
  HYBRID_REPLY and NEWKEYS on the wire.
\<close>

theorem rekey_completes:
  assumes "env_works E" and "crypto_ok E" and "\<forall>s m c. mldsa_sign (sigp E) s m c \<noteq> None"
    and "rekey_wf E s" and "rekey_peer E theirs ci n"
  shows "\<exists>s' ours reply. full_rekey E theirs ci s = Inr (Completed, s') \<and> same_session s s' \<and> phase s' = RkIdle \<and>
    rekey_exchange E s theirs ours n ci reply (rx s') (tx s') \<and> seq_tx s' = 0 \<and> seq_rx s' = 0 \<and>
    bytes_rx s' = 0 \<and> bytes_tx s' = 0 \<and> sent s' = sent s @ [ours, reply, [SSH_MSG_NEWKEYS]]"
  using full_rekey_works[OF assms] by metis

section \<open>Witnesses\<close>

definition toy_settled :: "rekey_phase \<Rightarrow> session" where
  "toy_settled ph = \<lparr>outp = [], sent = [], audit = [], inp = [], draws = 0, writes = 0, clock_reads = 0,
     seq_tx = 5, seq_rx = 6, rx = toy_chacha, tx = toy_chacha, session_id = replicate 32 3, client_id = [],
     authenticated = \<lparr>ao_fingerprint = [7], ao_certificate = None, ao_pty_permitted = True\<rparr>,
     inbuf = [], host_key = toy_hk, bytes_rx = 0, bytes_tx = 0, last_kex = 0, started = 1, initiator = ''server'',
     trigger = ''bytes'', thresholds = bsi_defaults 120, phase = ph, ticks = 2, reads = 0\<rparr>"

lemma toy_settled_wf: "rekey_wf toy_env (toy_settled RkIdle)"
  by (simp add: rekey_wf_def toy_settled_def)

lemma toy_rekey_peer: "\<exists>p. rekey_peer toy_env p (replicate 1216 1) toy_negotiated"
proof -
  have gl: "good_list toy_list" by code_simp
  have "\<exists>w. build_kexinit_with zeros toy_list = Inr w" by (simp add: build_kexinit_with_def zeros_def)
  then obtain p where p: "build_kexinit_with zeros toy_list = Inr (Some p)" and k: "parse_kexinit p = Inr
    \<lparr>kex_algorithms = NameList toy_list, server_host_key_algorithms = NameList HOST_KEY_LIST,
     encryption_c2s = NameList ENCRYPTION_LIST, encryption_s2c = NameList ENCRYPTION_LIST,
     compression_c2s = NameList COMPRESSION_LIST, compression_s2c = NameList COMPRESSION_LIST,
     first_kex_packet_follows = False\<rparr>"
    using parse_built_kexinit[OF toy_ok(2) gl] by blast
  have n: "negotiate \<lparr>kex_algorithms = NameList toy_list, server_host_key_algorithms = NameList HOST_KEY_LIST,
     encryption_c2s = NameList ENCRYPTION_LIST, encryption_s2c = NameList ENCRYPTION_LIST,
     compression_c2s = NameList COMPRESSION_LIST, compression_s2c = NameList COMPRESSION_LIST,
     first_kex_packet_follows = False\<rparr> False = Inr toy_negotiated"
    by code_simp
  have "length toy_list = 50" "length HOST_KEY_LIST = 19" "length ENCRYPTION_LIST = 52" "length MAC_LIST = 29"
    "length COMPRESSION_LIST = 4"
    by code_simp+
  then have "length p \<le> 35000" using p by (auto simp: build_kexinit_with_Inr_iff zeros_def)
  then show ?thesis
    using k n by (auto simp: rekey_peer_def toy_negotiated_def toy_kem_def)
qed

lemma toy_fills: "\<forall>i. fills (rand toy_env i)"
  using toy_env_works by (simp add: env_works_def)

theorem rekey_completes_witness:
  "\<exists>p s'. full_rekey toy_env p (replicate 1216 1) (toy_settled RkIdle) = Inr (Completed, s') \<and> seq_tx s' = 0"
proof -
  obtain p where "rekey_peer toy_env p (replicate 1216 1) toy_negotiated" using toy_rekey_peer by blast
  from rekey_completes[OF toy_env_works toy_crypto(1) toy_crypto(3) toy_settled_wf this]
  show ?thesis by blast
qed

theorem rekey_binds_transcript_witness:
  "\<exists>s theirs ours p r s' ci reply new_rx. phase s = AwaitHybridInit theirs ours toy_negotiated False \<and>
     step_rekey toy_env p s = Inr (r, s') \<and> sent s' = sent s @ [reply, [SSH_MSG_NEWKEYS]] \<and>
     rekey_exchange toy_env s theirs ours toy_negotiated ci reply new_rx (tx s')"
proof -
  obtain p where "rekey_peer toy_env p (replicate 1216 1) toy_negotiated" using toy_rekey_peer by blast
  from full_rekey_works[OF toy_env_works toy_crypto(1) toy_crypto(3) toy_settled_wf this]
  obtain s2 s3 ours where 2: "phase s2 = AwaitHybridInit p ours toy_negotiated False"
    and 3: "step_rekey toy_env (SSH_MSG_KEX_HYBRID_INIT # ssh_string (replicate 1216 1)) s2 = Inr (Continued, s3)"
    by metis
  from rekey_binds_transcript[OF 2 3] 2 3 show ?thesis by blast
qed

lemma step_rekey_total_witness:
  "case step_rekey toy_env [5] (toy_settled RkIdle) of
     Inr (r, s') \<Rightarrow> False
   | Inl (e, t) \<Rightarrow> kex_traffic False (trace.truncate (toy_settled RkIdle)) t \<and> (e = Io \<or> (\<exists>why. e = Rejected why))"
proof -
  have "length [5 :: u8] \<le> 35000" by simp
  from step_rekey_total[OF toy_crypto(1) toy_fills toy_settled_wf this] show ?thesis
    by (auto simp: step_rekey_def toy_settled_def msg_defs split: sum.splits)
qed

end
