(* ===== verification/Pty.thy ===== *)
theory Pty
  imports Wire
begin

text \<open>
  \<^verbatim>\<open>crates/quantumssh-core/src/pty.rs\<close>: the \<^verbatim>\<open>TERM\<close> rule, window dimensions, and the encoded terminal
  modes of a \<^verbatim>\<open>pty-req\<close>, parsed and applied (the Linux branch of the platform conditionals).

  \<^item> \<open>termios\<close> holds what the client's modes can reach: the special characters, the flags that are set,
    and the character size, which is a field of several bits (\<^verbatim>\<open>CSIZE\<close>) and not a flag.
  \<^item> Opening and configuring the device (\<^verbatim>\<open>allocate\<close>, \<^verbatim>\<open>resize\<close>, the re-exec helper) is a sequence of
    system calls; its outcome is a parameter of \<^verbatim>\<open>Channel\<close>.
\<close>

definition TERM_BOUND :: nat where "TERM_BOUND = 64"
definition MODES_BOUND :: nat where "MODES_BOUND = 1024"
definition POSIX_VDISABLE :: u8 where "POSIX_VDISABLE = 0"

section \<open>TERM and dimensions\<close>

definition is_ascii_alphanumeric :: "u8 \<Rightarrow> bool" where
  "is_ascii_alphanumeric b \<longleftrightarrow>
     (0x30 \<le> b \<and> b \<le> 0x39) \<or> (0x41 \<le> b \<and> b \<le> 0x5A) \<or> (0x61 \<le> b \<and> b \<le> 0x7A)"

definition valid_term :: "bytes \<Rightarrow> bool" where
  "valid_term t \<longleftrightarrow> list_all (\<lambda>b. is_ascii_alphanumeric b \<or> b \<in> {0x2E, 0x5F, 0x2B, 0x2D}) t"

record pty_size =
  cols :: u32
  rows :: u32
  width_px :: u32
  height_px :: u32

record winsize =
  ws_col :: u16
  ws_row :: u16
  ws_xpixel :: u16
  ws_ypixel :: u16

definition dim :: "u32 \<Rightarrow> u16 \<Rightarrow> u16" where
  "dim value current =
     (if value = 0 then current else if unat value \<le> 65535 then ucast value else 65535)"

definition size_apply :: "pty_size \<Rightarrow> winsize \<Rightarrow> winsize" where
  "size_apply z w =
     \<lparr>ws_col = dim (cols z) (ws_col w), ws_row = dim (rows z) (ws_row w),
      ws_xpixel = dim (width_px z) (ws_xpixel w), ws_ypixel = dim (height_px z) (ws_ypixel w)\<rparr>"

section \<open>Terminal modes\<close>

type_synonym modes = "u32 option list"

fun modes_loop :: "bytes \<Rightarrow> modes \<Rightarrow> modes option" where
  "modes_loop [] values = Some values"
| "modes_loop (opcode # tail) values =
     (if opcode = 0 \<or> opcode \<ge> 160 then Some values
      else case tail of
        a # b # c # d # rest \<Rightarrow> modes_loop rest (values[unat opcode := Some (u32_from_be_bytes [a, b, c, d])])
      | _ \<Rightarrow> None)"

definition modes_parse :: "bytes \<Rightarrow> modes option" where
  "modes_parse blob = modes_loop blob (replicate 160 None)"

definition modes_get :: "modes \<Rightarrow> u8 \<Rightarrow> u32 option" where
  "modes_get m opcode = m ! unat opcode"

datatype special_index =
  VINTR | VQUIT | VERASE | VKILL | VEOF | VEOL | VEOL2 | VSTART | VSTOP | VSUSP | VREPRINT | VWERASE |
  VLNEXT | VSWTC | VDISCARD

datatype tty_flag =
  IGNPAR | PARMRK | INPCK | ISTRIP | INLCR | IGNCR | ICRNL | IUCLC | IXON | IXANY | IXOFF | IMAXBEL | IUTF8 |
  ISIG | ICANON | XCASE | ECHO | ECHOE | ECHOK | ECHONL | NOFLSH | TOSTOP | IEXTEN | ECHOCTL | ECHOKE | PENDIN |
  OPOST | OLCUC | ONLCR | OCRNL | ONOCR | ONLRET | PARENB | PARODD

datatype char_size = CS5 | CS6 | CS7 | CS8

record termios =
  special_codes :: "special_index \<Rightarrow> u8"
  tty_flags :: "tty_flag set"
  csize :: char_size

definition special_code :: "nat \<Rightarrow> special_index option" where
  "special_code = map_of
     [(1, VINTR), (2, VQUIT), (3, VERASE), (4, VKILL), (5, VEOF), (6, VEOL), (7, VEOL2), (8, VSTART), (9, VSTOP),
      (10, VSUSP), (12, VREPRINT), (13, VWERASE), (14, VLNEXT), (16, VSWTC), (18, VDISCARD)]"

definition mode_flag :: "nat \<Rightarrow> tty_flag option" where
  "mode_flag = map_of
     [(30, IGNPAR), (31, PARMRK), (32, INPCK), (33, ISTRIP), (34, INLCR), (35, IGNCR), (36, ICRNL), (37, IUCLC),
      (38, IXON), (39, IXANY), (40, IXOFF), (41, IMAXBEL), (42, IUTF8),
      (50, ISIG), (51, ICANON), (52, XCASE), (53, ECHO), (54, ECHOE), (55, ECHOK), (56, ECHONL), (57, NOFLSH),
      (58, TOSTOP), (59, IEXTEN), (60, ECHOCTL), (61, ECHOKE), (62, PENDIN),
      (70, OPOST), (71, OLCUC), (72, ONLCR), (73, OCRNL), (74, ONOCR), (75, ONLRET), (92, PARENB), (93, PARODD)]"

definition flag_set :: "tty_flag \<Rightarrow> bool \<Rightarrow> termios \<Rightarrow> termios" where
  "flag_set f on t = t\<lparr>tty_flags := (if on then insert f (tty_flags t) else tty_flags t - {f})\<rparr>"

definition apply_mode :: "modes \<Rightarrow> nat \<Rightarrow> termios \<Rightarrow> termios" where
  "apply_mode m opcode t =
     (case m ! opcode of
        None \<Rightarrow> t
      | Some value \<Rightarrow>
          (case special_code opcode of
             Some index \<Rightarrow>
               if unat value \<le> 255
               then t\<lparr>special_codes := (special_codes t)(index := if value = 255 then POSIX_VDISABLE else ucast value)\<rparr>
               else t
           | None \<Rightarrow> (case mode_flag opcode of Some f \<Rightarrow> flag_set f (value \<noteq> 0) t | None \<Rightarrow> t)))"

definition mode_on :: "modes \<Rightarrow> u8 \<Rightarrow> bool" where
  "mode_on m opcode \<longleftrightarrow> (case modes_get m opcode of Some v \<Rightarrow> v \<noteq> 0 | None \<Rightarrow> False)"

definition modes_apply :: "modes \<Rightarrow> termios \<Rightarrow> termios" where
  "modes_apply m t =
     (let t = fold (apply_mode m) [1..<160] t in
      if mode_on m 91 then t\<lparr>csize := CS8\<rparr>
      else if mode_on m 90 then t\<lparr>csize := CS7\<rparr>
      else t)"

section \<open>Properties\<close>

lemma valid_term_utf8: "valid_term t \<Longrightarrow> utf8_valid t"
proof (rule utf8_valid_ascii, rule ballI)
  fix b assume "valid_term t" "b \<in> set t"
  then have "b \<le> 0x7A \<or> b \<in> {0x2E, 0x5F, 0x2B, 0x2D}"
    by (auto simp: valid_term_def list_all_iff is_ascii_alphanumeric_def word_le_nat_alt dest!: bspec[of _ _ b])
  then show "b < 0x80" by (auto intro: order.strict_trans1)
qed

text \<open>The stream of modes as the client writes it: entries until the end marker, if any.\<close>

definition mode_entry :: "u8 \<times> u32 \<Rightarrow> bytes" where
  "mode_entry = (\<lambda>(opcode, v). opcode # u32_to_be_bytes v)"

lemma modes_loop_entry:
  assumes "0 < opcode" and "opcode < 160"
  shows "modes_loop (mode_entry (opcode, v) @ r) m = modes_loop r (m[unat opcode := Some v])"
proof -
  obtain a b c d where abcd: "u32_to_be_bytes v = [a, b, c, d]"
    by (simp add: u32_to_be_bytes_def be_enc_4)
  then have "u32_from_be_bytes [a, b, c, d] = v" by (metis u32_from_to_be_bytes)
  moreover have "opcode \<noteq> 0" "\<not> 160 \<le> opcode" using assms by (auto simp: not_le)
  ultimately show ?thesis by (simp add: mode_entry_def abcd)
qed

lemma modes_loop_entries:
  assumes "\<forall>(opcode, v)\<in>set es. 0 < opcode \<and> opcode < 160"
  shows "modes_loop (concat (map mode_entry es) @ r) m =
    modes_loop r (foldl (\<lambda>m (opcode, v). m[unat opcode := Some v]) m es)"
  using assms
proof (induction es arbitrary: m)
  case Nil
  then show ?case by simp
next
  case (Cons e es)
  obtain opcode v where e: "e = (opcode, v)" by (cases e)
  have "0 < opcode" "opcode < 160" using Cons.prems e by auto
  from modes_loop_entry[OF this, of v "concat (map mode_entry es) @ r" m]
  show ?case using Cons.IH Cons.prems e by (simp add: mode_entry_def)
qed

lemma csize_apply_mode: "csize (apply_mode m k t) = csize t"
  by (simp add: apply_mode_def flag_set_def split: option.splits)

lemma csize_fold: "csize (fold (apply_mode m) ks t) = csize t"
  by (induction ks arbitrary: t) (simp_all add: csize_apply_mode)

lemma modes_apply_csize: "csize (modes_apply m t) \<in> {csize t, CS7, CS8}"
  by (simp add: modes_apply_def Let_def csize_fold)

end
