(* ===== verification/Exec.thy ===== *)
theory Exec
  imports Str Wire
begin

text \<open>
  \<^verbatim>\<open>crates/quantumssh-core/src/exec.rs\<close>: what a channel runs, with which arguments and environment, how
  its exit is reported, and the handle the channel driver holds on it.

  \<^item> \<open>child_io\<close> is \<^verbatim>\<open>ChildIo\<close> together with the channels it owns an end of: the chunks queued for the
    stdin pump and what the pump is writing, the acknowledgements not yet received, the output not
    yet received, and which tasks still hold a sender.
  \<^item> \<open>child_step\<close> is what the child's tasks do on their own (\<^verbatim>\<open>pump_stdin\<close>, \<^verbatim>\<open>pump_output\<close>, \<^verbatim>\<open>pump_pty\<close>,
    \<^verbatim>\<open>spawn_reap\<close>), one action at a time, in any order, with the bounds of the channels.
  \<^item> The loops of those tasks are in \<open>Pump\<close>; the reap task, the signals and the registry of process
    identifiers are in \<open>Reap\<close>.
\<close>

definition CHUNK :: nat where "CHUNK = 32 * 1024"
definition OUT_QUEUE :: nat where "OUT_QUEUE = 8"
definition STDIN_QUEUE :: nat where "STDIN_QUEUE = 8"
definition EXIT_WAIT_FAILED :: int where "EXIT_WAIT_FAILED = 127"
definition SHELL :: bytes where "SHELL = ascii ''/bin/sh''"
definition PTY_HELPER_ARG :: bytes where "PTY_HELPER_ARG = ascii ''--quantumssh-internal-pty-helper''"

text \<open>The signals of RFC 4254 section 6.10, by their Linux numbers.\<close>

definition EXIT_SIGNALS :: "(int \<times> string) list" where
  "EXIT_SIGNALS =
     [(6, ''ABRT''), (14, ''ALRM''), (8, ''FPE''), (1, ''HUP''), (4, ''ILL''), (2, ''INT''), (9, ''KILL''),
      (13, ''PIPE''), (3, ''QUIT''), (11, ''SEGV''), (15, ''TERM''), (10, ''USR1''), (12, ''USR2'')]"

section \<open>Programs and their environment\<close>

datatype program = ExecCommand bytes | LoginShell

definition argv0 :: "program \<Rightarrow> bytes" where
  "argv0 p = (case p of ExecCommand _ \<Rightarrow> SHELL | LoginShell \<Rightarrow> ascii ''-sh'')"

definition push_args :: "program \<Rightarrow> bytes list \<Rightarrow> bytes list" where
  "push_args p args = (case p of ExecCommand command \<Rightarrow> args @ [ascii ''-c'', command] | LoginShell \<Rightarrow> args)"

text \<open>The executable, its \<^verbatim>\<open>argv[0]\<close> and its arguments, on pipes and on a terminal.\<close>

definition spawn_argv :: "program \<Rightarrow> bytes \<times> bytes \<times> bytes list" where
  "spawn_argv p = (SHELL, argv0 p, push_args p [])"

definition spawn_pty_argv :: "bytes \<Rightarrow> program \<Rightarrow> bytes \<times> bytes \<times> bytes list" where
  "spawn_pty_argv helper p = (helper, helper, push_args p [PTY_HELPER_ARG, SHELL, argv0 p])"

definition keep_var :: "bytes \<Rightarrow> bool" where
  "keep_var k \<longleftrightarrow> utf8_valid k \<and>
     (k \<in> {ascii ''PATH'', ascii ''HOME'', ascii ''USER'', ascii ''SHELL'', ascii ''LANG''} \<or>
      starts_with (ascii ''LC_'') k)"

definition sanitise_env :: "(bytes \<times> bytes) list \<Rightarrow> (bytes \<times> bytes) list" where
  "sanitise_env vars = filter (\<lambda>(k, v). keep_var k) vars"

text \<open>A terminal child also gets the client's \<^verbatim>\<open>TERM\<close>.\<close>

definition pty_env :: "bytes \<Rightarrow> (bytes \<times> bytes) list \<Rightarrow> (bytes \<times> bytes) list" where
  "pty_env term vars = sanitise_env vars @ (if term = [] then [] else [(ascii ''TERM'', term)])"

definition home_dir :: "bytes option \<Rightarrow> (bytes \<Rightarrow> bool) \<Rightarrow> bytes" where
  "home_dir home is_dir =
     (case home of
        Some h \<Rightarrow> if starts_with [0x2F] h \<and> is_dir h then h else [0x2F]
      | None \<Rightarrow> [0x2F])"

section \<open>Exit\<close>

record child_exit =
  exit_code :: int
  signal :: "(string \<times> bool) option"

record exit_status =
  es_code :: "int option"
  es_signal :: "int option"
  es_core :: bool

definition signal_name :: "int \<Rightarrow> string option" where
  "signal_name signo = map_option snd (find (\<lambda>(s, _). s = signo) EXIT_SIGNALS)"

definition exit_of :: "exit_status \<Rightarrow> child_exit" where
  "exit_of st =
     (case es_code st of
        Some c \<Rightarrow> \<lparr>exit_code = c, signal = None\<rparr>
      | None \<Rightarrow>
          (case es_signal st of
             None \<Rightarrow> \<lparr>exit_code = EXIT_WAIT_FAILED, signal = None\<rparr>
           | Some signo \<Rightarrow>
               \<lparr>exit_code = 128 + signo,
                signal = map_option (\<lambda>name. (name, es_core st)) (signal_name signo)\<rparr>))"

section \<open>The handle on a child\<close>

datatype child_chunk = Stdout bytes | Stderr bytes | Exited child_exit

record child_io =
  on_terminal :: bool \<comment> \<open>its one pump carries input and output\<close>
  stdin_tx :: bool \<comment> \<open>the driver still holds the sender\<close>
  stdin_q :: "bytes list"
  pump_rest :: bytes \<comment> \<open>what the pump still has to write\<close>
  pump_alive :: bool
  consumed_q :: "u32 list"
  out_q :: "child_chunk list"
  out_pumps :: nat
  reaping :: bool
  kill_tx :: bool \<comment> \<open>no kill has been requested\<close>
  master :: bool

definition piped_child :: child_io where
  "piped_child = \<lparr>on_terminal = False, stdin_tx = True, stdin_q = [], pump_rest = [], pump_alive = True,
     consumed_q = [], out_q = [], out_pumps = 2, reaping = True, kill_tx = True, master = False\<rparr>"

definition pty_child :: child_io where
  "pty_child = \<lparr>on_terminal = True, stdin_tx = True, stdin_q = [], pump_rest = [], pump_alive = True,
     consumed_q = [], out_q = [], out_pumps = 1, reaping = True, kill_tx = True, master = True\<rparr>"

definition child_kill :: "child_io \<Rightarrow> child_io" where
  "child_kill c = c\<lparr>kill_tx := False\<rparr>"

text \<open>The end of the task that reads the driver's chunks: they are dropped with it.\<close>

definition end_input :: "child_io \<Rightarrow> child_io" where
  "end_input c = c\<lparr>pump_alive := False, stdin_q := [], pump_rest := []\<rparr>"

definition discard_output :: "child_io \<Rightarrow> child_io" where
  "discard_output c =
     (let c = c\<lparr>out_pumps := 0, master := False\<rparr> in if on_terminal c then end_input c else c)"

definition close_stdin :: "child_io \<Rightarrow> child_io" where
  "close_stdin c = c\<lparr>stdin_tx := False\<rparr>"

definition try_send_stdin :: "child_io \<Rightarrow> bytes \<Rightarrow> (bytes, child_io) result" where
  "try_send_stdin c chunk =
     (if \<not> stdin_tx c then Inr c
      else if \<not> pump_alive c \<or> length (stdin_q c) \<ge> STDIN_QUEUE then Inl chunk
      else Inr (c\<lparr>stdin_q := stdin_q c @ [chunk]\<rparr>))"

definition child_resize :: "child_io \<Rightarrow> bool \<Rightarrow> bool" where
  "child_resize c ioctl_ok \<longleftrightarrow> master c \<and> ioctl_ok"

text \<open>\<^verbatim>\<open>recv\<close> on the two channels: a message, \<open>Some None\<close> once they are closed and empty, \<open>None\<close> if it waits.\<close>

definition recv_out :: "child_io \<Rightarrow> (child_chunk option \<times> child_io) option" where
  "recv_out c =
     (case out_q c of
        x # q \<Rightarrow> Some (Some x, c\<lparr>out_q := q\<rparr>)
      | [] \<Rightarrow> if out_pumps c = 0 \<and> \<not> reaping c then Some (None, c) else None)"

definition recv_consumed :: "child_io \<Rightarrow> (u32 option \<times> child_io) option" where
  "recv_consumed c =
     (case consumed_q c of
        n # q \<Rightarrow> Some (Some n, c\<lparr>consumed_q := q\<rparr>)
      | [] \<Rightarrow> if pump_alive c then None else Some (None, c))"

section \<open>The child's tasks\<close>

inductive child_step :: "child_io \<Rightarrow> child_io \<Rightarrow> bool" where
  pump_take: "pump_alive c \<Longrightarrow> pump_rest c = [] \<Longrightarrow> stdin_q c = x # q \<Longrightarrow>
    child_step c (c\<lparr>stdin_q := q, pump_rest := x\<rparr>)"
| pump_write: "pump_alive c \<Longrightarrow> n \<le> length (pump_rest c) \<Longrightarrow> n \<le> u32_max \<Longrightarrow> 0 < n \<or> on_terminal c \<Longrightarrow>
    child_step c (c\<lparr>pump_rest := drop n (pump_rest c), consumed_q := consumed_q c @ [word_of_nat n]\<rparr>)"
| pump_end: "pump_alive c \<Longrightarrow> \<not> on_terminal c \<Longrightarrow> child_step c (end_input c)"
| out_read: "0 < out_pumps c \<Longrightarrow> length (out_q c) < OUT_QUEUE \<Longrightarrow> x \<in> {Stdout b, Stderr b} \<Longrightarrow>
    0 < length b \<Longrightarrow> length b \<le> CHUNK \<Longrightarrow> child_step c (c\<lparr>out_q := out_q c @ [x]\<rparr>)"
| out_end: "0 < out_pumps c \<Longrightarrow> \<not> on_terminal c \<Longrightarrow> child_step c (c\<lparr>out_pumps := out_pumps c - 1\<rparr>)"
| terminal_end: "0 < out_pumps c \<Longrightarrow> on_terminal c \<Longrightarrow> child_step c (end_input (c\<lparr>out_pumps := 0\<rparr>))"
| reap: "reaping c \<Longrightarrow> length (out_q c) < OUT_QUEUE \<Longrightarrow>
    child_step c (c\<lparr>out_q := out_q c @ [Exited (exit_of st)], reaping := False\<rparr>)"

inductive_cases child_stepE: "child_step c c'"

section \<open>The ledger of input bytes\<close>

text \<open>The bytes the child has been handed and not yet given back to the driver as credit.\<close>

definition in_child :: "child_io \<Rightarrow> nat" where
  "in_child c = length (concat (stdin_q c)) + length (pump_rest c) + sum_list (map unat (consumed_q c))"

text \<open>What the driver relies on of the handle: each operation returns or drops bytes, none adds any.\<close>

lemma in_child_fresh [simp]: "in_child piped_child = 0" "in_child pty_child = 0"
  by (simp_all add: in_child_def piped_child_def pty_child_def)

lemma in_child_ops [simp]:
  "in_child (child_kill c) = in_child c" "in_child (close_stdin c) = in_child c"
  by (simp_all add: in_child_def child_kill_def close_stdin_def)

lemma in_child_end: "in_child (end_input c) \<le> in_child c"
  by (simp add: in_child_def end_input_def)

lemma in_child_discard: "in_child (discard_output c) \<le> in_child c"
  by (auto simp: in_child_def discard_output_def end_input_def Let_def)

lemma in_child_send: "try_send_stdin c x = Inr c' \<Longrightarrow> in_child c' \<le> in_child c + length x"
  by (auto simp: in_child_def try_send_stdin_def split: if_splits)

lemma try_send_back: "try_send_stdin c x = Inl y \<Longrightarrow> y = x"
  by (auto simp: try_send_stdin_def split: if_splits)

lemma in_child_out: "recv_out c = Some (x, c') \<Longrightarrow> in_child c' = in_child c"
  by (auto simp: in_child_def recv_out_def split: list.splits if_splits)

lemma in_child_consumed:
  "recv_consumed c = Some (Some n, c') \<Longrightarrow> in_child c' + unat n = in_child c"
  "recv_consumed c = Some (None, c') \<Longrightarrow> c' = c"
  by (auto simp: in_child_def recv_consumed_def split: list.splits if_splits)

lemma child_step_ledger: "child_step c c' \<Longrightarrow> in_child c' \<le> in_child c"
  by (induction rule: child_step.induct) (auto simp: in_child_def end_input_def)

section \<open>Properties\<close>

lemma sanitise_env_exact:
  "(k, v) \<in> set (sanitise_env vars) \<longleftrightarrow> (k, v) \<in> set vars \<and> keep_var k"
  by (auto simp: sanitise_env_def)

lemma exit_of_code:
  "es_code st = Some c \<Longrightarrow> exit_of st = \<lparr>exit_code = c, signal = None\<rparr>"
  by (simp add: exit_of_def)

lemma exit_of_signal:
  "es_code st = None \<Longrightarrow> es_signal st = Some n \<Longrightarrow>
     exit_code (exit_of st) = 128 + n \<and>
     (signal (exit_of st) = None \<longleftrightarrow> n \<notin> {1, 2, 3, 4, 6, 8, 9, 10, 11, 12, 13, 14, 15})"
  by (auto simp: exit_of_def signal_name_def EXIT_SIGNALS_def)

end
