(* ===== verification/Reap.thy ===== *)
theory Reap
  imports Exec
begin

text \<open>
  \<^verbatim>\<open>crates/quantumssh-core/src/exec.rs\<close>: who may signal and reap the processes of a connection. \<open>child_scope\<close>
  is \<^verbatim>\<open>ChildScope\<close> with the reap tasks it runs (\<^verbatim>\<open>Reaper\<close>, the locals of \<^verbatim>\<open>Reaper::run\<close> and the ends of the
  channels it listens to), next to the part of the kernel's process table they depend on.

  \<^item> A process identifier is held by a process, running or zombie, until it is reaped; then the kernel may
    give it to any process. \<open>Own i\<close> marks the child whose handle task \<open>i\<close> owns, \<open>Foreign\<close> every other
    process, also a child whose handle was dropped and passed to tokio's orphan reaping.
  \<^item> Each signal is recorded with the task that sent it and the process that held the identifier then.
  \<^item> \<open>run_turn\<close> is one turn of the biased \<^verbatim>\<open>select!\<close> of \<^verbatim>\<open>Reaper::run\<close>; the clock, the answer of \<^verbatim>\<open>wait_exit\<close>
    and a failing \<^verbatim>\<open>waitpid\<close> are its inputs. \<open>scope_step\<close> interleaves turns, drops of tasks and of the scope,
    kill requests, failures of a terminal, spawns and the kernel in any order. The critical sections of the
    registry's mutex are single steps.
  \<^item> \<open>task_move\<close> is what the registry asks of the code that signals a child: it says nothing of the table
    or the registry and aims at its own child only.
\<close>

definition REAP_POLL :: nat where "REAP_POLL = 20"
definition PTY_HANGUP_GRACE :: nat where "PTY_HANGUP_GRACE = 1000"

type_synonym pid = int

section \<open>The kernel's process table\<close>

datatype owner = Own nat | Foreign
datatype proc = Running | Zombie exit_status
datatype wait_result = StillRunning | Status exit_status | WaitError
datatype kill_signal = HUP | KILL
datatype kill_target = Process | Group

record sent_signal =
  sent_by :: "nat option" \<comment> \<open>the reap task, or the scope's kill guard\<close>
  sent_to :: kill_target
  sent_sig :: kill_signal
  sent_pid :: pid
  sent_hits :: "owner option" \<comment> \<open>who held the identifier\<close>

section \<open>Reap tasks and their scope\<close>

datatype run_state = Looping | Returned child_exit | Dropped

record reaper =
  r_child :: bool \<comment> \<open>the handle is owned: the child is unreaped\<close>
  r_pid :: pid
  hangup_grace :: "nat option"
  on_exit :: bool
  exit_told :: bool
  kill_asked :: bool \<comment> \<open>\<^verbatim>\<open>kill_rx\<close> is ready: a request was sent or its sender dropped\<close>
  session_failed :: "bool option" \<comment> \<open>the master pump's report, or its sender dropped\<close>
  kill_pending :: bool
  failure_pending :: bool
  grace_end :: "nat option"
  r_state :: run_state

record child_scope =
  procs :: "pid \<Rightarrow> (owner \<times> proc) option"
  live :: "pid list"
  reapers :: "reaper list"
  signals :: "sent_signal list"

definition holder :: "child_scope \<Rightarrow> pid \<Rightarrow> owner option" where
  "holder w p = map_option fst (procs w p)"

definition update_task :: "nat \<Rightarrow> (reaper \<Rightarrow> reaper) \<Rightarrow> child_scope \<Rightarrow> child_scope" where
  "update_task i f w = w\<lparr>reapers := (reapers w)[i := f (reapers w ! i)]\<rparr>"

definition send_signal :: "nat option \<Rightarrow> kill_target \<Rightarrow> kill_signal \<Rightarrow> pid \<Rightarrow> child_scope \<Rightarrow> child_scope" where
  "send_signal who t g p w = w\<lparr>signals := signals w @
     [\<lparr>sent_by = who, sent_to = t, sent_sig = g, sent_pid = p, sent_hits = holder w p\<rparr>]\<rparr>"

text \<open>\<^verbatim>\<open>waitpid\<close> and \<^verbatim>\<open>waitid\<close> on an identifier, without reaping.\<close>

definition wait_peek :: "bool \<Rightarrow> pid \<Rightarrow> child_scope \<Rightarrow> wait_result" where
  "wait_peek fails p w =
     (if fails then WaitError
      else case procs w p of
        Some (Own _, Running) \<Rightarrow> StillRunning
      | Some (Own _, Zombie st) \<Rightarrow> Status st
      | _ \<Rightarrow> WaitError)"

text \<open>A handle that is dropped unreaped leaves its process to tokio's orphan reaping.\<close>

definition release :: "pid \<Rightarrow> child_scope \<Rightarrow> child_scope" where
  "release p w = w\<lparr>procs := (procs w)(p := map_option (\<lambda>(_, s). (Foreign, s)) (procs w p))\<rparr>"

definition deregister :: "pid \<Rightarrow> child_scope \<Rightarrow> child_scope" where
  "deregister p w = w\<lparr>live := filter (\<lambda>q. q \<noteq> p) (live w)\<rparr>"

section \<open>The wait for the exit\<close>

definition has_exited :: "wait_result \<Rightarrow> bool" where
  "has_exited r \<longleftrightarrow> r \<noteq> StillRunning"

text \<open>The fallback of \<^verbatim>\<open>wait_exit\<close>: what each peek finds and whether a \<^verbatim>\<open>SIGCHLD\<close> then wakes it. The result is the time
  spent in the polling interval, or \<open>None\<close> while it waits.\<close>

fun peek_loop :: "bool \<Rightarrow> (wait_result \<times> bool) list \<Rightarrow> nat option" where
  "peek_loop sigchld [] = None"
| "peek_loop sigchld ((r, wakes) # es) =
     (if has_exited r then Some 0
      else if sigchld \<and> wakes then peek_loop True es
      else map_option ((+) REAP_POLL) (peek_loop False es))"

definition wait_exit :: "bool \<Rightarrow> bool \<Rightarrow> (wait_result \<times> bool) list \<Rightarrow> nat option" where
  "wait_exit pidfd_readable sigchld es = (if pidfd_readable then Some 0 else peek_loop sigchld es)"

section \<open>Registering, killing and reaping\<close>

definition new_reaper :: "pid \<Rightarrow> nat option \<Rightarrow> reaper" where
  "new_reaper p grace = \<lparr>r_child = True, r_pid = p, hangup_grace = grace, on_exit = False, exit_told = False,
     kill_asked = False, session_failed = None, kill_pending = True, failure_pending = True,
     grace_end = None, r_state = Looping\<rparr>"

text \<open>\<^verbatim>\<open>Reaper::register\<close>: \<open>known\<close> is whether the handle still tells its identifier.\<close>

definition register :: "pid \<Rightarrow> bool \<Rightarrow> nat option \<Rightarrow> child_scope \<Rightarrow> reaper option \<times> child_scope" where
  "register p known grace w =
     (if known \<and> 0 < p \<and> p < 2 ^ 31 then (Some (new_reaper p grace), w\<lparr>live := live w @ [p]\<rparr>)
      else (None, release p (if known then send_signal (Some (length (reapers w))) Process KILL p w else w)))"

definition fork_child :: "pid \<Rightarrow> child_scope \<Rightarrow> child_scope" where
  "fork_child p w = w\<lparr>procs := (procs w)(p \<mapsto> (Own (length (reapers w)), Running))\<rparr>"

definition spawn_reap :: "reaper \<Rightarrow> child_scope \<Rightarrow> child_scope" where
  "spawn_reap r w = w\<lparr>reapers := reapers w @ [r]\<rparr>"

text \<open>On pipes there is no master to fail: the sender of the report is dropped unsent.\<close>

definition spawn_on_pipes :: "pid \<Rightarrow> bool \<Rightarrow> child_scope \<Rightarrow> child_scope" where
  "spawn_on_pipes p known w =
     (case register p known None (fork_child p w) of
        (Some r, w) \<Rightarrow> spawn_reap (r\<lparr>session_failed := Some False\<rparr>) w
      | (None, w) \<Rightarrow> w)"

definition spawn_on_pty :: "pid \<Rightarrow> bool \<Rightarrow> child_scope \<Rightarrow> child_scope" where
  "spawn_on_pty p known w =
     (case register p known (Some PTY_HANGUP_GRACE) (fork_child p w) of
        (Some r, w) \<Rightarrow> spawn_reap (r\<lparr>on_exit := True\<rparr>) w
      | (None, w) \<Rightarrow> w)"

definition kill_group :: "nat \<Rightarrow> child_scope \<Rightarrow> child_scope" where
  "kill_group i w =
     (let p = r_pid (reapers w ! i)
      in send_signal (Some i) Process KILL p (send_signal (Some i) Group KILL p w))"

definition begin_kill :: "nat \<Rightarrow> nat \<Rightarrow> child_scope \<Rightarrow> child_scope" where
  "begin_kill i now w =
     (let r = reapers w ! i in
      if \<not> r_child r then w
      else case hangup_grace r of
        Some grace \<Rightarrow>
          if grace_end r = None
          then update_task i (grace_end_update (\<lambda>_. Some (now + grace))) (send_signal (Some i) Process HUP (r_pid r) w)
          else w
      | None \<Rightarrow> kill_group i w)"

definition try_reap :: "nat \<Rightarrow> bool \<Rightarrow> child_scope \<Rightarrow> child_exit option \<times> child_scope" where
  "try_reap i fails w =
     (let p = r_pid (reapers w ! i); gone = update_task i (r_child_update (\<lambda>_. False)) \<circ> deregister p in
      if \<not> r_child (reapers w ! i) then (None, w)
      else case wait_peek fails p w of
        StillRunning \<Rightarrow> (None, w)
      | Status st \<Rightarrow> (Some (exit_of st), gone (w\<lparr>procs := (procs w)(p := None)\<rparr>))
      | WaitError \<Rightarrow> (Some \<lparr>exit_code = EXIT_WAIT_FAILED, signal = None\<rparr>, gone (release p w)))"

text \<open>One turn of the loop of \<^verbatim>\<open>Reaper::run\<close>, biased towards the kill: a kill request, the report of the master
  pump, the end of the grace, the exit of the leader.\<close>

record turn =
  now :: nat
  exit_seen :: bool
  wait_fails :: bool

definition take_kill :: "nat \<Rightarrow> nat \<Rightarrow> child_scope \<Rightarrow> child_scope" where
  "take_kill i at w = begin_kill i at (update_task i (kill_pending_update (\<lambda>_. False)) w)"

definition take_failure :: "nat \<Rightarrow> nat \<Rightarrow> child_scope \<Rightarrow> child_scope" where
  "take_failure i at w =
     (let failed = session_failed (reapers w ! i);
          w = update_task i (failure_pending_update (\<lambda>_. False)) w
      in if failed = Some True then begin_kill i at w else w)"

definition grace_over :: "nat \<Rightarrow> child_scope \<Rightarrow> child_scope" where
  "grace_over i w =
     (let w = update_task i (grace_end_update (\<lambda>_. None)) w
      in if r_child (reapers w ! i) then kill_group i w else w)"

definition leader_exits :: "nat \<Rightarrow> bool \<Rightarrow> child_scope \<Rightarrow> child_scope" where
  "leader_exits i fails w =
     (let w = (if grace_end (reapers w ! i) \<noteq> None then grace_over i w else w)
      in case try_reap i fails w of
           (Some code, w) \<Rightarrow>
             update_task i (\<lambda>r. r\<lparr>exit_told := on_exit r, on_exit := False, r_state := Returned code\<rparr>) w
         | (None, w) \<Rightarrow> w)"

definition run_turn :: "nat \<Rightarrow> turn \<Rightarrow> child_scope \<Rightarrow> child_scope" where
  "run_turn i t w =
     (let r = reapers w ! i in
      if r_state r \<noteq> Looping then w
      else if kill_pending r \<and> kill_asked r then take_kill i (now t) w
      else if failure_pending r \<and> session_failed r \<noteq> None then take_failure i (now t) w
      else if \<exists>e\<in>set_option (grace_end r). e \<le> now t then grace_over i w
      else if exit_seen t then leader_exits i (wait_fails t) w
      else w)"

text \<open>\<^verbatim>\<open>Drop\<close> of a reap task and of the scope.\<close>

definition drop_reaper :: "nat \<Rightarrow> child_scope \<Rightarrow> child_scope" where
  "drop_reaper i w =
     (let r = reapers w ! i; p = r_pid r in
      if r_state r \<noteq> Looping then w
      else update_task i (\<lambda>r. r\<lparr>r_child := False, r_state := Dropped\<rparr>)
        (if r_child r then release p (deregister p (kill_group i w)) else w))"

definition guard_signal :: "pid \<Rightarrow> child_scope \<Rightarrow> child_scope" where
  "guard_signal p w = send_signal None Group KILL p (send_signal None Process KILL p w)"

definition drop_scope :: "child_scope \<Rightarrow> child_scope" where
  "drop_scope w = fold guard_signal (live w) w"

section \<open>Any interleaving\<close>

definition scope_start :: "child_scope \<Rightarrow> bool" where
  "scope_start w \<longleftrightarrow> live w = [] \<and> reapers w = [] \<and> signals w = [] \<and> (\<forall>p. holder w p \<in> {None, Some Foreign})"

inductive scope_step :: "child_scope \<Rightarrow> child_scope \<Rightarrow> bool" where
  pipes: "procs w p = None \<Longrightarrow> scope_step w (spawn_on_pipes p known w)"
| pty: "procs w p = None \<Longrightarrow> scope_step w (spawn_on_pty p known w)"
| turn: "i < length (reapers w) \<Longrightarrow> scope_step w (run_turn i t w)"
| abort: "i < length (reapers w) \<Longrightarrow> scope_step w (drop_reaper i w)"
| guard: "scope_step w (drop_scope w)"
| ask: "i < length (reapers w) \<Longrightarrow> scope_step w (update_task i (kill_asked_update (\<lambda>_. True)) w)"
| fail: "i < length (reapers w) \<Longrightarrow> session_failed (reapers w ! i) = None \<Longrightarrow>
    scope_step w (update_task i (session_failed_update (\<lambda>_. Some b)) w)"
| exits: "procs w p = Some (own, Running) \<Longrightarrow> scope_step w (w\<lparr>procs := (procs w)(p \<mapsto> (own, Zombie st))\<rparr>)"
| takes: "procs w p = None \<Longrightarrow> scope_step w (w\<lparr>procs := (procs w)(p \<mapsto> (Foreign, Running))\<rparr>)"
| leaves: "holder w p = Some Foreign \<Longrightarrow> scope_step w (w\<lparr>procs := (procs w)(p := None)\<rparr>)"

inductive scope_reaches :: "child_scope \<Rightarrow> child_scope \<Rightarrow> bool" for w where
  here: "scope_reaches w w"
| step: "scope_reaches w w' \<Longrightarrow> scope_step w' w'' \<Longrightarrow> scope_reaches w w''"

section \<open>The invariant of the registry\<close>

definition well_aimed :: "sent_signal \<Rightarrow> bool" where
  "well_aimed e \<longleftrightarrow>
     (case sent_by e of Some i \<Rightarrow> sent_hits e = Some (Own i) | None \<Rightarrow> \<exists>i. sent_hits e = Some (Own i))"

definition group_killed :: "nat \<Rightarrow> child_scope \<Rightarrow> bool" where
  "group_killed i w \<longleftrightarrow> (\<exists>e\<in>set (signals w). sent_by e = Some i \<and> sent_to e = Group \<and> sent_sig e = KILL \<and>
     sent_pid e = r_pid (reapers w ! i) \<and> sent_hits e = Some (Own i))"

definition kill_taken :: "reaper \<Rightarrow> bool" where
  "kill_taken r \<longleftrightarrow> \<not> kill_pending r \<or> \<not> failure_pending r \<and> session_failed r = Some True"

definition task_inv :: "child_scope \<Rightarrow> nat \<Rightarrow> bool" where
  "task_inv w i \<longleftrightarrow> (let r = reapers w ! i in
     (r_child r \<longleftrightarrow> r_state r = Looping) \<and>
     (r_child r \<longrightarrow> holder w (r_pid r) = Some (Own i)) \<and>
     (failure_pending r \<or> session_failed r \<noteq> None) \<and>
     (kill_taken r \<longrightarrow> grace_end r \<noteq> None \<or> group_killed i w) \<and>
     (r_state r = Dropped \<longrightarrow> group_killed i w) \<and>
     (\<forall>c. r_state r = Returned c \<longrightarrow> grace_end r = None))"

definition scope_inv :: "child_scope \<Rightarrow> bool" where
  "scope_inv w \<longleftrightarrow>
     distinct (live w) \<and>
     (\<forall>p. p \<in> set (live w) \<longleftrightarrow> (\<exists>i. holder w p = Some (Own i))) \<and>
     (\<forall>p i. holder w p = Some (Own i) \<longrightarrow>
        i < length (reapers w) \<and> r_child (reapers w ! i) \<and> r_pid (reapers w ! i) = p) \<and>
     (\<forall>i<length (reapers w). task_inv w i) \<and>
     (\<forall>e\<in>set (signals w). well_aimed e)"

lemma holder_simps [simp]:
  "holder (w\<lparr>live := l\<rparr>) = holder w" "holder (w\<lparr>reapers := rs\<rparr>) = holder w" "holder (w\<lparr>signals := es\<rparr>) = holder w"
  "holder (w\<lparr>procs := (procs w)(p := x)\<rparr>) = (holder w)(p := map_option fst x)"
  by (simp_all add: holder_def fun_eq_iff)

lemma update_task_simps [simp]:
  "procs (update_task i f w) = procs w" "live (update_task i f w) = live w" "signals (update_task i f w) = signals w"
  "length (reapers (update_task i f w)) = length (reapers w)"
  "holder (update_task i f w) = holder w"
  by (simp_all add: update_task_def)

lemma update_task_nth [simp]:
  "i < length (reapers w) \<Longrightarrow> reapers (update_task i f w) ! j = (if j = i then f (reapers w ! i) else reapers w ! j)"
  by (simp add: update_task_def)

lemma send_signal_simps [simp]:
  "procs (send_signal who t g p w) = procs w" "live (send_signal who t g p w) = live w"
  "reapers (send_signal who t g p w) = reapers w" "holder (send_signal who t g p w) = holder w"
  by (simp_all add: send_signal_def)

lemma release_simps [simp]:
  "live (release p w) = live w" "reapers (release p w) = reapers w" "signals (release p w) = signals w"
  "holder (release p w) = (if holder w p = None then holder w else (holder w)(p \<mapsto> Foreign))"
  by (auto simp: release_def holder_def fun_eq_iff split: option.splits)

lemma deregister_simps [simp]:
  "procs (deregister p w) = procs w" "reapers (deregister p w) = reapers w" "signals (deregister p w) = signals w"
  "holder (deregister p w) = holder w" "live (deregister p w) = filter (\<lambda>q. q \<noteq> p) (live w)"
  by (simp_all add: deregister_def holder_def fun_eq_iff)

text \<open>What the registry asks of a move of task \<open>i\<close> that keeps its child.\<close>

locale task_move =
  fixes i :: nat and ok :: "child_scope \<Rightarrow> bool" and move :: "child_scope \<Rightarrow> child_scope"
  assumes frame: "i < length (reapers w) \<Longrightarrow>
      holder (move w) = holder w \<and> live (move w) = live w \<and> length (reapers (move w)) = length (reapers w) \<and>
      (\<forall>j. j \<noteq> i \<longrightarrow> reapers (move w) ! j = reapers w ! j) \<and>
      r_pid (reapers (move w) ! i) = r_pid (reapers w ! i) \<and> r_child (reapers (move w) ! i) = r_child (reapers w ! i)"
    and aims: "i < length (reapers w) \<Longrightarrow> ok w \<Longrightarrow>
      \<exists>es. signals (move w) = signals w @ es \<and>
        (\<forall>e\<in>set es. sent_by e = Some i \<and> sent_hits e = holder w (r_pid (reapers w ! i)) \<and> r_child (reapers w ! i))"
    and settles: "i < length (reapers w) \<Longrightarrow> ok w \<Longrightarrow> task_inv w i \<Longrightarrow> task_inv (move w) i"
begin

lemma keeps_inv:
  assumes inv: "scope_inv w" and i: "i < length (reapers w)" and ok: "ok w"
  shows "scope_inv (move w)"
proof -
  note f = frame[OF i]
  obtain es where es: "signals (move w) = signals w @ es"
    "\<forall>e\<in>set es. sent_by e = Some i \<and> sent_hits e = holder w (r_pid (reapers w ! i)) \<and> r_child (reapers w ! i)"
    using aims[OF i ok] by blast
  have ti: "task_inv w j" if "j < length (reapers w)" for j using inv that by (simp add: scope_inv_def)
  have "task_inv (move w) j" if j: "j < length (reapers w)" for j
  proof (cases "j = i")
    case False
    with f have "reapers (move w) ! j = reapers w ! j" by blast
    with ti[OF j] f es(1) show ?thesis by (auto simp: task_inv_def group_killed_def Let_def)
  qed (use settles[OF i ok ti[OF i]] in simp)
  moreover have "well_aimed e" if "e \<in> set es" for e
    using that es(2) ti[OF i] by (auto simp: well_aimed_def task_inv_def Let_def)
  moreover have "r_child (reapers (move w) ! j) = r_child (reapers w ! j) \<and> r_pid (reapers (move w) ! j) = r_pid (reapers w ! j)" for j
    using f by (cases "j = i") auto
  ultimately show ?thesis using inv f es(1) by (auto simp: scope_inv_def)
qed

end


lemma kill_group_frame:
  "holder (kill_group i w) = holder w" "live (kill_group i w) = live w" "reapers (kill_group i w) = reapers w"
  by (simp_all add: kill_group_def Let_def)

lemma kill_group_signals: "signals (kill_group i w) = signals w @
   [\<lparr>sent_by = Some i, sent_to = Group, sent_sig = KILL, sent_pid = r_pid (reapers w ! i),
      sent_hits = holder w (r_pid (reapers w ! i))\<rparr>,
    \<lparr>sent_by = Some i, sent_to = Process, sent_sig = KILL, sent_pid = r_pid (reapers w ! i),
      sent_hits = holder w (r_pid (reapers w ! i))\<rparr>]"
  by (simp add: kill_group_def send_signal_def Let_def holder_def)

lemma group_killed_kill: "holder w (r_pid (reapers w ! i)) = Some (Own i) \<Longrightarrow> group_killed i (kill_group i w)"
  by (simp add: group_killed_def kill_group_signals kill_group_frame)

lemma group_killed_mono: "group_killed i w \<Longrightarrow> set (signals w) \<subseteq> set (signals w') \<Longrightarrow>
    r_pid (reapers w' ! i) = r_pid (reapers w ! i) \<Longrightarrow> group_killed i w'"
  by (auto simp: group_killed_def)

lemmas kill_simps = kill_group_frame kill_group_signals begin_kill_def take_kill_def take_failure_def grace_over_def
  send_signal_def Let_def

interpretation group_move: task_move i "\<lambda>w. r_child (reapers w ! i)" "kill_group i" for i
  by unfold_locales (auto simp: kill_simps task_inv_def group_killed_def)

interpretation kill_move: task_move i "\<lambda>w. r_state (reapers w ! i) = Looping" "take_kill i at" for i at
  apply unfold_locales
  subgoal by (auto simp: kill_simps split: option.splits)
  subgoal by (auto simp: kill_simps split: option.splits)
  subgoal by (auto simp: kill_simps task_inv_def kill_taken_def group_killed_def split: option.splits)
  done

interpretation failure_move: task_move i "\<lambda>w. r_state (reapers w ! i) = Looping \<and> session_failed (reapers w ! i) \<noteq> None"
    "take_failure i at" for i at
  apply unfold_locales
  subgoal by (auto simp: kill_simps split: option.splits)
  subgoal by (auto simp: kill_simps split: option.splits)
  subgoal by (auto simp: kill_simps task_inv_def kill_taken_def group_killed_def split: option.splits)
  done

interpretation grace_move: task_move i "\<lambda>w. r_state (reapers w ! i) = Looping" "grace_over i" for i
  apply unfold_locales
  subgoal by (auto simp: kill_simps)
  subgoal by (auto simp: kill_simps)
  subgoal by (auto simp: kill_simps task_inv_def kill_taken_def group_killed_def)
  done

interpretation ask_move: task_move i "\<lambda>_. True" "update_task i (kill_asked_update (\<lambda>_. True))" for i
  by unfold_locales (auto simp: task_inv_def kill_taken_def group_killed_def Let_def)

interpretation fail_move: task_move i "\<lambda>w. session_failed (reapers w ! i) = None"
    "update_task i (session_failed_update (\<lambda>_. Some b))" for i b
  by unfold_locales (auto simp: task_inv_def kill_taken_def group_killed_def Let_def)

text \<open>A task that gives its handle up, with the identifier deregistered in the same step.\<close>

lemma gone_inv:
  assumes inv: "scope_inv w" and i: "i < length (reapers w)" and child: "r_child (reapers w ! i)"
    and p: "p = r_pid (reapers w ! i)"
    and w': "holder w' = (holder w)(p := x)" "\<forall>k. x \<noteq> Some (Own k)" "live w' = filter (\<lambda>q. q \<noteq> p) (live w)"
      "reapers w' = (reapers w)[i := r]" "signals w' = signals w" and r: "\<not> r_child r" and ti: "task_inv w' i"
  shows "scope_inv w'"
proof -
  have own: "holder w p = Some (Own i)" using inv i child p by (simp add: scope_inv_def task_inv_def Let_def)
  have other: "j \<noteq> i" if "holder w q = Some (Own j)" "q \<noteq> p" for q j using inv that p by (auto simp: scope_inv_def)
  have "task_inv w' j" if j: "j < length (reapers w)" for j
  proof (cases "j = i")
    case False
    then have "task_inv w j" "reapers w' ! j = reapers w ! j" using inv j w'(4) by (simp_all add: scope_inv_def)
    moreover have "r_child (reapers w ! j) \<longrightarrow> r_pid (reapers w ! j) \<noteq> p"
      using own False \<open>task_inv w j\<close> by (auto simp: task_inv_def Let_def)
    ultimately show ?thesis using w' by (auto simp: task_inv_def group_killed_def Let_def)
  qed (use ti in simp)
  moreover have "j < length (reapers w) \<and> r_child (reapers w' ! j) \<and> r_pid (reapers w' ! j) = q"
    if "holder w' q = Some (Own j)" for q j
    using that inv w'(1,2,4) other[of q j] by (auto simp: scope_inv_def split: if_splits)
  ultimately show ?thesis using inv w' by (auto simp: scope_inv_def)
qed

lemma drop_reaper_inv:
  assumes "scope_inv w" "i < length (reapers w)"
  shows "scope_inv (drop_reaper i w)"
proof (cases "r_state (reapers w ! i) = Looping")
  case True
  define p where "p = r_pid (reapers w ! i)"
  have ti: "task_inv w i" using assms by (simp add: scope_inv_def)
  with True have own: "r_child (reapers w ! i)" "holder w p = Some (Own i)" by (simp_all add: task_inv_def p_def Let_def)
  have km: "scope_inv (kill_group i w)" using group_move.keeps_inv[OF assms own(1)] .
  have gk: "group_killed i (kill_group i w)" using own(2) by (simp add: group_killed_kill p_def)
  have eq: "drop_reaper i w = update_task i (\<lambda>r. r\<lparr>r_child := False, r_state := Dropped\<rparr>) (release p (deregister p (kill_group i w)))"
    using True own(1) by (simp add: drop_reaper_def p_def Let_def)
  show ?thesis
    by (rule gone_inv[OF km, where i = i and p = p and x = "Some Foreign" and
          r = "(reapers w ! i)\<lparr>r_child := False, r_state := Dropped\<rparr>"])
      (use assms(2) own gk ti in \<open>auto simp: eq p_def kill_group_frame update_task_def task_inv_def group_killed_def Let_def\<close>)
qed (use assms in \<open>simp add: drop_reaper_def Let_def\<close>)

lemma try_reap_inv:
  assumes "scope_inv w" and i: "i < length (reapers w)" and "try_reap i fails w = (Some c, w')"
    and "grace_end (reapers w ! i) = None"
  shows "scope_inv (update_task i (\<lambda>r. r\<lparr>exit_told := on_exit r, on_exit := False, r_state := Returned c\<rparr>) w')"
    (is "scope_inv ?w")
proof -
  define p where "p = r_pid (reapers w ! i)"
  have ti: "task_inv w i" using assms by (simp add: scope_inv_def)
  from assms(3) have child: "r_child (reapers w ! i)" by (auto simp: try_reap_def Let_def split: if_splits)
  with ti have own: "holder w p = Some (Own i)" by (simp add: task_inv_def p_def Let_def)
  have w': "w' = update_task i (r_child_update (\<lambda>_. False)) (deregister p (w\<lparr>procs := (procs w)(p := None)\<rparr>)) \<or>
      w' = update_task i (r_child_update (\<lambda>_. False)) (deregister p (release p w))"
    using assms(3) child by (auto simp: try_reap_def p_def Let_def split: wait_result.splits)
  define r where "r = (reapers w ! i)\<lparr>r_child := False, exit_told := on_exit (reapers w ! i), on_exit := False, r_state := Returned c\<rparr>"
  have e: "reapers ?w = (reapers w)[i := r]" "signals ?w = signals w" "live ?w = filter (\<lambda>q. q \<noteq> p) (live w)"
    "holder ?w = (holder w)(p := None) \<or> holder ?w = (holder w)(p := Some Foreign)"
    using w' i own by (auto simp: update_task_def r_def)
  then have "task_inv ?w i" using ti i assms(4) by (auto simp: task_inv_def group_killed_def kill_taken_def r_def Let_def)
  with e show ?thesis using gone_inv[OF assms(1) i child p_def _ _ e(3,1,2)] by (auto simp: r_def)
qed

lemma try_reap_None: "try_reap i fails w = (None, w') \<Longrightarrow> w' = w"
  by (auto simp: try_reap_def Let_def split: if_splits wait_result.splits)

lemma leader_exits_inv:
  assumes "scope_inv w" "i < length (reapers w)" "r_state (reapers w ! i) = Looping"
  shows "scope_inv (leader_exits i fails w)"
proof -
  define v where "v = (if grace_end (reapers w ! i) \<noteq> None then grace_over i w else w)"
  have v: "scope_inv v" "i < length (reapers v)" "grace_end (reapers v ! i) = None"
    using assms grace_move.keeps_inv[OF assms(1,2)] by (auto simp: v_def kill_simps)
  have eq: "leader_exits i fails w = (case try_reap i fails v of
       (Some code, w) \<Rightarrow> update_task i (\<lambda>r. r\<lparr>exit_told := on_exit r, on_exit := False, r_state := Returned code\<rparr>) w
     | (None, w) \<Rightarrow> w)"
    by (simp only: leader_exits_def v_def Let_def)
  show ?thesis
    unfolding eq using v try_reap_inv[OF v(1,2) _ v(3), of fails] try_reap_None[of i fails v]
    by (auto split: prod.split option.split)
qed

lemma run_turn_inv:
  assumes "scope_inv w" "i < length (reapers w)"
  shows "scope_inv (run_turn i t w)"
  using assms kill_move.keeps_inv[OF assms] failure_move.keeps_inv[OF assms] grace_move.keeps_inv[OF assms]
    leader_exits_inv[OF assms] by (auto simp: run_turn_def Let_def)

lemma guard_signal_inv:
  assumes "scope_inv w" "p \<in> set (live w)"
  shows "scope_inv (guard_signal p w)" "live (guard_signal p w) = live w"
proof -
  have "\<exists>i. holder w p = Some (Own i)" using assms by (simp add: scope_inv_def)
  then show "scope_inv (guard_signal p w)"
    using assms(1) by (auto simp: scope_inv_def guard_signal_def send_signal_def task_inv_def group_killed_def well_aimed_def Let_def)
qed (simp add: guard_signal_def)

lemma drop_scope_inv:
  assumes "scope_inv w"
  shows "scope_inv (drop_scope w)"
proof -
  have "scope_inv (fold guard_signal ps v)" if "scope_inv v" "set ps \<subseteq> set (live v)" for ps and v :: child_scope
    using that by (induction ps arbitrary: v) (simp_all add: guard_signal_inv)
  with assms show ?thesis by (simp add: drop_scope_def)
qed

lemma spawn_inv:
  assumes inv: "scope_inv w" and free: "procs w p = None"
    and r: "r_child r" "r_pid r = p" "r_state r = Looping" "kill_pending r" "failure_pending r"
  shows "scope_inv (spawn_reap r (fork_child p w\<lparr>live := live w @ [p]\<rparr>))" (is "scope_inv ?w")
proof -
  have none: "holder w p = None" using free by (simp add: holder_def)
  have e: "holder ?w = (holder w)(p \<mapsto> Own (length (reapers w)))" "live ?w = live w @ [p]"
    "reapers ?w = reapers w @ [r]" "signals ?w = signals w"
    by (auto simp: spawn_reap_def fork_child_def holder_def fun_eq_iff)
  have old: "i < length (reapers w)" if "holder w q = Some (Own i)" for q i
    using inv that by (auto simp: scope_inv_def)
  have "task_inv ?w i" if "i \<le> length (reapers w)" for i
  proof (cases "i = length (reapers w)")
    case False
    with that inv have "task_inv w i" "i < length (reapers w)" by (simp_all add: scope_inv_def)
    moreover from this have "r_child (reapers w ! i) \<longrightarrow> r_pid (reapers w ! i) \<noteq> p"
      using none by (auto simp: task_inv_def Let_def)
    ultimately show ?thesis by (auto simp: e task_inv_def group_killed_def nth_append Let_def)
  qed (use r in \<open>simp add: e task_inv_def kill_taken_def Let_def\<close>)
  moreover have "p \<notin> set (live w)" using inv none by (simp add: scope_inv_def)
  moreover have "i \<noteq> length (reapers w)" "i \<le> length (reapers w)" if "holder w q = Some (Own i)" for q i
    using old[OF that] by simp_all
  ultimately show ?thesis using inv r by (auto simp: scope_inv_def e nth_append less_Suc_eq_le split: if_splits)
qed

lemma refused_inv:
  assumes inv: "scope_inv w" and free: "procs w p = None"
  shows "scope_inv (release p (fork_child p w))"
    "scope_inv (release p (send_signal (Some (length (reapers w))) Process KILL p (fork_child p w)))"
proof -
  have none: "holder w p = None" using free by (simp add: holder_def)
  have e: "holder (fork_child p w) = (holder w)(p \<mapsto> Own (length (reapers w)))" "live (fork_child p w) = live w"
    "reapers (fork_child p w) = reapers w" "signals (fork_child p w) = signals w"
    by (auto simp: fork_child_def holder_def fun_eq_iff)
  have "r_child (reapers w ! i) \<longrightarrow> r_pid (reapers w ! i) \<noteq> p" if "i < length (reapers w)" for i
    using inv none that by (auto simp: scope_inv_def task_inv_def Let_def)
  then show "scope_inv (release p (fork_child p w))"
    "scope_inv (release p (send_signal (Some (length (reapers w))) Process KILL p (fork_child p w)))"
    using inv none by (auto simp: scope_inv_def e task_inv_def group_killed_def well_aimed_def send_signal_def Let_def)
qed

lemma spawn_cases:
  "spawn_on_pipes p known w =
     (if known \<and> 0 < p \<and> p < 2 ^ 31
      then spawn_reap (new_reaper p None\<lparr>session_failed := Some False\<rparr>) (fork_child p w\<lparr>live := live w @ [p]\<rparr>)
      else release p (if known then send_signal (Some (length (reapers w))) Process KILL p (fork_child p w) else fork_child p w))"
  "spawn_on_pty p known w =
     (if known \<and> 0 < p \<and> p < 2 ^ 31
      then spawn_reap (new_reaper p (Some PTY_HANGUP_GRACE)\<lparr>on_exit := True\<rparr>) (fork_child p w\<lparr>live := live w @ [p]\<rparr>)
      else release p (if known then send_signal (Some (length (reapers w))) Process KILL p (fork_child p w) else fork_child p w))"
  by (auto simp: spawn_on_pipes_def spawn_on_pty_def register_def fork_child_def)

lemma table_inv:
  assumes "scope_inv w" "\<And>q i. holder v q = Some (Own i) \<longleftrightarrow> holder w q = Some (Own i)"
    "live v = live w" "reapers v = reapers w" "signals v = signals w"
  shows "scope_inv v"
  using assms by (simp add: scope_inv_def task_inv_def group_killed_def)

lemma scope_step_inv: "scope_step w w' \<Longrightarrow> scope_inv w \<Longrightarrow> scope_inv w'"
proof (induction rule: scope_step.induct)
  case (pipes w p known)
  then show ?case
    using spawn_inv[OF pipes(2,1), of "new_reaper p None\<lparr>session_failed := Some False\<rparr>"] refused_inv[OF pipes(2,1)]
    by (simp add: spawn_cases new_reaper_def)
next
  case (pty w p known)
  then show ?case
    using spawn_inv[OF pty(2,1), of "new_reaper p (Some PTY_HANGUP_GRACE)\<lparr>on_exit := True\<rparr>"] refused_inv[OF pty(2,1)]
    by (simp add: spawn_cases new_reaper_def)
next
  case (exits w p own st)
  then show ?case by (rule_tac table_inv[of w]) (auto simp: holder_def)
next
  case (takes w p)
  then show ?case by (rule_tac table_inv[of w]) (auto simp: holder_def)
next
  case (leaves w p)
  then show ?case by (rule_tac table_inv[of w]) auto
qed (auto intro: run_turn_inv drop_reaper_inv drop_scope_inv ask_move.keeps_inv fail_move.keeps_inv)

lemma scope_start_inv:
  assumes "scope_start w"
  shows "scope_inv w"
proof -
  have "holder w p \<noteq> Some (Own i)" for p i using assms by (auto simp: scope_start_def dest: spec[of _ p])
  with assms show ?thesis by (simp add: scope_start_def scope_inv_def)
qed

lemma scope_reaches_inv: "scope_reaches w w' \<Longrightarrow> scope_start w \<Longrightarrow> scope_inv w'"
  by (induction rule: scope_reaches.induct) (auto intro: scope_start_inv scope_step_inv)

section \<open>How a task ends\<close>

lemma move_keeps:
  fixes w :: child_scope
  assumes "i < length (reapers w)"
  shows "r_state (reapers (take_kill i at w) ! i) = r_state (reapers w ! i)"
    "r_state (reapers (take_failure i at w) ! i) = r_state (reapers w ! i)"
    "r_state (reapers (grace_over i w) ! i) = r_state (reapers w ! i)"
    "procs (take_kill i at w) = procs w" "procs (take_failure i at w) = procs w" "procs (grace_over i w) = procs w"
  using assms by (auto simp: kill_simps kill_group_def split: option.splits)

lemma leader_exits_keeps:
  fixes w :: child_scope
  assumes "i < length (reapers w)"
  shows "kill_taken (reapers (leader_exits i fails w) ! i) = kill_taken (reapers w ! i)"
    "r_pid (reapers (leader_exits i fails w) ! i) = r_pid (reapers w ! i)"
    "length (reapers (leader_exits i fails w)) = length (reapers w)"
  using assms by (auto simp: leader_exits_def kill_simps try_reap_def kill_taken_def split: wait_result.splits)

lemma drop_reaper_keeps:
  fixes w :: child_scope
  assumes "i < length (reapers w)" "r_state (reapers w ! i) = Looping"
  shows "r_state (reapers (drop_reaper i w) ! i) = Dropped" "r_pid (reapers (drop_reaper i w) ! i) = r_pid (reapers w ! i)"
    "length (reapers (drop_reaper i w)) = length (reapers w)"
  using assms by (auto simp: drop_reaper_def kill_group_frame Let_def)

lemma run_turn_ends:
  assumes "i < length (reapers w)" "r_state (reapers w ! i) = Looping" "r_state (reapers (run_turn i t w) ! i) \<noteq> Looping"
  shows "run_turn i t w = leader_exits i (wait_fails t) w" "\<not> (kill_pending (reapers w ! i) \<and> kill_asked (reapers w ! i))"
    "\<not> (failure_pending (reapers w ! i) \<and> session_failed (reapers w ! i) \<noteq> None)"
  using assms move_keeps[OF assms(1)] by (auto simp: run_turn_def Let_def split: if_splits)

lemma ended_killed:
  assumes "scope_inv w" "i < length (reapers w)" "r_state (reapers w ! i) = Dropped \<or> r_state (reapers w ! i) \<noteq> Looping \<and> kill_taken (reapers w ! i)"
  shows "group_killed i w"
  using assms by (cases "r_state (reapers w ! i)") (auto simp: scope_inv_def task_inv_def Let_def)

definition turns_left :: "reaper \<Rightarrow> nat" where
  "turns_left r = (if kill_pending r then 2 else 0) + (if failure_pending r then 2 else 0) +
     (if grace_end r \<noteq> None then 1 else 0)"

lemma leader_exits_zombie:
  fixes w :: child_scope
  assumes "i < length (reapers w)" "r_child (reapers w ! i)" "procs w (r_pid (reapers w ! i)) = Some (Own i, Zombie st)"
  shows "r_state (reapers (leader_exits i fails w) ! i) =
    Returned (if fails then \<lparr>exit_code = EXIT_WAIT_FAILED, signal = None\<rparr> else exit_of st)"
  using assms by (auto simp: leader_exits_def kill_simps kill_group_def try_reap_def wait_peek_def)

lemma run_turn_progress:
  assumes "i < length (reapers w)" "r_child (reapers w ! i)" "r_state (reapers w ! i) = Looping" "exit_seen t"
    "procs w (r_pid (reapers w ! i)) = Some (Own i, Zombie st)" and w': "w' = run_turn i t w"
  shows "r_state (reapers w' ! i) = Returned (if wait_fails t then \<lparr>exit_code = EXIT_WAIT_FAILED, signal = None\<rparr> else exit_of st) \<or>
    r_state (reapers w' ! i) = Looping \<and> r_child (reapers w' ! i) \<and> procs w' = procs w \<and>
    r_pid (reapers w' ! i) = r_pid (reapers w ! i) \<and> length (reapers w') = length (reapers w) \<and>
    turns_left (reapers w' ! i) < turns_left (reapers w ! i)"
proof -
  let ?r = "reapers w ! i"
  consider "kill_pending ?r" "kill_asked ?r" "w' = take_kill i (now t) w"
    | "failure_pending ?r" "w' = take_failure i (now t) w"
    | "grace_end ?r \<noteq> None" "w' = grace_over i w"
    | "w' = leader_exits i (wait_fails t) w"
    using assms(3,4) w' by (auto simp: run_turn_def Let_def split: if_splits)
  then show ?thesis
  proof cases
    case 1
    with assms(1-3) show ?thesis by (auto simp: kill_simps kill_group_def turns_left_def split: option.splits)
  next
    case 2
    with assms(1-3) show ?thesis by (auto simp: kill_simps kill_group_def turns_left_def split: option.splits)
  next
    case 3
    with assms(1-3) show ?thesis by (auto simp: kill_simps kill_group_def turns_left_def)
  qed (use leader_exits_zombie[OF assms(1,2,5)] in simp)
qed

lemma run_turn_ended: "r_state (reapers w ! i) \<noteq> Looping \<Longrightarrow> fold (run_turn i) ts w = w"
  by (induction ts) (simp_all add: run_turn_def Let_def)

lemma run_turns_end:
  assumes "scope_inv w" "i < length (reapers w)" "r_state (reapers w ! i) = Looping" "\<forall>t\<in>set ts. exit_seen t"
    "procs w (r_pid (reapers w ! i)) = Some (Own i, Zombie st)" "turns_left (reapers w ! i) < length ts"
  shows "r_state (reapers (fold (run_turn i) ts w) ! i) = Returned (exit_of st) \<or>
    (\<exists>t\<in>set ts. wait_fails t) \<and>
    r_state (reapers (fold (run_turn i) ts w) ! i) = Returned \<lparr>exit_code = EXIT_WAIT_FAILED, signal = None\<rparr>"
  using assms
proof (induction ts arbitrary: w)
  case (Cons t ts)
  define v where "v = run_turn i t w"
  have child: "r_child (reapers w ! i)" using Cons.prems(1-3) by (simp add: scope_inv_def task_inv_def Let_def)
  from run_turn_progress[OF Cons.prems(2) child Cons.prems(3) _ Cons.prems(5) v_def] Cons.prems(4)
  consider "r_state (reapers v ! i) = Returned (if wait_fails t then \<lparr>exit_code = EXIT_WAIT_FAILED, signal = None\<rparr> else exit_of st)"
    | "r_state (reapers v ! i) = Looping" "procs v = procs w" "r_pid (reapers v ! i) = r_pid (reapers w ! i)"
      "length (reapers v) = length (reapers w)" "turns_left (reapers v ! i) < turns_left (reapers w ! i)"
    by auto
  then show ?case
  proof cases
    case 1
    then show ?thesis by (auto simp: v_def[symmetric] run_turn_ended split: if_splits)
  next
    case 2
    with Cons.IH[of v] Cons.prems run_turn_inv[OF Cons.prems(1,2), of t] show ?thesis
      by (auto simp: v_def[symmetric])
  qed
qed simp

lemma run_turn_keeps:
  fixes w :: child_scope
  assumes "i < length (reapers w)"
  shows "r_pid (reapers (run_turn i t w) ! i) = r_pid (reapers w ! i)" "length (reapers (run_turn i t w)) = length (reapers w)"
    "holder (run_turn i t w) q = Some (Own j) \<Longrightarrow> holder w q = Some (Own j)"
proof -
  have "holder (leader_exits i fails w) q = Some (Own j) \<Longrightarrow> holder w q = Some (Own j)" for fails
    using assms by (auto simp: leader_exits_def kill_simps try_reap_def split: if_splits wait_result.splits)
  then show "holder (run_turn i t w) q = Some (Own j) \<Longrightarrow> holder w q = Some (Own j)"
    using kill_move.frame[OF assms] failure_move.frame[OF assms] grace_move.frame[OF assms]
    by (auto simp: run_turn_def Let_def split: if_splits)
qed (use assms leader_exits_keeps(2,3)[OF assms] kill_move.frame[OF assms] failure_move.frame[OF assms]
      grace_move.frame[OF assms] in \<open>auto simp: run_turn_def Let_def\<close>)

lemma run_turns_keep:
  assumes "scope_inv w" "i < length (reapers w)" "w' = fold (run_turn i) ts w"
  shows "scope_inv w' \<and> r_pid (reapers w' ! i) = r_pid (reapers w ! i) \<and> length (reapers w') = length (reapers w) \<and>
    (\<forall>q j. holder w' q = Some (Own j) \<longrightarrow> holder w q = Some (Own j))"
  using assms
proof (induction ts arbitrary: w)
  case (Cons t ts)
  note k = run_turn_keeps[OF Cons.prems(2), of t]
  from Cons.IH[of "run_turn i t w"] Cons.prems run_turn_inv[OF Cons.prems(1,2), of t] k(1,2)
  show ?case by (auto dest: k(3))
qed simp

section \<open>The wait and the kill guard\<close>

text \<open>\<^verbatim>\<open>wait_exit\<close> resolves exactly when the descriptor or a peek reports the exit, so no earlier wake-up ends it.\<close>

lemma wait_exit_resolves:
  "wait_exit pidfd_readable sigchld es \<noteq> None \<longleftrightarrow> pidfd_readable \<or> (\<exists>(r, _)\<in>set es. has_exited r)"
proof -
  have "peek_loop b es \<noteq> None \<longleftrightarrow> (\<exists>(r, _)\<in>set es. has_exited r)" for b
    by (induction b es rule: peek_loop.induct) (auto split: if_splits)
  then show ?thesis by (simp add: wait_exit_def)
qed

text \<open>The kill guard signals every registered child, its process and its group.\<close>

lemma drop_scope_signals: "signals (drop_scope w) = signals w @
    concat (map (\<lambda>p. [\<lparr>sent_by = None, sent_to = Process, sent_sig = KILL, sent_pid = p, sent_hits = holder w p\<rparr>,
                      \<lparr>sent_by = None, sent_to = Group, sent_sig = KILL, sent_pid = p, sent_hits = holder w p\<rparr>]) (live w))"
proof -
  have "signals (fold guard_signal ps v) = signals v @
      concat (map (\<lambda>p. [\<lparr>sent_by = None, sent_to = Process, sent_sig = KILL, sent_pid = p, sent_hits = holder v p\<rparr>,
                        \<lparr>sent_by = None, sent_to = Group, sent_sig = KILL, sent_pid = p, sent_hits = holder v p\<rparr>]) ps)"
    for ps and v :: child_scope
    by (induction ps arbitrary: v) (simp_all add: guard_signal_def send_signal_def)
  then show ?thesis by (simp add: drop_scope_def)
qed

text \<open>A scope with no child, and a session on a terminal whose kill is asked for.\<close>

definition idle_scope :: child_scope where
  "idle_scope = \<lparr>procs = (\<lambda>_. None), live = [], reapers = [], signals = []\<rparr>"

definition hanging_up :: child_scope where
  "hanging_up = run_turn 0 \<lparr>now = 5, exit_seen = False, wait_fails = False\<rparr>
     (update_task 0 (kill_asked_update (\<lambda>_. True)) (spawn_on_pty 7 True idle_scope))"

lemma idle_scope_start: "scope_start idle_scope"
  by (simp add: scope_start_def idle_scope_def holder_def)

lemmas scope_eval = run_turn_def take_kill_def take_failure_def begin_kill_def grace_over_def leader_exits_def try_reap_def
  wait_peek_def kill_group_def send_signal_def update_task_def release_def deregister_def spawn_on_pty_def register_def
  fork_child_def spawn_reap_def new_reaper_def idle_scope_def holder_def PTY_HANGUP_GRACE_def Let_def

lemma hanging_up_eq: "hanging_up = \<lparr>procs = [7 \<mapsto> (Own 0, Running)], live = [7],
   reapers = [\<lparr>r_child = True, r_pid = 7, hangup_grace = Some 1000, on_exit = True, exit_told = False,
     kill_asked = True, session_failed = None, kill_pending = False, failure_pending = True,
     grace_end = Some 1005, r_state = Looping\<rparr>],
   signals = [\<lparr>sent_by = Some 0, sent_to = Process, sent_sig = HUP, sent_pid = 7, sent_hits = Some (Own 0)\<rparr>]\<rparr>"
  by (simp add: hanging_up_def scope_eval)

lemma hanging_up_reached: "scope_reaches idle_scope hanging_up"
proof -
  have "scope_reaches idle_scope (spawn_on_pty 7 True idle_scope)"
    by (rule scope_reaches.step[OF scope_reaches.here scope_step.pty]) (simp add: idle_scope_def)
  from scope_reaches.step[OF this scope_step.ask, of 0]
  have "scope_reaches idle_scope (update_task 0 (kill_asked_update (\<lambda>_. True)) (spawn_on_pty 7 True idle_scope))"
    by (simp add: spawn_cases spawn_reap_def)
  from scope_reaches.step[OF this scope_step.turn, of 0] show ?thesis
    unfolding hanging_up_def by (simp add: spawn_cases spawn_reap_def)
qed

definition exited_in_grace :: child_scope where
  "exited_in_grace = hanging_up\<lparr>procs := (procs hanging_up)(7 \<mapsto> (Own 0, Zombie \<lparr>es_code = Some 3, es_signal = None, es_core = False\<rparr>))\<rparr>"

lemma exited_in_grace_reached: "scope_reaches idle_scope exited_in_grace"
  unfolding exited_in_grace_def
  by (rule scope_reaches.step[OF hanging_up_reached scope_step.exits]) (simp add: hanging_up_eq)

text \<open>\<^verbatim>\<open>begin_kill\<close> starts a hang-up whenever none is in progress. Once a grace is over, a failure of the
  terminal that is reported before the exit of the killed leader is seen hangs the session up again.\<close>

lemma hangup_starts_again:
  "map (\<lambda>e. (sent_to e, sent_sig e)) (signals
     (run_turn 0 \<lparr>now = 2000, exit_seen = False, wait_fails = False\<rparr>
       (update_task 0 (session_failed_update (\<lambda>_. Some True))
         (run_turn 0 \<lparr>now = 2000, exit_seen = False, wait_fails = False\<rparr> hanging_up)))) =
   [(Process, HUP), (Group, KILL), (Process, KILL), (Process, HUP)]"
  by (simp add: hanging_up_eq scope_eval)

section \<open>Properties\<close>

text \<open>C11 (safety). In every interleaving of the reap tasks, the scope's kill guard, the driver and the kernel, each
  signal a reap task sends reaches its own child while it is unreaped, and each signal of the kill guard reaches
  an unreaped child of the connection: no process that took over an identifier is ever signalled. The
  registry holds exactly the identifiers of the unreaped children, each once.\<close>

theorem signals_hit_own_children:
  assumes "scope_start w" "scope_reaches w w'"
  shows "(\<forall>e\<in>set (signals w'). \<exists>i. sent_hits e = Some (Own i) \<and> sent_by e \<in> {None, Some i}) \<and>
    distinct (live w') \<and> set (live w') = {p. \<exists>i. holder w' p = Some (Own i)} \<and>
    set (live w') = {r_pid r |r. r \<in> set (reapers w') \<and> r_child r}"
proof -
  have inv: "scope_inv w'" using scope_reaches_inv[OF assms(2,1)] .
  have "{p. \<exists>i. holder w' p = Some (Own i)} = {r_pid r |r. r \<in> set (reapers w') \<and> r_child r}"
    using inv by (auto simp: scope_inv_def task_inv_def Let_def in_set_conv_nth) blast+
  moreover have "\<exists>i. sent_hits e = Some (Own i) \<and> sent_by e \<in> {None, Some i}" if "e \<in> set (signals w')" for e
    using inv that by (cases "sent_by e") (auto simp: scope_inv_def well_aimed_def)
  ultimately show ?thesis using inv by (auto simp: scope_inv_def)
qed

theorem signals_hit_own_children_witness:
  "signals hanging_up \<noteq> [] \<and> list_all (\<lambda>e. \<exists>i. sent_hits e = Some (Own i) \<and> sent_by e \<in> {None, Some i}) (signals hanging_up)"
  using signals_hit_own_children[OF idle_scope_start hanging_up_reached]
  by (simp add: list_all_iff hanging_up_eq)

text \<open>C12 (safety). A task that ends after a kill was asked for, its terminal failed, or because it was dropped, has
  sent the group of its child a \<^verbatim>\<open>SIGKILL\<close> while the child still held its identifier, also when the exit was
  already there with the request and when the leader exited within the grace of a hang-up.\<close>

theorem kill_precedes_reap:
  assumes "scope_start w0" "scope_reaches w0 w" "i < length (reapers w)" "r_state (reapers w ! i) = Looping"
    and "w' = run_turn i t w \<and> (kill_asked (reapers w ! i) \<or> session_failed (reapers w ! i) = Some True) \<or>
      w' = drop_reaper i w"
    and "r_state (reapers w' ! i) \<noteq> Looping"
  shows "\<exists>e\<in>set (signals w'). sent_by e = Some i \<and> sent_to e = Group \<and> sent_sig e = KILL \<and>
    sent_pid e = r_pid (reapers w ! i) \<and> sent_hits e = Some (Own i)"
proof -
  have inv: "scope_inv w" using scope_reaches_inv[OF assms(2,1)] .
  have "group_killed i w' \<and> r_pid (reapers w' ! i) = r_pid (reapers w ! i)"
    using assms(5)
  proof
    assume w': "w' = run_turn i t w \<and> (kill_asked (reapers w ! i) \<or> session_failed (reapers w ! i) = Some True)"
    note ends = run_turn_ends[OF assms(3,4), of t]
    have "kill_taken (reapers w ! i)" using w' ends(2,3) assms(6) by (auto simp: kill_taken_def)
    with w' ends(1) assms(6) ended_killed[OF run_turn_inv[OF inv assms(3), of t], of i] leader_exits_keeps[OF assms(3)] assms(3)
    show ?thesis by auto
  next
    assume w': "w' = drop_reaper i w"
    with ended_killed[OF drop_reaper_inv[OF inv assms(3)], of i] drop_reaper_keeps[OF assms(3,4)] assms(3)
    show ?thesis by simp
  qed
  then show ?thesis by (auto simp: group_killed_def)
qed

theorem kill_precedes_reap_witness:
  "list_ex (\<lambda>e. sent_to e = Group \<and> sent_sig e = KILL \<and> sent_pid e = 7 \<and> sent_hits e = Some (Own 0))
     (signals (run_turn 0 \<lparr>now = 9, exit_seen = True, wait_fails = False\<rparr> exited_in_grace))"
proof -
  let ?t = "\<lparr>now = 9, exit_seen = True, wait_fails = False\<rparr>"
  have 1: "0 < length (reapers exited_in_grace)" "r_state (reapers exited_in_grace ! 0) = Looping"
    "kill_asked (reapers exited_in_grace ! 0)" "r_pid (reapers exited_in_grace ! 0) = 7"
    by (simp_all add: exited_in_grace_def hanging_up_eq)
  moreover have "r_state (reapers (run_turn 0 ?t exited_in_grace) ! 0) \<noteq> Looping"
    by (simp add: exited_in_grace_def hanging_up_eq scope_eval)
  ultimately show ?thesis
    using kill_precedes_reap[OF idle_scope_start exited_in_grace_reached 1(1,2), of "run_turn 0 ?t exited_in_grace" ?t]
    by (auto simp: list_ex_iff)
qed

text \<open>Once its leader is a zombie, six turns of a task in which the wait has resolved are enough to end it,
  whatever kills, failures and hang-ups are under way: it returns the status of the leader (or the
  conventional one, if a \<^verbatim>\<open>waitpid\<close> failed) and the leader's identifier is out of the registry.\<close>

lemma reap_completes:
  assumes "scope_start w0" "scope_reaches w0 w" "i < length (reapers w)" "r_state (reapers w ! i) = Looping"
    "procs w (r_pid (reapers w ! i)) = Some (Own i, Zombie st)"
    and "6 \<le> length ts" "\<forall>t\<in>set ts. exit_seen t" and w': "w' = fold (run_turn i) ts w"
  shows "(r_state (reapers w' ! i) = Returned (exit_of st) \<or>
      (\<exists>t\<in>set ts. wait_fails t) \<and>
      r_state (reapers w' ! i) = Returned \<lparr>exit_code = EXIT_WAIT_FAILED, signal = None\<rparr>) \<and>
    \<not> r_child (reapers w' ! i) \<and> r_pid (reapers w ! i) \<notin> set (live w')"
proof -
  have inv: "scope_inv w" using scope_reaches_inv[OF assms(2,1)] .
  note keep = run_turns_keep[OF inv assms(3) w']
  have "turns_left (reapers w ! i) < length ts" using assms(6) by (cases ts) (auto simp: turns_left_def)
  note ends = run_turns_end[OF inv assms(3,4,7,5) this, folded w']
  then have gone: "\<not> r_child (reapers w' ! i)" using keep assms(3) by (auto simp: scope_inv_def task_inv_def Let_def)
  have "holder w (r_pid (reapers w ! i)) = Some (Own i)" using assms(5) by (simp add: holder_def)
  then have "holder w' (r_pid (reapers w ! i)) \<noteq> Some (Own j)" for j
    using keep gone by (cases "j = i") (auto simp: scope_inv_def)
  then have "r_pid (reapers w ! i) \<notin> set (live w')" using keep by (simp add: scope_inv_def)
  with ends gone show ?thesis by blast
qed

lemma reap_completes_witness:
  "r_state (reapers (fold (run_turn 0) (replicate 6 \<lparr>now = 9, exit_seen = True, wait_fails = False\<rparr>) exited_in_grace) ! 0) =
     Returned \<lparr>exit_code = 3, signal = None\<rparr> \<and>
   7 \<notin> set (live (fold (run_turn 0) (replicate 6 \<lparr>now = 9, exit_seen = True, wait_fails = False\<rparr>) exited_in_grace))"
proof -
  let ?st = "\<lparr>es_code = Some 3, es_signal = None, es_core = False\<rparr>"
  have 1: "0 < length (reapers exited_in_grace)" "r_state (reapers exited_in_grace ! 0) = Looping"
    "procs exited_in_grace (r_pid (reapers exited_in_grace ! 0)) = Some (Own 0, Zombie ?st)"
    "r_pid (reapers exited_in_grace ! 0) = 7"
    by (simp_all add: exited_in_grace_def hanging_up_eq)
  have "exit_of ?st = \<lparr>exit_code = 3, signal = None\<rparr>" by (simp add: exit_of_def)
  then show ?thesis
    using reap_completes[OF idle_scope_start exited_in_grace_reached 1(1-3),
        of "replicate 6 \<lparr>now = 9, exit_seen = True, wait_fails = False\<rparr>", OF _ _ refl] 1(4)
    by (auto simp del: replicate.simps)
qed

end
