(* ===== verification/Pump.thy ===== *)
theory Pump
  imports Exec
begin

text \<open>
  \<^verbatim>\<open>crates/quantumssh-core/src/exec.rs\<close>: the tasks that carry the bytes of a child, as their loops are written:
  \<^verbatim>\<open>pump_output\<close> and \<^verbatim>\<open>pump_stdin\<close> on pipes, \<^verbatim>\<open>pump_pty\<close> with \<^verbatim>\<open>drain_master\<close> on a terminal. Each step takes what the
  operating system and the channels answer and returns how the loop goes on.

  \<^item> \<open>pump\<close> holds the locals of a loop. \<open>wrote\<close>, \<open>taken\<close> and \<open>forwarded\<close> record what it gave the child, took
    from the driver and put on the output queue.
  \<^item> The queues are those of \<open>child_io\<close>, and \<open>child_step\<close> is the behaviour the channel loop is proved
    against: every step of a pump is a sequence of its steps.
\<close>

datatype io_answer = Bytes bytes | Count nat | WouldBlock | Errno int | NotReady

definition EIO :: int where "EIO = 5"

definition is_end_of_session :: "int \<Rightarrow> bool" where
  "is_end_of_session errno \<longleftrightarrow> errno = EIO"

text \<open>\<^verbatim>\<open>FIONREAD\<close> on the master, 0 if it fails.\<close>

definition master_holds :: "nat option \<Rightarrow> nat" where
  "master_holds fionread = (case fionread of Some n \<Rightarrow> n | None \<Rightarrow> 0)"

record pump =
  permit :: bool \<comment> \<open>a slot of the output queue is reserved\<close>
  p_input :: "(bytes \<times> nat) option"
  input_open :: bool
  exit_pending :: bool
  draining :: "nat option" \<comment> \<open>in \<^verbatim>\<open>drain_master\<close>, with this many bytes to forward\<close>
  wrote :: bytes
  taken :: "bytes list"
  forwarded :: bytes
  credited :: nat

definition fresh_pump :: pump where
  "fresh_pump = \<lparr>permit = False, p_input = None, input_open = True, exit_pending = True, draining = None,
     wrote = [], taken = [], forwarded = [], credited = 0\<rparr>"

text \<open>A loop goes on, or ends; a pump of a terminal that ends says whether it reported a failure.\<close>

datatype pump_result = Goes pump child_io | Ends bool pump child_io

definition rest_of :: "pump \<Rightarrow> bytes" where
  "rest_of p = (case p_input p of None \<Rightarrow> [] | Some (chunk, n) \<Rightarrow> drop n chunk)"

definition pty_ends :: "bool \<Rightarrow> pump \<Rightarrow> child_io \<Rightarrow> pump_result" where
  "pty_ends failed p c = Ends failed p (end_input (c\<lparr>out_pumps := 0\<rparr>))"

definition forward :: "bytes \<Rightarrow> pump \<Rightarrow> child_io \<Rightarrow> pump \<times> child_io" where
  "forward b p c = (p\<lparr>forwarded := forwarded p @ b\<rparr>, c\<lparr>out_q := out_q c @ [Stdout b]\<rparr>)"

text \<open>One turn of \<^verbatim>\<open>drain_master\<close>: a read of at most what is left, and its send.\<close>

definition drain_turn :: "nat \<Rightarrow> io_answer \<Rightarrow> bool \<Rightarrow> pump \<Rightarrow> child_io \<Rightarrow> pump_result" where
  "drain_turn remaining r receives p c =
     (let want = min remaining CHUNK in
      case r of
        Bytes b \<Rightarrow>
          let b = take want b in
          if b = [] \<or> \<not> receives then pty_ends False p c
          else let (p, c) = forward b p c; remaining = remaining - length b
            in if remaining > 0 then Goes (p\<lparr>draining := Some remaining\<rparr>) c else pty_ends False p c
      | _ \<Rightarrow> pty_ends False p c)"

text \<open>\<^verbatim>\<open>drain_master\<close> on a list of answers; it waits once they are used up.\<close>

fun drain_master :: "nat \<Rightarrow> (io_answer \<times> bool) list \<Rightarrow> pump \<Rightarrow> child_io \<Rightarrow> pump_result" where
  "drain_master remaining [] p c = Goes p c"
| "drain_master remaining ((r, receives) # es) p c =
     (case drain_turn remaining r receives p c of
        Goes p c \<Rightarrow> drain_master (the (draining p)) es p c
      | Ends failed p c \<Rightarrow> Ends failed p c)"

datatype pump_event =
    LeaderExited bool "nat option" \<comment> \<open>the reaper's word, or its sender dropped; then the answer of \<^verbatim>\<open>FIONREAD\<close>\<close>
  | Reserved bool
  | MasterReadable io_answer
  | Received "bytes option"
  | MasterWritable io_answer bool \<comment> \<open>and whether the acknowledgement has a receiver\<close>
  | Drain io_answer bool

definition on_leader_exited :: "bool \<Rightarrow> nat option \<Rightarrow> pump \<Rightarrow> child_io \<Rightarrow> pump_result" where
  "on_leader_exited ok fionread p c =
     (let p = p\<lparr>exit_pending := False\<rparr> in
      if ok then
        let p = p\<lparr>permit := False\<rparr>; remaining = master_holds fionread
        in if remaining > 0 then Goes (p\<lparr>draining := Some remaining\<rparr>) c else pty_ends False p c
      else Goes p c)"

definition on_master_readable :: "io_answer \<Rightarrow> pump \<Rightarrow> child_io \<Rightarrow> pump_result" where
  "on_master_readable r p c =
     (case r of
        Bytes b \<Rightarrow>
          let b = take CHUNK b in
          if b \<noteq> [] then let (p, c) = forward b p c in Goes (p\<lparr>permit := False\<rparr>) c
          else pty_ends False p c
      | WouldBlock \<Rightarrow> Goes p c
      | Errno e \<Rightarrow> pty_ends (\<not> is_end_of_session e) p c
      | _ \<Rightarrow> pty_ends False p c)"

definition on_received :: "bytes option \<Rightarrow> pump \<Rightarrow> child_io \<Rightarrow> pump_result" where
  "on_received chunk p c =
     (case chunk of
        Some x \<Rightarrow> Goes (p\<lparr>p_input := Some (x, 0), taken := taken p @ [x]\<rparr>) (c\<lparr>stdin_q := tl (stdin_q c), pump_rest := x\<rparr>)
      | None \<Rightarrow> Goes (p\<lparr>input_open := False\<rparr>) c)"

text \<open>A write takes at most what it is given; its length is acknowledged to the driver.\<close>

definition on_master_writable :: "io_answer \<Rightarrow> bool \<Rightarrow> pump \<Rightarrow> child_io \<Rightarrow> pump_result" where
  "on_master_writable r receives p c =
     (case r of
        Count n \<Rightarrow>
          (case p_input p of
             None \<Rightarrow> Goes p c
           | Some (chunk, written) \<Rightarrow>
               let n = min n (length chunk - written);
                   p = p\<lparr>wrote := wrote p @ take n (drop written chunk)\<rparr>;
                   written = written + n in
               if n > u32_max \<or> \<not> receives then pty_ends False p c
               else Goes (p\<lparr>p_input := (if written = length chunk then None else Some (chunk, written)),
                            credited := credited p + n\<rparr>)
                      (c\<lparr>pump_rest := drop n (pump_rest c), consumed_q := consumed_q c @ [word_of_nat n]\<rparr>))
      | WouldBlock \<Rightarrow> Goes p c
      | Errno e \<Rightarrow> pty_ends (\<not> is_end_of_session e) p c
      | _ \<Rightarrow> pty_ends False p c)"

text \<open>The guards of the arms of the \<^verbatim>\<open>select!\<close>, and what the channels of the child can answer.\<close>

definition pty_enabled :: "pump_event \<Rightarrow> pump \<Rightarrow> child_io \<Rightarrow> bool" where
  "pty_enabled e p c \<longleftrightarrow>
     (case e of
        LeaderExited _ _ \<Rightarrow> draining p = None \<and> exit_pending p
      | Reserved ok \<Rightarrow> draining p = None \<and> \<not> permit p \<and> (ok \<longrightarrow> length (out_q c) < OUT_QUEUE)
      | MasterReadable _ \<Rightarrow> draining p = None \<and> permit p
      | Received (Some x) \<Rightarrow> draining p = None \<and> input_open p \<and> p_input p = None \<and> stdin_q c \<noteq> [] \<and> x = hd (stdin_q c)
      | Received None \<Rightarrow> draining p = None \<and> input_open p \<and> p_input p = None \<and> stdin_q c = [] \<and> \<not> stdin_tx c
      | MasterWritable _ _ \<Rightarrow> draining p = None \<and> p_input p \<noteq> None
      | Drain _ receives \<Rightarrow> draining p \<noteq> None \<and> (receives \<longrightarrow> length (out_q c) < OUT_QUEUE))"

definition pump_pty :: "pump_event \<Rightarrow> pump \<Rightarrow> child_io \<Rightarrow> pump_result" where
  "pump_pty e p c =
     (case e of
        LeaderExited ok fionread \<Rightarrow> on_leader_exited ok fionread p c
      | Reserved ok \<Rightarrow> if ok then Goes (p\<lparr>permit := True\<rparr>) c else pty_ends False p c
      | MasterReadable r \<Rightarrow> on_master_readable r p c
      | Received chunk \<Rightarrow> on_received chunk p c
      | MasterWritable r receives \<Rightarrow> on_master_writable r receives p c
      | Drain r receives \<Rightarrow>
          (case draining p of Some remaining \<Rightarrow> drain_turn remaining r receives p c | None \<Rightarrow> pty_ends False p c))"

section \<open>The pumps of a child on pipes\<close>

definition pump_output :: "(bytes \<Rightarrow> child_chunk) \<Rightarrow> io_answer \<Rightarrow> bool \<Rightarrow> child_io \<Rightarrow> bool \<times> child_io" where
  "pump_output frame r receives c =
     (let ends = (False, c\<lparr>out_pumps := out_pumps c - 1\<rparr>) in
      case r of
        Bytes b \<Rightarrow>
          let b = take CHUNK b in
          if b = [] \<or> \<not> receives then ends else (True, c\<lparr>out_q := out_q c @ [frame b]\<rparr>)
      | _ \<Rightarrow> ends)"

datatype stdin_event = Recv "bytes option" | Write io_answer bool | Flush bool

definition stdin_enabled :: "stdin_event \<Rightarrow> pump \<Rightarrow> child_io \<Rightarrow> bool" where
  "stdin_enabled e p c \<longleftrightarrow>
     (case e of
        Recv (Some x) \<Rightarrow> p_input p = None \<and> stdin_q c \<noteq> [] \<and> x = hd (stdin_q c)
      | Recv None \<Rightarrow> p_input p = None \<and> stdin_q c = [] \<and> \<not> stdin_tx c
      | Write _ _ \<Rightarrow> rest_of p \<noteq> []
      | Flush _ \<Rightarrow> p_input p \<noteq> None \<and> rest_of p = [])"

definition on_write :: "io_answer \<Rightarrow> bool \<Rightarrow> pump \<Rightarrow> child_io \<Rightarrow> pump_result" where
  "on_write r receives p c =
     (case (r, p_input p) of
        (Count n, Some (chunk, written)) \<Rightarrow>
          let n = min n (length chunk - written) in
          if n = 0 then Ends False p (end_input c)
          else
            let p = p\<lparr>wrote := wrote p @ take n (drop written chunk)\<rparr> in
            if n > u32_max \<or> \<not> receives then Ends False p (end_input c)
            else Goes (p\<lparr>p_input := Some (chunk, written + n), credited := credited p + n\<rparr>)
                   (c\<lparr>pump_rest := drop n (pump_rest c), consumed_q := consumed_q c @ [word_of_nat n]\<rparr>)
      | _ \<Rightarrow> Ends False p (end_input c))"

definition pump_stdin :: "stdin_event \<Rightarrow> pump \<Rightarrow> child_io \<Rightarrow> pump_result" where
  "pump_stdin e p c =
     (case e of
        Recv (Some x) \<Rightarrow> on_received (Some x) p c
      | Recv None \<Rightarrow> Ends False p (end_input c)
      | Write r receives \<Rightarrow> on_write r receives p c
      | Flush ok \<Rightarrow> if ok then Goes (p\<lparr>p_input := None\<rparr>) c else Ends False p (end_input c))"

section \<open>The simulation\<close>

text \<open>The locals of a pump and the queues it serves: the bytes taken from the driver are those written,
  in order, and the rest of the chunk in hand; each byte written is acknowledged once.\<close>

definition pump_rel :: "pump \<Rightarrow> child_io \<Rightarrow> bool" where
  "pump_rel p c \<longleftrightarrow>
     pump_alive c \<and> pump_rest c = rest_of p \<and> (permit p \<longrightarrow> length (out_q c) < OUT_QUEUE) \<and>
     (\<forall>n. draining p = Some n \<longrightarrow> 0 < n \<and> \<not> permit p) \<and>
     (\<forall>chunk n. p_input p = Some (chunk, n) \<longrightarrow> n \<le> length chunk) \<and>
     concat (taken p) = wrote p @ rest_of p \<and> credited p = length (wrote p)"

definition at_end :: "pump \<Rightarrow> bool" where
  "at_end p \<longleftrightarrow> (\<exists>lost. concat (taken p) = wrote p @ lost) \<and> credited p \<le> length (wrote p)"

lemma rest_of_simps [simp]:
  "p_input p = None \<Longrightarrow> rest_of p = []" "p_input p = Some (x, n) \<Longrightarrow> rest_of p = drop n x"
  by (simp_all add: rest_of_def)

lemma rest_of_update [simp]:
  "rest_of (p\<lparr>permit := a\<rparr>) = rest_of p" "rest_of (p\<lparr>input_open := a\<rparr>) = rest_of p" "rest_of (p\<lparr>exit_pending := a\<rparr>) = rest_of p"
  "rest_of (p\<lparr>draining := d\<rparr>) = rest_of p" "rest_of (p\<lparr>wrote := b\<rparr>) = rest_of p" "rest_of (p\<lparr>forwarded := b\<rparr>) = rest_of p"
  "rest_of (p\<lparr>taken := t\<rparr>) = rest_of p" "rest_of (p\<lparr>credited := n\<rparr>) = rest_of p"
  by (simp_all add: rest_of_def)

lemma pump_rel_at_end: "pump_rel p c \<Longrightarrow> at_end p"
  by (auto simp: pump_rel_def at_end_def)

text \<open>What the client of a pump sees of a step: it is one of the steps the channel loop allows for.\<close>

definition simulated :: "child_io \<Rightarrow> pump_result \<Rightarrow> bool" where
  "simulated c r \<longleftrightarrow>
     (case r of
        Goes p' c' \<Rightarrow> child_step\<^sup>*\<^sup>* c c' \<and> pump_rel p' c' \<and> out_pumps c' = out_pumps c \<and> on_terminal c' = on_terminal c
      | Ends failed p' c' \<Rightarrow> child_step\<^sup>*\<^sup>* c c' \<and> \<not> pump_alive c' \<and> at_end p' \<and> (on_terminal c \<longrightarrow> out_pumps c' = 0))"

lemma simulated_step:
  assumes "child_step c c'" "simulated c' r" "on_terminal c' = on_terminal c" "out_pumps c' = out_pumps c"
  shows "simulated c r"
  using assms by (auto simp: simulated_def split: pump_result.splits intro: converse_rtranclp_into_rtranclp)

lemma pty_ends_simulated:
  assumes "on_terminal c" "0 < out_pumps c" "at_end p"
  shows "simulated c (pty_ends failed p c)"
  using assms child_step.terminal_end[OF assms(2,1)] by (auto simp: simulated_def pty_ends_def end_input_def)

lemma pipe_ends_simulated:
  assumes "\<not> on_terminal c" "pump_alive c" "at_end p"
  shows "simulated c (Ends failed p (end_input c))"
  using assms child_step.pump_end[OF assms(2,1)] by (auto simp: simulated_def end_input_def)

lemma on_received_simulated:
  assumes "pump_rel p c" "p_input p = None" "stdin_q c \<noteq> []" "x = hd (stdin_q c)"
  shows "simulated c (on_received (Some x) p c)"
proof -
  have "child_step c (c\<lparr>stdin_q := tl (stdin_q c), pump_rest := x\<rparr>)"
    using assms by (intro child_step.pump_take) (auto simp: pump_rel_def)
  with assms show ?thesis by (auto simp: simulated_def on_received_def pump_rel_def rest_of_def)
qed

lemma pump_write_simulated:
  assumes rel: "pump_rel p c" and inp: "p_input p = Some (chunk, written)" and n: "n \<le> length chunk - written" "n \<le> u32_max"
    and zero: "0 < n \<or> on_terminal c"
    and p': "p' = p\<lparr>wrote := wrote p @ take n (drop written chunk), p_input := i', credited := credited p + n\<rparr>"
    and i': "i' = Some (chunk, written + n) \<or> i' = None \<and> written + n = length chunk"
  shows "simulated c (Goes p' (c\<lparr>pump_rest := drop n (pump_rest c), consumed_q := consumed_q c @ [word_of_nat n]\<rparr>))"
proof -
  have "child_step c (c\<lparr>pump_rest := drop n (pump_rest c), consumed_q := consumed_q c @ [word_of_nat n]\<rparr>)"
    using rel inp n zero by (intro child_step.pump_write) (auto simp: pump_rel_def)
  moreover have "rest_of p' = drop (written + n) chunk" using i' p' by (auto simp: rest_of_def)
  moreover have "drop written chunk = take n (drop written chunk) @ drop (written + n) chunk"
    by (simp add: add.commute flip: drop_drop)
  ultimately show ?thesis using rel inp n i' p' by (auto simp: simulated_def pump_rel_def min_def add.commute[of n])
qed

lemma write_at_end:
  assumes "pump_rel p c" "p_input p = Some (chunk, written)"
  shows "at_end (p\<lparr>wrote := wrote p @ take n (drop written chunk)\<rparr>)"
  using assms by (auto simp: pump_rel_def at_end_def intro: append_take_drop_id[symmetric])

lemma out_step:
  assumes "0 < out_pumps c" "length (out_q c) < OUT_QUEUE" "b \<noteq> []" "length b \<le> CHUNK"
  shows "child_step c (c\<lparr>out_q := out_q c @ [Stdout b]\<rparr>)" "child_step c (c\<lparr>out_q := out_q c @ [Stderr b]\<rparr>)"
  using assms by (auto intro: child_step.out_read[where b = b])

lemma readable_simulated:
  assumes rel: "pump_rel p c" and pty: "on_terminal c" "0 < out_pumps c" and permit: "permit p" "draining p = None"
  shows "simulated c (on_master_readable r p c)"
proof -
  note ends = pty_ends_simulated[OF pty pump_rel_at_end[OF rel]]
  have room: "length (out_q c) < OUT_QUEUE" using rel permit by (simp add: pump_rel_def)
  have "simulated c (on_master_readable (Bytes b) p c)" for b
  proof (cases "take CHUNK b = []")
    case False
    from out_step(1)[OF pty(2) room False] rel permit False show ?thesis
      by (auto simp: on_master_readable_def forward_def simulated_def pump_rel_def Let_def)
  qed (use ends in \<open>auto simp: on_master_readable_def Let_def\<close>)
  moreover have "simulated c (Goes p c)" using rel by (simp add: simulated_def)
  ultimately show ?thesis using ends by (cases r) (auto simp: on_master_readable_def)
qed

lemma writable_simulated:
  assumes rel: "pump_rel p c" and pty: "on_terminal c" "0 < out_pumps c" and inp: "p_input p = Some (chunk, written)"
  shows "simulated c (on_master_writable r receives p c)"
proof -
  have same: "simulated c (Goes p c)" using rel by (simp add: simulated_def)
  have "simulated c (on_master_writable (Count m) receives p c)" for m
  proof -
    define n where "n = min m (length chunk - written)"
    let ?p = "p\<lparr>wrote := wrote p @ take n (drop written chunk)\<rparr>"
    have eq: "on_master_writable (Count m) receives p c =
        (if n > u32_max \<or> \<not> receives then pty_ends False ?p c
         else Goes (?p\<lparr>p_input := (if written + n = length chunk then None else Some (chunk, written + n)),
                      credited := credited ?p + n\<rparr>)
                (c\<lparr>pump_rest := drop n (pump_rest c), consumed_q := consumed_q c @ [word_of_nat n]\<rparr>))"
      by (simp only: on_master_writable_def inp n_def Let_def io_answer.case option.case prod.case)
    have "n \<le> length chunk - written" by (simp add: n_def)
    then show ?thesis
      unfolding eq using pty_ends_simulated[OF pty write_at_end[OF rel inp]] pump_write_simulated[OF rel inp, of n] pty(1)
      by auto
  qed
  with same pty_ends_simulated[OF pty pump_rel_at_end[OF rel]] show ?thesis
    by (cases r) (auto simp: on_master_writable_def)
qed

lemma drain_simulated:
  assumes rel: "pump_rel p c" and pty: "on_terminal c" "0 < out_pumps c" and left: "draining p = Some remaining"
    and room: "receives \<longrightarrow> length (out_q c) < OUT_QUEUE"
  shows "simulated c (drain_turn remaining r receives p c)"
proof -
  note ends = pty_ends_simulated[OF pty pump_rel_at_end[OF rel]]
  have "simulated c (drain_turn remaining (Bytes d) receives p c)" for d
  proof -
    define b where "b = take (min remaining CHUNK) d"
    define p' c' where "p' = p\<lparr>forwarded := forwarded p @ b\<rparr>" and "c' = c\<lparr>out_q := out_q c @ [Stdout b]\<rparr>"
    have eq: "drain_turn remaining (Bytes d) receives p c =
        (if b = [] \<or> \<not> receives then pty_ends False p c
         else if remaining - length b > 0 then Goes (p'\<lparr>draining := Some (remaining - length b)\<rparr>) c'
         else pty_ends False p' c')"
      by (simp only: drain_turn_def forward_def b_def p'_def c'_def Let_def io_answer.case prod.case)
    show ?thesis
    proof (cases "b = [] \<or> \<not> receives")
      case False
      have "child_step c c'" unfolding c'_def by (rule out_step) (use False room pty in \<open>auto simp: b_def\<close>)
      moreover have "simulated c' (pty_ends False p' c')"
        by (rule pty_ends_simulated) (use pty rel in \<open>auto simp: c'_def p'_def at_end_def pump_rel_def\<close>)
      moreover have "simulated c' (Goes (p'\<lparr>draining := Some k\<rparr>) c')" if "0 < k" for k
        using rel left that by (auto simp: p'_def c'_def pump_rel_def simulated_def)
      ultimately show ?thesis unfolding eq using False by (auto intro: simulated_step simp: c'_def)
    qed (use ends eq in simp)
  qed
  with ends show ?thesis by (cases r) (auto simp: drain_turn_def Let_def)
qed

lemma pty_simulated:
  assumes rel: "pump_rel p c" and pty: "on_terminal c" "0 < out_pumps c" and en: "pty_enabled e p c"
  shows "simulated c (pump_pty e p c)"
proof (cases e)
  case (LeaderExited ok fionread)
  with rel en pty_ends_simulated[OF pty] show ?thesis
    by (auto simp: pump_pty_def on_leader_exited_def simulated_def pump_rel_def at_end_def pty_enabled_def Let_def)
next
  case (Reserved ok)
  with rel en pty_ends_simulated[OF pty pump_rel_at_end[OF rel]] show ?thesis
    by (auto simp: pump_pty_def simulated_def pump_rel_def pty_enabled_def)
next
  case (MasterReadable r)
  with en readable_simulated[OF rel pty] show ?thesis by (simp add: pump_pty_def pty_enabled_def)
next
  case (Received chunk)
  with rel en on_received_simulated[OF rel] show ?thesis
    by (cases chunk) (auto simp: pump_pty_def pty_enabled_def on_received_def simulated_def pump_rel_def)
next
  case (MasterWritable r receives)
  with en writable_simulated[OF rel pty] show ?thesis by (auto simp: pump_pty_def pty_enabled_def)
next
  case (Drain r receives)
  with en drain_simulated[OF rel pty] show ?thesis by (auto simp: pump_pty_def pty_enabled_def)
qed

lemma stdin_simulated:
  assumes rel: "pump_rel p c" and pipes: "\<not> on_terminal c" and en: "stdin_enabled e p c"
  shows "simulated c (pump_stdin e p c)"
proof -
  have alive: "pump_alive c" using rel by (simp add: pump_rel_def)
  note ends = pipe_ends_simulated[OF pipes alive pump_rel_at_end[OF rel]]
  show ?thesis
  proof (cases e)
    case (Recv chunk)
    with en ends on_received_simulated[OF rel] show ?thesis
      by (cases chunk) (auto simp: pump_stdin_def stdin_enabled_def)
  next
    case (Write r receives)
    then obtain chunk written where inp: "p_input p = Some (chunk, written)"
      using en by (auto simp: stdin_enabled_def rest_of_def split: option.splits)
    have "simulated c (on_write (Count m) receives p c)" for m
    proof -
      define n where "n = min m (length chunk - written)"
      let ?p = "p\<lparr>wrote := wrote p @ take n (drop written chunk)\<rparr>"
      have eq: "on_write (Count m) receives p c =
          (if n = 0 then Ends False p (end_input c)
           else if n > u32_max \<or> \<not> receives then Ends False ?p (end_input c)
           else Goes (?p\<lparr>p_input := Some (chunk, written + n), credited := credited ?p + n\<rparr>)
                  (c\<lparr>pump_rest := drop n (pump_rest c), consumed_q := consumed_q c @ [word_of_nat n]\<rparr>))"
        by (simp only: on_write_def inp n_def Let_def io_answer.case option.case prod.case)
      have "n \<le> length chunk - written" by (simp add: n_def)
      then show ?thesis
        unfolding eq using ends pipe_ends_simulated[OF pipes alive write_at_end[OF rel inp]] pump_write_simulated[OF rel inp, of n]
        by auto
    qed
    with ends inp show ?thesis by (cases r) (auto simp: pump_stdin_def Write on_write_def)
  next
    case (Flush ok)
    with rel en ends show ?thesis
      by (auto simp: pump_stdin_def stdin_enabled_def simulated_def pump_rel_def)
  qed
qed

lemma output_simulated:
  assumes "frame = Stdout \<or> frame = Stderr" "\<not> on_terminal c" "0 < out_pumps c" "receives \<longrightarrow> length (out_q c) < OUT_QUEUE"
  shows "child_step c (snd (pump_output frame r receives c))"
proof (cases "\<exists>b. r = Bytes b \<and> take CHUNK b \<noteq> [] \<and> receives")
  case True
  then obtain b where b: "r = Bytes b" "take CHUNK b \<noteq> []" receives by blast
  with assms out_step[OF assms(3), of "take CHUNK b"] show ?thesis by (auto simp: pump_output_def Let_def)
next
  case False
  then have "pump_output frame r receives c = (False, c\<lparr>out_pumps := out_pumps c - 1\<rparr>)"
    by (cases r) (auto simp: pump_output_def Let_def)
  with child_step.out_end[OF assms(3,2)] show ?thesis by simp
qed

section \<open>The drain is bounded\<close>

lemma drain_turn_bounded:
  "drain_turn remaining r receives p c = Goes p' c' \<Longrightarrow>
     \<exists>b k. forwarded p' = forwarded p @ b \<and> draining p' = Some k \<and> k + length b = remaining \<and> b \<noteq> [] \<and> 0 < k"
  "drain_turn remaining r receives p c = Ends failed p' c' \<Longrightarrow>
     \<not> failed \<and> (\<exists>b. forwarded p' = forwarded p @ b \<and> length b \<le> remaining)"
  by (auto simp: drain_turn_def pty_ends_def forward_def Let_def split: io_answer.splits if_splits)

text \<open>However much a process left behind goes on writing to the terminal, the drain ends after at most as many
  reads as bytes were there, and forwards no more than those.\<close>

lemma drain_master_bounded:
  assumes "0 < remaining" "remaining \<le> length es"
  shows "\<exists>p' c' b. drain_master remaining es p c = Ends False p' c' \<and> forwarded p' = forwarded p @ b \<and> length b \<le> remaining"
  using assms
proof (induction es arbitrary: remaining p c)
  case (Cons e es)
  obtain r receives where e: "e = (r, receives)" by force
  show ?case
  proof (cases "drain_turn remaining r receives p c")
    case (Goes p' c')
    from drain_turn_bounded(1)[OF this] obtain b k where
      b: "forwarded p' = forwarded p @ b" "draining p' = Some k" "k + length b = remaining" "b \<noteq> []" "0 < k" by blast
    moreover have "k \<le> length es" using b(3,4) Cons.prems(2) by (cases b) auto
    from Cons.IH[OF b(5) this, of p' c'] obtain p'' c'' b' where
      "drain_master k es p' c' = Ends False p'' c''" "forwarded p'' = forwarded p' @ b'" "length b' \<le> k" by blast
    ultimately show ?thesis by (simp add: e Goes)
  next
    case (Ends failed p' c')
    with drain_turn_bounded(2)[OF Ends] show ?thesis by (auto simp: e)
  qed
qed simp

section \<open>Sessions on a terminal\<close>

text \<open>The pump next to the driver, which fills and empties the queues, and the reap task, which sends the exit into
  a slot that the pump has not reserved.\<close>

inductive pty_session :: "pump \<Rightarrow> child_io \<Rightarrow> bool" where
  start: "pty_session fresh_pump pty_child"
| pump: "pty_session p c \<Longrightarrow> pty_enabled e p c \<Longrightarrow> pump_pty e p c = Goes p' c' \<Longrightarrow> pty_session p' c'"
| send: "pty_session p c \<Longrightarrow> try_send_stdin c x = Inr c' \<Longrightarrow> pty_session p c'"
| close: "pty_session p c \<Longrightarrow> pty_session p (close_stdin c)"
| kill: "pty_session p c \<Longrightarrow> pty_session p (child_kill c)"
| out: "pty_session p c \<Longrightarrow> recv_out c = Some (x, c') \<Longrightarrow> pty_session p c'"
| credit: "pty_session p c \<Longrightarrow> recv_consumed c = Some (n, c') \<Longrightarrow> pty_session p c'"
| reap: "pty_session p c \<Longrightarrow> reaping c \<Longrightarrow> length (out_q c) + (if permit p then 1 else 0) < OUT_QUEUE \<Longrightarrow>
    pty_session p (c\<lparr>out_q := out_q c @ [Exited x], reaping := False\<rparr>)"

lemma pty_session_rel: "pty_session p c \<Longrightarrow> pump_rel p c \<and> on_terminal c \<and> 0 < out_pumps c"
proof (induction rule: pty_session.induct)
  case start
  show ?case by (simp add: fresh_pump_def pty_child_def pump_rel_def rest_of_def)
next
  case (pump p c e p' c')
  with pty_simulated[of p c e] show ?case by (simp add: simulated_def)
qed (auto simp: pump_rel_def try_send_stdin_def close_stdin_def child_kill_def recv_out_def recv_consumed_def
      split: if_splits list.splits)

section \<open>Properties\<close>

text \<open>C13 (refinement). At every point of a session on a terminal, whatever the operating system, the driver and the reap task
  do, the bytes taken from the driver are those written to the terminal, in order, followed by the rest of the
  chunk in hand, and each byte written has been acknowledged once. Every step of the pump is a sequence of
  the child's steps that the channel loop is proved against, and a pump that ends leaves both of its queues
  without a task.\<close>

theorem pump_pty_refines:
  assumes "pty_session p c" "pty_enabled e p c"
  shows "concat (taken p) = wrote p @ rest_of p \<and> credited p = length (wrote p) \<and>
    (case pump_pty e p c of
       Goes p' c' \<Rightarrow> child_step\<^sup>*\<^sup>* c c'
     | Ends failed p' c' \<Rightarrow> child_step\<^sup>*\<^sup>* c c' \<and> \<not> pump_alive c' \<and> out_pumps c' = 0)"
proof -
  from pty_session_rel[OF assms(1)] have rel: "pump_rel p c" and pty: "on_terminal c" "0 < out_pumps c" by auto
  from pty_simulated[OF rel pty assms(2)] pty(1)
  have "case pump_pty e p c of
      Goes p' c' \<Rightarrow> child_step\<^sup>*\<^sup>* c c'
    | Ends failed p' c' \<Rightarrow> child_step\<^sup>*\<^sup>* c c' \<and> \<not> pump_alive c' \<and> out_pumps c' = 0"
    by (cases "pump_pty e p c") (simp_all add: simulated_def)
  with rel show ?thesis by (simp add: pump_rel_def)
qed

theorem pump_pty_refines_witness:
  "\<exists>p' c'. pump_pty (Received (Some [65])) fresh_pump (pty_child\<lparr>stdin_q := [[65]]\<rparr>) = Goes p' c' \<and> taken p' = [[65]] \<and>
     child_step\<^sup>*\<^sup>* (pty_child\<lparr>stdin_q := [[65]]\<rparr>) c'"
proof -
  have "pty_session fresh_pump (pty_child\<lparr>stdin_q := [[65]]\<rparr>)"
    by (rule pty_session.send[OF pty_session.start, of "[65]"])
      (simp add: try_send_stdin_def pty_child_def STDIN_QUEUE_def)
  moreover have "pty_enabled (Received (Some [65])) fresh_pump (pty_child\<lparr>stdin_q := [[65]]\<rparr>)"
    by (simp add: pty_enabled_def fresh_pump_def)
  ultimately show ?thesis using pump_pty_refines[of fresh_pump "pty_child\<lparr>stdin_q := [[65]]\<rparr>" "Received (Some [65])"]
    by (simp add: pump_pty_def on_received_def fresh_pump_def)
qed

end
