(* ===== verification/Channel.thy ===== *)
theory Channel
  imports Session Pty Exec
begin

text \<open>
  \<^verbatim>\<open>crates/quantumssh-core/src/channel.rs\<close>: the connection layer of RFC 4254 cut down to one session
  channel that runs one child. Every function of \<^verbatim>\<open>Driver\<close>, the \<^verbatim>\<open>drive\<close> loop and the frame builders.

  \<^item> \<open>driver\<close> is \<^verbatim>\<open>Driver\<close>. The connection scope is the helper executable it was made with; \<open>os_calls\<close>
    counts the system-dependent calls, whose outcomes are \<open>os\<close>.
  \<^item> Each method takes and returns the driver and the session. An error keeps the driver beside the
    trace, because \<^verbatim>\<open>Drop for Driver\<close> still writes to the audit log after it (\<open>drop_driver\<close>).
  \<^item> A turn of the loop is \<open>turn_head\<close> (phases A to E) and \<open>turn_wait\<close> (the \<^verbatim>\<open>select!\<close>). The packet reader is
    polled first; if it waits, one of the other arms that are ready is taken. \<open>drive_step\<close> interleaves the
    turns with the child's tasks.
\<close>

section \<open>Constants\<close>

definition SSH_MSG_IGNORE :: u8 where "SSH_MSG_IGNORE = 2"
definition SSH_MSG_UNIMPLEMENTED :: u8 where "SSH_MSG_UNIMPLEMENTED = 3"
definition SSH_MSG_DEBUG :: u8 where "SSH_MSG_DEBUG = 4"
definition SSH_MSG_GLOBAL_REQUEST :: u8 where "SSH_MSG_GLOBAL_REQUEST = 80"
definition SSH_MSG_REQUEST_FAILURE :: u8 where "SSH_MSG_REQUEST_FAILURE = 82"
definition SSH_MSG_CHANNEL_OPEN :: u8 where "SSH_MSG_CHANNEL_OPEN = 90"
definition SSH_MSG_CHANNEL_OPEN_CONFIRMATION :: u8 where "SSH_MSG_CHANNEL_OPEN_CONFIRMATION = 91"
definition SSH_MSG_CHANNEL_OPEN_FAILURE :: u8 where "SSH_MSG_CHANNEL_OPEN_FAILURE = 92"
definition SSH_MSG_CHANNEL_WINDOW_ADJUST :: u8 where "SSH_MSG_CHANNEL_WINDOW_ADJUST = 93"
definition SSH_MSG_CHANNEL_DATA :: u8 where "SSH_MSG_CHANNEL_DATA = 94"
definition SSH_MSG_CHANNEL_EXTENDED_DATA :: u8 where "SSH_MSG_CHANNEL_EXTENDED_DATA = 95"
definition SSH_MSG_CHANNEL_EOF :: u8 where "SSH_MSG_CHANNEL_EOF = 96"
definition SSH_MSG_CHANNEL_CLOSE :: u8 where "SSH_MSG_CHANNEL_CLOSE = 97"
definition SSH_MSG_CHANNEL_REQUEST :: u8 where "SSH_MSG_CHANNEL_REQUEST = 98"
definition SSH_MSG_CHANNEL_SUCCESS :: u8 where "SSH_MSG_CHANNEL_SUCCESS = 99"
definition SSH_MSG_CHANNEL_FAILURE :: u8 where "SSH_MSG_CHANNEL_FAILURE = 100"

lemmas channel_msgs = SSH_MSG_IGNORE_def SSH_MSG_UNIMPLEMENTED_def SSH_MSG_DEBUG_def SSH_MSG_GLOBAL_REQUEST_def
  SSH_MSG_REQUEST_FAILURE_def SSH_MSG_CHANNEL_OPEN_def SSH_MSG_CHANNEL_OPEN_CONFIRMATION_def
  SSH_MSG_CHANNEL_OPEN_FAILURE_def SSH_MSG_CHANNEL_WINDOW_ADJUST_def SSH_MSG_CHANNEL_DATA_def
  SSH_MSG_CHANNEL_EXTENDED_DATA_def SSH_MSG_CHANNEL_EOF_def SSH_MSG_CHANNEL_CLOSE_def
  SSH_MSG_CHANNEL_REQUEST_def SSH_MSG_CHANNEL_SUCCESS_def SSH_MSG_CHANNEL_FAILURE_def

definition SSH_OPEN_ADMINISTRATIVELY_PROHIBITED :: u32 where "SSH_OPEN_ADMINISTRATIVELY_PROHIBITED = 1"
definition SSH_OPEN_UNKNOWN_CHANNEL_TYPE :: u32 where "SSH_OPEN_UNKNOWN_CHANNEL_TYPE = 3"
definition SSH_EXTENDED_DATA_STDERR :: u32 where "SSH_EXTENDED_DATA_STDERR = 1"
definition INITIAL_WINDOW :: u32 where "INITIAL_WINDOW = 2 * 1024 * 1024"
definition CHANNEL_MAX_PACKET :: u32 where "CHANNEL_MAX_PACKET = 32 * 1024"
definition CREDIT_BATCH :: u32 where "CREDIT_BATCH = 1024 * 1024"
definition LOCAL_CHANNEL :: u32 where "LOCAL_CHANNEL = 0"
definition EXIT_SPAWN_FAILED :: int where "EXIT_SPAWN_FAILED = 127"
definition MAX_DEFERRED :: nat where "MAX_DEFERRED = 64"
definition CHANNEL_TYPE_BOUND :: nat where "CHANNEL_TYPE_BOUND = 64"
definition REQUEST_TYPE_BOUND :: nat where "REQUEST_TYPE_BOUND = 64"
definition COMMAND_BOUND :: nat where "COMMAND_BOUND = unat CHANNEL_MAX_PACKET"
definition SUBSYSTEM_BOUND :: nat where "SUBSYSTEM_BOUND = 64"

section \<open>State\<close>

datatype stream = OutStdout | OutStderr

record pending_out =
  po_kind :: stream
  po_buf :: bytes
  po_off :: nat

definition po_new :: "stream \<Rightarrow> bytes \<Rightarrow> pending_out" where
  "po_new k b = \<lparr>po_kind = k, po_buf = b, po_off = 0\<rparr>"

definition po_remaining :: "pending_out \<Rightarrow> nat" where
  "po_remaining p = length (po_buf p) - po_off p"

definition po_is_empty :: "pending_out \<Rightarrow> bool" where
  "po_is_empty p \<longleftrightarrow> po_off p \<ge> length (po_buf p)"

definition po_take :: "nat \<Rightarrow> pending_out \<Rightarrow> bytes \<times> pending_out" where
  "po_take n p = (take n (drop (po_off p) (po_buf p)), p\<lparr>po_off := po_off p + n\<rparr>)"

datatype channel_state = BeforeOpen | ChIdle | Running | Draining | ServerClosed | Closed

definition may_emit_output :: "channel_state \<Rightarrow> bool" where
  "may_emit_output st \<longleftrightarrow> st \<in> {Running, Draining}"

record os =
  alloc_ok :: "nat \<Rightarrow> modes \<Rightarrow> pty_size \<Rightarrow> bool"
  ioctl_ok :: "nat \<Rightarrow> bool"
  spawn_ok :: "nat \<Rightarrow> bool"
  os_uid :: u32
  os_helper :: "bytes option"

record driver =
  helper :: "bytes option"
  pending_pty :: "bytes option" \<comment> \<open>the validated \<^verbatim>\<open>TERM\<close> of an allocated pair\<close>
  d_identity :: auth_outcome
  uid :: u32
  ch_state :: channel_state
  peer_chan :: u32
  out_window :: u64
  out_max_pkt :: u32
  in_window :: u32
  credit_pending :: u32
  pending_out :: "pending_out option"
  pending_stdin :: "bytes option"
  pre_exec_stdin :: "bytes list"
  client_eof :: bool
  early_close :: bool
  exit_status_of :: "int option"
  exit_signal_of :: "(string \<times> bool) option"
  child_out_closed :: bool
  consumed_closed :: bool
  command :: "bytes option"
  request_type :: string
  on_pty :: bool
  bytes_received :: u64
  bytes_sent :: u64
  finished_emitted :: bool
  deferred :: "bytes list"
  child :: "child_io option"
  os_calls :: nat

definition driver_new :: "os \<Rightarrow> auth_outcome \<Rightarrow> driver" where
  "driver_new Os who =
     \<lparr>helper = os_helper Os, pending_pty = None, d_identity = who, uid = os_uid Os, ch_state = BeforeOpen,
      peer_chan = 0, out_window = 0, out_max_pkt = 0, in_window = 0, credit_pending = 0, pending_out = None,
      pending_stdin = None, pre_exec_stdin = [], client_eof = False, early_close = False,
      exit_status_of = None, exit_signal_of = None, child_out_closed = False, consumed_closed = False,
      command = None, request_type = ''exec'', on_pty = False, bytes_received = 0, bytes_sent = 0,
      finished_emitted = False, deferred = [], child = None, os_calls = 0\<rparr>"

type_synonym 'a flow = "((transport_error \<times> trace) \<times> driver, 'a) result"

section \<open>Frames\<close>

definition build_data_frame :: "u32 \<Rightarrow> stream \<Rightarrow> bytes \<Rightarrow> bytes option" where
  "build_data_frame chan kind data = run_writer
     (case kind of
        OutStdout \<Rightarrow> [put_byte SSH_MSG_CHANNEL_DATA, put_uint32 chan, put_string data]
      | OutStderr \<Rightarrow> [put_byte SSH_MSG_CHANNEL_EXTENDED_DATA, put_uint32 chan,
                     put_uint32 SSH_EXTENDED_DATA_STDERR, put_string data])"

definition build_open_confirmation :: "u32 \<Rightarrow> bytes option" where
  "build_open_confirmation chan = run_writer
     [put_byte SSH_MSG_CHANNEL_OPEN_CONFIRMATION, put_uint32 chan, put_uint32 LOCAL_CHANNEL,
      put_uint32 INITIAL_WINDOW, put_uint32 CHANNEL_MAX_PACKET]"

definition build_open_failure :: "u32 \<Rightarrow> u32 \<Rightarrow> string \<Rightarrow> bytes option" where
  "build_open_failure chan code desc = run_writer
     [put_byte SSH_MSG_CHANNEL_OPEN_FAILURE, put_uint32 chan, put_uint32 code, put_string (ascii desc),
      put_string []]"

definition build_window_adjust :: "u32 \<Rightarrow> u32 \<Rightarrow> bytes option" where
  "build_window_adjust chan add = run_writer
     [put_byte SSH_MSG_CHANNEL_WINDOW_ADJUST, put_uint32 chan, put_uint32 add]"

definition build_exit_status :: "u32 \<Rightarrow> u32 \<Rightarrow> bytes option" where
  "build_exit_status chan status = run_writer
     [put_byte SSH_MSG_CHANNEL_REQUEST, put_uint32 chan, put_string (ascii ''exit-status''), put_boolean False,
      put_uint32 status]"

definition build_exit_signal :: "u32 \<Rightarrow> string \<Rightarrow> bool \<Rightarrow> bytes option" where
  "build_exit_signal chan name core_dumped = run_writer
     [put_byte SSH_MSG_CHANNEL_REQUEST, put_uint32 chan, put_string (ascii ''exit-signal''), put_boolean False,
      put_string (ascii name), put_boolean core_dumped, put_string [], put_string []]"

definition build_channel_msg :: "u8 \<Rightarrow> u32 \<Rightarrow> bytes option" where
  "build_channel_msg msg chan = run_writer [put_byte msg, put_uint32 chan]"

definition build_eof :: "u32 \<Rightarrow> bytes option" where
  "build_eof chan = build_channel_msg SSH_MSG_CHANNEL_EOF chan"

definition build_close :: "u32 \<Rightarrow> bytes option" where
  "build_close chan = build_channel_msg SSH_MSG_CHANNEL_CLOSE chan"

section \<open>Sending and ending\<close>

definition send_frame :: "env \<Rightarrow> bytes option \<Rightarrow> driver \<Rightarrow> session \<Rightarrow> session flow" where
  "send_frame E frame d s = map_err (\<lambda>x. (x, d)) (send_msg (write_packet E) frame s)"

definition disconnect :: "env \<Rightarrow> string \<Rightarrow> driver \<Rightarrow> session \<Rightarrow> 'a flow" where
  "disconnect E r d s = Inl (protocol_disconnect E r s, d)"

definition sat_add32 :: "u32 \<Rightarrow> u32 \<Rightarrow> u32" where
  "sat_add32 a b = (if unat a + unat b > u32_max then word_of_nat u32_max else a + b)"

definition emit_finished :: "driver \<Rightarrow> 'z trace_scheme \<Rightarrow> driver \<times> 'z trace_scheme" where
  "emit_finished d t =
     (case command d of
        None \<Rightarrow> (d, t)
      | Some cmd \<Rightarrow>
          if finished_emitted d then (d, t)
          else
            let queued = (case child d of None \<Rightarrow> [] | Some c \<Rightarrow> consumed_q c);
                d = d\<lparr>finished_emitted := True,
                      bytes_received := foldl (\<lambda>a n. sat_add a (unat n)) (bytes_received d) queued,
                      child := map_option (\<lambda>c. c\<lparr>consumed_q := []\<rparr>) (child d)\<rparr>;
                status = (case exit_status_of d of None \<Rightarrow> EXIT_SPAWN_FAILED | Some c \<Rightarrow> c) in
            (d, t\<lparr>audit := audit t @ [ExecFinished (ao_fingerprint (d_identity d)) (uid d) cmd (request_type d)
                     (on_pty d) status (bytes_received d) (bytes_sent d) (ao_certificate (d_identity d))]\<rparr>))"

text \<open>\<^verbatim>\<open>Drop for Driver\<close>, on whatever path the driver goes out of scope.\<close>

definition drop_driver :: "driver \<Rightarrow> trace \<Rightarrow> trace" where
  "drop_driver d t = snd (emit_finished d t)"

section \<open>Phases of a turn\<close>

text \<open>(A) Each round sends at least one byte of the pending chunk.\<close>

function flush_output :: "env \<Rightarrow> driver \<Rightarrow> session \<Rightarrow> (driver \<times> session) flow" where
  "flush_output E d s =
     (if \<not> may_emit_output (ch_state d) then Inr (d, s)
      else case pending_out d of
        None \<Rightarrow> Inr (d, s)
      | Some p \<Rightarrow>
          if out_window d = 0 then Inr (d, s)
          else
            let cap = min (min (unat (out_window d)) (unat (out_max_pkt d))) (unat CHANNEL_MAX_PACKET);
                n = min (po_remaining p) cap in
            if n = 0 then Inr (d, s)
            else
              let (data, p') = po_take n p in
              (case send_frame E (build_data_frame (peer_chan d) (po_kind p) data) (d\<lparr>pending_out := Some p'\<rparr>) s of
                 Inl x \<Rightarrow> Inl x
               | Inr s' \<Rightarrow>
                   flush_output E
                     (d\<lparr>pending_out := (if po_is_empty p' then None else Some p'),
                        out_window := out_window d - word_of_nat n,
                        bytes_sent := sat_add (bytes_sent d) n\<rparr>) s'))"
  by pat_completeness auto
termination
  by (relation "measure (\<lambda>(E, d, s). case pending_out d of None \<Rightarrow> 0 | Some p \<Rightarrow> po_remaining p)")
    (auto simp: po_take_def po_remaining_def)

declare flush_output.simps [simp del]

text \<open>(B)\<close>

definition handoff_stdin :: "driver \<Rightarrow> driver" where
  "handoff_stdin d =
     (case child d of
        None \<Rightarrow> d
      | Some c \<Rightarrow>
          let d = (if pending_stdin d = None then
                     (case pre_exec_stdin d of
                        [] \<Rightarrow> d
                      | x # q \<Rightarrow> d\<lparr>pending_stdin := Some x, pre_exec_stdin := q\<rparr>)
                   else d);
              sent = (case pending_stdin d of
                        None \<Rightarrow> Inr d
                      | Some x \<Rightarrow>
                          (case try_send_stdin c x of
                             Inl back \<Rightarrow> Inl (d\<lparr>pending_stdin := Some back\<rparr>)
                           | Inr c' \<Rightarrow> Inr (d\<lparr>pending_stdin := None, child := Some c'\<rparr>))) in
          case sent of
            Inl d \<Rightarrow> d
          | Inr d \<Rightarrow>
              if client_eof d \<and> pending_stdin d = None \<and> pre_exec_stdin d = []
              then d\<lparr>child := map_option close_stdin (child d)\<rparr>
              else d)"

text \<open>(C)\<close>

definition replenish_window :: "env \<Rightarrow> driver \<Rightarrow> session \<Rightarrow> (driver \<times> session) flow" where
  "replenish_window E d s =
     (if credit_pending d \<ge> CREDIT_BATCH then
        let credit = credit_pending d in
        try_bind (send_frame E (build_window_adjust (peer_chan d) credit) d s) (\<lambda>s.
        Inr (d\<lparr>in_window := sat_add32 (in_window d) credit, credit_pending := 0\<rparr>, s))
      else Inr (d, s))"

text \<open>(E)\<close>

definition ready_to_close :: "driver \<Rightarrow> bool" where
  "ready_to_close d \<longleftrightarrow> ch_state d = Draining \<and> child_out_closed d \<and> pending_out d = None"

definition send_terminal :: "env \<Rightarrow> driver \<Rightarrow> session \<Rightarrow> (driver \<times> session) flow" where
  "send_terminal E d s =
     (if early_close d then
        try_bind (send_frame E (build_close (peer_chan d)) d s) (\<lambda>s.
        Inr (d\<lparr>ch_state := Closed\<rparr>, s))
      else
        try_bind
          (case exit_signal_of d of
             Some (name, core_dumped) \<Rightarrow> send_frame E (build_exit_signal (peer_chan d) name core_dumped) d s
           | None \<Rightarrow>
               (case exit_status_of d of
                  Some code \<Rightarrow> send_frame E (build_exit_status (peer_chan d) (word_of_int code)) d s
                | None \<Rightarrow> Inr s)) (\<lambda>s.
        try_bind (send_frame E (build_eof (peer_chan d)) d s) (\<lambda>s.
        try_bind (send_frame E (build_close (peer_chan d)) d s) (\<lambda>s.
        Inr (d\<lparr>ch_state := ServerClosed\<rparr>, s)))))"

section \<open>Inbound messages\<close>

definition reply :: "env \<Rightarrow> bool \<Rightarrow> bool \<Rightarrow> driver \<Rightarrow> session \<Rightarrow> (driver \<times> session) flow" where
  "reply E want_reply success d s =
     (if want_reply then
        try_bind (send_frame E (build_channel_msg
          (if success then SSH_MSG_CHANNEL_SUCCESS else SSH_MSG_CHANNEL_FAILURE) (peer_chan d)) d s) (\<lambda>s.
        Inr (d, s))
      else Inr (d, s))"

definition on_channel_open :: "env \<Rightarrow> bytes \<Rightarrow> driver \<Rightarrow> session \<Rightarrow> (driver \<times> session) flow" where
  "on_channel_open E r d s =
     (case rd_bind (reader_string CHANNEL_TYPE_BOUND) (\<lambda>ctype. rd_bind reader_uint32 (\<lambda>sender.
           rd_bind reader_uint32 (\<lambda>window. rd_bind reader_uint32 (\<lambda>max_pkt.
           rd_return (ctype, sender, window, max_pkt))))) r of
        Inl _ \<Rightarrow> disconnect E ''malformed-channel-open'' d s
      | Inr ((ctype, sender, window, max_pkt), _) \<Rightarrow>
          if ch_state d \<noteq> BeforeOpen then
            try_bind (send_frame E (build_open_failure sender SSH_OPEN_ADMINISTRATIVELY_PROHIBITED
              ''one channel only'') d s) (\<lambda>s. Inr (d, s))
          else if ctype \<noteq> ascii ''session'' then
            try_bind (send_frame E (build_open_failure sender SSH_OPEN_UNKNOWN_CHANNEL_TYPE
              ''unknown channel type'') d s) (\<lambda>s. Inr (d, s))
          else if max_pkt = 0 then disconnect E ''zero-max-packet-size'' d s
          else
            let d = d\<lparr>peer_chan := sender, out_window := ucast window, out_max_pkt := max_pkt,
                      in_window := INITIAL_WINDOW, ch_state := ChIdle\<rparr> in
            try_bind (send_frame E (build_open_confirmation sender) d s) (\<lambda>s. Inr (d, s)))"

datatype start_what = StartProgram program | StartSftp

definition start :: "env \<Rightarrow> os \<Rightarrow> start_what \<Rightarrow> bool \<Rightarrow> driver \<Rightarrow> session \<Rightarrow> (driver \<times> session) flow" where
  "start E Os what want_reply d s =
     (let (cmd, rtype) = (case what of
            StartProgram (ExecCommand c) \<Rightarrow> (c, ''exec'')
          | StartProgram LoginShell \<Rightarrow> ([], ''shell'')
          | StartSftp \<Rightarrow> (ascii ''sftp'', ''subsystem''));
          pending = pending_pty d;
          d = d\<lparr>pending_pty := None, command := Some cmd, request_type := rtype, on_pty := pending \<noteq> None\<rparr>;
          s = s\<lparr>audit := audit s @ [ExecStarted (ao_fingerprint (d_identity d)) (uid d) cmd rtype (on_pty d)
                  (ao_certificate (d_identity d))]\<rparr> in
      try_bind (reply E want_reply True d s) (\<lambda>(d, s).
      let ok = spawn_ok Os (os_calls d); d = d\<lparr>os_calls := Suc (os_calls d)\<rparr>;
          spawned = (case (what, pending) of
              (StartSftp, _) \<Rightarrow> if helper d \<noteq> None \<and> ok then Some piped_child else None
            | (StartProgram p, Some _) \<Rightarrow> if helper d \<noteq> None \<and> ok then Some pty_child else None
            | (StartProgram p, None) \<Rightarrow> if ok then Some piped_child else None) in
      case spawned of
        Some c \<Rightarrow> Inr (d\<lparr>child := Some c, ch_state := Running\<rparr>, s)
      | None \<Rightarrow> Inr (d\<lparr>exit_status_of := Some EXIT_SPAWN_FAILED, child_out_closed := True,
                       consumed_closed := True, ch_state := Draining\<rparr>, s)))"

definition on_pty_req :: "env \<Rightarrow> os \<Rightarrow> bytes \<Rightarrow> bool \<Rightarrow> driver \<Rightarrow> session \<Rightarrow> (driver \<times> session) flow" where
  "on_pty_req E Os r want_reply d s =
     (case rd_bind (reader_string TERM_BOUND) (\<lambda>trm. rd_bind reader_uint32 (\<lambda>c. rd_bind reader_uint32 (\<lambda>rw.
           rd_bind reader_uint32 (\<lambda>w. rd_bind reader_uint32 (\<lambda>h. rd_bind (reader_string MODES_BOUND) (\<lambda>blob.
           rd_return (trm, c, rw, w, h, blob))))))) r of
        Inl _ \<Rightarrow> disconnect E ''malformed-pty-req'' d s
      | Inr ((trm, c, rw, w, h, blob), _) \<Rightarrow>
          (case modes_parse blob of
             None \<Rightarrow> disconnect E ''truncated-terminal-mode'' d s
           | Some modes \<Rightarrow>
               let size = \<lparr>cols = c, rows = rw, width_px = w, height_px = h\<rparr>;
                   allowed = ao_pty_permitted (d_identity d) \<and> ch_state d = ChIdle \<and> pending_pty d = None \<and>
                     helper d \<noteq> None \<and> valid_term trm;
                   granted = allowed \<and> utf8_valid trm \<and> alloc_ok Os (os_calls d) modes size;
                   d = (if allowed then d\<lparr>os_calls := Suc (os_calls d)\<rparr> else d);
                   d = (if granted then d\<lparr>pending_pty := Some trm\<rparr> else d) in
               reply E want_reply granted d s))"

definition on_subsystem :: "env \<Rightarrow> os \<Rightarrow> bytes \<Rightarrow> bool \<Rightarrow> driver \<Rightarrow> session \<Rightarrow> (driver \<times> session) flow" where
  "on_subsystem E Os r want_reply d s =
     (case reader_string SUBSYSTEM_BOUND r of
        Inl _ \<Rightarrow> disconnect E ''malformed-subsystem'' d s
      | Inr (name, _) \<Rightarrow>
          if name = ascii ''sftp'' \<and> ch_state d = ChIdle \<and> pending_pty d = None \<and> helper d \<noteq> None
          then start E Os StartSftp want_reply d s
          else reply E want_reply False d s)"

definition on_window_change :: "env \<Rightarrow> os \<Rightarrow> bytes \<Rightarrow> bool \<Rightarrow> driver \<Rightarrow> session \<Rightarrow> (driver \<times> session) flow" where
  "on_window_change E Os r want_reply d s =
     (case rd_bind reader_uint32 (\<lambda>c. rd_bind reader_uint32 (\<lambda>rw. rd_bind reader_uint32 (\<lambda>w.
           rd_bind reader_uint32 (\<lambda>h. rd_return (c, rw, w, h))))) r of
        Inl _ \<Rightarrow> disconnect E ''malformed-window-change'' d s
      | Inr _ \<Rightarrow>
          let ok = ioctl_ok Os (os_calls d); d = d\<lparr>os_calls := Suc (os_calls d)\<rparr>;
              applied = (case (pending_pty d, child d) of
                (Some _, _) \<Rightarrow> ok
              | (None, Some c) \<Rightarrow> on_pty d \<and> child_resize c ok
              | (None, None) \<Rightarrow> False) in
          reply E want_reply applied d s)"

definition on_channel_request :: "env \<Rightarrow> os \<Rightarrow> bytes \<Rightarrow> driver \<Rightarrow> session \<Rightarrow> (driver \<times> session) flow" where
  "on_channel_request E Os r d s =
     (case rd_bind reader_uint32 (\<lambda>recipient. rd_bind (reader_string REQUEST_TYPE_BOUND) (\<lambda>rtype.
           rd_bind reader_boolean (\<lambda>want_reply. rd_return (recipient, rtype, want_reply)))) r of
        Inl _ \<Rightarrow> disconnect E ''malformed-channel-request'' d s
      | Inr ((recipient, rtype, want_reply), r) \<Rightarrow>
          if recipient \<noteq> LOCAL_CHANNEL then disconnect E ''unknown-channel'' d s
          else if rtype = ascii ''exec'' \<and> ch_state d = ChIdle then
            (case reader_string COMMAND_BOUND r of
               Inl _ \<Rightarrow> disconnect E ''malformed-exec-request'' d s
             | Inr (cmd_bytes, _) \<Rightarrow>
                 if \<not> utf8_valid cmd_bytes then disconnect E ''non-utf8-command'' d s
                 else start E Os (StartProgram (ExecCommand cmd_bytes)) want_reply d s)
          else if rtype = ascii ''shell'' \<and> ch_state d = ChIdle then
            start E Os (StartProgram LoginShell) want_reply d s
          else if rtype = ascii ''subsystem'' then on_subsystem E Os r want_reply d s
          else if rtype = ascii ''pty-req'' then on_pty_req E Os r want_reply d s
          else if rtype = ascii ''window-change'' then on_window_change E Os r want_reply d s
          else reply E want_reply False d s)"

definition on_channel_data :: "env \<Rightarrow> bytes \<Rightarrow> driver \<Rightarrow> session \<Rightarrow> (driver \<times> session) flow" where
  "on_channel_data E r d s =
     (case rd_bind reader_uint32 (\<lambda>recipient. rd_bind (reader_string (unat CHANNEL_MAX_PACKET)) (\<lambda>data.
           rd_return (recipient, data))) r of
        Inl _ \<Rightarrow> disconnect E ''malformed-channel-data'' d s
      | Inr ((recipient, data), _) \<Rightarrow>
          if recipient \<noteq> LOCAL_CHANNEL then disconnect E ''unknown-channel'' d s
          else if ch_state d = ServerClosed then Inr (d, s)
          else if client_eof d then disconnect E ''data-after-eof'' d s
          else
            let len = (if length data \<le> u32_max then word_of_nat (length data) else word_of_nat u32_max :: u32) in
            if len > in_window d then disconnect E ''inbound-window-exceeded'' d s
            else
              let d = d\<lparr>in_window := in_window d - len\<rparr> in
              if ch_state d = ChIdle then Inr (d\<lparr>pre_exec_stdin := pre_exec_stdin d @ [data]\<rparr>, s)
              else if child d \<noteq> None then
                Inr (d\<lparr>pending_stdin := Some (case pending_stdin d of Some buf \<Rightarrow> buf @ data | None \<Rightarrow> data)\<rparr>, s)
              else Inr (d, s))"

definition on_window_adjust :: "env \<Rightarrow> bytes \<Rightarrow> driver \<Rightarrow> session \<Rightarrow> (driver \<times> session) flow" where
  "on_window_adjust E r d s =
     (case rd_bind reader_uint32 (\<lambda>recipient. rd_bind reader_uint32 (\<lambda>add. rd_return (recipient, add))) r of
        Inl _ \<Rightarrow> disconnect E ''malformed-window-adjust'' d s
      | Inr ((recipient, add), _) \<Rightarrow>
          if recipient \<noteq> LOCAL_CHANNEL then disconnect E ''unknown-channel'' d s
          else
            let d = d\<lparr>out_window := out_window d + ucast add\<rparr> in
            if out_window d > word_of_nat u32_max then disconnect E ''window-overflow'' d s
            else Inr (d, s))"

definition on_channel_eof :: "env \<Rightarrow> bytes \<Rightarrow> driver \<Rightarrow> session \<Rightarrow> (driver \<times> session) flow" where
  "on_channel_eof E r d s =
     (case reader_uint32 r of
        Inl _ \<Rightarrow> disconnect E ''malformed-channel-eof'' d s
      | Inr (recipient, _) \<Rightarrow>
          if recipient \<noteq> LOCAL_CHANNEL then disconnect E ''unknown-channel'' d s
          else Inr (d\<lparr>client_eof := True\<rparr>, s))"

definition on_channel_close :: "env \<Rightarrow> bytes \<Rightarrow> driver \<Rightarrow> session \<Rightarrow> (driver \<times> session) flow" where
  "on_channel_close E r d s =
     (case reader_uint32 r of
        Inl _ \<Rightarrow> disconnect E ''malformed-channel-close'' d s
      | Inr (recipient, _) \<Rightarrow>
          if recipient \<noteq> LOCAL_CHANNEL then disconnect E ''unknown-channel'' d s
          else if ch_state d = ServerClosed then Inr (d\<lparr>ch_state := Closed\<rparr>, s)
          else
            let d = d\<lparr>early_close := True, pending_out := None\<rparr>;
                d = (case child d of
                       Some c \<Rightarrow> d\<lparr>child := Some (child_kill (discard_output (close_stdin c)))\<rparr>
                     | None \<Rightarrow> d\<lparr>child_out_closed := True\<rparr>) in
            Inr (d\<lparr>ch_state := Draining\<rparr>, s))"

definition handle_inbound :: "env \<Rightarrow> os \<Rightarrow> bytes \<Rightarrow> driver \<Rightarrow> session \<Rightarrow> (driver \<times> session) flow" where
  "handle_inbound E Os payload d s =
     (case payload of
        [] \<Rightarrow> disconnect E ''empty-packet'' d s
      | msg # r \<Rightarrow>
          if msg = SSH_MSG_CHANNEL_OPEN then on_channel_open E r d s
          else if msg \<in> {SSH_MSG_CHANNEL_REQUEST, SSH_MSG_CHANNEL_DATA, SSH_MSG_CHANNEL_WINDOW_ADJUST,
              SSH_MSG_CHANNEL_EOF, SSH_MSG_CHANNEL_CLOSE} \<and> ch_state d = BeforeOpen then
            disconnect E ''channel-message-before-open'' d s
          else if msg = SSH_MSG_CHANNEL_REQUEST then on_channel_request E Os r d s
          else if msg = SSH_MSG_CHANNEL_DATA then on_channel_data E r d s
          else if msg = SSH_MSG_CHANNEL_WINDOW_ADJUST then on_window_adjust E r d s
          else if msg = SSH_MSG_CHANNEL_EOF then on_channel_eof E r d s
          else if msg = SSH_MSG_CHANNEL_CLOSE then on_channel_close E r d s
          else if msg = SSH_MSG_GLOBAL_REQUEST then
            (case rd_bind (reader_string REQUEST_TYPE_BOUND) (\<lambda>name. rd_bind reader_boolean (\<lambda>want_reply.
                  rd_return (name, want_reply))) r of
               Inl _ \<Rightarrow> disconnect E ''malformed-global-request'' d s
             | Inr ((_, want_reply), _) \<Rightarrow>
                 if want_reply then try_bind (send_frame E (Some [SSH_MSG_REQUEST_FAILURE]) d s) (\<lambda>s. Inr (d, s))
                 else Inr (d, s))
          else if msg \<in> {SSH_MSG_IGNORE, SSH_MSG_UNIMPLEMENTED, SSH_MSG_DEBUG} then Inr (d, s)
          else if msg = SSH_MSG_DISCONNECT then
            map_err (\<lambda>x. (x, d)) (fail (Rejected ''peer-disconnected'') s)
          else if msg = SSH_MSG_CHANNEL_EXTENDED_DATA then disconnect E ''inbound-extended-data'' d s
          else disconnect E ''unexpected-channel-message'' d s)"

section \<open>The half-duplex window of a re-key\<close>

definition pass_to_channel :: "env \<Rightarrow> os \<Rightarrow> bytes \<Rightarrow> driver \<Rightarrow> session \<Rightarrow> (driver \<times> session) flow" where
  "pass_to_channel E Os payload d s =
     (if (case payload of [] \<Rightarrow> False
          | msg # _ \<Rightarrow> msg \<in> {SSH_MSG_CHANNEL_DATA, SSH_MSG_CHANNEL_WINDOW_ADJUST, SSH_MSG_CHANNEL_EOF})
      then handle_inbound E Os payload d s
      else if length (deferred d) \<ge> MAX_DEFERRED then disconnect E ''too-many-deferred-during-rekey'' d s
      else Inr (d\<lparr>deferred := deferred d @ [payload]\<rparr>, s))"

fun handle_all :: "env \<Rightarrow> os \<Rightarrow> bytes list \<Rightarrow> driver \<Rightarrow> session \<Rightarrow> (driver \<times> session) flow" where
  "handle_all E Os [] d s = Inr (d, s)"
| "handle_all E Os (p # ps) d s =
     try_bind (handle_inbound E Os p d s) (\<lambda>(d, s). handle_all E Os ps d s)"

definition drain_deferred :: "env \<Rightarrow> os \<Rightarrow> driver \<Rightarrow> session \<Rightarrow> (driver \<times> session) flow" where
  "drain_deferred E Os d s = handle_all E Os (deferred d) (d\<lparr>deferred := []\<rparr>) s"

section \<open>The loop\<close>

definition rekeyable :: "channel_state \<Rightarrow> bool" where
  "rekeyable st \<longleftrightarrow> st \<in> {Running, ChIdle, Draining}"

text \<open>Phase E, D and all of A to E; \<open>True\<close> is the return of \<^verbatim>\<open>drive\<close>.\<close>

definition turn_close :: "env \<Rightarrow> driver \<Rightarrow> session \<Rightarrow> (bool \<times> driver \<times> session) flow" where
  "turn_close E d s =
     (if rekey_active s then Inr (False, d, s)
      else
        try_bind (if ready_to_close d then send_terminal E d s else Inr (d, s)) (\<lambda>(d, s).
        if ch_state d = Closed then (let (d, s) = emit_finished d s in Inr (True, d, s))
        else Inr (False, d, s)))"

definition turn_rekey :: "env \<Rightarrow> driver \<Rightarrow> session \<Rightarrow> (bool \<times> driver \<times> session) flow" where
  "turn_rekey E d s =
     (let (due, s) = session_rekey_due E s in
      try_bind (if due \<and> rekeyable (ch_state d) then map_err (\<lambda>x. (x, d)) (begin_rekey E s) else Inr s)
        (turn_close E d))"

definition turn_head :: "env \<Rightarrow> driver \<Rightarrow> session \<Rightarrow> (bool \<times> driver \<times> session) flow" where
  "turn_head E d s =
     try_bind (if rekey_active s then Inr (d, s) else flush_output E d s) (\<lambda>(d, s).
     let d = handoff_stdin d in
     if rekey_active s then Inr (False, d, s)
     else try_bind (replenish_window E d s) (\<lambda>(d, s). turn_rekey E d s))"

definition on_packet :: "env \<Rightarrow> os \<Rightarrow> bytes \<Rightarrow> driver \<Rightarrow> session \<Rightarrow> (driver \<times> session) flow" where
  "on_packet E Os payload d s =
     (if rekey_active s then
        try_bind (map_err (\<lambda>x. (x, d)) (step_rekey E payload s)) (\<lambda>(r, s).
        case r of
          PassToChannel \<Rightarrow> pass_to_channel E Os payload d s
        | Completed \<Rightarrow> drain_deferred E Os d s
        | Continued \<Rightarrow> Inr (d, s))
      else if payload \<noteq> [] \<and> hd payload = SSH_MSG_KEXINIT then
        try_bind (map_err (\<lambda>x. (x, d)) (step_rekey E payload s)) (\<lambda>(r, s). Inr (d, s))
      else handle_inbound E Os payload d s)"

definition on_output :: "child_chunk option \<Rightarrow> driver \<Rightarrow> driver" where
  "on_output x d =
     (case x of
        Some (Stdout b) \<Rightarrow> if early_close d then d else d\<lparr>pending_out := Some (po_new OutStdout b)\<rparr>
      | Some (Stderr b) \<Rightarrow> if early_close d then d else d\<lparr>pending_out := Some (po_new OutStderr b)\<rparr>
      | Some (Exited e) \<Rightarrow>
          let d = (if exit_status_of d = None
                   then d\<lparr>exit_status_of := Some (exit_code e), exit_signal_of := signal e\<rparr> else d) in
          if ch_state d = Running then d\<lparr>ch_state := Draining\<rparr> else d
      | None \<Rightarrow> d\<lparr>child_out_closed := True\<rparr>)"

definition on_consumed :: "u32 option \<Rightarrow> driver \<Rightarrow> driver" where
  "on_consumed credit d =
     (case credit of
        Some n \<Rightarrow> d\<lparr>credit_pending := sat_add32 (credit_pending d) n,
                    bytes_received := sat_add (bytes_received d) (unat n)\<rparr>
      | None \<Rightarrow> d\<lparr>consumed_closed := True\<rparr>)"

datatype arm = ArmOutput | ArmConsumed | ArmDeadline | ArmWake

text \<open>The \<^verbatim>\<open>select!\<close>. \<open>None\<close> if the arm is not ready, or its guard is off.\<close>

definition turn_wait :: "env \<Rightarrow> os \<Rightarrow> arm \<Rightarrow> driver \<Rightarrow> session \<Rightarrow> (driver \<times> session) flow option" where
  "turn_wait E Os arm d s =
     (let want_output = pending_out d = None \<and> may_emit_output (ch_state d) \<and> \<not> rekey_active s;
          consumed_active = (\<not> consumed_closed d);
          deadline = rekey_deadline s;
          wake = (if rekeyable (ch_state d) then rekey_wake_at s else None) in
      case read_packet E s of
        Inl x \<Rightarrow> Some (Inl (x, d))
      | Inr (Some payload, s) \<Rightarrow> Some (on_packet E Os payload d s)
      | Inr (None, s) \<Rightarrow>
          (case arm of
             ArmOutput \<Rightarrow>
               if want_output then
                 (case Option.bind (child d) recv_out of
                    None \<Rightarrow> None
                  | Some (x, c) \<Rightarrow> Some (Inr (on_output x (d\<lparr>child := Some c\<rparr>), s)))
               else None
           | ArmConsumed \<Rightarrow>
               if consumed_active then
                 (case Option.bind (child d) recv_consumed of
                    None \<Rightarrow> None
                  | Some (credit, c) \<Rightarrow> Some (Inr (on_consumed credit (d\<lparr>child := Some c\<rparr>), s)))
               else None
           | ArmDeadline \<Rightarrow>
               (case deadline of
                  Some at \<Rightarrow> if at \<le> mono E (ticks s) then Some (Inl (rekey_timeout E s, d)) else None
                | None \<Rightarrow> None)
           | ArmWake \<Rightarrow>
               (case wake of
                  Some at \<Rightarrow> if at \<le> mono E (ticks s) then Some (Inr (d, s)) else None
                | None \<Rightarrow> None)))"

datatype place = Head | Waiting

inductive drive_step :: "env \<Rightarrow> os \<Rightarrow> place \<times> driver \<times> session \<Rightarrow> place \<times> driver \<times> session \<Rightarrow> bool"
  for E Os where
  head: "turn_head E d s = Inr (False, d', s') \<Longrightarrow> drive_step E Os (Head, d, s) (Waiting, d', s')"
| wait: "turn_wait E Os arm d s = Some (Inr (d', s')) \<Longrightarrow> drive_step E Os (Waiting, d, s) (Head, d', s')"
| task: "child d = Some c \<Longrightarrow> child_step c c' \<Longrightarrow> drive_step E Os (w, d, s) (w, d\<lparr>child := Some c'\<rparr>, s)"

text \<open>How \<^verbatim>\<open>drive\<close> returns, with the trace once the driver has been dropped.\<close>

inductive drive_ends :: "env \<Rightarrow> os \<Rightarrow> place \<times> driver \<times> session \<Rightarrow> transport_error option \<Rightarrow> trace \<Rightarrow> bool"
  for E Os where
  closed: "turn_head E d s = Inr (True, d', s') \<Longrightarrow>
    drive_ends E Os (Head, d, s) None (drop_driver d' (trace.truncate s'))"
| head_fails: "turn_head E d s = Inl ((e, t), d') \<Longrightarrow> drive_ends E Os (Head, d, s) (Some e) (drop_driver d' t)"
| wait_fails: "turn_wait E Os arm d s = Some (Inl ((e, t), d')) \<Longrightarrow>
    drive_ends E Os (Waiting, d, s) (Some e) (drop_driver d' t)"

definition drive_start :: "os \<Rightarrow> session \<Rightarrow> place \<times> driver \<times> session" where
  "drive_start Os s = (Head, driver_new Os (authenticated s), s)"

definition driven :: "env \<Rightarrow> os \<Rightarrow> session \<Rightarrow> place \<times> driver \<times> session \<Rightarrow> bool" where
  "driven E Os s0 = (drive_step E Os)\<^sup>*\<^sup>* (drive_start Os s0)"

inductive_cases drive_stepE: "drive_step E Os x y"
inductive_cases drive_endsE: "drive_ends E Os x e t"

end
