(* ===== verification/ChannelInv.thy ===== *)
theory ChannelInv
  imports Channel Rekey
begin

text \<open>
  What the handlers of \<^verbatim>\<open>channel.rs\<close> keep. \<open>driver_wf\<close> is the invariant of the driver: the ledger of
  the input window, the bounds of the output window, of a chunk in flight and of the queue of deferred
  packets, and what each state of the channel implies. \<open>sound\<close> is the invariant of the connection under
  it: the exec records logged so far match the driver's flags, and what was sent is legal for the half-duplex
  window of a re-key. \<open>keeps\<close> and \<open>holds\<close> lift both to outcomes, with one rule per way a handler
  composes; the rest of the theory is one lemma per handler and per phase of the loop.
\<close>

section \<open>The state of the channel\<close>

text \<open>Bytes received from the client and not yet given back as window: buffered, or with the child.\<close>

definition held :: "driver \<Rightarrow> nat" where
  "held d = (case pending_stdin d of None \<Rightarrow> 0 | Some b \<Rightarrow> length b) + length (concat (pre_exec_stdin d)) +
     (case child d of None \<Rightarrow> 0 | Some c \<Rightarrow> in_child c)"

definition ledger :: "driver \<Rightarrow> bool" where
  "ledger d \<longleftrightarrow> unat (in_window d) + unat (credit_pending d) + held d \<le> 2097152"

definition chunk_ok :: "child_chunk \<Rightarrow> bool" where
  "chunk_ok x = (case x of
     Stdout b \<Rightarrow> 0 < length b \<and> length b \<le> CHUNK
   | Stderr b \<Rightarrow> 0 < length b \<and> length b \<le> CHUNK
   | Exited e \<Rightarrow> (case signal e of None \<Rightarrow> True | Some (n, _) \<Rightarrow> length n \<le> 4))"

definition pending_ok :: "pending_out option \<Rightarrow> bool" where
  "pending_ok p = (case p of None \<Rightarrow> True | Some p \<Rightarrow> po_off p < length (po_buf p) \<and> length (po_buf p) \<le> CHUNK)"

definition lifecycle :: "driver \<Rightarrow> bool" where
  "lifecycle d \<longleftrightarrow>
     (case ch_state d of
        BeforeOpen \<Rightarrow> command d = None \<and> child d = None \<and> in_window d = 0 \<and> credit_pending d = 0 \<and>
          pending_stdin d = None \<and> pre_exec_stdin d = []
      | ChIdle \<Rightarrow> command d = None \<and> child d = None \<and> out_max_pkt d \<noteq> 0
      | _ \<Rightarrow> out_max_pkt d \<noteq> 0) \<and>
     (command d = None \<longrightarrow> child d = None \<and> \<not> finished_emitted d)"

definition driver_wf :: "driver \<Rightarrow> bool" where
  "driver_wf d \<longleftrightarrow> ledger d \<and> unat (out_window d) \<le> u32_max \<and> pending_ok (pending_out d) \<and>
     length (deferred d) \<le> MAX_DEFERRED \<and> lifecycle d \<and>
     (case child d of None \<Rightarrow> True | Some c \<Rightarrow> list_all chunk_ok (out_q c)) \<and>
     (case exit_signal_of d of None \<Rightarrow> True | Some (n, _) \<Rightarrow> length n \<le> 4)"

lemmas driver_wf_defs = driver_wf_def ledger_def held_def lifecycle_def

lemma driver_new_wf: "driver_wf (driver_new Os who)"
  by (simp add: driver_wf_defs driver_new_def pending_ok_def)

section \<open>The trace\<close>

definition is_exec :: "audit_event \<Rightarrow> bool" where
  "is_exec e = (case e of ExecStarted _ _ _ _ _ _ \<Rightarrow> True | ExecFinished _ _ _ _ _ _ _ _ _ \<Rightarrow> True | _ \<Rightarrow> False)"

text \<open>The exec records of a channel: none before a command, then its start, then its one finish.\<close>

definition exec_log :: "driver \<Rightarrow> audit_event list \<Rightarrow> bool" where
  "exec_log d L \<longleftrightarrow>
     (case command d of
        None \<Rightarrow> L = [] \<and> \<not> finished_emitted d
      | Some cmd \<Rightarrow> (\<exists>fin. L = ExecStarted (ao_fingerprint (d_identity d)) (uid d) cmd (request_type d) (on_pty d)
            (ao_certificate (d_identity d)) # fin \<and>
          (if finished_emitted d
           then \<exists>status got put. fin = [ExecFinished (ao_fingerprint (d_identity d)) (uid d) cmd (request_type d)
             (on_pty d) status got put (ao_certificate (d_identity d))]
           else fin = [])))"

text \<open>What was logged since \<open>A0\<close>.\<close>

definition audited :: "audit_event list \<Rightarrow> audit_event list \<Rightarrow> driver \<Rightarrow> bool" where
  "audited A0 A d \<longleftrightarrow> (\<exists>B. A = A0 @ B \<and> exec_log d (filter is_exec B))"

definition duplex :: "bytes list \<Rightarrow> session \<Rightarrow> bool" where
  "duplex S0 s \<longleftrightarrow> (\<exists>ms. sent s = S0 @ ms \<and> window_after False ms = Some (in_kex (phase s)))"

definition duplex_end :: "bytes list \<Rightarrow> 'z trace_scheme \<Rightarrow> bool" where
  "duplex_end S0 t \<longleftrightarrow> (\<exists>ms. sent t = S0 @ ms \<and> window_after False ms \<noteq> None)"

section \<open>A calculus of outcomes\<close>

definition sound_end :: "audit_event list \<Rightarrow> bytes list \<Rightarrow> (transport_error \<times> trace) \<times> driver \<Rightarrow> bool" where
  "sound_end A0 S0 = (\<lambda>((e, t), d). e \<noteq> Panicked \<and> audited A0 (audit t) d \<and> duplex_end S0 t)"

definition sound :: "env \<Rightarrow> audit_event list \<Rightarrow> bytes list \<Rightarrow> driver \<Rightarrow> session \<Rightarrow> bool" where
  "sound E A0 S0 d s \<longleftrightarrow> audited A0 (audit s) d \<and> duplex S0 s \<and> rekey_wf E s"

text \<open>An outcome is sound; if it goes on, the re-keying phase is \<open>ph\<close>.\<close>

definition keeps :: "env \<Rightarrow> audit_event list \<Rightarrow> bytes list \<Rightarrow> rekey_phase \<Rightarrow> (driver \<times> session) flow \<Rightarrow> bool" where
  "keeps E A0 S0 ph m \<longleftrightarrow>
     (case m of Inl x \<Rightarrow> sound_end A0 S0 x | Inr (d, s) \<Rightarrow> driver_wf d \<and> sound E A0 S0 d s \<and> phase s = ph)"

lemma keeps_Inr [simp]: "keeps E A0 S0 ph (Inr (d, s)) \<longleftrightarrow> driver_wf d \<and> sound E A0 S0 d s \<and> phase s = ph"
  by (simp add: keeps_def)

lemma keeps_if: "(b \<Longrightarrow> keeps E A0 S0 ph x) \<Longrightarrow> (\<not> b \<Longrightarrow> keeps E A0 S0 ph y) \<Longrightarrow> keeps E A0 S0 ph (if b then x else y)"
  by simp

lemma keeps_bind:
  assumes "keeps E A0 S0 ph m"
    and "\<And>d s. m = Inr (d, s) \<Longrightarrow> driver_wf d \<Longrightarrow> sound E A0 S0 d s \<Longrightarrow> phase s = ph \<Longrightarrow> keeps E A0 S0 ph' (k (d, s))"
  shows "keeps E A0 S0 ph' (try_bind m k)"
  using assms by (cases m) (auto simp: keeps_def)

lemma duplex_end_of: "duplex S0 s \<Longrightarrow> sent t = sent s \<Longrightarrow> duplex_end S0 t"
  by (auto simp: duplex_def duplex_end_def)

lemma keeps_send:
  assumes "sound E A0 S0 d s" and "\<not> in_kex (phase s)" and "frame = Some p" and "message_number p \<noteq> SSH_MSG_KEXINIT"
    and "\<And>s'. sound E A0 S0 d s' \<Longrightarrow> phase s' = phase s \<Longrightarrow> \<not> in_kex (phase s') \<Longrightarrow> keeps E A0 S0 ph (k s')"
  shows "keeps E A0 S0 ph (try_bind (send_frame E frame d s) k)"
proof (cases "write_packet E p s")
  case (Inl x)
  then have "x = (Io, trace.truncate s)" by (rule session_w.send_err)
  then show ?thesis
    using Inl assms(1,3) by (auto simp: send_frame_def send_msg_def keeps_def sound_end_def sound_def intro: duplex_end_of)
next
  case (Inr u)
  note f = write_packet_frame[OF Inr]
  have "sound E A0 S0 d u"
    using assms(1,2,4) f
    by (auto simp: sound_def duplex_def window_after_append in_kex_def rekey_wf_def split: option.splits)
  moreover have "\<not> in_kex (phase u)" using assms(2) f(20) by (simp add: in_kex_def)
  ultimately show ?thesis using Inr assms(3,5) f(20) by (simp add: send_frame_def send_msg_def)
qed

lemma keeps_disconnect:
  assumes "sound E A0 S0 d s" and "length r \<le> u32_max"
  shows "keeps E A0 S0 ph (disconnect E r d s)"
proof -
  obtain t where t: "protocol_disconnect E r s = (Rejected r, t)" "audit t = audit s"
    "sent t = sent s \<or> (\<exists>b. sent t = sent s @ [SSH_MSG_DISCONNECT # b])"
    using sealed_w.disconnect_trace[of "protocol_error r" E s] assms(2)
    unfolding protocol_disconnect_def by (auto simp: protocol_error_def)
  have "duplex_end S0 t"
    using t(3) assms(1)
    by (auto simp: sound_def duplex_def duplex_end_def window_after_append message_number_def msg_defs)
  then show ?thesis using t(1,2) assms(1) by (simp add: disconnect_def keeps_def sound_end_def sound_def)
qed

section \<open>Frames\<close>

lemma channel_frame [simp]:
  "build_channel_msg m c = Some (m # u32_to_be_bytes c)"
  "build_window_adjust c a = Some (SSH_MSG_CHANNEL_WINDOW_ADJUST # u32_to_be_bytes c @ u32_to_be_bytes a)"
  "build_open_confirmation c = Some (SSH_MSG_CHANNEL_OPEN_CONFIRMATION # u32_to_be_bytes c @
     u32_to_be_bytes LOCAL_CHANNEL @ u32_to_be_bytes INITIAL_WINDOW @ u32_to_be_bytes CHANNEL_MAX_PACKET)"
  "build_exit_status c n = Some (SSH_MSG_CHANNEL_REQUEST # u32_to_be_bytes c @ ssh_string (ascii ''exit-status'') @
     0 # u32_to_be_bytes n)"
  "build_eof c = Some (SSH_MSG_CHANNEL_EOF # u32_to_be_bytes c)"
  "build_close c = Some (SSH_MSG_CHANNEL_CLOSE # u32_to_be_bytes c)"
  by (simp_all add: build_channel_msg_def build_window_adjust_def build_open_confirmation_def build_exit_status_def
      build_eof_def build_close_def writer_simps)

lemma open_failure_frame:
  "length desc \<le> u32_max \<Longrightarrow> build_open_failure c code desc = Some (SSH_MSG_CHANNEL_OPEN_FAILURE #
     u32_to_be_bytes c @ u32_to_be_bytes code @ ssh_string (ascii desc) @ ssh_string [])"
  by (simp add: build_open_failure_def writer_simps)

lemma exit_signal_frame:
  "length name \<le> 4 \<Longrightarrow> build_exit_signal c name core = Some (SSH_MSG_CHANNEL_REQUEST # u32_to_be_bytes c @
     ssh_string (ascii ''exit-signal'') @ 0 # ssh_string (ascii name) @ of_bool core # ssh_string [] @ ssh_string [])"
  by (simp add: build_exit_signal_def writer_simps put_boolean_def)

definition data_frame :: "u32 \<Rightarrow> stream \<Rightarrow> bytes \<Rightarrow> bytes" where
  "data_frame c k data =
     (case k of
        OutStdout \<Rightarrow> SSH_MSG_CHANNEL_DATA # u32_to_be_bytes c @ ssh_string data
      | OutStderr \<Rightarrow> SSH_MSG_CHANNEL_EXTENDED_DATA # u32_to_be_bytes c @ u32_to_be_bytes SSH_EXTENDED_DATA_STDERR @
          ssh_string data)"

lemma data_frame_built: "length data \<le> u32_max \<Longrightarrow> build_data_frame c k data = Some (data_frame c k data)"
  by (simp add: build_data_frame_def data_frame_def writer_simps split: stream.split)

lemma message_number_data [simp]: "message_number (data_frame c k data) \<noteq> SSH_MSG_KEXINIT"
  by (simp add: data_frame_def channel_msgs msg_defs split: stream.split)

lemma not_kexinit [simp]:
  "SSH_MSG_CHANNEL_WINDOW_ADJUST \<noteq> SSH_MSG_KEXINIT" "SSH_MSG_CHANNEL_OPEN_CONFIRMATION \<noteq> SSH_MSG_KEXINIT"
  "SSH_MSG_CHANNEL_REQUEST \<noteq> SSH_MSG_KEXINIT" "SSH_MSG_CHANNEL_EOF \<noteq> SSH_MSG_KEXINIT"
  "SSH_MSG_CHANNEL_CLOSE \<noteq> SSH_MSG_KEXINIT" "SSH_MSG_CHANNEL_OPEN_FAILURE \<noteq> SSH_MSG_KEXINIT"
  "SSH_MSG_CHANNEL_SUCCESS \<noteq> SSH_MSG_KEXINIT" "SSH_MSG_CHANNEL_FAILURE \<noteq> SSH_MSG_KEXINIT"
  "SSH_MSG_REQUEST_FAILURE \<noteq> SSH_MSG_KEXINIT"
  by (simp_all add: channel_msgs msg_defs)

section \<open>The operations of the driver\<close>

lemma audited_upd [simp]:
  "audited A0 A (d\<lparr>helper := x0\<rparr>) = audited A0 A d"
  "audited A0 A (d\<lparr>pending_pty := x1\<rparr>) = audited A0 A d"
  "audited A0 A (d\<lparr>peer_chan := x2\<rparr>) = audited A0 A d"
  "audited A0 A (d\<lparr>ch_state := x3\<rparr>) = audited A0 A d"
  "audited A0 A (d\<lparr>out_window := x4\<rparr>) = audited A0 A d"
  "audited A0 A (d\<lparr>out_max_pkt := x5\<rparr>) = audited A0 A d"
  "audited A0 A (d\<lparr>in_window := x6\<rparr>) = audited A0 A d"
  "audited A0 A (d\<lparr>credit_pending := x7\<rparr>) = audited A0 A d"
  "audited A0 A (d\<lparr>pending_out := x8\<rparr>) = audited A0 A d"
  "audited A0 A (d\<lparr>pending_stdin := x9\<rparr>) = audited A0 A d"
  "audited A0 A (d\<lparr>pre_exec_stdin := x10\<rparr>) = audited A0 A d"
  "audited A0 A (d\<lparr>client_eof := x11\<rparr>) = audited A0 A d"
  "audited A0 A (d\<lparr>early_close := x12\<rparr>) = audited A0 A d"
  "audited A0 A (d\<lparr>exit_status_of := x13\<rparr>) = audited A0 A d"
  "audited A0 A (d\<lparr>exit_signal_of := x14\<rparr>) = audited A0 A d"
  "audited A0 A (d\<lparr>child_out_closed := x15\<rparr>) = audited A0 A d"
  "audited A0 A (d\<lparr>consumed_closed := x16\<rparr>) = audited A0 A d"
  "audited A0 A (d\<lparr>bytes_received := x19\<rparr>) = audited A0 A d"
  "audited A0 A (d\<lparr>bytes_sent := x20\<rparr>) = audited A0 A d"
  "audited A0 A (d\<lparr>deferred := x21\<rparr>) = audited A0 A d"
  "audited A0 A (d\<lparr>child := x22\<rparr>) = audited A0 A d"
  "audited A0 A (d\<lparr>os_calls := x23\<rparr>) = audited A0 A d"
  by (simp_all add: audited_def exec_log_def cong: option.case_cong)

lemma sound_upd [simp]:
  "sound E A0 S0 (d\<lparr>helper := x0\<rparr>) s = sound E A0 S0 d s"
  "sound E A0 S0 (d\<lparr>pending_pty := x1\<rparr>) s = sound E A0 S0 d s"
  "sound E A0 S0 (d\<lparr>peer_chan := x2\<rparr>) s = sound E A0 S0 d s"
  "sound E A0 S0 (d\<lparr>ch_state := x3\<rparr>) s = sound E A0 S0 d s"
  "sound E A0 S0 (d\<lparr>out_window := x4\<rparr>) s = sound E A0 S0 d s"
  "sound E A0 S0 (d\<lparr>out_max_pkt := x5\<rparr>) s = sound E A0 S0 d s"
  "sound E A0 S0 (d\<lparr>in_window := x6\<rparr>) s = sound E A0 S0 d s"
  "sound E A0 S0 (d\<lparr>credit_pending := x7\<rparr>) s = sound E A0 S0 d s"
  "sound E A0 S0 (d\<lparr>pending_out := x8\<rparr>) s = sound E A0 S0 d s"
  "sound E A0 S0 (d\<lparr>pending_stdin := x9\<rparr>) s = sound E A0 S0 d s"
  "sound E A0 S0 (d\<lparr>pre_exec_stdin := x10\<rparr>) s = sound E A0 S0 d s"
  "sound E A0 S0 (d\<lparr>client_eof := x11\<rparr>) s = sound E A0 S0 d s"
  "sound E A0 S0 (d\<lparr>early_close := x12\<rparr>) s = sound E A0 S0 d s"
  "sound E A0 S0 (d\<lparr>exit_status_of := x13\<rparr>) s = sound E A0 S0 d s"
  "sound E A0 S0 (d\<lparr>exit_signal_of := x14\<rparr>) s = sound E A0 S0 d s"
  "sound E A0 S0 (d\<lparr>child_out_closed := x15\<rparr>) s = sound E A0 S0 d s"
  "sound E A0 S0 (d\<lparr>consumed_closed := x16\<rparr>) s = sound E A0 S0 d s"
  "sound E A0 S0 (d\<lparr>bytes_received := x19\<rparr>) s = sound E A0 S0 d s"
  "sound E A0 S0 (d\<lparr>bytes_sent := x20\<rparr>) s = sound E A0 S0 d s"
  "sound E A0 S0 (d\<lparr>deferred := x21\<rparr>) s = sound E A0 S0 d s"
  "sound E A0 S0 (d\<lparr>child := x22\<rparr>) s = sound E A0 S0 d s"
  "sound E A0 S0 (d\<lparr>os_calls := x23\<rparr>) s = sound E A0 S0 d s"
  by (simp_all add: sound_def)

lemma keeps_reply:
  assumes "driver_wf d" and "sound E A0 S0 d s" and "\<not> in_kex (phase s)"
  shows "keeps E A0 S0 (phase s) (reply E want ok d s)"
  using assms by (auto simp: reply_def intro!: keeps_send)

lemma keeps_replenish:
  assumes "driver_wf d" and "sound E A0 S0 d s" and "\<not> in_kex (phase s)"
  shows "keeps E A0 S0 (phase s) (replenish_window E d s)"
proof -
  have "driver_wf (d\<lparr>in_window := sat_add32 (in_window d) (credit_pending d), credit_pending := 0\<rparr>)"
    using assms(1) by (auto simp: driver_wf_defs sat_add32_def unat_word_ariths split: channel_state.splits)
  then show ?thesis
    using assms by (auto simp: replenish_window_def Let_def intro!: keeps_send)
qed

lemma keeps_terminal:
  assumes "driver_wf d" and "sound E A0 S0 d s" and "\<not> in_kex (phase s)" and "ch_state d = Draining"
  shows "keeps E A0 S0 (phase s) (send_terminal E d s)"
proof -
  have wf: "driver_wf (d\<lparr>ch_state := ServerClosed\<rparr>)" "driver_wf (d\<lparr>ch_state := Closed\<rparr>)"
    using assms(1,4) by (auto simp: driver_wf_defs)
  show ?thesis
  proof (cases "early_close d")
    case True
    then show ?thesis
      using assms(2,3) wf by (auto simp: send_terminal_def intro!: keeps_send)
  next
    case False
    show ?thesis
    proof (cases "exit_signal_of d")
      case None
      then show ?thesis
        using False assms(2,3) wf by (auto simp: send_terminal_def intro!: keeps_send split: option.split)
    next
      case (Some x)
      obtain name core where x: "exit_signal_of d = Some (name, core)" using Some by (cases x) simp
      then have "length name \<le> 4" using assms(1) by (simp add: driver_wf_def)
      then show ?thesis
        using False assms(2,3) wf x
        by (auto simp: send_terminal_def exit_signal_frame intro!: keeps_send)
    qed
  qed
qed


text \<open>One round of (A): how much it sends, and the driver after it.\<close>

definition flush_size :: "driver \<Rightarrow> pending_out \<Rightarrow> nat" where
  "flush_size d p = min (po_remaining p)
     (min (min (unat (out_window d)) (unat (out_max_pkt d))) (unat CHANNEL_MAX_PACKET))"

definition flush_sent :: "driver \<Rightarrow> pending_out \<Rightarrow> driver" where
  "flush_sent d p =
     (let n = flush_size d p; p' = p\<lparr>po_off := po_off p + n\<rparr> in
      d\<lparr>pending_out := (if po_is_empty p' then None else Some p'), out_window := out_window d - word_of_nat n,
        bytes_sent := sat_add (bytes_sent d) n\<rparr>)"

definition flush_goes_on :: "driver \<Rightarrow> pending_out \<Rightarrow> bool" where
  "flush_goes_on d p \<longleftrightarrow> may_emit_output (ch_state d) \<and> pending_out d = Some p \<and> out_window d \<noteq> 0 \<and> flush_size d p \<noteq> 0"

lemma flush_output_step:
  assumes "flush_goes_on d p"
  shows "flush_output E d s = try_bind (send_frame E (build_data_frame (peer_chan d) (po_kind p)
      (take (flush_size d p) (drop (po_off p) (po_buf p))))
      (d\<lparr>pending_out := Some (p\<lparr>po_off := po_off p + flush_size d p\<rparr>)\<rparr>) s) (flush_output E (flush_sent d p))"
  unfolding flush_output.simps[of E d s] Let_def flush_size_def[of d, symmetric] try_bind_def
  using assms by (auto simp: flush_goes_on_def flush_sent_def Let_def po_take_def split: sum.split option.split)

lemma flush_output_stop: "\<forall>p. \<not> flush_goes_on d p \<Longrightarrow> flush_output E d s = Inr (d, s)"
  unfolding flush_output.simps[of E d s] Let_def flush_size_def[of d, symmetric]
  by (auto simp: flush_goes_on_def split: option.splits)

lemma flush_size_bounds:
  "flush_size d p \<le> unat (out_window d)" "flush_size d p \<le> unat (out_max_pkt d)" "flush_size d p \<le> 32768"
  "flush_size d p \<le> po_remaining p"
  by (simp_all add: flush_size_def CHANNEL_MAX_PACKET_def)

lemma unat_flush_sent: "unat (out_window (flush_sent d p)) = unat (out_window d) - flush_size d p"
  using flush_size_bounds[of d p]
  by (simp add: flush_sent_def Let_def unat_sub_if' unat_of_nat)

lemma flush_induct [case_names stop step]:
  assumes "\<And>d s. \<forall>p. \<not> flush_goes_on d p \<Longrightarrow> P d s"
    and "\<And>d s p. flush_goes_on d p \<Longrightarrow> (\<And>s'. P (flush_sent d p) s') \<Longrightarrow> P d s"
  shows "P d s"
proof (induction "case pending_out d of None \<Rightarrow> 0 | Some p \<Rightarrow> po_remaining p" arbitrary: d s rule: less_induct)
  case less
  show ?case
  proof (cases "\<exists>p. flush_goes_on d p")
    case False
    then show ?thesis using assms(1) by blast
  next
    case True
    then obtain p where p: "flush_goes_on d p" by blast
    have "P (flush_sent d p) s'" for s'
      using p flush_size_bounds[of d p]
      by (intro less) (auto simp: flush_goes_on_def flush_sent_def Let_def po_remaining_def)
    then show ?thesis using assms(2)[OF p] by blast
  qed
qed

lemma flush_sent_wf: "driver_wf d \<Longrightarrow> flush_goes_on d p \<Longrightarrow> driver_wf (flush_sent d p)"
  using unat_flush_sent[of d p]
  by (auto simp: driver_wf_defs pending_ok_def flush_goes_on_def flush_sent_def po_is_empty_def Let_def
      split: channel_state.splits)

lemma keeps_flush:
  "driver_wf d \<Longrightarrow> sound E A0 S0 d s \<Longrightarrow> \<not> in_kex (phase s) \<Longrightarrow> keeps E A0 S0 (phase s) (flush_output E d s)"
proof (induction d s rule: flush_induct)
  case (stop d s)
  then show ?case by (simp add: flush_output_stop)
next
  case (step d s p)
  let ?data = "take (flush_size d p) (drop (po_off p) (po_buf p))"
  have "length ?data \<le> u32_max" using flush_size_bounds(3)[of d p] by simp
  note f = data_frame_built[OF this]
  have snd: "sound E A0 S0 (flush_sent d p) s' = sound E A0 S0 d s'" for s'
    by (simp add: flush_sent_def Let_def)
  show ?case
    unfolding flush_output_step[OF step.hyps] f
  proof (rule keeps_send[OF _ _ refl])
    fix s' assume "sound E A0 S0 (d\<lparr>pending_out := Some (p\<lparr>po_off := po_off p + flush_size d p\<rparr>)\<rparr>) s'"
      "phase s' = phase s" "\<not> in_kex (phase s')"
    then show "keeps E A0 S0 (phase s) (flush_output E (flush_sent d p) s')"
      using step.IH[of s'] flush_sent_wf[OF step.prems(1) step.hyps] snd by simp
  qed (use step.prems in simp_all)
qed

lemma out_q_ops [simp]:
  "out_q (close_stdin c) = out_q c" "out_q (child_kill c) = out_q c" "out_q (end_input c) = out_q c"
  "out_q (discard_output c) = out_q c"
  by (simp_all add: close_stdin_def child_kill_def end_input_def discard_output_def Let_def)

lemma new_child_wf:
  assumes "driver_wf d" and "child d = Some c" and "in_child c' \<le> in_child c" and "list_all chunk_ok (out_q c')"
  shows "driver_wf (d\<lparr>child := Some c'\<rparr>)"
  using assms by (auto simp: driver_wf_defs split: channel_state.splits)

lemma handoff_wf:
  assumes wf: "driver_wf d"
  shows "driver_wf (handoff_stdin d)"
proof (cases "child d")
  case None
  then show ?thesis using wf by (simp add: handoff_stdin_def)
next
  case (Some c)
  define u where "u = (if pending_stdin d = None then
       (case pre_exec_stdin d of [] \<Rightarrow> d | x # q \<Rightarrow> d\<lparr>pending_stdin := Some x, pre_exec_stdin := q\<rparr>) else d)"
  have u: "driver_wf u" "child u = Some c"
    using wf Some by (auto simp: u_def driver_wf_defs split: channel_state.splits list.splits)
  have out: "list_all chunk_ok (out_q c)" using u by (simp add: driver_wf_def)
  have close: "driver_wf (v\<lparr>child := map_option close_stdin (child v)\<rparr>)" if "driver_wf v" for v
  proof (cases "child v")
    case None
    then show ?thesis using that by (auto simp: driver_wf_defs split: channel_state.splits)
  next
    case (Some c)
    then show ?thesis using that by (auto intro!: new_child_wf) (simp add: driver_wf_def)
  qed
  have give: "driver_wf (u\<lparr>pending_stdin := None, child := Some c'\<rparr>)"
    if "pending_stdin u = Some x" "try_send_stdin c x = Inr c'" for c' x
  proof -
    have "out_q c' = out_q c" using that(2) by (auto simp: try_send_stdin_def split: if_splits)
    then show ?thesis
      using that(1) u in_child_send[OF that(2)] by (auto simp: driver_wf_defs split: channel_state.splits)
  qed
  have same: "driver_wf (u\<lparr>pending_stdin := Some x\<rparr>)" if "pending_stdin u = Some x" for x
    using that u by (auto simp: driver_wf_defs split: channel_state.splits)
  show ?thesis
    unfolding handoff_stdin_def Some option.case Let_def u_def[symmetric]
    using u close[of u] close[OF give] give same
    by (auto split: option.splits sum.splits dest: try_send_back)
qed

lemma handoff_audited [simp]: "audited A0 A (handoff_stdin d) = audited A0 A d"
  by (auto simp: handoff_stdin_def Let_def split: option.splits list.splits sum.splits)

lemma handoff_sound [simp]: "sound E A0 S0 (handoff_stdin d) s = sound E A0 S0 d s"
  by (simp add: sound_def)

section \<open>Inbound messages\<close>

lemma try_bind_assoc: "try_bind (try_bind m f) g = try_bind m (\<lambda>x. try_bind (f x) g)"
  by (cases m) simp_all

lemma keeps_reply_bind:
  assumes "sound E A0 S0 d s" and "\<not> in_kex (phase s)"
    and "\<And>s'. sound E A0 S0 d s' \<Longrightarrow> phase s' = phase s \<Longrightarrow> keeps E A0 S0 ph (k (d, s'))"
  shows "keeps E A0 S0 ph (try_bind (reply E want ok d s) k)"
  using assms by (auto simp: reply_def try_bind_assoc intro!: keeps_send)

lemma keeps_start:
  assumes "driver_wf d" and "sound E A0 S0 d s" and "\<not> in_kex (phase s)" and "ch_state d = ChIdle"
  shows "keeps E A0 S0 (phase s) (start E Os what want d s)"
proof -
  have idle: "command d = None" "child d = None" "\<not> finished_emitted d" "out_max_pkt d \<noteq> 0"
    using assms(1,4) by (auto simp: driver_wf_def lifecycle_def)
  obtain cmd rtype where cr: "(case what of
            StartProgram (ExecCommand c) \<Rightarrow> (c, ''exec'')
          | StartProgram LoginShell \<Rightarrow> ([], ''shell'')
          | StartSftp \<Rightarrow> (ascii ''sftp'', ''subsystem'')) = (cmd, rtype)"
    by fastforce
  define u where "u = d\<lparr>pending_pty := None, command := Some cmd, request_type := rtype, on_pty := pending_pty d \<noteq> None\<rparr>"
  define v where "v = s\<lparr>audit := audit s @ [ExecStarted (ao_fingerprint (d_identity u)) (uid u) cmd rtype (on_pty u)
      (ao_certificate (d_identity u))]\<rparr>"
  have v: "phase v = phase s" "in_kex (phase v) = in_kex (phase s)" by (simp_all add: v_def in_kex_def)
  have snd: "sound E A0 S0 u v"
  proof -
    obtain B where "audit s = A0 @ B" "filter is_exec B = []"
      using assms(2) idle by (auto simp: sound_def audited_def exec_log_def)
    then have "audited A0 (audit v) u"
      using idle by (auto simp: audited_def v_def u_def is_exec_def exec_log_def)
    then show ?thesis
      using assms(2) by (auto simp: sound_def v_def duplex_def in_kex_def rekey_wf_def)
  qed
  have fin: "driver_wf (u\<lparr>os_calls := n, child := Some c, ch_state := Running\<rparr>)" if "c \<in> {piped_child, pty_child}" for c n
    using assms(1,4) idle that by (auto simp: driver_wf_defs u_def piped_child_def pty_child_def in_child_def)
  have fin': "driver_wf (u\<lparr>os_calls := n, exit_status_of := Some EXIT_SPAWN_FAILED, child_out_closed := True,
      consumed_closed := True, ch_state := Draining\<rparr>)" for n
    using assms(1,4) idle by (auto simp: driver_wf_defs u_def)
  show ?thesis
    unfolding start_def cr prod.case Let_def u_def[symmetric] v_def[symmetric]
  proof (rule keeps_reply_bind[OF snd], goal_cases)
    case 1
    then show ?case using assms(3) v by simp
  next
    case (2 s')
    then show ?case using fin fin' v by (auto split: start_what.splits option.splits)
  qed
qed

lemma keeps_open:
  assumes "driver_wf d" and "sound E A0 S0 d s" and "\<not> in_kex (phase s)"
  shows "keeps E A0 S0 (phase s) (on_channel_open E r d s)"
proof -
  have wf: "driver_wf (d\<lparr>peer_chan := c, out_window := ucast (w :: u32), out_max_pkt := m,
      in_window := INITIAL_WINDOW, ch_state := ChIdle\<rparr>)" if "ch_state d = BeforeOpen" "m \<noteq> 0" for c w m
    using assms(1) that by (simp add: driver_wf_defs INITIAL_WINDOW_def)
  show ?thesis
    using assms wf
    by (auto simp: on_channel_open_def open_failure_frame Let_def split: sum.split
        intro!: keeps_send keeps_disconnect)
qed

lemma keeps_pty_req:
  assumes "driver_wf d" and "sound E A0 S0 d s" and "\<not> in_kex (phase s)"
  shows "keeps E A0 S0 (phase s) (on_pty_req E Os r want d s)"
proof -
  have wf: "driver_wf (d\<lparr>os_calls := n\<rparr>)" "driver_wf (d\<lparr>os_calls := n, pending_pty := x\<rparr>)" "driver_wf (d\<lparr>pending_pty := x\<rparr>)"
    for n x
    using assms(1) by (auto simp: driver_wf_defs split: channel_state.splits)
  show ?thesis
    using assms wf
    by (auto simp: on_pty_req_def Let_def split: sum.split option.split intro!: keeps_disconnect keeps_reply)
qed

lemma keeps_subsystem:
  assumes "driver_wf d" and "sound E A0 S0 d s" and "\<not> in_kex (phase s)"
  shows "keeps E A0 S0 (phase s) (on_subsystem E Os r want d s)"
  using assms
  by (auto simp: on_subsystem_def split: sum.split intro!: keeps_disconnect keeps_reply keeps_start)

lemma keeps_window_change:
  assumes "driver_wf d" and "sound E A0 S0 d s" and "\<not> in_kex (phase s)"
  shows "keeps E A0 S0 (phase s) (on_window_change E Os r want d s)"
proof -
  have "driver_wf (d\<lparr>os_calls := n\<rparr>)" for n
    using assms(1) by (auto simp: driver_wf_defs split: channel_state.splits)
  then show ?thesis
    using assms by (auto simp: on_window_change_def Let_def split: sum.split intro!: keeps_disconnect keeps_reply)
qed

lemma keeps_request:
  assumes "driver_wf d" and "sound E A0 S0 d s" and "\<not> in_kex (phase s)"
  shows "keeps E A0 S0 (phase s) (on_channel_request E Os r d s)"
  unfolding on_channel_request_def
  using assms
  by (auto split: sum.split intro!: keeps_disconnect keeps_reply keeps_start keeps_subsystem keeps_pty_req
      keeps_window_change)

lemma keeps_data:
  assumes "driver_wf d" and "sound E A0 S0 d s" and "ch_state d \<noteq> BeforeOpen"
  shows "keeps E A0 S0 (phase s) (on_channel_data E r d s)"
proof -
  have sub: "unat (in_window d - word_of_nat n) + n = unat (in_window d)"
    if "\<not> in_window d < word_of_nat n" "n \<le> u32_max" for n
  proof -
    have "unat (word_of_nat n :: u32) = n" using that(2) by (rule unat_u32_of_nat)
    then show ?thesis using that(1) by (simp add: word_less_nat_alt unat_sub_if')
  qed
  have wf: "driver_wf (d\<lparr>in_window := in_window d - word_of_nat (length b), pre_exec_stdin := pre_exec_stdin d @ [b]\<rparr>)"
    "driver_wf (d\<lparr>in_window := in_window d - word_of_nat (length b)\<rparr>)"
    "driver_wf (d\<lparr>in_window := in_window d - word_of_nat (length b),
       pending_stdin := Some (case pending_stdin d of Some buf \<Rightarrow> buf @ b | None \<Rightarrow> b)\<rparr>)"
    if "\<not> in_window d < word_of_nat (length b)" "length b \<le> u32_max" for b
    using assms(1,3) sub[OF that] by (auto simp: driver_wf_defs split: channel_state.splits option.splits)
  show ?thesis
  proof (cases "rd_bind reader_uint32 (\<lambda>recipient. rd_bind (reader_string (unat CHANNEL_MAX_PACKET)) (\<lambda>data.
           rd_return (recipient, data))) r")
    case (Inl e)
    then show ?thesis using assms(2) by (simp add: on_channel_data_def keeps_disconnect)
  next
    case (Inr x)
    obtain rcp b r' where x: "x = ((rcp, b), r')" by (metis prod.exhaust)
    have "length b \<le> unat CHANNEL_MAX_PACKET"
      using Inr x by (auto simp: rd_bind_Inr_iff string_codec.dec_iff)
    then have b: "length b \<le> u32_max" by (simp add: CHANNEL_MAX_PACKET_def)
    show ?thesis
      using assms(1,2) wf[OF _ b] b
      by (auto simp: on_channel_data_def Inr x Let_def intro!: keeps_disconnect)
  qed
qed

lemma keeps_adjust:
  assumes "driver_wf d" and "sound E A0 S0 d s" and "ch_state d \<noteq> BeforeOpen"
  shows "keeps E A0 S0 (phase s) (on_window_adjust E r d s)"
proof -
  have "driver_wf (d\<lparr>out_window := w\<rparr>)" if "\<not> word_of_nat u32_max < w" for w
    using assms(1) that by (auto simp: driver_wf_defs word_less_nat_alt split: channel_state.splits)
  then show ?thesis
    using assms(2) by (auto simp: on_window_adjust_def Let_def split: sum.split intro!: keeps_disconnect)
qed

lemma keeps_eof:
  assumes "driver_wf d" and "sound E A0 S0 d s"
  shows "keeps E A0 S0 (phase s) (on_channel_eof E r d s)"
proof -
  have "driver_wf (d\<lparr>client_eof := True\<rparr>)"
    using assms(1) by (auto simp: driver_wf_defs split: channel_state.splits)
  then show ?thesis using assms(2) by (auto simp: on_channel_eof_def split: sum.split intro!: keeps_disconnect)
qed

lemma keeps_close:
  assumes "driver_wf d" and "sound E A0 S0 d s" and "ch_state d \<noteq> BeforeOpen"
  shows "keeps E A0 S0 (phase s) (on_channel_close E r d s)"
proof -
  have wf: "driver_wf (d\<lparr>early_close := True, pending_out := None, child := Some (child_kill (discard_output (close_stdin c))),
      ch_state := Draining\<rparr>)" if "child d = Some c" for c
    using assms(1,3) that in_child_discard[of "close_stdin c"]
    by (auto simp: driver_wf_defs pending_ok_def split: channel_state.splits)
  have "driver_wf (d\<lparr>ch_state := Closed\<rparr>)" "driver_wf (d\<lparr>early_close := True, pending_out := None,
      child_out_closed := True, ch_state := Draining\<rparr>)" if "child d = None \<or> ch_state d = ServerClosed"
    using assms(1,3) that by (auto simp: driver_wf_defs pending_ok_def split: channel_state.splits)
  then show ?thesis
    using assms(2) wf
    by (auto simp: on_channel_close_def Let_def split: sum.split option.split intro!: keeps_disconnect)
qed

lemma keeps_inbound:
  assumes "driver_wf d" and "sound E A0 S0 d s"
    and "\<not> in_kex (phase s) \<or> message_number p \<in> {SSH_MSG_CHANNEL_DATA, SSH_MSG_CHANNEL_WINDOW_ADJUST, SSH_MSG_CHANNEL_EOF}"
  shows "keeps E A0 S0 (phase s) (handle_inbound E Os p d s)"
proof (cases p)
  case Nil
  then show ?thesis using assms(2) by (simp add: handle_inbound_def keeps_disconnect)
next
  case (Cons msg r)
  have peer: "keeps E A0 S0 (phase s) (map_err (\<lambda>x. (x, d)) (fail (Rejected w) s))" for w
    using assms(2) by (auto simp: fail_def keeps_def sound_end_def sound_def intro: duplex_end_of)
  have nk: "\<not> in_kex (phase s)" if "msg \<in> {SSH_MSG_CHANNEL_OPEN, SSH_MSG_CHANNEL_REQUEST, SSH_MSG_GLOBAL_REQUEST}"
    using assms(3) that Cons by (auto simp: channel_msgs)
  have global: "keeps E A0 S0 (phase s) (case rd_bind (reader_string REQUEST_TYPE_BOUND)
        (\<lambda>name. rd_bind reader_boolean (\<lambda>want_reply. rd_return (name, want_reply))) r of
      Inl _ \<Rightarrow> disconnect E ''malformed-global-request'' d s
    | Inr ((_, want_reply), _) \<Rightarrow>
        if want_reply then try_bind (send_frame E (Some [SSH_MSG_REQUEST_FAILURE]) d s) (\<lambda>s. Inr (d, s))
        else Inr (d, s))" if "msg = SSH_MSG_GLOBAL_REQUEST"
    using assms(1,2) nk that by (auto split: sum.split intro!: keeps_send keeps_disconnect)
  have fails: "keeps E A0 S0 (phase s) (disconnect E ''channel-message-before-open'' d s)"
    "keeps E A0 S0 (phase s) (disconnect E ''inbound-extended-data'' d s)"
    "keeps E A0 S0 (phase s) (disconnect E ''unexpected-channel-message'' d s)"
    using assms(2) by (simp_all add: keeps_disconnect)
  show ?thesis
    unfolding handle_inbound_def Cons list.case
    by (intro keeps_if fails peer global keeps_open[OF assms(1,2) nk] keeps_request[OF assms(1,2) nk]
        keeps_data[OF assms(1,2)] keeps_adjust[OF assms(1,2)] keeps_eof[OF assms(1,2)] keeps_close[OF assms(1,2)])
      (use assms(1,2) in auto)
qed

lemma keeps_pass:
  assumes "driver_wf d" and "sound E A0 S0 d s"
  shows "keeps E A0 S0 (phase s) (pass_to_channel E Os p d s)"
proof -
  have "driver_wf (d\<lparr>deferred := deferred d @ [p]\<rparr>)" if "\<not> MAX_DEFERRED \<le> length (deferred d)"
    using assms(1) that by (auto simp: driver_wf_defs split: channel_state.splits)
  then show ?thesis
    using assms by (auto simp: pass_to_channel_def split: list.split intro!: keeps_disconnect keeps_inbound)
qed

lemma keeps_all:
  "driver_wf d \<Longrightarrow> sound E A0 S0 d s \<Longrightarrow> \<not> in_kex (phase s) \<Longrightarrow> keeps E A0 S0 (phase s) (handle_all E Os ps d s)"
proof (induction ps arbitrary: d s)
  case Nil
  then show ?case by simp
next
  case (Cons p ps)
  show ?case
    unfolding handle_all.simps
  proof (rule keeps_bind[OF keeps_inbound[OF Cons.prems(1,2)]])
    fix d' s' assume "driver_wf d'" "sound E A0 S0 d' s'" and ph: "phase s' = phase s"
    then show "keeps E A0 S0 (phase s) (case (d', s') of (d, s) \<Rightarrow> handle_all E Os ps d s)"
      using Cons.IH[of d' s'] Cons.prems(3) by (simp add: in_kex_def)
  qed (use Cons.prems in simp)
qed

lemma keeps_drain:
  assumes "driver_wf d" and "sound E A0 S0 d s" and "\<not> in_kex (phase s)"
  shows "keeps E A0 S0 (phase s) (drain_deferred E Os d s)"
proof -
  have "driver_wf (d\<lparr>deferred := []\<rparr>)"
    using assms(1) by (auto simp: driver_wf_defs split: channel_state.splits)
  then show ?thesis using assms(2,3) by (simp add: drain_deferred_def keeps_all)
qed

section \<open>Re-keying within the loop\<close>

text \<open>What is relied on of the decryption of \<^verbatim>\<open>aes-gcm\<close>: it works in place.\<close>

definition in_place :: "aead_prims \<Rightarrow> bool" where
  "in_place P \<longleftrightarrow> (\<forall>k n a c t p. gcm_decrypt P k n a c t = Some p \<longrightarrow> length p = length c)"

lemma decoded_length: "decode_packet_body b = Inr p \<Longrightarrow> length p \<le> length b"
  by (auto simp: decode_packet_body_def Let_def split: if_splits list.splits)

lemma sealed_packet_short:
  assumes "in_place P" and "sealed_packet P c n b p"
  shows "length p \<le> 35000"
proof -
  obtain k where k: "cipher_body_len P c n (take 4 b) = Inr k" "length b = 4 + k"
    "snd (cipher_open P c n (take 4 b) (drop 4 b)) = Inr p"
    using assms(2) unfolding sealed_packet_def by blast
  have "k \<le> 35016" using body_len_bounds[OF k(1)] by simp
  moreover have "length p \<le> k - 16"
    using k(2,3) assms(1)
    by (cases c)
      (auto simp: cipher_open_def chacha_open_def gcm_open_def TAG_LEN_def in_place_def Let_def apply_keystream_def
        dest!: decoded_length split: if_splits option.splits)
  ultimately show ?thesis by simp
qed

lemma flat_fields [simp]:
  "phase (flat s) = phase s" "host_key (flat s) = host_key s" "client_id (flat s) = client_id s" "sent (flat s) = sent s"
  "audit (flat s) = audit s" "rx (flat s) = rx s" "seq_rx (flat s) = seq_rx s"
  by (simp_all add: flat_def)

lemma read_packet_frame:
  assumes "read_packet E s = Inr (q, s')"
  shows "phase s' = phase s" "host_key s' = host_key s" "client_id s' = client_id s" "sent s' = sent s"
    "audit s' = audit s"
proof -
  have "phase (flat s') = phase (flat s) \<and> host_key (flat s') = host_key (flat s) \<and> client_id (flat s') = client_id (flat s) \<and>
      sent (flat s') = sent (flat s) \<and> audit (flat s') = audit (flat s)"
  proof (cases rule: read_packet_cases[of E s])
    case (cut u)
    then show ?thesis using assms by simp
  next
    case (packet p u)
    then have "read_sealed E (flat s) = Inr (p, flat s')" using assms by simp
    then have s': "flat s' = (flat s)\<lparr>inp := inp (flat s'), rx := cipher_advance 1 (rx (flat s)),
        seq_rx := seq_rx (flat s) + 1\<rparr>"
      unfolding read_sealed_Inr by blast
    show ?thesis by (subst (1 2 3 4 5) s') simp
  next
    case (failed x)
    then show ?thesis using assms by simp
  qed
  then show "phase s' = phase s" "host_key s' = host_key s" "client_id s' = client_id s" "sent s' = sent s"
    "audit s' = audit s"
    by simp_all
qed

lemma read_packet_short:
  assumes "in_place (aead E)" and "read_packet E s = Inr (Some p, s')"
  shows "length p \<le> 35000"
proof (cases rule: read_packet_cases[of E s])
  case (packet q u)
  then have "read_sealed E (flat s) = Inr (p, flat s')" using assms(2) by simp
  then obtain b where "sealed_packet (aead E) (rx (flat s)) (seq_rx (flat s)) b p"
    unfolding read_sealed_Inr by blast
  then show ?thesis by (rule sealed_packet_short[OF assms(1)])
qed (use assms(2) in simp_all)

lemma read_packet_sound: "sound E A0 S0 d s \<Longrightarrow> read_packet E s = Inr (q, s') \<Longrightarrow> sound E A0 S0 d s'"
  by (simp add: sound_def duplex_def rekey_wf_def read_packet_frame)

text \<open>The messages of a re-keying step, against the half-duplex rule.\<close>

lemma protocol_window:
  assumes "rekey_protocol (stage_of ph) m (map hd ms) r (stage_of ph')" and "[] \<notin> set ms"
  shows "window_after (in_kex ph) ms = Some (in_kex ph')"
proof -
  have hd: "message_number x = hd x" if "x \<noteq> []" for x using that by (cases x) simp_all
  have [simp]: "in_kex p \<longleftrightarrow> stage_of p = Offered \<or> (\<exists>g. stage_of p = Agreed g)" for p
    by (cases p) simp_all
  from assms(1) show ?thesis
    by (cases rule: rekey_protocol.cases) (use assms(2) hd in \<open>auto simp: msg_defs\<close>)
qed

lemma audited_other: "audited A0 A d \<Longrightarrow> \<not> is_exec e \<Longrightarrow> audited A0 (A @ [e]) d"
  by (auto simp: audited_def)

lemma kex_traffic_end:
  assumes "sound E A0 S0 d s" and "rekey_fails (in_kex (phase s)) (trace.truncate s) (Inl x)"
  shows "sound_end A0 S0 (x, d)"
proof -
  obtain e t where x: "x = (e, t)" by (cases x)
  have k: "kex_traffic (in_kex (phase s)) (trace.truncate s) t" "e = Io \<or> (\<exists>r. e = Rejected r)"
    using assms(2) x by (auto simp: rekey_fails_def)
  have "audited A0 (audit t) d"
    using k(1) assms(1) audited_other by (auto simp: kex_traffic_def sound_def is_exec_def)
  moreover have "duplex_end S0 t"
    using k(1) assms(1) by (auto simp: kex_traffic_def sound_def duplex_def duplex_end_def window_after_append)
  ultimately show ?thesis using x k(2) by (auto simp: sound_end_def)
qed

lemma step_rekey_keeps:
  assumes "sound E A0 S0 d s" and "crypto_ok E" and "\<forall>i. fills (rand E i)" and "length p \<le> 35000"
  shows "case step_rekey E p s of Inl x \<Rightarrow> sound_end A0 S0 (x, d) | Inr (r, s') \<Rightarrow> sound E A0 S0 d s'"
proof (cases "step_rekey E p s")
  case (Inl x)
  have "rekey_wf E s" using assms(1) by (simp add: sound_def)
  from step_rekey_fails[OF assms(2,3) this, of p] show ?thesis
    using kex_traffic_end[OF assms(1)] by (simp add: Inl)
next
  case (Inr x)
  obtain r s' where x: "step_rekey E p s = Inr (r, s')" using Inr by (cases x) simp
  obtain ms where ms: "[] \<notin> set ms" "rekey_effect ms r s s'"
    "rekey_protocol (stage_of (phase s)) (message_number p) (map hd ms) r (stage_of (phase s'))"
    using step_rekey_sound[OF x] by blast
  have "audited A0 (audit s') d"
    using ms(2) assms(1) audited_other
    by (auto simp: rekey_effect_def sound_def is_exec_def split: if_splits)
  moreover have "duplex S0 s'"
    using ms(2) protocol_window[OF ms(3,1)] assms(1)
    by (auto simp: sound_def duplex_def rekey_effect_def window_after_append)
  moreover have "rekey_wf E s'"
    by (rule step_rekey_wf[OF assms(3) _ assms(4) x]) (use assms(1) in \<open>simp add: sound_def\<close>)
  ultimately show ?thesis by (simp add: x sound_def)
qed

lemma begin_rekey_keeps:
  assumes "sound E A0 S0 d s" and "\<forall>i. fills (rand E i)" and "phase s = RkIdle"
  shows "case begin_rekey E s of Inl x \<Rightarrow> sound_end A0 S0 (x, d) | Inr s' \<Rightarrow> sound E A0 S0 d s' \<and> rekey_active s'"
proof (cases "begin_rekey E s")
  case (Inl x)
  have "x = (Io, trace.truncate s)"
  proof (cases "build_rekey_kexinit (rand E (draws s))")
    case (Inl y)
    then show ?thesis using \<open>begin_rekey E s = Inl x\<close> by (simp add: begin_rekey_def draw_def fail_def trace.defs)
  next
    case (Inr m)
    then obtain q where "m = Some (SSH_MSG_KEXINIT # q)" by (rule rekey_kexinit_built)
    then have "write_packet E (SSH_MSG_KEXINIT # q) (s\<lparr>draws := Suc (draws s)\<rparr>) = Inl x"
      using \<open>begin_rekey E s = Inl x\<close> Inr
      by (auto simp: begin_rekey_def draw_def send_msg_def now_def Let_def try_bind_Inl_iff)
    from session_w.send_err[OF this] show ?thesis by (simp add: trace.defs)
  qed
  then show ?thesis
    using Inl assms(1) by (auto simp: sound_end_def sound_def intro: duplex_end_of)
next
  case (Inr u)
  from Inr show ?thesis
  proof (rule begin_rekey_ok, goal_cases)
    case (1 q)
    then have "sound E A0 S0 d u"
      using assms by (auto simp: sound_def duplex_def window_after_append rekey_wf_def same_session_def)
    then show ?case using Inr 1 by (simp add: rekey_active_def)
  qed
qed

section \<open>Turns of the loop\<close>

definition holds :: "audit_event list \<Rightarrow> bytes list \<Rightarrow> ('a \<Rightarrow> bool) \<Rightarrow> 'a flow \<Rightarrow> bool" where
  "holds A0 S0 Q m \<longleftrightarrow> (case m of Inl x \<Rightarrow> sound_end A0 S0 x | Inr y \<Rightarrow> Q y)"

lemma holds_Inr [simp]: "holds A0 S0 Q (Inr y) = Q y"
  by (simp add: holds_def)

lemma holds_bind: "holds A0 S0 Q m \<Longrightarrow> (\<And>y. Q y \<Longrightarrow> holds A0 S0 R (k y)) \<Longrightarrow> holds A0 S0 R (try_bind m k)"
  by (cases m) (simp_all add: holds_def)

lemma keeps_holds: "keeps E A0 S0 ph m = holds A0 S0 (\<lambda>(d, s). driver_wf d \<and> sound E A0 S0 d s \<and> phase s = ph) m"
  by (simp add: keeps_def holds_def)

lemma emit_finished_audited:
  "audited A0 (audit t) d \<Longrightarrow> audited A0 (audit (snd (emit_finished d t))) (fst (emit_finished d t))"
  by (auto simp: emit_finished_def audited_def exec_log_def Let_def is_exec_def split: option.split)

lemma emit_finished_done:
  "command (fst (emit_finished d t)) = None \<or> finished_emitted (fst (emit_finished d t))"
  by (simp add: emit_finished_def Let_def split: option.split)

lemma emit_finished_frame:
  "sent (snd (emit_finished d t)) = sent t" "command (fst (emit_finished d t)) = command d"
  by (simp_all add: emit_finished_def Let_def split: option.split)

lemma emit_finished_session [simp]:
  "phase (snd (emit_finished d s)) = phase s" "host_key (snd (emit_finished d s)) = host_key s"
  "client_id (snd (emit_finished d s)) = client_id s"
  by (simp_all add: emit_finished_def Let_def split: option.split)

lemma emit_finished_wf: "driver_wf d \<Longrightarrow> driver_wf (fst (emit_finished d t))"
proof -
  have "in_child (c\<lparr>consumed_q := []\<rparr>) \<le> in_child c" for c by (simp add: in_child_def)
  then have le: "in_child c \<le> n \<Longrightarrow> in_child (c\<lparr>consumed_q := []\<rparr>) \<le> n" for c n
    by (rule order.trans)
  assume "driver_wf d"
  then show ?thesis
    by (cases "child d") (auto simp: emit_finished_def driver_wf_defs Let_def in_child_def
        split: option.split channel_state.splits)
qed

definition turn_ok :: "env \<Rightarrow> audit_event list \<Rightarrow> bytes list \<Rightarrow> bool \<times> driver \<times> session \<Rightarrow> bool" where
  "turn_ok E A0 S0 = (\<lambda>(fin, d, s). driver_wf d \<and> sound E A0 S0 d s \<and> (fin \<longrightarrow> command d = None \<or> finished_emitted d))"

definition settled_ok :: "env \<Rightarrow> audit_event list \<Rightarrow> bytes list \<Rightarrow> driver \<times> session \<Rightarrow> bool" where
  "settled_ok E A0 S0 = (\<lambda>(d, s). driver_wf d \<and> sound E A0 S0 d s \<and> phase s = RkIdle)"

lemma keeps_settled: "keeps E A0 S0 RkIdle m = holds A0 S0 (settled_ok E A0 S0) m"
  by (simp add: keeps_holds settled_ok_def)

lemma turn_close_ok:
  assumes "driver_wf d" and "sound E A0 S0 d s" and "rekey_active s \<or> phase s = RkIdle"
  shows "holds A0 S0 (turn_ok E A0 S0) (turn_close E d s)"
proof (cases "rekey_active s")
  case True
  then show ?thesis using assms by (simp add: turn_close_def turn_ok_def)
next
  case False
  then have idle: "phase s = RkIdle" using assms(3) by simp
  have "keeps E A0 S0 RkIdle (if ready_to_close d then send_terminal E d s else Inr (d, s))"
    using keeps_terminal[OF assms(1,2)] assms(1,2) idle by (simp add: ready_to_close_def)
  then have "holds A0 S0 (settled_ok E A0 S0) (if ready_to_close d then send_terminal E d s else Inr (d, s))"
    unfolding keeps_settled .
  moreover have "holds A0 S0 (turn_ok E A0 S0) (case x of (d, s) \<Rightarrow>
      if ch_state d = Closed then (let (d, s) = emit_finished d s in Inr (True, d, s)) else Inr (False, d, s))"
    if "settled_ok E A0 S0 x" for x
  proof -
    obtain d s where x: "x = (d, s)" by (cases x)
    show ?thesis
      using that emit_finished_wf[of d s] emit_finished_audited[of A0 s d] emit_finished_done[of d s]
        emit_finished_frame(1)[of d s] emit_finished_session[of d s]
      by (cases "emit_finished d s") (auto simp: x settled_ok_def turn_ok_def sound_def duplex_def rekey_wf_def)
  qed
  ultimately show ?thesis using False unfolding turn_close_def by (simp add: holds_bind)
qed

lemma turn_rekey_ok:
  assumes "settled_ok E A0 S0 (d, s)" and "\<forall>i. fills (rand E i)"
  shows "holds A0 S0 (turn_ok E A0 S0) (turn_rekey E d s)"
proof -
  let ?s = "s\<lparr>ticks := Suc (ticks s)\<rparr>"
  have wf: "driver_wf d" and s: "sound E A0 S0 d ?s" and idle: "phase s = RkIdle"
    using assms(1) by (auto simp: settled_ok_def sound_def duplex_def rekey_wf_def)
  have due: "session_rekey_due E s = (fst (session_rekey_due E s), ?s)"
    using idle by (simp add: session_rekey_due_def now_def Let_def)
  have "holds A0 S0 (\<lambda>s. sound E A0 S0 d s \<and> (rekey_active s \<or> phase s = RkIdle))
      (if b then map_err (\<lambda>x. (x, d)) (begin_rekey E ?s) else Inr ?s)" for b
    using begin_rekey_keeps[OF s assms(2)] idle s by (cases "begin_rekey E ?s") (auto simp: holds_def)
  from holds_bind[OF this turn_close_ok[OF wf]] show ?thesis
    unfolding turn_rekey_def by (subst due) simp
qed

lemma turn_head_ok:
  assumes "driver_wf d" and "sound E A0 S0 d s" and "\<forall>i. fills (rand E i)"
  shows "holds A0 S0 (turn_ok E A0 S0) (turn_head E d s)"
proof (cases "rekey_active s")
  case True
  then show ?thesis using assms by (simp add: turn_head_def Let_def handoff_wf turn_ok_def)
next
  case False
  then have idle: "phase s = RkIdle" by (simp add: rekey_active_def)
  have "holds A0 S0 (settled_ok E A0 S0) (flush_output E d s)"
    using keeps_flush[OF assms(1,2)] idle by (simp flip: keeps_settled)
  moreover have "holds A0 S0 (turn_ok E A0 S0) (case x of (d, s) \<Rightarrow> let d = handoff_stdin d in
      if rekey_active s then Inr (False, d, s) else try_bind (replenish_window E d s) (\<lambda>(d, s). turn_rekey E d s))"
    if x: "settled_ok E A0 S0 x" for x
  proof -
    obtain d s where ds: "x = (d, s)" by (cases x)
    have q: "driver_wf d" "sound E A0 S0 d s" "phase s = RkIdle" using x by (simp_all add: ds settled_ok_def)
    then have "keeps E A0 S0 RkIdle (replenish_window E (handoff_stdin d) s)"
      using keeps_replenish[of "handoff_stdin d" E A0 S0 s] handoff_wf[of d] by simp
    then have "\<not> rekey_active s" "holds A0 S0 (settled_ok E A0 S0) (replenish_window E (handoff_stdin d) s)"
      using q by (simp_all add: rekey_active_def keeps_settled)
    then show ?thesis
      using turn_rekey_ok[OF _ assms(3)] by (auto simp: ds Let_def intro!: holds_bind)
  qed
  ultimately show ?thesis using False by (simp add: turn_head_def holds_bind)
qed

lemma on_packet_ok:
  assumes "driver_wf d" and "sound E A0 S0 d s" and "crypto_ok E" and "\<forall>i. fills (rand E i)" and "length p \<le> 35000"
  shows "holds A0 S0 (\<lambda>(d, s). driver_wf d \<and> sound E A0 S0 d s) (on_packet E Os p d s)"
proof -
  have k: "keeps E A0 S0 ph m \<Longrightarrow> holds A0 S0 (\<lambda>(d, s). driver_wf d \<and> sound E A0 S0 d s) m" for ph m
    by (auto simp: keeps_def holds_def split: sum.splits)
  have r: "holds A0 S0 (\<lambda>(r, s'). sound E A0 S0 d s' \<and> (r = Completed \<longrightarrow> phase s' = RkIdle))
      (map_err (\<lambda>x. (x, d)) (step_rekey E p s))"
  proof (cases "step_rekey E p s")
    case (Inl x)
    then show ?thesis using step_rekey_keeps[OF assms(2-5)] by (simp add: holds_def)
  next
    case (Inr x)
    obtain r s' where x: "x = (r, s')" by (cases x)
    have "phase s' = RkIdle" if "r = Completed"
    proof -
      obtain ms where "rekey_protocol (stage_of (phase s)) (message_number p) (map hd ms) r (stage_of (phase s'))"
        using step_rekey_sound Inr x by blast
      then have "stage_of (phase s') = Settled" using that by (auto elim: rekey_protocol.cases)
      then show ?thesis by (cases "phase s'") simp_all
    qed
    then show ?thesis using step_rekey_keeps[OF assms(2-5)] Inr x by simp
  qed
  show ?thesis
  proof (cases "rekey_active s")
    case True
    then show ?thesis
      using r assms(1)
      by (auto simp: on_packet_def intro!: holds_bind[OF r] k[OF keeps_pass] k[OF keeps_drain] split: rekey_step.splits)
  next
    case False
    then have "\<not> in_kex (phase s)" by (simp add: rekey_active_def)
    then show ?thesis
      using False assms(1,2)
      by (auto simp: on_packet_def intro!: holds_bind[OF r] k[OF keeps_inbound])
  qed
qed

lemma on_output_ok:
  assumes "driver_wf d" and "child d = Some c" and "recv_out c = Some (x, c')"
  shows "driver_wf (on_output x (d\<lparr>child := Some c'\<rparr>))"
    "audited A0 A (on_output x (d\<lparr>child := Some c'\<rparr>)) = audited A0 A d"
proof -
  have all: "list_all chunk_ok (out_q c)" using assms(1,2) by (simp add: driver_wf_def)
  have x: "case x of None \<Rightarrow> True | Some y \<Rightarrow> chunk_ok y" and q: "list_all chunk_ok (out_q c')"
    using all assms(3) by (auto simp: recv_out_def split: list.splits if_splits)
  let ?d = "d\<lparr>child := Some c'\<rparr>"
  have wf: "driver_wf ?d"
    by (rule new_child_wf[OF assms(1,2) _ q]) (use in_child_out[OF assms(3)] in simp)
  have po: "driver_wf (?d\<lparr>pending_out := Some (po_new k b)\<rparr>)" if "0 < length b" "length b \<le> CHUNK" for k b
    using wf that by (auto simp: driver_wf_defs pending_ok_def po_new_def split: channel_state.splits)
  have closed: "driver_wf (?d\<lparr>child_out_closed := True\<rparr>)"
    using wf by (cases "ch_state d") (simp_all add: driver_wf_defs)
  have drain: "driver_wf (e\<lparr>ch_state := Draining\<rparr>)" if "driver_wf e" "ch_state e = Running" for e
    using that by (simp add: driver_wf_defs)
  have status: "driver_wf (?d\<lparr>exit_status_of := Some n, exit_signal_of := sg\<rparr>)"
    if "case sg of None \<Rightarrow> True | Some (n, _) \<Rightarrow> length n \<le> 4" for n sg
    using wf that by (cases "ch_state d") (simp_all add: driver_wf_defs)
  have exited: "driver_wf (on_output (Some (Exited e)) ?d)" if "chunk_ok (Exited e)" for e
  proof -
    have "driver_wf (?d\<lparr>exit_status_of := Some (exit_code e), exit_signal_of := signal e\<rparr>)"
      by (rule status) (use that in \<open>simp add: chunk_ok_def\<close>)
    then show ?thesis
      using drain[of "?d\<lparr>exit_status_of := Some (exit_code e), exit_signal_of := signal e\<rparr>"] drain[of ?d] wf
      by (simp add: on_output_def Let_def)
  qed
  show "driver_wf (on_output x ?d)"
  proof (cases x)
    case None
    then show ?thesis using closed by (simp add: on_output_def)
  next
    case (Some y)
    then show ?thesis
      using x exited wf po by (cases y) (auto simp: on_output_def chunk_ok_def)
  qed
  show "audited A0 A (on_output x ?d) = audited A0 A d"
    by (auto simp: on_output_def Let_def split: option.split child_chunk.split)
qed

lemma on_consumed_ok:
  assumes "driver_wf d" and "child d = Some c" and "recv_consumed c = Some (x, c')"
  shows "driver_wf (on_consumed x (d\<lparr>child := Some c'\<rparr>))"
    "audited A0 A (on_consumed x (d\<lparr>child := Some c'\<rparr>)) = audited A0 A d"
proof -
  have q: "out_q c' = out_q c" using assms(3) by (auto simp: recv_consumed_def split: list.splits if_splits)
  show "driver_wf (on_consumed x (d\<lparr>child := Some c'\<rparr>))"
  proof (cases x)
    case None
    then have "c' = c" using in_child_consumed(2) assms(3) by blast
    then show ?thesis
      using None assms(1,2) by (auto simp: on_consumed_def driver_wf_defs split: channel_state.splits)
  next
    case (Some n)
    have n: "in_child c' + unat n = in_child c" using in_child_consumed(1) assms(3) Some by blast
    have "unat (credit_pending d) + unat n \<le> 2097152" using assms(1,2) n by (simp add: driver_wf_defs)
    then have "unat (sat_add32 (credit_pending d) n) = unat (credit_pending d) + unat n"
      by (simp add: sat_add32_def unat_word_ariths)
    then show ?thesis
      using Some assms(1,2) n q by (auto simp: on_consumed_def driver_wf_defs split: channel_state.splits)
  qed
  show "audited A0 A (on_consumed x (d\<lparr>child := Some c'\<rparr>)) = audited A0 A d"
    by (simp add: on_consumed_def split: option.split)
qed

text \<open>What is assumed of the world: the documented lengths of the primitives and of random draws.\<close>

definition world_ok :: "env \<Rightarrow> bool" where
  "world_ok E \<longleftrightarrow> crypto_ok E \<and> in_place (aead E) \<and> (\<forall>i. fills (rand E i))"

lemma turn_wait_ok:
  assumes "driver_wf d" and "sound E A0 S0 d s" and "world_ok E" and "turn_wait E Os arm d s = Some m"
  shows "holds A0 S0 (\<lambda>(d, s). driver_wf d \<and> sound E A0 S0 d s) m"
proof (cases "read_packet E s")
  case (Inl x)
  have "read_sealed E (flat s) = Inl x" by (rule read_packet_cases[of E s]) (use Inl in simp_all)
  then have "x = (fst x, trace.truncate (flat s)) \<and> fst x \<in> {Io, Rejected ''packet-auth-failed''}"
    using read_sealed_Inl[of E "flat s" "fst x" "snd x"] by (cases x) simp
  then have "sound_end A0 S0 (x, d)"
    using assms(2) by (cases x) (auto simp: sound_end_def sound_def duplex_def duplex_end_def)
  then show ?thesis using assms(4) Inl by (auto simp: turn_wait_def Let_def holds_def)
next
  case (Inr y)
  obtain q u where q: "read_packet E s = Inr (q, u)" using Inr by (cases y) simp
  have u: "sound E A0 S0 d u" by (rule read_packet_sound[OF assms(2) q])
  show ?thesis
  proof (cases q)
    case (Some p)
    have "length p \<le> 35000" using read_packet_short q Some assms(3) by (auto simp: world_ok_def)
    from on_packet_ok[OF assms(1) u _ _ this] show ?thesis
      using assms(3,4) q Some by (auto simp: turn_wait_def Let_def world_ok_def)
  next
    case None
    have out: "holds A0 S0 (\<lambda>(d, s). driver_wf d \<and> sound E A0 S0 d s) (Inr (on_output x (d\<lparr>child := Some c'\<rparr>), u))"
      if "child d = Some c" "recv_out c = Some (x, c')" for x c c'
      using on_output_ok[OF assms(1) that] u by (simp add: sound_def)
    have con: "holds A0 S0 (\<lambda>(d, s). driver_wf d \<and> sound E A0 S0 d s) (Inr (on_consumed x (d\<lparr>child := Some c'\<rparr>), u))"
      if "child d = Some c" "recv_consumed c = Some (x, c')" for x c c'
      using on_consumed_ok[OF assms(1) that] u by (simp add: sound_def)
    have tmo: "sound_end A0 S0 (rekey_timeout E u, d)"
      unfolding rekey_timeout_def
      by (rule kex_traffic_end[OF u], rule rekey_fails_reject) (simp_all add: DISCONNECT_KEY_EXCHANGE_FAILED_def)
    show ?thesis
      using assms(1,4) u q None out con tmo
      by (auto simp: turn_wait_def Let_def holds_def bind_eq_Some_conv split: arm.splits option.splits if_splits)
  qed
qed

lemma child_step_chunks: "child_step c c' \<Longrightarrow> list_all chunk_ok (out_q c) \<Longrightarrow> list_all chunk_ok (out_q c')"
proof (induction rule: child_step.induct)
  case (reap c st)
  have "length n \<le> 4" if "signal (exit_of st) = Some (n, x)" for n x
    using that by (auto simp: exit_of_def signal_name_def EXIT_SIGNALS_def split: option.splits if_splits)
  then show ?case using reap by (auto simp: chunk_ok_def split: option.splits)
qed (auto simp: chunk_ok_def)

end
