(* ===== verification/Drive.thy ===== *)
theory Drive
  imports ChannelInv
begin

text \<open>
  The \<^verbatim>\<open>drive\<close> loop of \<^verbatim>\<open>channel.rs\<close> as a whole: the invariants of \<open>ChannelInv\<close> hold in every state the
  loop and the child's tasks reach together, and give the properties of a session from its
  authentication to the drop of its driver.
\<close>

section \<open>The invariant of the loop\<close>

text \<open>A session as \<^verbatim>\<open>run_connection\<close> hands it over: no key exchange under way.\<close>

definition fresh_session :: "env \<Rightarrow> session \<Rightarrow> bool" where
  "fresh_session E s \<longleftrightarrow> phase s = RkIdle \<and> rekey_wf E s"

definition drive_inv :: "env \<Rightarrow> session \<Rightarrow> place \<times> driver \<times> session \<Rightarrow> bool" where
  "drive_inv E s0 = (\<lambda>(w, d, s). driver_wf d \<and> sound E (audit s0) (sent s0) d s)"

lemma drive_start_inv: "fresh_session E s \<Longrightarrow> drive_inv E s (drive_start Os s)"
  using driver_new_wf[of Os "authenticated s"]
  by (simp add: drive_inv_def drive_start_def fresh_session_def sound_def audited_def exec_log_def duplex_def
      driver_new_def)

lemma child_step_inv:
  assumes "driver_wf d" and "child d = Some c" and "child_step c c'"
  shows "driver_wf (d\<lparr>child := Some c'\<rparr>)"
proof (rule new_child_wf[OF assms(1,2)])
  show "in_child c' \<le> in_child c" by (rule child_step_ledger[OF assms(3)])
  show "list_all chunk_ok (out_q c')"
    by (rule child_step_chunks[OF assms(3)]) (use assms(1,2) in \<open>simp add: driver_wf_def\<close>)
qed

lemma drive_step_inv:
  assumes "drive_step E Os x y" and "world_ok E" and "drive_inv E s0 x"
  shows "drive_inv E s0 y"
  using assms(1,3)
proof (cases rule: drive_step.cases)
  case (head d s d' s')
  then show ?thesis
    using turn_head_ok[of d E "audit s0" "sent s0" s] assms(2,3)
    by (simp add: drive_inv_def world_ok_def turn_ok_def)
next
  case (wait arm d s d' s')
  then show ?thesis
    using turn_wait_ok[OF _ _ assms(2) wait(3), of "audit s0" "sent s0"] assms(3) by (simp add: drive_inv_def)
next
  case (task d c c' w s)
  then show ?thesis using child_step_inv assms(3) by (simp add: drive_inv_def)
qed

lemma driven_inv:
  assumes "driven E Os s0 x" and "world_ok E" and "fresh_session E s0"
  shows "drive_inv E s0 x"
  using assms(1) unfolding driven_def
proof (induction rule: rtranclp_induct)
  case base
  then show ?case by (rule drive_start_inv[OF assms(3)])
next
  case (step y z)
  then show ?case using drive_step_inv assms(2) by blast
qed

lemma drop_driver_log:
  assumes "audited A0 (audit t) d"
  shows "\<exists>B. audit (drop_driver d t) = A0 @ B \<and>
    (filter is_exec B = [] \<or> (\<exists>who uid cmd kind pty cert status got put. filter is_exec B =
       [ExecStarted who uid cmd kind pty cert, ExecFinished who uid cmd kind pty status got put cert]))"
proof -
  let ?d = "fst (emit_finished d t)"
  obtain B where "audit (drop_driver d t) = A0 @ B" "exec_log ?d (filter is_exec B)"
    using emit_finished_audited[OF assms] by (auto simp: audited_def drop_driver_def)
  moreover have "filter is_exec B = [] \<or> (\<exists>who uid cmd kind pty cert status got put. filter is_exec B =
       [ExecStarted who uid cmd kind pty cert, ExecFinished who uid cmd kind pty status got put cert])"
    using calculation(2) emit_finished_done[of d t] by (auto simp: exec_log_def split: option.splits)
  ultimately show ?thesis by blast
qed

text \<open>Every way the loop ends: the trace it leaves is the one of a sound end, after the driver's drop.\<close>

lemma drive_ends_sound:
  assumes "drive_ends E Os x e t" and "world_ok E" and "drive_inv E s0 x"
  obtains d t' where "t = drop_driver d t'" "audited (audit s0) (audit t') d" "duplex_end (sent s0) t'" "e \<noteq> Some Panicked"
  using assms(1)
proof (cases rule: drive_ends.cases)
  case (closed d s d' s')
  have "turn_ok E (audit s0) (sent s0) (True, d', s')"
    using turn_head_ok[of d E "audit s0" "sent s0" s] closed assms(2,3) by (simp add: drive_inv_def world_ok_def)
  then show ?thesis
    using closed by (intro that[of d' "trace.truncate s'"]) (auto simp: turn_ok_def sound_def intro: duplex_end_of)
next
  case (head_fails d s e' t' d')
  have "sound_end (audit s0) (sent s0) ((e', t'), d')"
    using turn_head_ok[of d E "audit s0" "sent s0" s] head_fails assms(2,3)
    by (simp add: drive_inv_def world_ok_def holds_def)
  then show ?thesis using head_fails by (intro that[of d' t']) (simp_all add: sound_end_def)
next
  case (wait_fails arm d s e' t' d')
  have "sound_end (audit s0) (sent s0) ((e', t'), d')"
    using turn_wait_ok[OF _ _ assms(2) wait_fails(4), of "audit s0" "sent s0"] wait_fails assms(3)
    by (simp add: drive_inv_def holds_def)
  then show ?thesis using wait_fails by (intro that[of d' t']) (simp_all add: sound_end_def)
qed

lemma drop_driver_sent [simp]: "sent (drop_driver d t) = sent t"
  by (simp add: drop_driver_def emit_finished_frame)

section \<open>Output\<close>

definition unsent :: "driver \<Rightarrow> bytes" where
  "unsent d = (case pending_out d of None \<Rightarrow> [] | Some p \<Rightarrow> drop (po_off p) (po_buf p))"

lemma unsent_split:
  assumes "flush_goes_on d p"
  shows "unsent d = take (flush_size d p) (drop (po_off p) (po_buf p)) @ unsent (flush_sent d p)"
proof -
  have "drop (po_off p + flush_size d p) (po_buf p) = drop (flush_size d p) (drop (po_off p) (po_buf p))"
    by (simp add: add.commute)
  then show ?thesis
    using assms by (auto simp: flush_goes_on_def unsent_def flush_sent_def Let_def po_is_empty_def simp del: drop_drop)
qed

lemma flush_sent_fields [simp]:
  "ch_state (flush_sent d p) = ch_state d" "out_max_pkt (flush_sent d p) = out_max_pkt d"
  "peer_chan (flush_sent d p) = peer_chan d"
  by (simp_all add: flush_sent_def Let_def)

lemma flush_sent_kind: "pending_out (flush_sent d p) = Some q \<Longrightarrow> po_kind q = po_kind p"
  by (auto simp: flush_sent_def Let_def split: if_splits)

lemma flush_stops:
  assumes "driver_wf d" and "may_emit_output (ch_state d)" and "\<forall>p. \<not> flush_goes_on d p"
  shows "unsent d = [] \<or> out_window d = 0"
proof (cases "pending_out d")
  case (Some p)
  then have "po_remaining p \<noteq> 0" "out_max_pkt d \<noteq> 0"
    using assms(1,2)
    by (auto simp: driver_wf_def pending_ok_def po_remaining_def lifecycle_def may_emit_output_def)
  moreover have pos: "v \<noteq> 0 \<Longrightarrow> 0 < unat v" for v :: "'c::len word" by (simp add: word_neq_0_conv unat_gt_0)
  ultimately have "flush_size d p \<noteq> 0 \<or> out_window d = 0"
    using pos[of "out_window d"] pos[of "out_max_pkt d"] by (auto simp: flush_size_def CHANNEL_MAX_PACKET_def min_def)
  then show ?thesis using Some assms(2,3) by (auto simp: flush_goes_on_def)
qed (simp add: unsent_def)

lemma flush_output_pieces:
  "flush_output E d s = Inr (d', s') \<Longrightarrow> driver_wf d \<Longrightarrow> may_emit_output (ch_state d) \<Longrightarrow>
   (\<And>p. pending_out d = Some p \<Longrightarrow> po_kind p = k) \<Longrightarrow>
   \<exists>ps. sent s' = sent s @ map (data_frame (peer_chan d) k) ps \<and> unsent d = concat ps @ unsent d' \<and>
     (\<forall>x \<in> set ps. x \<noteq> [] \<and> length x \<le> unat (out_max_pkt d) \<and> length x \<le> 32768) \<and>
     unat (out_window d) = length (concat ps) + unat (out_window d') \<and>
     (unsent d' = [] \<or> out_window d' = 0)"
proof (induction d s arbitrary: rule: flush_induct)
  case (stop d s)
  then show ?case using flush_stops[of d] by (intro exI[of _ "[]"]) (auto simp: flush_output_stop)
next
  case (step d s p)
  let ?x = "take (flush_size d p) (drop (po_off p) (po_buf p))"
  have len: "length ?x = flush_size d p" using flush_size_bounds(4)[of d p] by (simp add: po_remaining_def)
  have "length ?x \<le> u32_max" using flush_size_bounds(3)[of d p] by simp
  note f = data_frame_built[OF this]
  obtain u where u: "write_packet E (data_frame (peer_chan d) k ?x) s = Inr u"
    "flush_output E (flush_sent d p) u = Inr (d', s')"
    using step.prems(1,4) step.hyps unfolding flush_output_step[OF step.hyps] f
    by (auto simp: send_frame_def send_msg_def try_bind_Inr_iff map_err_def flush_goes_on_def split: sum.splits)
  have "sent u = sent s @ [data_frame (peer_chan d) k ?x]" using write_packet_frame[OF u(1)] by simp
  moreover obtain ps where "sent s' = sent u @ map (data_frame (peer_chan d) k) ps"
    "unsent (flush_sent d p) = concat ps @ unsent d'"
    "\<forall>x \<in> set ps. x \<noteq> [] \<and> length x \<le> unat (out_max_pkt d) \<and> length x \<le> 32768"
    "unat (out_window (flush_sent d p)) = length (concat ps) + unat (out_window d')"
    "unsent d' = [] \<or> out_window d' = 0"
    using step.IH[OF u(2) flush_sent_wf[OF step.prems(2) step.hyps]] step.prems(3,4) step.hyps
    by (auto simp: flush_goes_on_def dest: flush_sent_kind)
  ultimately show ?case
    using unsent_split[OF step.hyps] unat_flush_sent[of d p] flush_size_bounds[of d p] len step.hyps
    by (intro exI[of _ "?x # ps"]) (auto simp: flush_goes_on_def)
qed

lemma flush_output_works:
  assumes "env_works E"
  shows "\<exists>d' s'. flush_output E d s = Inr (d', s')"
proof (induction d s rule: flush_induct)
  case (stop d s)
  then show ?case by (simp add: flush_output_stop)
next
  case (step d s p)
  let ?x = "take (flush_size d p) (drop (po_off p) (po_buf p))"
  have "length ?x \<le> 32768" using flush_size_bounds(3)[of d p] by simp
  then have x: "length ?x \<le> u32_max" "length (data_frame (peer_chan d) (po_kind p) ?x) \<le> 34987"
    by (auto simp: data_frame_def split: stream.split)
  obtain u where "write_packet E (data_frame (peer_chan d) (po_kind p) ?x) s = Inr u"
    using write_packet_works[OF assms x(2)] by blast
  then show ?case
    using step.IH[of u]
    unfolding flush_output_step[OF step.hyps] data_frame_built[OF x(1)] by (simp add: send_frame_def send_msg_def)
qed

section \<open>Properties\<close>

text \<open>C4 (invariant): the input window is a ledger. In every state the loop reaches, whatever the client
  sends and however the child's tasks interleave, the window the client may still use, the credit not yet
  announced and the bytes the server holds for the child together never exceed the 2 MiB it was granted; the
  output window fits in 32 bits, the chunk in flight is at most one read of the child, and at most 64 packets
  wait for the end of a key exchange.\<close>

theorem channel_flow_control:
  assumes "world_ok E" and "fresh_session E s0" and "driven E Os s0 (w, d, s)"
  shows "unat (in_window d) + unat (credit_pending d) + held d \<le> 2 * 1024 * 1024 \<and>
    unat (out_window d) \<le> 2 ^ 32 - 1 \<and> length (unsent d) \<le> CHUNK \<and> length (deferred d) \<le> 64"
  using driven_inv[OF assms(3,1,2)]
  by (auto simp: drive_inv_def driver_wf_def ledger_def pending_ok_def unsent_def MAX_DEFERRED_def
      split: option.splits)

text \<open>C10 (safety): the audit log of a session pairs its exec records. When the loop has ended, in whatever
  way, it holds no exec record, or the start of one command followed by its one finish, with the same identity,
  user, command, request type and certificate.\<close>

theorem exec_audit_paired:
  assumes "world_ok E" and "fresh_session E s0" and "driven E Os s0 x" and "drive_ends E Os x e t"
  shows "\<exists>B. audit t = audit s0 @ B \<and>
    (filter is_exec B = [] \<or> (\<exists>who uid cmd kind pty cert status got put. filter is_exec B =
       [ExecStarted who uid cmd kind pty cert, ExecFinished who uid cmd kind pty status got put cert]))"
  using drive_ends_sound[OF assms(4,1) driven_inv[OF assms(3,1,2)]] drop_driver_log by metis

text \<open>C9 (safety): RFC 4253 section 9 holds on the wire. From the KEXINIT of the server to its NEWKEYS
  the loop sends nothing but the reply of the exchange or a disconnection, in every state it reaches, and
  the window is open exactly while the re-keying phase says so.\<close>

theorem rekey_half_duplex:
  assumes "world_ok E" and "fresh_session E s0" and "driven E Os s0 (w, d, s)"
  shows "\<exists>ms. sent s = sent s0 @ ms \<and> window_after False ms = Some (in_kex (phase s))"
  using driven_inv[OF assms(3,1,2)] by (simp add: drive_inv_def sound_def duplex_def)

text \<open>C16 (error): the loop never panics, and the rule of the half-duplex window holds of all that was
  sent when it ends, the last disconnection included.\<close>

theorem drive_fails_closed:
  assumes "world_ok E" and "fresh_session E s0" and "driven E Os s0 x" and "drive_ends E Os x e t"
  shows "e \<noteq> Some Panicked \<and> (\<exists>ms. sent t = sent s0 @ ms \<and> window_after False ms \<noteq> None)"
proof -
  obtain d t' where "t = drop_driver d t'" "duplex_end (sent s0) t'" "e \<noteq> Some Panicked"
    using drive_ends_sound[OF assms(4,1) driven_inv[OF assms(3,1,2)]] by metis
  then show ?thesis by (simp add: duplex_end_def)
qed

text \<open>A flush sends the bytes of the pending chunk in order, in non-empty frames of at
  most the peer's packet size and 32 KiB; it takes from the window exactly what it sends, and stops only when the
  chunk or the window is used up.\<close>

lemma flush_output_exact:
  assumes "flush_output E d s = Inr (d', s')" and "driver_wf d" and "may_emit_output (ch_state d)"
    and "pending_out d = Some p"
  shows "\<exists>ps. sent s' = sent s @ map (data_frame (peer_chan d) (po_kind p)) ps \<and>
     drop (po_off p) (po_buf p) = concat ps @ unsent d' \<and>
     (\<forall>x \<in> set ps. x \<noteq> [] \<and> length x \<le> min (unat (out_max_pkt d)) 32768) \<and>
     unat (out_window d) = length (concat ps) + unat (out_window d') \<and>
     (unsent d' = [] \<or> out_window d' = 0)"
proof -
  have "unsent d = drop (po_off p) (po_buf p)" using assms(4) by (simp add: unsent_def)
  then show ?thesis
    using flush_output_pieces[OF assms(1-3), of "po_kind p"] assms(4) by simp
qed

section \<open>Two gaps\<close>

lemma turn_head_before_open:
  assumes "driver_wf d" and "ch_state d = BeforeOpen" and "phase s = RkIdle"
  shows "turn_head E d s = Inr (False, d, s\<lparr>ticks := Suc (ticks s)\<rparr>)"
proof -
  have idle: "child d = None" "credit_pending d = 0" using assms(1,2) by (simp_all add: driver_wf_def lifecycle_def)
  have "flush_output E d s = Inr (d, s)"
    by (rule flush_output_stop) (simp add: flush_goes_on_def may_emit_output_def assms(2))
  then show ?thesis
    using assms(2,3) idle
    by (simp add: turn_head_def rekey_active_def handoff_stdin_def replenish_window_def CREDIT_BATCH_def
        turn_rekey_def session_rekey_due_def now_def Let_def rekeyable_def turn_close_def ready_to_close_def)
qed

lemma global_request_replies:
  "handle_inbound E Os (SSH_MSG_GLOBAL_REQUEST # ssh_string [] @ [1]) d s =
     try_bind (send_frame E (Some [SSH_MSG_REQUEST_FAILURE]) d s) (\<lambda>s. Inr (d, s))"
  by (simp add: handle_inbound_def channel_msgs reader_simps rd_return_def REQUEST_TYPE_BOUND_def del: ssh_string_def)

text \<open>C35 (error): the packet counters start a re-key only in the states \<open>Running\<close>, \<open>ChIdle\<close> and \<open>Draining\<close>. Before a
  channel is opened a turn of the loop starts none, whatever the counters say, while each global request that wants
  a reply costs the server a packet under the old keys: the sequence number, which is the nonce of the ChaCha20
  cipher, wraps from its last value to zero and the key stays.\<close>

theorem nonce_backstop_gap:
  assumes "driver_wf d" and "ch_state d = BeforeOpen" and "phase s = RkIdle" and "seq_tx s = -1"
    and "turn_head E d s = Inr (fin, d', s')"
    and "on_packet E Os (SSH_MSG_GLOBAL_REQUEST # ssh_string [] @ [1]) d' s' = Inr (d'', s'')"
  shows "phase s'' = RkIdle \<and> seq_tx s'' = 0 \<and> tx s'' = cipher_advance 1 (tx s)"
proof -
  have 1: "d' = d" "s' = s\<lparr>ticks := Suc (ticks s)\<rparr>" using turn_head_before_open[OF assms(1-3)] assms(5) by auto
  have "SSH_MSG_GLOBAL_REQUEST \<noteq> SSH_MSG_KEXINIT" by (simp add: channel_msgs msg_defs)
  then have "on_packet E Os (SSH_MSG_GLOBAL_REQUEST # ssh_string [] @ [1]) d' s' =
      try_bind (send_frame E (Some [SSH_MSG_REQUEST_FAILURE]) d' s') (\<lambda>s. Inr (d', s))"
    using assms(3) 1 global_request_replies[of E Os d' s'] by (simp add: on_packet_def rekey_active_def)
  then obtain u where "write_packet E [SSH_MSG_REQUEST_FAILURE] s' = Inr u" "s'' = u"
    using assms(6) by (auto simp: send_frame_def send_msg_def try_bind_Inr_iff map_err_def split: sum.splits)
  then show ?thesis using write_packet_frame[of E "[SSH_MSG_REQUEST_FAILURE]" s' u] 1 assms(3,4) by simp
qed

text \<open>Data buffered before a command is bounded by the window in bytes only: an empty \<^verbatim>\<open>CHANNEL_DATA\<close> is one more
  entry of the queue and takes nothing from the window, so that their number is not bounded.\<close>

lemma pre_exec_entries_unbounded:
  assumes "ch_state d = ChIdle" and "\<not> client_eof d"
  shows "\<exists>d'. handle_all E Os (replicate n (SSH_MSG_CHANNEL_DATA # u32_to_be_bytes 0 @ ssh_string [])) d s = Inr (d', s) \<and>
    length (pre_exec_stdin d') = length (pre_exec_stdin d) + n \<and> in_window d' = in_window d"
proof -
  have r: "rd_bind reader_uint32 (\<lambda>c. rd_bind (reader_string (unat CHANNEL_MAX_PACKET)) (\<lambda>b. rd_return (c, b)))
      (u32_to_be_bytes 0 @ ssh_string []) = Inr ((0, []), [])"
    by (simp add: reader_simps rd_return_def del: ssh_string_def)
  have one: "handle_inbound E Os (SSH_MSG_CHANNEL_DATA # u32_to_be_bytes 0 @ ssh_string []) d s =
      Inr (d\<lparr>pre_exec_stdin := pre_exec_stdin d @ [[]]\<rparr>, s)"
    if "ch_state d = ChIdle" "\<not> client_eof d" for d
  proof -
    have "on_channel_data E (u32_to_be_bytes 0 @ ssh_string []) d s = Inr (d\<lparr>pre_exec_stdin := pre_exec_stdin d @ [[]]\<rparr>, s)"
      unfolding on_channel_data_def r using that by (simp add: LOCAL_CHANNEL_def Let_def)
    then show ?thesis
      using that by (simp add: handle_inbound_def channel_msgs del: ssh_string_def)
  qed
  show ?thesis
    using assms
  proof (induction n arbitrary: d)
    case (Suc n)
    then show ?case
      using Suc.IH[of "d\<lparr>pre_exec_stdin := pre_exec_stdin d @ [[]]\<rparr>"] by (simp add: one del: ssh_string_def)
  qed simp
qed

section \<open>Witnesses\<close>

definition toy_os :: os where
  "toy_os = \<lparr>alloc_ok = \<lambda>n m z. True, ioctl_ok = \<lambda>n. True, spawn_ok = \<lambda>n. True, os_uid = 1000, os_helper = None\<rparr>"

lemma toy_world: "world_ok toy_env"
  using toy_fills by (auto simp: world_ok_def in_place_def toy_prims_def split: if_splits)

lemma toy_fresh: "fresh_session toy_env (toy_settled RkIdle)"
  using toy_settled_wf by (simp add: fresh_session_def toy_settled_def)

definition toy_driver :: driver where
  "toy_driver = driver_new toy_os (authenticated (toy_settled RkIdle))"

lemma toy_waiting:
  "driven toy_env toy_os (toy_settled RkIdle) (Waiting, toy_driver, (toy_settled RkIdle)\<lparr>ticks := 3\<rparr>)"
proof -
  have "turn_head toy_env toy_driver (toy_settled RkIdle) = Inr (False, toy_driver, (toy_settled RkIdle)\<lparr>ticks := 3\<rparr>)"
    using turn_head_before_open[of toy_driver "toy_settled RkIdle"] driver_new_wf
    by (simp add: toy_driver_def driver_new_def toy_settled_def)
  then show ?thesis
    unfolding driven_def drive_start_def toy_driver_def[symmetric] by (auto intro: drive_step.head)
qed

lemma toy_hangs_up:
  "drive_ends toy_env toy_os (Waiting, toy_driver, (toy_settled RkIdle)\<lparr>ticks := 3\<rparr>) (Some Io)
     (drop_driver toy_driver (trace.truncate (toy_settled RkIdle)))"
proof (rule drive_ends.wait_fails[of _ _ ArmWake])
  let ?s = "(toy_settled RkIdle)\<lparr>ticks := 3\<rparr>"
  have "read_packet toy_env ?s = Inl (Io, trace.truncate (toy_settled RkIdle))"
    by (simp add: read_packet_def fill_until.simps fill_inbuf_def Let_def fail_def toy_settled_def toy_env_def trace.defs)
  then show "turn_wait toy_env toy_os ArmWake toy_driver ?s =
      Some (Inl ((Io, trace.truncate (toy_settled RkIdle)), toy_driver))"
    by (simp add: turn_wait_def Let_def)
qed

theorem channel_flow_control_witness:
  "\<exists>w d s. driven toy_env toy_os (toy_settled RkIdle) (w, d, s) \<and>
     unat (in_window d) + unat (credit_pending d) + held d \<le> 2 * 1024 * 1024 \<and>
     unat (out_window d) \<le> 2 ^ 32 - 1 \<and> length (unsent d) \<le> CHUNK \<and> length (deferred d) \<le> 64"
  using channel_flow_control[OF toy_world toy_fresh toy_waiting] toy_waiting by blast

theorem exec_audit_paired_witness:
  "\<exists>x e t B. driven toy_env toy_os (toy_settled RkIdle) x \<and> drive_ends toy_env toy_os x e t \<and>
    audit t = audit (toy_settled RkIdle) @ B \<and>
    (filter is_exec B = [] \<or> (\<exists>who uid cmd kind pty cert status got put. filter is_exec B =
       [ExecStarted who uid cmd kind pty cert, ExecFinished who uid cmd kind pty status got put cert]))"
  using exec_audit_paired[OF toy_world toy_fresh toy_waiting toy_hangs_up] toy_waiting toy_hangs_up by blast

theorem rekey_half_duplex_witness:
  "\<exists>w d s ms. driven toy_env toy_os (toy_settled RkIdle) (w, d, s) \<and>
     sent s = sent (toy_settled RkIdle) @ ms \<and> window_after False ms = Some (in_kex (phase s))"
  using rekey_half_duplex[OF toy_world toy_fresh toy_waiting] toy_waiting by blast

theorem drive_fails_closed_witness:
  "\<exists>x e t ms. driven toy_env toy_os (toy_settled RkIdle) x \<and> drive_ends toy_env toy_os x e t \<and>
     e \<noteq> Some Panicked \<and> sent t = sent (toy_settled RkIdle) @ ms \<and> window_after False ms \<noteq> None"
  using drive_fails_closed[OF toy_world toy_fresh toy_waiting toy_hangs_up] toy_waiting toy_hangs_up by blast

definition toy_running :: driver where
  "toy_running = toy_driver\<lparr>ch_state := Running, out_window := 5, out_max_pkt := 32768, command := Some [108, 115],
     child := Some piped_child, pending_out := Some (po_new OutStdout [1, 2, 3])\<rparr>"

lemma flush_output_exact_witness:
  "\<exists>d' s' ps. flush_output toy_env toy_running (toy_settled RkIdle) = Inr (d', s') \<and>
     sent s' = sent (toy_settled RkIdle) @ map (data_frame 0 OutStdout) ps \<and>
     [1, 2, 3] = concat ps @ unsent d' \<and> (\<forall>x \<in> set ps. x \<noteq> [] \<and> length x \<le> 32768)"
proof -
  have wf: "driver_wf toy_running"
    by (simp add: driver_wf_defs toy_running_def toy_driver_def driver_new_def pending_ok_def po_new_def piped_child_def
        in_child_def CHUNK_def)
  have st: "may_emit_output (ch_state toy_running)" "pending_out toy_running = Some (po_new OutStdout [1, 2, 3])"
    by (simp_all add: toy_running_def may_emit_output_def)
  obtain d' s' where f: "flush_output toy_env toy_running (toy_settled RkIdle) = Inr (d', s')"
    using flush_output_works[OF toy_env_works] by blast
  show ?thesis
    using flush_output_exact[OF f wf st] f by (auto simp: po_new_def toy_running_def toy_driver_def driver_new_def)
qed

theorem nonce_backstop_gap_witness:
  "\<exists>d s fin d' s' d'' s''. ch_state d = BeforeOpen \<and> seq_tx s = -1 \<and> turn_head toy_env d s = Inr (fin, d', s') \<and>
     on_packet toy_env toy_os (SSH_MSG_GLOBAL_REQUEST # ssh_string [] @ [1]) d' s' = Inr (d'', s'') \<and>
     phase s'' = RkIdle \<and> seq_tx s'' = 0 \<and> tx s'' = cipher_advance 1 (tx s)"
proof -
  let ?s = "(toy_settled RkIdle)\<lparr>seq_tx := -1\<rparr>"
  have d: "driver_wf toy_driver" "ch_state toy_driver = BeforeOpen"
    using driver_new_wf by (simp_all add: toy_driver_def driver_new_def)
  have s: "phase ?s = RkIdle" "seq_tx ?s = -1" by (simp_all add: toy_settled_def)
  note h = turn_head_before_open[OF d s(1), of toy_env]
  let ?t = "?s\<lparr>ticks := Suc (ticks ?s)\<rparr>"
  obtain u where "write_packet toy_env [SSH_MSG_REQUEST_FAILURE] ?t = Inr u"
    by (rule write_packet_works[OF toy_env_works, of "[SSH_MSG_REQUEST_FAILURE]"]) simp_all
  moreover have "\<not> rekey_active ?t" "SSH_MSG_GLOBAL_REQUEST \<noteq> SSH_MSG_KEXINIT"
    by (simp_all add: rekey_active_def toy_settled_def channel_msgs msg_defs)
  ultimately have p: "on_packet toy_env toy_os (SSH_MSG_GLOBAL_REQUEST # ssh_string [] @ [1]) toy_driver ?t = Inr (toy_driver, u)"
    using global_request_replies[of toy_env toy_os toy_driver ?t]
    by (simp add: on_packet_def send_frame_def send_msg_def)
  show ?thesis using nonce_backstop_gap[OF d s h p] h p d(2) s(2) by blast
qed

end
