(* ===== verification/Sftp.thy ===== *)
theory Sftp
  imports Wire Str
begin

text \<open>
  \<^verbatim>\<open>crates/quantumssh-core/src/sftp.rs\<close>: the SFTP version 3 helper, a single-threaded loop that reads framed
  requests and answers each with one reply.

  \<^item> The file system is the record \<open>fsys\<close>: one field per system call, a function on a world of any type
    \<open>'w\<close>. A call returns its result and the next world, so that no assumption is made on what other processes do
    between two calls. A directory stream is the finite list of results that reading it will give.
  \<^item> \<open>server\<close> is \<^verbatim>\<open>Server\<close>: the table of handles and the working directory.
  \<^item> A request that is malformed is \<open>Violation\<close>; all of its fields are read before the first system call, and
    then the world is the one before the request. A reply the \<^verbatim>\<open>Writer\<close> cannot build is \<open>SftpPanicked\<close>.
  \<^item> Writing repeats an interrupted call, so that a request may never return; \<open>write_tracked\<close>, and the
    handlers above it, are \<open>None\<close> in that case. The other loops have measures.
  \<^item> The input is the list of results its reads give, cut wherever the pipe cuts it.
\<close>

unbundle bit_operations_syntax

section \<open>Constants\<close>

definition SFTP_MAX_PACKET :: nat where "SFTP_MAX_PACKET = 256 * 1024"
definition MAX_DATA :: u32 where "MAX_DATA = 256 * 1024 - 1024"
definition MAX_HANDLES :: nat where "MAX_HANDLES = 256"
definition MAX_NAMES :: nat where "MAX_NAMES = 100"
definition EXIT_VIOLATION :: int where "EXIT_VIOLATION = 2"

definition FXP_INIT :: u8 where "FXP_INIT = 1"
definition FXP_VERSION :: u8 where "FXP_VERSION = 2"
definition FXP_OPEN :: u8 where "FXP_OPEN = 3"
definition FXP_CLOSE :: u8 where "FXP_CLOSE = 4"
definition FXP_READ :: u8 where "FXP_READ = 5"
definition FXP_WRITE :: u8 where "FXP_WRITE = 6"
definition FXP_LSTAT :: u8 where "FXP_LSTAT = 7"
definition FXP_FSTAT :: u8 where "FXP_FSTAT = 8"
definition FXP_SETSTAT :: u8 where "FXP_SETSTAT = 9"
definition FXP_FSETSTAT :: u8 where "FXP_FSETSTAT = 10"
definition FXP_OPENDIR :: u8 where "FXP_OPENDIR = 11"
definition FXP_READDIR :: u8 where "FXP_READDIR = 12"
definition FXP_REMOVE :: u8 where "FXP_REMOVE = 13"
definition FXP_MKDIR :: u8 where "FXP_MKDIR = 14"
definition FXP_RMDIR :: u8 where "FXP_RMDIR = 15"
definition FXP_REALPATH :: u8 where "FXP_REALPATH = 16"
definition FXP_STAT :: u8 where "FXP_STAT = 17"
definition FXP_RENAME :: u8 where "FXP_RENAME = 18"
definition FXP_READLINK :: u8 where "FXP_READLINK = 19"
definition FXP_SYMLINK :: u8 where "FXP_SYMLINK = 20"
definition FXP_STATUS :: u8 where "FXP_STATUS = 101"
definition FXP_HANDLE :: u8 where "FXP_HANDLE = 102"
definition FXP_DATA :: u8 where "FXP_DATA = 103"
definition FXP_NAME :: u8 where "FXP_NAME = 104"
definition FXP_ATTRS :: u8 where "FXP_ATTRS = 105"
definition FXP_EXTENDED :: u8 where "FXP_EXTENDED = 200"
definition FXP_EXTENDED_REPLY :: u8 where "FXP_EXTENDED_REPLY = 201"

lemmas fxp_defs = FXP_INIT_def FXP_VERSION_def FXP_OPEN_def FXP_CLOSE_def FXP_READ_def FXP_WRITE_def FXP_LSTAT_def
  FXP_FSTAT_def FXP_SETSTAT_def FXP_FSETSTAT_def FXP_OPENDIR_def FXP_READDIR_def FXP_REMOVE_def FXP_MKDIR_def
  FXP_RMDIR_def FXP_REALPATH_def FXP_STAT_def FXP_RENAME_def FXP_READLINK_def FXP_SYMLINK_def FXP_STATUS_def
  FXP_HANDLE_def FXP_DATA_def FXP_NAME_def FXP_ATTRS_def FXP_EXTENDED_def FXP_EXTENDED_REPLY_def

definition FX_OK :: u32 where "FX_OK = 0"
definition FX_EOF :: u32 where "FX_EOF = 1"
definition FX_NO_SUCH_FILE :: u32 where "FX_NO_SUCH_FILE = 2"
definition FX_PERMISSION_DENIED :: u32 where "FX_PERMISSION_DENIED = 3"
definition FX_FAILURE :: u32 where "FX_FAILURE = 4"
definition FX_OP_UNSUPPORTED :: u32 where "FX_OP_UNSUPPORTED = 8"

lemmas fx_defs = FX_OK_def FX_EOF_def FX_NO_SUCH_FILE_def FX_PERMISSION_DENIED_def FX_FAILURE_def
  FX_OP_UNSUPPORTED_def

definition ATTR_SIZE :: u32 where "ATTR_SIZE = 0x1"
definition ATTR_UIDGID :: u32 where "ATTR_UIDGID = 0x2"
definition ATTR_PERMISSIONS :: u32 where "ATTR_PERMISSIONS = 0x4"
definition ATTR_ACMODTIME :: u32 where "ATTR_ACMODTIME = 0x8"
definition ATTR_EXTENDED :: u32 where "ATTR_EXTENDED = 0x80000000"

definition OPEN_READ :: u32 where "OPEN_READ = 0x1"
definition OPEN_WRITE :: u32 where "OPEN_WRITE = 0x2"
definition OPEN_APPEND :: u32 where "OPEN_APPEND = 0x4"
definition OPEN_CREAT :: u32 where "OPEN_CREAT = 0x8"
definition OPEN_TRUNC :: u32 where "OPEN_TRUNC = 0x10"
definition OPEN_EXCL :: u32 where "OPEN_EXCL = 0x20"

definition EXTENSIONS :: "string list" where
  "EXTENSIONS = [''posix-rename@openssh.com'', ''fsync@openssh.com'', ''limits@openssh.com'',
     ''expand-path@openssh.com'']"

definition has_bits :: "u32 \<Rightarrow> u32 \<Rightarrow> bool" where
  "has_bits flags bits \<longleftrightarrow> flags AND bits \<noteq> 0"

section \<open>The system\<close>

datatype error_kind = NotFound | PermissionDenied | AlreadyExists | Interrupted | InvalidInput | WriteZero | OtherKind

datatype errno = OPNOTSUPP | NOSYS | XDEV | PERM | LOOP | OtherErrno nat

record io_error =
  io_kind :: error_kind
  raw_os_error :: "errno option"

type_synonym 'a io = "(io_error, 'a) result"

record metadata =
  md_len :: u64
  md_uid :: u32
  md_gid :: u32
  md_mode :: u32
  md_nlink :: u64
  md_atime :: int
  md_mtime :: int

definition file_type :: "metadata \<Rightarrow> u32" where
  "file_type m = md_mode m AND 0xF000"

definition md_is_file :: "metadata \<Rightarrow> bool" where
  "md_is_file m \<longleftrightarrow> file_type m = 0x8000"

definition md_is_symlink :: "metadata \<Rightarrow> bool" where
  "md_is_symlink m \<longleftrightarrow> file_type m = 0xA000"

record dir_entry =
  de_name :: bytes
  de_node :: nat \<comment> \<open>what its metadata is looked up by\<close>

datatype oflag = RDONLY | WRONLY | RDWR | CLOEXEC | APPEND | CREATE | TRUNC | EXCL | NONBLOCK

type_synonym fd = nat

record 'w fsys =
  sys_linux :: bool
  sys_now :: "'w \<Rightarrow> nat option \<times> 'w"
  sys_open :: "bytes \<Rightarrow> oflag list \<Rightarrow> u32 \<Rightarrow> 'w \<Rightarrow> fd io \<times> 'w"
  sys_close :: "fd \<Rightarrow> 'w \<Rightarrow> 'w"
  sys_read_at :: "fd \<Rightarrow> nat \<Rightarrow> u64 \<Rightarrow> 'w \<Rightarrow> bytes io \<times> 'w"
  sys_write_at :: "fd \<Rightarrow> bytes \<Rightarrow> u64 \<Rightarrow> 'w \<Rightarrow> nat io \<times> 'w"
  sys_write :: "fd \<Rightarrow> bytes \<Rightarrow> 'w \<Rightarrow> nat io \<times> 'w"
  sys_fstat :: "fd \<Rightarrow> 'w \<Rightarrow> metadata io \<times> 'w"
  sys_sync_data :: "fd \<Rightarrow> 'w \<Rightarrow> unit io \<times> 'w"
  sys_sync_all :: "fd \<Rightarrow> 'w \<Rightarrow> unit io \<times> 'w"
  sys_ftruncate :: "fd \<Rightarrow> u64 \<Rightarrow> 'w \<Rightarrow> unit io \<times> 'w"
  sys_fchown :: "fd \<Rightarrow> u32 \<Rightarrow> u32 \<Rightarrow> 'w \<Rightarrow> unit io \<times> 'w"
  sys_fchmod :: "fd \<Rightarrow> u32 \<Rightarrow> 'w \<Rightarrow> unit io \<times> 'w"
  sys_futimes :: "fd \<Rightarrow> u32 \<Rightarrow> u32 \<Rightarrow> 'w \<Rightarrow> unit io \<times> 'w"
  sys_stat :: "bytes \<Rightarrow> 'w \<Rightarrow> metadata io \<times> 'w"
  sys_lstat :: "bytes \<Rightarrow> 'w \<Rightarrow> metadata io \<times> 'w"
  sys_chown :: "bytes \<Rightarrow> u32 \<Rightarrow> u32 \<Rightarrow> 'w \<Rightarrow> unit io \<times> 'w"
  sys_chmod :: "bytes \<Rightarrow> u32 \<Rightarrow> 'w \<Rightarrow> unit io \<times> 'w"
  sys_utimes :: "bytes \<Rightarrow> u32 \<Rightarrow> u32 \<Rightarrow> 'w \<Rightarrow> unit io \<times> 'w"
  sys_opendir :: "bytes \<Rightarrow> 'w \<Rightarrow> (fd \<times> dir_entry io list) io \<times> 'w"
  sys_entry_meta :: "dir_entry \<Rightarrow> 'w \<Rightarrow> metadata io \<times> 'w"
  sys_mkdir :: "bytes \<Rightarrow> u32 \<Rightarrow> 'w \<Rightarrow> unit io \<times> 'w"
  sys_rmdir :: "bytes \<Rightarrow> 'w \<Rightarrow> unit io \<times> 'w"
  sys_unlink :: "bytes \<Rightarrow> 'w \<Rightarrow> unit io \<times> 'w"
  sys_rename :: "bytes \<Rightarrow> bytes \<Rightarrow> 'w \<Rightarrow> unit io \<times> 'w"
  sys_link :: "bytes \<Rightarrow> bytes \<Rightarrow> 'w \<Rightarrow> unit io \<times> 'w"
  sys_symlink :: "bytes \<Rightarrow> bytes \<Rightarrow> 'w \<Rightarrow> unit io \<times> 'w"
  sys_readlink :: "bytes \<Rightarrow> 'w \<Rightarrow> bytes io \<times> 'w"

text \<open>The \<^verbatim>\<open>?\<close> operator between two calls.\<close>

definition io_then :: "'a io \<times> 'w \<Rightarrow> ('a \<Rightarrow> 'w \<Rightarrow> 'b io \<times> 'w) \<Rightarrow> 'b io \<times> 'w" where
  "io_then m k = (case m of (Inl e, w) \<Rightarrow> (Inl e, w) | (Inr x, w) \<Rightarrow> k x w)"

section \<open>Replies\<close>

definition error_code :: "io_error \<Rightarrow> u32" where
  "error_code e =
     (case io_kind e of
        NotFound \<Rightarrow> FX_NO_SUCH_FILE
      | PermissionDenied \<Rightarrow> FX_PERMISSION_DENIED
      | _ \<Rightarrow> FX_FAILURE)"

definition status_message :: "u32 \<Rightarrow> string" where
  "status_message code =
     (if code = FX_OK then ''Success''
      else if code = FX_EOF then ''End of file''
      else if code = FX_NO_SUCH_FILE then ''No such file''
      else if code = FX_PERMISSION_DENIED then ''Permission denied''
      else if code = FX_OP_UNSUPPORTED then ''Operation unsupported''
      else ''Failure'')"

definition status_reply :: "u32 \<Rightarrow> u32 \<Rightarrow> bytes option" where
  "status_reply ident code = run_writer
     [put_byte FXP_STATUS, put_uint32 ident, put_uint32 code, put_string (ascii (status_message code)),
      put_string []]"

definition status_of :: "u32 \<Rightarrow> unit io \<Rightarrow> bytes option" where
  "status_of ident r = status_reply ident (case r of Inl e \<Rightarrow> error_code e | Inr _ \<Rightarrow> FX_OK)"

definition clamp_time :: "int \<Rightarrow> u32" where
  "clamp_time secs = (let s = max secs 0 in if s \<le> int u32_max then word_of_int s else word_of_nat u32_max)"

definition ATTRS_LEN :: nat where "ATTRS_LEN = 4 + 8 + 4 + 4 + 4 + 4 + 4"

definition put_attrs :: "metadata \<Rightarrow> (writer \<Rightarrow> writer) list" where
  "put_attrs m =
     [put_uint32 (ATTR_SIZE OR ATTR_UIDGID OR ATTR_PERMISSIONS OR ATTR_ACMODTIME), put_uint64 (md_len m),
      put_uint32 (md_uid m), put_uint32 (md_gid m), put_uint32 (md_mode m), put_uint32 (clamp_time (md_atime m)),
      put_uint32 (clamp_time (md_mtime m))]"

definition attrs_reply :: "u32 \<Rightarrow> metadata \<Rightarrow> bytes option" where
  "attrs_reply ident m = run_writer ([put_byte FXP_ATTRS, put_uint32 ident] @ put_attrs m)"

definition name_reply :: "u32 \<Rightarrow> bytes \<Rightarrow> bytes option" where
  "name_reply ident path = run_writer
     [put_byte FXP_NAME, put_uint32 ident, put_uint32 1, put_string path, put_string path, put_uint32 0]"

definition version_reply :: "bytes option" where
  "version_reply = run_writer
     ([put_byte FXP_VERSION, put_uint32 3] @
      concat (map (\<lambda>name. [put_string (ascii name), put_string (ascii ''1'')]) EXTENSIONS))"

section \<open>Long names\<close>

definition MONTHS :: "string list" where
  "MONTHS = [''Jan'', ''Feb'', ''Mar'', ''Apr'', ''May'', ''Jun'', ''Jul'', ''Aug'', ''Sep'', ''Oct'', ''Nov'', ''Dec'']"

text \<open>The dividends are not negative, where the division of \<^verbatim>\<open>i64\<close> is the one of \<^typ>\<open>int\<close>.\<close>

definition civil_from_days :: "int \<Rightarrow> int \<times> nat \<times> int" where
  "civil_from_days days =
     (let z = days + 719468;
          era = z div 146097;
          doe = z mod 146097;
          yoe = (doe - doe div 1460 + doe div 36524 - doe div 146096) div 365;
          doy = doe - (365 * yoe + yoe div 4 - yoe div 100);
          mp = (5 * doy + 2) div 153;
          day = doy - (153 * mp + 2) div 5 + 1;
          month = (if mp < 10 then mp + 3 else mp - 9);
          year = yoe + era * 400 + (if month \<le> 2 then 1 else 0) in
      (year, nat (month - 1), day))"

definition decimal_int :: "int \<Rightarrow> bytes" where
  "decimal_int n = (if n < 0 then 0x2D # decimal (nat (- n)) else decimal (nat n))"

definition pad_left :: "nat \<Rightarrow> u8 \<Rightarrow> bytes \<Rightarrow> bytes" where
  "pad_left n c b = replicate (n - length b) c @ b"

definition pad_right :: "nat \<Rightarrow> bytes \<Rightarrow> bytes" where
  "pad_right n b = b @ replicate (n - length b) 0x20"

definition ls_date :: "int \<Rightarrow> int \<Rightarrow> bytes" where
  "ls_date mtime now =
     (let (year, month, day) = civil_from_days (mtime div 86400);
          ago = min (2 ^ 63 - 1) (max (- (2 ^ 63)) (now - mtime)) in
      if mtime \<le> now \<and> ago < 365 * 24 * 60 * 60 div 2 then
        let secs = mtime mod 86400 in
        ascii (MONTHS ! month) @ [0x20] @ pad_left 2 0x20 (decimal_int day) @ [0x20] @
        pad_left 2 0x30 (decimal_int (secs div 3600)) @ [0x3A] @ pad_left 2 0x30 (decimal_int (secs mod 3600 div 60))
      else ascii (MONTHS ! month) @ [0x20] @ pad_left 2 0x20 (decimal_int day) @ [0x20, 0x20] @ decimal_int year)"

definition mode_string :: "u32 \<Rightarrow> string" where
  "mode_string mode =
     (let kind = (let t = mode AND 0xF000 in
            if t = 0x4000 then CHR ''d'' else if t = 0xA000 then CHR ''l'' else if t = 0x2000 then CHR ''c''
            else if t = 0x6000 then CHR ''b'' else if t = 0x1000 then CHR ''p'' else if t = 0xC000 then CHR ''s''
            else CHR ''-'');
          bit = (\<lambda>mask c. if mode AND mask = 0 then CHR ''-'' else c);
          exec = (\<lambda>x special on off. case (has_bits mode x, has_bits mode special) of
              (True, True) \<Rightarrow> on | (False, True) \<Rightarrow> off | (True, False) \<Rightarrow> CHR ''x'' | (False, False) \<Rightarrow> CHR ''-'') in
      [kind, bit 0x100 CHR ''r'', bit 0x80 CHR ''w'', exec 0x40 0x800 CHR ''s'' CHR ''S'',
       bit 0x20 CHR ''r'', bit 0x10 CHR ''w'', exec 0x8 0x400 CHR ''s'' CHR ''S'',
       bit 0x4 CHR ''r'', bit 0x2 CHR ''w'', exec 0x1 0x200 CHR ''t'' CHR ''T''])"

definition longname :: "bytes \<Rightarrow> metadata \<Rightarrow> int \<Rightarrow> bytes" where
  "longname name m now =
     ascii (mode_string (md_mode m)) @ [0x20] @ pad_left 3 0x20 (decimal (unat (md_nlink m))) @ [0x20] @
     pad_right 8 (decimal (unat (md_uid m))) @ [0x20] @ pad_right 8 (decimal (unat (md_gid m))) @ [0x20] @
     pad_left 8 0x20 (decimal (unat (md_len m))) @ [0x20] @ ls_date (md_mtime m) now @ [0x20] @ name"

section \<open>Fields of a request\<close>

record set_attrs =
  sa_size :: "u64 option"
  sa_owner :: "(u32 \<times> u32) option"
  sa_perm :: "u32 option"
  sa_times :: "(u32 \<times> u32) option"

definition raw_path_arg :: "(wire_error, bytes) reader" where
  "raw_path_arg = reader_string SFTP_MAX_PACKET"

definition path_arg :: "(wire_error, bytes) reader" where
  "path_arg = rd_bind raw_path_arg (\<lambda>hraw. rd_return (if hraw = [] then ascii ''.'' else hraw))"

definition rd_if :: "bool \<Rightarrow> (wire_error, 'a) reader \<Rightarrow> (wire_error, 'a option) reader" where
  "rd_if b p = (if b then rd_bind p (\<lambda>x. rd_return (Some x)) else rd_return None)"

definition rd_pair :: "(wire_error, u32 \<times> u32) reader" where
  "rd_pair = rd_bind reader_uint32 (\<lambda>a. rd_bind reader_uint32 (\<lambda>b. rd_return (a, b)))"

fun skip_pairs :: "nat \<Rightarrow> (wire_error, unit) reader" where
  "skip_pairs 0 = rd_return ()"
| "skip_pairs (Suc n) = rd_bind (reader_string SFTP_MAX_PACKET) (\<lambda>_. rd_bind (reader_string SFTP_MAX_PACKET) (\<lambda>_.
     skip_pairs n))"

definition read_attrs :: "(wire_error, set_attrs) reader" where
  "read_attrs =
     rd_bind reader_uint32 (\<lambda>flags.
     rd_bind (rd_if (has_bits flags ATTR_SIZE) reader_uint64) (\<lambda>sz.
     rd_bind (rd_if (has_bits flags ATTR_UIDGID) rd_pair) (\<lambda>owner.
     rd_bind (rd_if (has_bits flags ATTR_PERMISSIONS) reader_uint32) (\<lambda>perm.
     rd_bind (rd_if (has_bits flags ATTR_ACMODTIME) rd_pair) (\<lambda>times.
     rd_bind (if has_bits flags ATTR_EXTENDED
              then rd_bind reader_uint32 (\<lambda>n. skip_pairs (unat n)) else rd_return ()) (\<lambda>_.
     rd_return \<lparr>sa_size = sz, sa_owner = owner, sa_perm = perm, sa_times = times\<rparr>))))))"

section \<open>Operations on paths and files\<close>

definition open_flags :: "u32 \<Rightarrow> oflag list" where
  "open_flags pflags =
     [case (has_bits pflags OPEN_READ, has_bits pflags OPEN_WRITE) of
        (True, True) \<Rightarrow> RDWR | (False, True) \<Rightarrow> WRONLY | _ \<Rightarrow> RDONLY, CLOEXEC] @
     map snd (filter (\<lambda>(bit, _). has_bits pflags bit)
       [(OPEN_APPEND, APPEND), (OPEN_CREAT, CREATE), (OPEN_TRUNC, TRUNC), (OPEN_EXCL, EXCL)])"

definition sftp_stat :: "'w fsys \<Rightarrow> u32 \<Rightarrow> bytes \<Rightarrow> bool \<Rightarrow> 'w \<Rightarrow> bytes option \<times> 'w" where
  "sftp_stat F ident path follow w =
     (case (if follow then sys_stat F path w else sys_lstat F path w) of
        (Inr m, w) \<Rightarrow> (attrs_reply ident m, w)
      | (Inl e, w) \<Rightarrow> (status_reply ident (error_code e), w))"

definition setstat :: "'w fsys \<Rightarrow> bytes \<Rightarrow> set_attrs \<Rightarrow> 'w \<Rightarrow> unit io \<times> 'w" where
  "setstat F path attrs w =
     io_then
       (case sa_size attrs of
          None \<Rightarrow> (Inr (), w)
        | Some sz \<Rightarrow>
            io_then (sys_open F path [WRONLY, NONBLOCK, CLOEXEC] 0 w) (\<lambda>f w.
            let (r, w) = sys_ftruncate F f sz w in (r, sys_close F f w))) (\<lambda>_ w.
     io_then
       (case sa_owner attrs of None \<Rightarrow> (Inr (), w) | Some (u, g) \<Rightarrow> sys_chown F path u g w) (\<lambda>_ w.
     io_then
       (case sa_perm attrs of None \<Rightarrow> (Inr (), w) | Some perm \<Rightarrow> sys_chmod F path (perm AND 0xFFF) w) (\<lambda>_ w.
     (case sa_times attrs of None \<Rightarrow> (Inr (), w) | Some (a, m) \<Rightarrow> sys_utimes F path a m w))))"

definition fsetstat :: "'w fsys \<Rightarrow> fd \<Rightarrow> set_attrs \<Rightarrow> 'w \<Rightarrow> unit io \<times> 'w" where
  "fsetstat F f attrs w =
     io_then
       (case sa_size attrs of None \<Rightarrow> (Inr (), w) | Some sz \<Rightarrow> sys_ftruncate F f sz w) (\<lambda>_ w.
     io_then
       (case sa_owner attrs of None \<Rightarrow> (Inr (), w) | Some (u, g) \<Rightarrow> sys_fchown F f u g w) (\<lambda>_ w.
     io_then
       (case sa_perm attrs of None \<Rightarrow> (Inr (), w) | Some perm \<Rightarrow> sys_fchmod F f (perm AND 0xFFF) w) (\<lambda>_ w.
     (case sa_times attrs of None \<Rightarrow> (Inr (), w) | Some (a, m) \<Rightarrow> sys_futimes F f a m w))))"

text \<open>The loop of \<^verbatim>\<open>write_tracked\<close>: the result, whether any byte was ever written, and the world.\<close>

partial_function (option) write_tracked ::
  "'w fsys \<Rightarrow> fd \<Rightarrow> bytes \<Rightarrow> u64 option \<Rightarrow> nat \<Rightarrow> bool \<Rightarrow> 'w \<Rightarrow> (unit io \<times> bool \<times> 'w) option" where
  "write_tracked F f data offset wrote written w =
     (if wrote < length data then
        if (case offset of None \<Rightarrow> False | Some start \<Rightarrow> unat start + wrote > u64_max)
        then Some (Inl \<lparr>io_kind = InvalidInput, raw_os_error = None\<rparr>, written, w)
        else
          (case (case offset of
                   Some start \<Rightarrow> sys_write_at F f (drop wrote data) (start + word_of_nat wrote) w
                 | None \<Rightarrow> sys_write F f (drop wrote data) w) of
             (Inr n, w) \<Rightarrow>
               if n = 0 then Some (Inl \<lparr>io_kind = WriteZero, raw_os_error = None\<rparr>, written, w)
               else write_tracked F f data offset (wrote + n) True w
           | (Inl e, w) \<Rightarrow>
               if io_kind e = Interrupted then write_tracked F f data offset wrote written w
               else Some (Inl e, written, w))
      else Some (Inr (), written, w))"

section \<open>Path resolution\<close>

definition SYMLOOP_MAX :: nat where "SYMLOOP_MAX = 32"

abbreviation slash :: u8 where "slash \<equiv> 0x2F"

fun rposition :: "('a \<Rightarrow> bool) \<Rightarrow> 'a list \<Rightarrow> nat option" where
  "rposition P [] = None"
| "rposition P (x # xs) =
     (case rposition P xs of Some i \<Rightarrow> Some (Suc i) | None \<Rightarrow> if P x then Some 0 else None)"

definition pop_component :: "bytes \<Rightarrow> bytes" where
  "pop_component resolved =
     (if length resolved \<le> 1 then resolved
      else
        let e = (if last resolved = slash then length resolved - 1 else length resolved);
            cut = (case rposition (\<lambda>b. b = slash) (take e resolved) of None \<Rightarrow> 1 | Some i \<Rightarrow> i + 1) in
        take (max cut 1) resolved)"

text \<open>The next component, what follows it, and whether it is the last.\<close>

definition next_token :: "bytes \<Rightarrow> bytes \<times> bytes \<times> bool" where
  "next_token left =
     (let token = takeWhile (\<lambda>b. b \<noteq> slash) left in
      if slash \<in> set left then (token, drop (length token + 1) left, False) else (left, [], True))"

definition end_slash :: "bytes \<Rightarrow> bytes" where
  "end_slash p = (if p = [] \<or> last p \<noteq> slash then p @ [slash] else p)"

definition resolved_path :: "bytes \<Rightarrow> bytes" where
  "resolved_path resolved = (if length resolved > 1 \<and> last resolved = slash then butlast resolved else resolved)"

definition loop_error :: io_error where
  "loop_error = \<lparr>io_kind = OtherKind, raw_os_error = Some LOOP\<rparr>"

lemma next_token_shrinks: "left \<noteq> [] \<Longrightarrow> next_token left = (token, rest, l) \<Longrightarrow> length rest < length left"
  by (cases left) (auto simp: next_token_def Let_def split: if_splits)

function realpath_loop :: "'w fsys \<Rightarrow> nat \<Rightarrow> bytes \<Rightarrow> bytes \<Rightarrow> 'w \<Rightarrow> bytes io \<times> 'w" where
  "realpath_loop F links resolved left w =
     (if left = [] then (Inr (resolved_path resolved), w)
      else
        (case next_token left of (token, rest, is_last) \<Rightarrow>
         let resolved = end_slash resolved in
         if token = [] \<or> token = ascii ''.'' then realpath_loop F links resolved rest w
         else if token = ascii ''..'' then realpath_loop F links (pop_component resolved) rest w
         else
           let resolved = resolved @ token in
           (case sys_lstat F resolved w of
              (Inl e, w) \<Rightarrow> if io_kind e = NotFound \<and> is_last then (Inr (resolved_path resolved), w) else (Inl e, w)
            | (Inr m, w) \<Rightarrow>
                if md_is_symlink m then
                  if links + 1 > SYMLOOP_MAX then (Inl loop_error, w)
                  else
                    (case sys_readlink F resolved w of
                       (Inl e, w) \<Rightarrow> (Inl e, w)
                     | (Inr target, w) \<Rightarrow>
                         realpath_loop F (links + 1)
                           (if target \<noteq> [] \<and> hd target = slash then take 1 resolved else pop_component resolved)
                           (if is_last then target else end_slash target @ rest) w)
                else realpath_loop F links resolved rest w)))"
  by pat_completeness auto
termination
  by (relation "measures [\<lambda>(F, links, resolved, left, w). SYMLOOP_MAX - links, \<lambda>(F, links, resolved, left, w). length left]")
    (auto dest: next_token_shrinks[OF _ sym])

declare realpath_loop.simps [simp del]

definition realpath :: "'w fsys \<Rightarrow> bytes \<Rightarrow> bytes \<Rightarrow> 'w \<Rightarrow> bytes io \<times> 'w" where
  "realpath F path cwd w =
     (case path of
        [] \<Rightarrow> realpath_loop F 0 cwd (ascii ''.'') w
      | b # rest \<Rightarrow> if b = slash then realpath_loop F 0 [slash] rest w else realpath_loop F 0 cwd path w)"

section \<open>Renaming\<close>

definition is_link_unsupported :: "'w fsys \<Rightarrow> io_error \<Rightarrow> bool" where
  "is_link_unsupported F e \<longleftrightarrow>
     (case raw_os_error e of
        None \<Rightarrow> False
      | Some code \<Rightarrow> code \<in> (if sys_linux F then {OPNOTSUPP, NOSYS, XDEV, PERM} else {OPNOTSUPP, NOSYS, XDEV}))"

definition rename_if_absent :: "'w fsys \<Rightarrow> bytes \<Rightarrow> bytes \<Rightarrow> 'w \<Rightarrow> unit io \<times> 'w" where
  "rename_if_absent F old new w =
     (case sys_lstat F new w of
        (Inr _, w) \<Rightarrow> (Inl \<lparr>io_kind = AlreadyExists, raw_os_error = None\<rparr>, w)
      | (Inl _, w) \<Rightarrow> sys_rename F old new w)"

definition rename_no_overwrite :: "'w fsys \<Rightarrow> bytes \<Rightarrow> bytes \<Rightarrow> 'w \<Rightarrow> unit io \<times> 'w" where
  "rename_no_overwrite F old new w =
     io_then (sys_lstat F old w) (\<lambda>m w.
     if md_is_file m then
       (case sys_link F old new w of
          (Inr _, w) \<Rightarrow>
            (case sys_unlink F old w of
               (Inr _, w) \<Rightarrow> (Inr (), w)
             | (Inl e, w) \<Rightarrow> (Inl e, snd (sys_unlink F new w)))
        | (Inl e, w) \<Rightarrow> if is_link_unsupported F e then rename_if_absent F old new w else (Inl e, w))
     else rename_if_absent F old new w)"

section \<open>The server\<close>

datatype handle = File fd bool bool | Dir fd "dir_entry io list"
  \<comment> \<open>a file with its flags \<^verbatim>\<open>append\<close> and \<^verbatim>\<open>written\<close>; a directory with the entries not yet listed\<close>

record server =
  handles :: "handle option list"
  srv_cwd :: bytes

datatype sftp_stop = Violation | SftpPanicked

type_synonym 'w answered = "(sftp_stop, bytes \<times> server \<times> 'w) result"

definition answer :: "bytes option \<Rightarrow> server \<Rightarrow> 'w \<Rightarrow> 'w answered" where
  "answer r s w = (case r of None \<Rightarrow> Inl SftpPanicked | Some b \<Rightarrow> Inr (b, s, w))"

definition server_new :: "bytes \<Rightarrow> server" where
  "server_new cwd = \<lparr>handles = [], srv_cwd = cwd\<rparr>"

definition has_free_slot :: "server \<Rightarrow> bool" where
  "has_free_slot s \<longleftrightarrow> length (handles s) < MAX_HANDLES \<or> None \<in> set (handles s)"

definition position :: "('a \<Rightarrow> bool) \<Rightarrow> 'a list \<Rightarrow> nat option" where
  "position P xs = (let i = length (takeWhile (\<lambda>x. \<not> P x) xs) in if i < length xs then Some i else None)"

definition handle_fd :: "handle \<Rightarrow> fd" where
  "handle_fd h = (case h of File f _ _ \<Rightarrow> f | Dir f _ \<Rightarrow> f)"

text \<open>A handle that finds no slot is dropped, which closes it.\<close>

definition insert_handle :: "'w fsys \<Rightarrow> u32 \<Rightarrow> handle \<Rightarrow> server \<Rightarrow> 'w \<Rightarrow> 'w answered" where
  "insert_handle F ident h s w =
     (let place = (case position (\<lambda>x. x = None) (handles s) of
            Some i \<Rightarrow> Some (i, handles s)
          | None \<Rightarrow> if length (handles s) < MAX_HANDLES then Some (length (handles s), handles s @ [None]) else None) in
      case place of
        None \<Rightarrow> answer (status_reply ident FX_FAILURE) s (sys_close F (handle_fd h) w)
      | Some (i, hs) \<Rightarrow>
          answer (run_writer [put_byte FXP_HANDLE, put_uint32 ident,
              put_string (u32_to_be_bytes (if i \<le> u32_max then word_of_nat i else word_of_nat u32_max))])
            (s\<lparr>handles := hs[i := Some h]\<rparr>) w)"

definition handle_index :: "server \<Rightarrow> bytes \<Rightarrow> nat option" where
  "handle_index s hraw =
     (if length hraw \<noteq> 4 then None
      else
        let i = unat (u32_from_be_bytes hraw) in
        if i < length (handles s) \<and> handles s ! i \<noteq> None then Some i else None)"

definition handle_arg :: "(wire_error, bytes) reader" where
  "handle_arg = reader_string SFTP_MAX_PACKET"

text \<open>The fields of a request, or a violation; then the request itself.\<close>

definition parsed :: "(wire_error, 'a) reader \<Rightarrow> bytes \<Rightarrow> ('a \<Rightarrow> (sftp_stop, 'b) result) \<Rightarrow> (sftp_stop, 'b) result" where
  "parsed p r k = (case p r of Inl _ \<Rightarrow> Inl Violation | Inr (x, _) \<Rightarrow> k x)"

definition file_at :: "server \<Rightarrow> bytes \<Rightarrow> (nat \<times> fd \<times> bool \<times> bool) option" where
  "file_at s hraw =
     (case handle_index s hraw of
        None \<Rightarrow> None
      | Some i \<Rightarrow> (case handles s ! i of Some (File f appends written) \<Rightarrow> Some (i, f, appends, written) | _ \<Rightarrow> None))"

definition answer_io :: "u32 \<Rightarrow> server \<Rightarrow> unit io \<times> 'w \<Rightarrow> 'w answered" where
  "answer_io ident s = (\<lambda>(r, w). answer (status_of ident r) s w)"

definition answer_name :: "u32 \<Rightarrow> server \<Rightarrow> bytes io \<times> 'w \<Rightarrow> 'w answered" where
  "answer_name ident s = (\<lambda>(r, w).
     case r of Inr path \<Rightarrow> answer (name_reply ident path) s w | Inl e \<Rightarrow> answer (status_reply ident (error_code e)) s w)"

section \<open>Requests\<close>

definition fxp_open :: "'w fsys \<Rightarrow> u32 \<Rightarrow> bytes \<Rightarrow> server \<Rightarrow> 'w \<Rightarrow> 'w answered" where
  "fxp_open F ident r s w =
     parsed (rd_bind path_arg (\<lambda>path. rd_bind reader_uint32 (\<lambda>pflags. rd_bind read_attrs (\<lambda>attrs.
       rd_return (path, pflags, attrs))))) r (\<lambda>(path, pflags, attrs).
     if \<not> has_free_slot s then answer (status_reply ident FX_FAILURE) s w
     else
       let mode = (case sa_perm attrs of None \<Rightarrow> 0x1B6 | Some p \<Rightarrow> p AND 0x1FF) in
       (case sys_open F path (open_flags pflags) mode w of
          (Inr f, w) \<Rightarrow> insert_handle F ident (File f (has_bits pflags OPEN_APPEND) False) s w
        | (Inl e, w) \<Rightarrow> answer (status_reply ident (error_code e)) s w))"

definition fxp_opendir :: "'w fsys \<Rightarrow> u32 \<Rightarrow> bytes \<Rightarrow> server \<Rightarrow> 'w \<Rightarrow> 'w answered" where
  "fxp_opendir F ident r s w =
     parsed path_arg r (\<lambda>path.
     if \<not> has_free_slot s then answer (status_reply ident FX_FAILURE) s w
     else
       (case sys_opendir F path w of
          (Inr (f, entries), w) \<Rightarrow> insert_handle F ident (Dir f entries) s w
        | (Inl e, w) \<Rightarrow> answer (status_reply ident (error_code e)) s w))"

text \<open>The handle is taken out of its slot, and closed when the request is done.\<close>

definition fxp_close :: "'w fsys \<Rightarrow> u32 \<Rightarrow> bytes \<Rightarrow> server \<Rightarrow> 'w \<Rightarrow> 'w answered" where
  "fxp_close F ident r s w =
     parsed handle_arg r (\<lambda>hraw.
     case handle_index s hraw of
       None \<Rightarrow> answer (status_reply ident FX_FAILURE) s w
     | Some i \<Rightarrow>
         let h = handles s ! i; s = s\<lparr>handles := (handles s)[i := None]\<rparr> in
         (case h of
            Some (File f appends written) \<Rightarrow>
              if written then
                (let (r, w) = io_then (sys_fstat F f w) (\<lambda>m w. if md_is_file m then sys_sync_data F f w else (Inr (), w))
                 in answer_io ident s (r, sys_close F f w))
              else answer (status_reply ident FX_OK) s (sys_close F f w)
          | Some (Dir f _) \<Rightarrow> answer (status_reply ident FX_OK) s (sys_close F f w)
          | None \<Rightarrow> answer (status_reply ident FX_FAILURE) s w))"

definition fxp_read :: "'w fsys \<Rightarrow> u32 \<Rightarrow> bytes \<Rightarrow> server \<Rightarrow> 'w \<Rightarrow> 'w answered" where
  "fxp_read F ident r s w =
     parsed (rd_bind handle_arg (\<lambda>hraw. rd_bind reader_uint64 (\<lambda>offset. rd_bind reader_uint32 (\<lambda>len.
       rd_return (hraw, offset, len))))) r (\<lambda>(hraw, offset, len).
     case file_at s hraw of
       None \<Rightarrow> answer (status_reply ident FX_FAILURE) s w
     | Some (i, f, _, _) \<Rightarrow>
         (case sys_read_at F f (unat (min len MAX_DATA)) offset w of
            (Inr b, w) \<Rightarrow>
              if b = [] then answer (status_reply ident FX_EOF) s w
              else answer (run_writer [put_byte FXP_DATA, put_uint32 ident, put_string b]) s w
          | (Inl e, w) \<Rightarrow> answer (status_reply ident (error_code e)) s w))"

definition fxp_write :: "'w fsys \<Rightarrow> u32 \<Rightarrow> bytes \<Rightarrow> server \<Rightarrow> 'w \<Rightarrow> 'w answered option" where
  "fxp_write F ident r s w =
     (case rd_bind handle_arg (\<lambda>hraw. rd_bind reader_uint64 (\<lambda>offset.
           rd_bind (reader_string SFTP_MAX_PACKET) (\<lambda>data. rd_return (hraw, offset, data)))) r of
        Inl _ \<Rightarrow> Some (Inl Violation)
      | Inr ((hraw, offset, data), _) \<Rightarrow>
          (case file_at s hraw of
             None \<Rightarrow> Some (answer (status_reply ident FX_FAILURE) s w)
           | Some (i, f, appends, written) \<Rightarrow>
               map_option (\<lambda>(res, written, w).
                   answer (status_of ident res) (s\<lparr>handles := (handles s)[i := Some (File f appends written)]\<rparr>) w)
                 (write_tracked F f data (if appends then None else Some offset) 0 written w)))"

definition fxp_fstat :: "'w fsys \<Rightarrow> u32 \<Rightarrow> bytes \<Rightarrow> server \<Rightarrow> 'w \<Rightarrow> 'w answered" where
  "fxp_fstat F ident r s w =
     parsed handle_arg r (\<lambda>hraw.
     case file_at s hraw of
       None \<Rightarrow> answer (status_reply ident FX_FAILURE) s w
     | Some (i, f, _, _) \<Rightarrow>
         (case sys_fstat F f w of
            (Inr m, w) \<Rightarrow> answer (attrs_reply ident m) s w
          | (Inl e, w) \<Rightarrow> answer (status_reply ident (error_code e)) s w))"

definition fxp_fsetstat :: "'w fsys \<Rightarrow> u32 \<Rightarrow> bytes \<Rightarrow> server \<Rightarrow> 'w \<Rightarrow> 'w answered" where
  "fxp_fsetstat F ident r s w =
     parsed (rd_bind handle_arg (\<lambda>hraw. rd_bind read_attrs (\<lambda>attrs. rd_return (hraw, attrs)))) r (\<lambda>(hraw, attrs).
     case file_at s hraw of
       None \<Rightarrow> answer (status_reply ident FX_FAILURE) s w
     | Some (i, f, _, _) \<Rightarrow> answer_io ident s (fsetstat F f attrs w))"

text \<open>The loop of \<^verbatim>\<open>readdir\<close>: a status code or the names gathered, and the entries left.\<close>

fun gather_names :: "'w fsys \<Rightarrow> int \<Rightarrow> dir_entry io list \<Rightarrow> (bytes \<times> bytes \<times> metadata) list \<Rightarrow> nat \<Rightarrow> 'w \<Rightarrow>
    (u32, (bytes \<times> bytes \<times> metadata) list) result \<times> dir_entry io list \<times> 'w" where
  "gather_names F now [] names sz w = (Inr names, [], w)"
| "gather_names F now (x # rest) names sz w =
     (if length names \<ge> MAX_NAMES then (Inr names, x # rest, w)
      else case x of
        Inl e \<Rightarrow> if names \<noteq> [] then (Inr names, x # rest, w) else (Inl (error_code e), rest, w)
      | Inr entry \<Rightarrow>
          (case sys_entry_meta F entry w of
             (Inl _, w) \<Rightarrow> gather_names F now rest names sz w
           | (Inr meta, w) \<Rightarrow>
               let name = de_name entry; long = longname name meta now;
                   entry_size = 4 + length name + 4 + length long + ATTRS_LEN in
               if sz + entry_size > SFTP_MAX_PACKET then (Inr names, x # rest, w)
               else gather_names F now rest (names @ [(name, long, meta)]) (sz + entry_size) w))"

definition names_reply :: "u32 \<Rightarrow> (bytes \<times> bytes \<times> metadata) list \<Rightarrow> bytes option" where
  "names_reply ident names = run_writer
     ([put_byte FXP_NAME, put_uint32 ident,
       put_uint32 (if length names \<le> u32_max then word_of_nat (length names) else 0)] @
      concat (map (\<lambda>(name, long, meta). [put_string name, put_string long] @ put_attrs meta) names))"

definition fxp_readdir :: "'w fsys \<Rightarrow> u32 \<Rightarrow> bytes \<Rightarrow> server \<Rightarrow> 'w \<Rightarrow> 'w answered" where
  "fxp_readdir F ident r s w =
     parsed handle_arg r (\<lambda>hraw.
     case handle_index s hraw of
       None \<Rightarrow> answer (status_reply ident FX_FAILURE) s w
     | Some i \<Rightarrow>
         (case handles s ! i of
            Some (Dir f entries) \<Rightarrow>
              let (t, w) = sys_now F w;
                  now = (case t of None \<Rightarrow> 0 | Some secs \<Rightarrow> min (int secs) (2 ^ 63 - 1));
                  (res, left, w) = gather_names F now entries [] (1 + 4 + 4) w;
                  s = s\<lparr>handles := (handles s)[i := Some (Dir f left)]\<rparr> in
              (case res of
                 Inl code \<Rightarrow> answer (status_reply ident code) s w
               | Inr names \<Rightarrow>
                   if names = [] then answer (status_reply ident FX_EOF) s w
                   else answer (names_reply ident names) s w)
          | _ \<Rightarrow> answer (status_reply ident FX_FAILURE) s w))"

definition expand :: "server \<Rightarrow> bytes \<Rightarrow> bytes io" where
  "expand s path =
     (if path = ascii ''~'' then Inr (srv_cwd s)
      else case strip_prefix (ascii ''~/'') path of
        Some rest \<Rightarrow> Inr (srv_cwd s @ [slash] @ rest)
      | None \<Rightarrow>
          if path \<noteq> [] \<and> hd path = 0x7E then Inl \<lparr>io_kind = NotFound, raw_os_error = None\<rparr> else Inr path)"

definition fxp_extended :: "'w fsys \<Rightarrow> u32 \<Rightarrow> bytes \<Rightarrow> server \<Rightarrow> 'w \<Rightarrow> 'w answered" where
  "fxp_extended F ident r s w =
     (case reader_string SFTP_MAX_PACKET r of
        Inl _ \<Rightarrow> Inl Violation
      | Inr (name, r) \<Rightarrow>
          if name = ascii ''posix-rename@openssh.com'' then
            parsed (rd_bind path_arg (\<lambda>old. rd_bind path_arg (\<lambda>new. rd_return (old, new)))) r (\<lambda>(old, new).
            answer_io ident s (sys_rename F old new w))
          else if name = ascii ''fsync@openssh.com'' then
            parsed handle_arg r (\<lambda>hraw.
            case file_at s hraw of
              None \<Rightarrow> answer (status_reply ident FX_FAILURE) s w
            | Some (i, f, _, _) \<Rightarrow> answer_io ident s (sys_sync_all F f w))
          else if name = ascii ''limits@openssh.com'' then
            answer (run_writer [put_byte FXP_EXTENDED_REPLY, put_uint32 ident, put_uint64 (word_of_nat SFTP_MAX_PACKET),
              put_uint64 (ucast MAX_DATA), put_uint64 (ucast MAX_DATA), put_uint64 (word_of_nat MAX_HANDLES)]) s w
          else if name = ascii ''expand-path@openssh.com'' then
            parsed (reader_string SFTP_MAX_PACKET) r (\<lambda>path.
            answer_name ident s (io_then (expand s path, w) (\<lambda>p w. realpath F p (srv_cwd s) w)))
          else answer (status_reply ident FX_OP_UNSUPPORTED) s w)"

definition two_paths :: "(wire_error, bytes \<times> bytes) reader" where
  "two_paths = rd_bind path_arg (\<lambda>a. rd_bind path_arg (\<lambda>b. rd_return (a, b)))"

definition path_and_attrs :: "(wire_error, bytes \<times> set_attrs) reader" where
  "path_and_attrs = rd_bind path_arg (\<lambda>path. rd_bind read_attrs (\<lambda>attrs. rd_return (path, attrs)))"

definition sftp_request :: "'w fsys \<Rightarrow> u8 \<Rightarrow> u32 \<Rightarrow> bytes \<Rightarrow> server \<Rightarrow> 'w \<Rightarrow> 'w answered option" where
  "sftp_request F kind ident r s w =
     (if kind = FXP_WRITE then fxp_write F ident r s w
      else Some
       (if kind = FXP_OPEN then fxp_open F ident r s w
        else if kind = FXP_CLOSE then fxp_close F ident r s w
        else if kind = FXP_READ then fxp_read F ident r s w
        else if kind = FXP_STAT then
          parsed path_arg r (\<lambda>path. let (reply, w) = sftp_stat F ident path True w in answer reply s w)
        else if kind = FXP_LSTAT then
          parsed path_arg r (\<lambda>path. let (reply, w) = sftp_stat F ident path False w in answer reply s w)
        else if kind = FXP_FSTAT then fxp_fstat F ident r s w
        else if kind = FXP_SETSTAT then
          parsed path_and_attrs r (\<lambda>(path, attrs). answer_io ident s (setstat F path attrs w))
        else if kind = FXP_FSETSTAT then fxp_fsetstat F ident r s w
        else if kind = FXP_OPENDIR then fxp_opendir F ident r s w
        else if kind = FXP_READDIR then fxp_readdir F ident r s w
        else if kind = FXP_REMOVE then parsed path_arg r (\<lambda>path. answer_io ident s (sys_unlink F path w))
        else if kind = FXP_MKDIR then
          parsed path_and_attrs r (\<lambda>(path, attrs).
            answer_io ident s (sys_mkdir F path (case sa_perm attrs of None \<Rightarrow> 0x1FF | Some p \<Rightarrow> p AND 0x1FF) w))
        else if kind = FXP_RMDIR then parsed path_arg r (\<lambda>path. answer_io ident s (sys_rmdir F path w))
        else if kind = FXP_REALPATH then
          parsed path_arg r (\<lambda>path. answer_name ident s (realpath F path (srv_cwd s) w))
        else if kind = FXP_RENAME then
          parsed two_paths r (\<lambda>(old, new). answer_io ident s (rename_no_overwrite F old new w))
        else if kind = FXP_READLINK then parsed path_arg r (\<lambda>path. answer_name ident s (sys_readlink F path w))
        else if kind = FXP_SYMLINK then
          parsed (rd_bind raw_path_arg (\<lambda>target. rd_bind path_arg (\<lambda>link. rd_return (target, link)))) r (\<lambda>(target, link).
            answer_io ident s (sys_symlink F target link w))
        else if kind = FXP_EXTENDED then fxp_extended F ident r s w
        else answer (status_reply ident FX_OP_UNSUPPORTED) s w))"

definition sftp_handle :: "'w fsys \<Rightarrow> bytes \<Rightarrow> server \<Rightarrow> 'w \<Rightarrow> 'w answered option" where
  "sftp_handle F packet s w =
     (case rd_bind reader_byte (\<lambda>kind. rd_bind reader_uint32 (\<lambda>ident. rd_return (kind, ident))) packet of
        Inl _ \<Rightarrow> Some (Inl Violation)
      | Inr ((kind, ident), r) \<Rightarrow> sftp_request F kind ident r s w)"

section \<open>The session\<close>

datatype rd_event = Got bytes | ReadInterrupted | ReadFailed

text \<open>One \<^verbatim>\<open>read\<close> into a buffer of \<open>k\<close> bytes; the end of the list is the end of the file.\<close>

fun ev_size :: "rd_event list \<Rightarrow> nat" where
  "ev_size [] = 0"
| "ev_size (Got b # evs) = Suc (length b + ev_size evs)"
| "ev_size (e # evs) = Suc (ev_size evs)"

datatype fill = Filled bytes "rd_event list" | FillEof nat | FillFailed

text \<open>Reads until \<open>want\<close> bytes are there: the loop of \<^verbatim>\<open>read_packet\<close>, and \<^verbatim>\<open>read_exact\<close>.\<close>

function fill_buf :: "nat \<Rightarrow> bytes \<Rightarrow> rd_event list \<Rightarrow> fill" where
  "fill_buf want acc evs =
     (if length acc < want then
        (case evs of
           [] \<Rightarrow> FillEof (length acc)
         | Got b # evs \<Rightarrow>
             let k = want - length acc in
             if b = [] then FillEof (length acc)
             else fill_buf want (acc @ take k b) (if length b \<le> k then evs else Got (drop k b) # evs)
         | ReadInterrupted # evs \<Rightarrow> fill_buf want acc evs
         | ReadFailed # evs \<Rightarrow> FillFailed)
      else Filled acc evs)"
  by pat_completeness auto
termination
  by (relation "measure (\<lambda>(want, acc, evs). ev_size evs)") (auto split: list.splits)

declare fill_buf.simps [simp del]

definition sftp_read_packet :: "rd_event list \<Rightarrow> (sftp_stop, (bytes \<times> rd_event list) option) result" where
  "sftp_read_packet evs =
     (case fill_buf 4 [] evs of
        FillEof got \<Rightarrow> if got = 0 then Inr None else Inl Violation
      | FillFailed \<Rightarrow> Inl Violation
      | Filled b evs \<Rightarrow>
          let len = unat (u32_from_be_bytes b) in
          if len = 0 \<or> len > SFTP_MAX_PACKET then Inl Violation
          else (case fill_buf len [] evs of Filled packet evs \<Rightarrow> Inr (Some (packet, evs)) | _ \<Rightarrow> Inl Violation))"

definition init_ok :: "bytes \<Rightarrow> bool" where
  "init_ok packet =
     (case rd_bind reader_byte (\<lambda>kind. rd_bind reader_uint32 (\<lambda>v. rd_return kind)) packet of
        Inl _ \<Rightarrow> False | Inr (kind, _) \<Rightarrow> kind = FXP_INIT)"

datatype sftp_exit = SftpExit int | SftpPanic

lemma fill_buf_step [simp]:
  "want \<le> length acc \<Longrightarrow> fill_buf want acc evs = Filled acc evs"
  "length acc < want \<Longrightarrow> fill_buf want acc [] = FillEof (length acc)"
  "length acc < want \<Longrightarrow> fill_buf want acc (ReadInterrupted # evs) = fill_buf want acc evs"
  "length acc < want \<Longrightarrow> fill_buf want acc (ReadFailed # evs) = FillFailed"
  "length acc < want \<Longrightarrow> fill_buf want acc (Got [] # evs) = FillEof (length acc)"
  by (simp_all add: fill_buf.simps[of want acc] Let_def)

lemma fill_buf_got [simp]:
  assumes "length acc < want" and "b \<noteq> []"
  shows "fill_buf want acc (Got b # evs) =
     (if length b \<le> want - length acc then fill_buf want (acc @ b) evs
      else Filled (acc @ take (want - length acc) b) (Got (drop (want - length acc) b) # evs))"
  using assms by (simp add: fill_buf.simps[of want acc "Got b # evs"] Let_def)

lemma fill_buf_size:
  "fill_buf want acc evs = Filled b evs' \<Longrightarrow> length acc \<le> want \<Longrightarrow> ev_size evs' + want \<le> ev_size evs + length acc"
proof (induction evs arbitrary: acc)
  case Nil
  then show ?case by (cases "length acc < want") simp_all
next
  case (Cons e evs)
  show ?case
  proof (cases "length acc < want")
    case False
    then show ?thesis using Cons.prems by simp
  next
    case True
    then show ?thesis
      using Cons.prems Cons.IH[of acc] Cons.IH[of "acc @ c" for c]
      by (cases e; cases "\<exists>c. e = Got c \<and> c \<noteq> []") (auto split: if_splits dest!: Cons.IH)
  qed
qed

lemma sftp_read_packet_size: "sftp_read_packet evs = Inr (Some (p, evs')) \<Longrightarrow> ev_size evs' < ev_size evs"
  by (auto simp: sftp_read_packet_def Let_def split: fill.splits if_splits dest!: fill_buf_size)

text \<open>\<open>out_ok\<close> tells which replies can be written. The result is the exit status, the replies and the world.\<close>

function sftp_loop :: "'w fsys \<Rightarrow> (nat \<Rightarrow> bool) \<Rightarrow> bool \<Rightarrow> server \<Rightarrow> rd_event list \<Rightarrow> bytes list \<Rightarrow> 'w \<Rightarrow>
    (sftp_exit \<times> bytes list \<times> 'w) option" where
  "sftp_loop F out_ok first s evs out w =
     (case sftp_read_packet evs of
        Inl _ \<Rightarrow> Some (SftpExit EXIT_VIOLATION, out, w)
      | Inr None \<Rightarrow> Some (SftpExit 0, out, w)
      | Inr (Some (packet, evs')) \<Rightarrow>
          (case (if first then Some (if init_ok packet then answer version_reply s w else Inl Violation)
                 else sftp_handle F packet s w) of
             None \<Rightarrow> None
           | Some (Inl Violation) \<Rightarrow> Some (SftpExit EXIT_VIOLATION, out, w)
           | Some (Inl SftpPanicked) \<Rightarrow> Some (SftpPanic, out, w)
           | Some (Inr (reply, s, w)) \<Rightarrow>
               if length reply > u32_max \<or> \<not> out_ok (length out) then Some (SftpExit EXIT_VIOLATION, out, w)
               else sftp_loop F out_ok False s evs' (out @ [reply]) w))"
  by pat_completeness auto
termination
  by (relation "measure (\<lambda>(F, out_ok, first, s, evs, out, w). ev_size evs)") (auto dest: sftp_read_packet_size)

declare sftp_loop.simps [simp del]

definition sftp_serve :: "'w fsys \<Rightarrow> (nat \<Rightarrow> bool) \<Rightarrow> bytes \<Rightarrow> rd_event list \<Rightarrow> 'w \<Rightarrow> (sftp_exit \<times> bytes list \<times> 'w) option" where
  "sftp_serve F out_ok cwd evs w = sftp_loop F out_ok True (server_new cwd) evs [] w"

end
