(* ===== verification/RealPath.thy ===== *)
theory RealPath
  imports Sftp
begin

text \<open>
  What \<open>realpath\<close> of the SFTP helper computes. Paths are lists of components; the loop's path is always one of the two
  ways to write such a list. \<open>realpath_rule\<close> turns an invariant of the path resolved so far into a fact about the
  result, and gives its form, its length and, on a file system that stands still, that no symbolic link is left in it.
\<close>

section \<open>Components\<close>

definition component :: "bytes \<Rightarrow> bool" where
  "component c \<longleftrightarrow> c \<noteq> [] \<and> slash \<notin> set c \<and> c \<noteq> ascii ''.'' \<and> c \<noteq> ascii ''..''"

definition dir_path :: "bytes list \<Rightarrow> bytes" where
  "dir_path cs = slash # concat (map (\<lambda>c. c @ [slash]) cs)"

definition abs_path :: "bytes list \<Rightarrow> bytes" where
  "abs_path cs = (if cs = [] then [slash] else concat (map (\<lambda>c. slash # c) cs))"

text \<open>The two ways the loop writes the path of a list of components.\<close>

definition walked :: "bytes list \<Rightarrow> bytes \<Rightarrow> bool" where
  "walked cs r \<longleftrightarrow> list_all component cs \<and> (r = dir_path cs \<or> r = abs_path cs)"

lemma dir_path_snoc [simp]: "dir_path (cs @ [c]) = dir_path cs @ c @ [slash]"
  by (simp add: dir_path_def)

lemma dir_path_Nil [simp]: "dir_path [] = [slash]" "abs_path [] = [slash]"
  by (simp_all add: dir_path_def abs_path_def)

lemma dir_path_last: "dir_path cs \<noteq> []" "last (dir_path cs) = slash"
  by (simp add: dir_path_def) (induction cs rule: rev_induct, simp_all add: dir_path_def)

lemma dir_path_butlast: "butlast (dir_path cs) = concat (map (\<lambda>c. slash # c) cs)"
proof (induction cs rule: rev_induct)
  case (snoc c cs)
  have "butlast (dir_path (cs @ [c])) = butlast (dir_path cs) @ [slash] @ c"
    using dir_path_last[of cs] append_butlast_last_id[of "dir_path cs"] by (simp add: butlast_append)
  then show ?case using snoc by simp
qed (simp add: dir_path_def)

lemma abs_path_snoc: "abs_path (cs @ [c]) = dir_path cs @ c"
proof -
  have "abs_path (cs @ [c]) = butlast (dir_path (cs @ [c]))" by (simp add: abs_path_def dir_path_butlast del: dir_path_snoc)
  also have "\<dots> = butlast ((dir_path cs @ c) @ [slash])" by simp
  finally show ?thesis by (simp only: butlast_snoc)
qed

lemma abs_path_last: "list_all component cs \<Longrightarrow> cs \<noteq> [] \<Longrightarrow> abs_path cs \<noteq> [] \<and> last (abs_path cs) \<noteq> slash"
  by (cases cs rule: rev_cases) (auto simp: abs_path_snoc component_def dest: last_in_set)

lemma end_slash_walked: "walked cs r \<Longrightarrow> end_slash r = dir_path cs"
proof -
  assume w: "walked cs r"
  show ?thesis
  proof (cases "r = dir_path cs")
    case True
    then show ?thesis using dir_path_last[of cs] by (simp add: end_slash_def)
  next
    case False
    then have r: "r = abs_path cs" and cs: "list_all component cs" "cs \<noteq> []" using w by (auto simp: walked_def)
    then obtain ds c where "cs = ds @ [c]" by (metis rev_exhaust)
    then show ?thesis using r abs_path_last[OF cs] by (simp add: end_slash_def abs_path_snoc)
  qed
qed

lemma resolved_path_walked: "walked cs r \<Longrightarrow> resolved_path r = abs_path cs"
proof -
  assume w: "walked cs r"
  show ?thesis
  proof (cases cs rule: rev_cases)
    case Nil
    then show ?thesis using w by (auto simp: walked_def resolved_path_def)
  next
    case (snoc ds c)
    have c: "list_all component cs" "c \<noteq> []" using w snoc by (auto simp: walked_def component_def)
    then show ?thesis
      using w abs_path_last[OF c(1)] snoc dir_path_last[of cs]
      by (auto simp: walked_def resolved_path_def abs_path_snoc butlast_append dir_path_def)
  qed
qed

lemma rposition_append:
  "(\<forall>x \<in> set ys. \<not> P x) \<Longrightarrow> P x \<Longrightarrow> rposition P (xs @ x # ys) = Some (length xs)"
proof (induction xs)
  case Nil
  have "rposition P ys = None" if "\<forall>x \<in> set ys. \<not> P x" for ys using that by (induction ys) simp_all
  then show ?case using Nil by simp
qed simp

lemma pop_dir: "slash \<notin> set c \<Longrightarrow> c \<noteq> [] \<Longrightarrow> t \<in> {[], [slash]} \<Longrightarrow> pop_component (dir_path cs @ c @ t) = dir_path cs"
proof -
  assume c: "slash \<notin> set c" "c \<noteq> []" "t \<in> {[], [slash]}"
  have d: "dir_path cs = butlast (dir_path cs) @ [slash]"
    using dir_path_last[of cs] append_butlast_last_id by metis
  let ?r = "dir_path cs @ c @ t"
  have "last c \<noteq> slash" using c by (metis last_in_set)
  then have e: "take (if last ?r = slash then length ?r - 1 else length ?r) ?r = butlast (dir_path cs) @ slash # c"
    using c d by auto
  have "rposition (\<lambda>b. b = slash) (butlast (dir_path cs) @ slash # c) = Some (length (butlast (dir_path cs)))"
    by (rule rposition_append) (use c in auto)
  moreover have "length (butlast (dir_path cs)) + 1 = length (dir_path cs)" using d by (metis length_append_singleton Suc_eq_plus1)
  moreover have "length ?r > 1" using c dir_path_last(1)[of cs] by (cases "dir_path cs"; cases c) auto
  ultimately show ?thesis unfolding pop_component_def Let_def e by simp
qed

lemma pop_root: "pop_component [slash] = [slash]"
  by (simp add: pop_component_def)

lemma next_token_slashless: "next_token left = (t, rest, l) \<Longrightarrow> slash \<notin> set t"
  by (auto simp: next_token_def Let_def split: if_splits dest: set_takeWhileD)

lemma dots_no_component [simp]: "\<not> component []" "\<not> component (ascii ''.'')" "\<not> component (ascii ''..'')"
  by (simp_all add: component_def)

lemma realpath_loop_dots:
  assumes "left \<noteq> []" and "next_token left = (t, rest, l)"
  shows "t = [] \<or> t = ascii ''.'' \<Longrightarrow> realpath_loop F links r left w = realpath_loop F links (end_slash r) rest w"
    and "t = ascii ''..'' \<Longrightarrow> realpath_loop F links r left w = realpath_loop F links (pop_component (end_slash r)) rest w"
proof -
  have "ascii ''..'' \<noteq> []" "ascii ''..'' \<noteq> ascii ''.''" by code_simp+
  then show "t = [] \<or> t = ascii ''.'' \<Longrightarrow> realpath_loop F links r left w = realpath_loop F links (end_slash r) rest w"
    "t = ascii ''..'' \<Longrightarrow> realpath_loop F links r left w = realpath_loop F links (pop_component (end_slash r)) rest w"
    using assms by (simp_all add: realpath_loop.simps[of F links r left w])
qed

lemma realpath_loop_walk:
  assumes "left \<noteq> []" and "next_token left = (t, rest, l)" and "component t"
  shows "realpath_loop F links r left w =
    (let r = end_slash r @ t in
     case sys_lstat F r w of
       (Inl e, w) \<Rightarrow> if io_kind e = NotFound \<and> l then (Inr (resolved_path r), w) else (Inl e, w)
     | (Inr m, w) \<Rightarrow>
         if md_is_symlink m then
           if links + 1 > SYMLOOP_MAX then (Inl loop_error, w)
           else (case sys_readlink F r w of
                   (Inl e, w) \<Rightarrow> (Inl e, w)
                 | (Inr target, w) \<Rightarrow>
                     realpath_loop F (links + 1) (if target \<noteq> [] \<and> hd target = slash then take 1 r else pop_component r)
                       (if l then target else end_slash target @ rest) w)
         else realpath_loop F links r rest w)"
  using assms by (auto simp: realpath_loop.simps[of F links r left w] Let_def)

section \<open>A rule for the loop\<close>

text \<open>Whatever \<open>I\<close> says of the path resolved so far and the four ways the loop moves it keep, the result has
  what \<open>I\<close> gives of a path resolved to the end, or to a last component that is missing.\<close>

lemma realpath_loop_rule:
  assumes slash: "\<And>r. I r \<Longrightarrow> I (end_slash r)"
    and pop: "\<And>r. I r \<Longrightarrow> I (pop_component (end_slash r))"
    and walk: "\<And>r t m w w'. I r \<Longrightarrow> component t \<Longrightarrow> sys_lstat F (end_slash r @ t) w = (Inr m, w') \<Longrightarrow>
      if md_is_symlink m then I (pop_component (end_slash r @ t)) \<and> I (take 1 (end_slash r @ t))
      else I (end_slash r @ t)"
    and fin: "\<And>r. I r \<Longrightarrow> Q (resolved_path r)"
    and missing: "\<And>r t e w w'. I r \<Longrightarrow> component t \<Longrightarrow> sys_lstat F (end_slash r @ t) w = (Inl e, w') \<Longrightarrow>
      io_kind e = NotFound \<Longrightarrow> Q (resolved_path (end_slash r @ t))"
  shows "realpath_loop F links r left w = (Inr p, w') \<Longrightarrow> I r \<Longrightarrow> Q p"
proof (induction "(SYMLOOP_MAX - links, length left)" arbitrary: links r left w
    rule: wf_induct_rule[OF wf_lex_prod[OF wf_less_than wf_less_than]])
  case (1 links left r w)
  note eq = "1.prems"(1) and I = "1.prems"(2)
  have IH: "SYMLOOP_MAX - k < SYMLOOP_MAX - links \<or> SYMLOOP_MAX - k = SYMLOOP_MAX - links \<and> length left' < length left \<Longrightarrow>
      realpath_loop F k r' left' w1 = (Inr p, w') \<Longrightarrow> I r' \<Longrightarrow> Q p" for k r' left' w1
    using "1.hyps" by (auto simp: in_lex_prod)
  show ?case
  proof (cases "left = []")
    case True
    then have "p = resolved_path r" using eq by (simp add: realpath_loop.simps)
    then show ?thesis using fin[OF I] by simp
  next
    case False
    obtain t rest l where tok: "next_token left = (t, rest, l)" by (cases "next_token left")
    have short: "length rest < length left" by (rule next_token_shrinks[OF False tok])
    have on: "realpath_loop F links r' rest w1 = (Inr p, w') \<Longrightarrow> I r' \<Longrightarrow> Q p" for r' w1
      by (rule IH) (use short in simp_all)
    have link: "\<not> SYMLOOP_MAX < Suc links \<Longrightarrow> realpath_loop F (Suc links) r' left' w1 = (Inr p, w') \<Longrightarrow> I r' \<Longrightarrow> Q p"
      for r' left' w1
      by (rule IH[of "Suc links"]) auto
    show ?thesis
    proof (cases "component t")
      case no: False
      then consider (dot) "t = [] \<or> t = ascii ''.''" | (up) "t = ascii ''..''"
        using next_token_slashless[OF tok] by (auto simp: component_def)
      then show ?thesis
      proof cases
        case dot
        show ?thesis using on[of "end_slash r" w] eq realpath_loop_dots(1)[OF False tok dot] slash[OF I] by metis
      next
        case up
        show ?thesis using on[of "pop_component (end_slash r)" w] eq realpath_loop_dots(2)[OF False tok up] pop[OF I] by metis
      qed
    next
      case t: True
      show ?thesis
        using eq walk[OF I t, of w] missing[OF I t, of w] unfolding realpath_loop_walk[OF False tok t]
        by (auto simp: Let_def dest: on link split: prod.splits sum.splits if_splits)
    qed
  qed
qed

lemma realpath_rule:
  assumes "realpath F path cwd w = (Inr p, w')" and "I cwd" and "I [slash]"
    and "\<And>r. I r \<Longrightarrow> I (end_slash r)" and "\<And>r. I r \<Longrightarrow> I (pop_component (end_slash r))"
    and "\<And>r t m w w'. I r \<Longrightarrow> component t \<Longrightarrow> sys_lstat F (end_slash r @ t) w = (Inr m, w') \<Longrightarrow>
      if md_is_symlink m then I (pop_component (end_slash r @ t)) \<and> I (take 1 (end_slash r @ t))
      else I (end_slash r @ t)"
    and "\<And>r. I r \<Longrightarrow> Q (resolved_path r)"
    and "\<And>r t e w w'. I r \<Longrightarrow> component t \<Longrightarrow> sys_lstat F (end_slash r @ t) w = (Inl e, w') \<Longrightarrow>
      io_kind e = NotFound \<Longrightarrow> Q (resolved_path (end_slash r @ t))"
  shows "Q p"
proof -
  have loop: "realpath_loop F links r left w = (Inr p, w') \<Longrightarrow> I r \<Longrightarrow> Q p" for links r left w
    by (rule realpath_loop_rule[of I F Q links r left w p w']) (use assms(4-8) in blast)+
  show ?thesis using assms(1-3) by (auto simp: realpath_def split: list.splits if_splits dest: loop)
qed

section \<open>What the result is\<close>

lemma walked_dir: "list_all component cs \<Longrightarrow> walked cs (dir_path cs)"
  by (simp add: walked_def)

lemma walked_snoc: "walked cs r \<Longrightarrow> component t \<Longrightarrow> walked (cs @ [t]) (end_slash r @ t)"
  by (simp add: end_slash_walked abs_path_snoc walked_def)

lemma pop_walked:
  assumes "walked cs r"
  shows "walked (butlast cs) (pop_component (end_slash r))"
proof (cases cs rule: rev_cases)
  case Nil
  then show ?thesis using end_slash_walked[OF assms] by (simp add: pop_root walked_def)
next
  case (snoc ds c)
  then have "list_all component ds" "component c" using assms by (simp_all add: walked_def)
  then show ?thesis
    using end_slash_walked[OF assms] snoc pop_dir[of c "[slash]" ds] by (simp add: walked_dir component_def)
qed

lemma pop_token:
  assumes "walked cs r" and "component t"
  shows "walked cs (pop_component (end_slash r @ t))"
  using assms end_slash_walked[OF assms(1)] pop_dir[of t "[]" cs]
  by (simp add: walked_dir component_def) (simp add: walked_def component_def)

lemma root_walked: "walked cs r \<Longrightarrow> walked [] (take 1 (end_slash r @ t))"
  by (simp add: end_slash_walked walked_def dir_path_def)

text \<open>The components of the result: each prefix of it exists and is not a symbolic link, in the view \<open>st\<close> of
  the file system.\<close>

definition resolved_in :: "(bytes \<Rightarrow> metadata io) \<Rightarrow> bytes list \<Rightarrow> bool" where
  "resolved_in st cs \<longleftrightarrow>
     (\<forall>k. 0 < k \<longrightarrow> k \<le> length cs \<longrightarrow> (\<exists>m. st (abs_path (take k cs)) = Inr m \<and> \<not> md_is_symlink m))"

lemma resolved_in_snoc:
  "resolved_in st (cs @ [t]) \<longleftrightarrow> resolved_in st cs \<and> (\<exists>m. st (dir_path cs @ t) = Inr m \<and> \<not> md_is_symlink m)"
proof
  assume a: "resolved_in st (cs @ [t])"
  have "\<exists>m. st (abs_path (take k cs)) = Inr m \<and> \<not> md_is_symlink m" if "0 < k" "k \<le> length cs" for k
    using a that by (auto simp: resolved_in_def dest: spec[of _ k])
  moreover have "\<exists>m. st (dir_path cs @ t) = Inr m \<and> \<not> md_is_symlink m"
    using a by (auto simp: resolved_in_def abs_path_snoc dest: spec[of _ "Suc (length cs)"])
  ultimately show "resolved_in st cs \<and> (\<exists>m. st (dir_path cs @ t) = Inr m \<and> \<not> md_is_symlink m)"
    by (simp add: resolved_in_def)
qed (auto simp: resolved_in_def abs_path_snoc le_Suc_eq)

lemma resolved_in_butlast: "resolved_in st cs \<Longrightarrow> resolved_in st (butlast cs)"
  by (cases cs rule: rev_cases) (simp_all add: resolved_in_snoc)

lemma resolved_in_Nil [simp]: "resolved_in st []"
  by (simp add: resolved_in_def)

section \<open>How long the result is\<close>

definition PATH_MAX :: nat where "PATH_MAX = 4096"

text \<open>The documented limits of the system calls: a read gives at most what was asked for, no link is longer than
  \<open>PATH_MAX\<close>, and a longer path is refused with an error of its own.\<close>

definition os_limits :: "'w fsys \<Rightarrow> bool" where
  "os_limits F \<longleftrightarrow>
     (\<forall>f n off w b w'. sys_read_at F f n off w = (Inr b, w') \<longrightarrow> length b \<le> n) \<and>
     (\<forall>p w b w'. sys_readlink F p w = (Inr b, w') \<longrightarrow> length b \<le> PATH_MAX) \<and>
     (\<forall>p w. length p > PATH_MAX \<longrightarrow> (\<exists>e w'. sys_lstat F p w = (Inl e, w') \<and> io_kind e \<noteq> NotFound))"

lemma rposition_bound: "rposition P xs = Some i \<Longrightarrow> i < length xs"
  by (induction xs arbitrary: i) (auto split: option.splits if_splits)

lemma pop_component_shrinks:
  assumes "last r = slash" and "length r > 1"
  shows "length (pop_component r) < length r"
proof -
  have "i + 1 \<le> length r - 1" if "rposition (\<lambda>b. b = slash) (take (length r - 1) r) = Some i" for i
    using rposition_bound[OF that] by simp
  then show ?thesis using assms by (auto simp: pop_component_def Let_def split: option.splits)
qed

lemma pop_component_le: "length (pop_component r) \<le> length r"
  by (simp add: pop_component_def Let_def)

lemma realpath_short:
  assumes "realpath F path cwd w = (Inr p, w')" and "os_limits F" and "length cwd \<le> PATH_MAX"
  shows "length p \<le> PATH_MAX + 1"
proof (rule realpath_rule[where I = "\<lambda>r. length (end_slash r) \<le> PATH_MAX + 1", OF assms(1)])
  have es: "length (end_slash r) \<le> length r + 1" "length r \<le> length (end_slash r)" "end_slash (end_slash r) = end_slash r" for r
    by (auto simp: end_slash_def)
  show "length (end_slash cwd) \<le> PATH_MAX + 1" using es(1)[of cwd] assms(3) by simp
  show "length (end_slash [slash]) \<le> PATH_MAX + 1" by (simp add: end_slash_def PATH_MAX_def)
  fix r assume r: "length (end_slash r) \<le> PATH_MAX + 1"
  show "length (end_slash (end_slash r)) \<le> PATH_MAX + 1" using r es(3) by simp
  show "length (end_slash (pop_component (end_slash r))) \<le> PATH_MAX + 1"
  proof (cases "length (end_slash r) > 1")
    case True
    have "last (end_slash r) = slash" by (simp add: end_slash_def)
    from pop_component_shrinks[OF this True] show ?thesis using r es(1)[of "pop_component (end_slash r)"] by simp
  next
    case False
    then show ?thesis using r es(3)[of r] by (simp add: pop_component_def)
  qed
  show "length (resolved_path r) \<le> PATH_MAX + 1" using r es(2)[of r] by (auto simp: resolved_path_def)
  fix t w w'
  have ok: "length (end_slash r @ t) \<le> PATH_MAX" if "sys_lstat F (end_slash r @ t) w = (Inr m, w')" for m
    using that assms(2) unfolding os_limits_def by (metis not_le_imp_less prod.inject sum.distinct(1))
  show "if md_is_symlink m then length (end_slash (pop_component (end_slash r @ t))) \<le> PATH_MAX + 1 \<and>
      length (end_slash (take 1 (end_slash r @ t))) \<le> PATH_MAX + 1 else length (end_slash (end_slash r @ t)) \<le> PATH_MAX + 1"
    if "sys_lstat F (end_slash r @ t) w = (Inr m, w')" for m
  proof -
    note pop_component_le[of "end_slash r @ t"]
    moreover have "length (take 1 (end_slash r @ t)) \<le> 1" by simp
    ultimately show ?thesis
      using ok[OF that] es(1)[of "pop_component (end_slash r @ t)"] es(1)[of "take 1 (end_slash r @ t)"]
        es(1)[of "end_slash r @ t"]
      by (simp add: PATH_MAX_def)
  qed
  show "length (resolved_path (end_slash r @ t)) \<le> PATH_MAX + 1"
    if "sys_lstat F (end_slash r @ t) w = (Inl e, w')" "io_kind e = NotFound" for e
  proof -
    have "length (end_slash r @ t) \<le> PATH_MAX"
      using that assms(2) unfolding os_limits_def by (metis not_le_imp_less prod.inject sum.inject(1))
    then show ?thesis by (auto simp: resolved_path_def)
  qed
qed

section \<open>Properties\<close>

text \<open>The path that REALPATH answers with is absolute and normal: it is the root, or components
  after a slash each, none of them empty, a dot or two dots, and no slash at its end. This holds of every file
  system, whatever it answers and however it changes between the calls.\<close>

lemma realpath_canonical:
  assumes "realpath F path cwd w = (Inr p, w')" and "walked cs cwd"
  shows "\<exists>ds. list_all component ds \<and> p = abs_path ds"
proof -
  have *: "walked cs r \<Longrightarrow> \<exists>ds. list_all component ds \<and> resolved_path r = abs_path ds" for cs r
    by (auto simp: resolved_path_walked walked_def)
  show "\<exists>ds. list_all component ds \<and> p = abs_path ds"
  proof (rule realpath_rule[where I = "\<lambda>r. \<exists>cs. walked cs r", OF assms(1)])
    show "\<exists>cs. walked cs cwd" "\<exists>cs. walked cs [slash]" using assms(2) walked_dir[of "[]"] by auto
    fix r assume "\<exists>cs. walked cs r"
    then obtain cs where r: "walked cs r" by blast
    show "\<exists>cs. walked cs (end_slash r)" using r end_slash_walked[OF r] by (auto simp: walked_def)
    show "\<exists>cs. walked cs (pop_component (end_slash r))" using pop_walked[OF r] by blast
    show "\<exists>ds. list_all component ds \<and> resolved_path r = abs_path ds" using * r by blast
    fix t assume t: "component t"
    show "if md_is_symlink m then (\<exists>cs. walked cs (pop_component (end_slash r @ t))) \<and>
        (\<exists>cs. walked cs (take 1 (end_slash r @ t))) else \<exists>cs. walked cs (end_slash r @ t)" for m
      using pop_token[OF r t] root_walked[OF r, of t] walked_snoc[OF r t] by auto
    show "\<exists>ds. list_all component ds \<and> resolved_path (end_slash r @ t) = abs_path ds"
      using * walked_snoc[OF r t] by blast
  qed
qed

text \<open>C24 (safety): REALPATH leaves no symbolic link in its answer. On a file system that does not change
  meanwhile, from a resolved working directory, every prefix of the result exists and is not a symbolic link;
  only its last component may be missing.\<close>

theorem realpath_resolves:
  assumes "realpath F path cwd w = (Inr p, w')" and "\<And>q v. fst (sys_lstat F q v) = st q"
    and "walked cs cwd" and "resolved_in st cs"
  shows "\<exists>ds. list_all component ds \<and> p = abs_path ds \<and>
    (resolved_in st ds \<or> (\<exists>e. resolved_in st (butlast ds) \<and> st p = Inl e \<and> io_kind e = NotFound))"
    (is "?Q p")
proof -
  let ?I = "\<lambda>r. \<exists>cs. walked cs r \<and> resolved_in st cs"
  show "?Q p"
  proof (rule realpath_rule[where I = ?I and Q = ?Q, OF assms(1)])
    show "?I cwd" "?I [slash]" using assms(3,4) walked_dir[of "[]"] resolved_in_Nil by auto
    fix r assume "?I r"
    then obtain cs where r: "walked cs r" and st: "resolved_in st cs" by blast
    show "?I (end_slash r)" using r st end_slash_walked[OF r] by (auto simp: walked_def)
    show "?I (pop_component (end_slash r))" using pop_walked[OF r] resolved_in_butlast[OF st] by blast
    show "?Q (resolved_path r)" using r st by (auto simp: resolved_path_walked walked_def)
    fix t w w' assume t: "component t"
    have path: "end_slash r @ t = dir_path cs @ t" using end_slash_walked[OF r] by simp
    show "if md_is_symlink m then ?I (pop_component (end_slash r @ t)) \<and> ?I (take 1 (end_slash r @ t))
        else ?I (end_slash r @ t)" if "sys_lstat F (end_slash r @ t) w = (Inr m, w')" for m
    proof (cases "md_is_symlink m")
      case True
      then show ?thesis using pop_token[OF r t] root_walked[OF r, of t] st resolved_in_Nil by metis
    next
      case False
      then have "resolved_in st (cs @ [t])"
        using st that assms(2)[of "end_slash r @ t" w] path by (simp add: resolved_in_snoc) (metis False)
      then show ?thesis using walked_snoc[OF r t] False by auto
    qed
    show "?Q (resolved_path (end_slash r @ t))"
      if "sys_lstat F (end_slash r @ t) w = (Inl e, w')" "io_kind e = NotFound" for e
    proof -
      have p: "resolved_path (end_slash r @ t) = abs_path (cs @ [t])"
        by (rule resolved_path_walked[OF walked_snoc[OF r t]])
      moreover have "st (abs_path (cs @ [t])) = Inl e"
        using that(1) assms(2)[of "end_slash r @ t" w] path by (simp add: abs_path_snoc)
      ultimately show ?thesis
        using r st t that(2) by (intro exI[of _ "cs @ [t]"]) (auto simp: walked_def)
    qed
  qed
qed

end
