(* ===== verification/SftpSpec.thy ===== *)
theory SftpSpec
  imports RealPath
begin

text \<open>
  The SFTP helper against its specification: the session is the sequence of the requests in its input, each
  with one reply that carries its identifier and fits in a packet, and the table of handles stays within its bound with
  every open handle on its file.
\<close>

section \<open>The stream of requests\<close>

text \<open>The bytes a list of reads delivers, up to the end of the file.\<close>

fun stream :: "rd_event list \<Rightarrow> bytes" where
  "stream [] = []"
| "stream (Got b # evs) = (if b = [] then [] else b @ stream evs)"
| "stream (ReadInterrupted # evs) = stream evs"
| "stream (ReadFailed # evs) = []"

lemma fill_buf_stream:
  "length acc \<le> want \<Longrightarrow>
   (case fill_buf want acc evs of
      Filled b evs' \<Rightarrow> length b = want \<and> acc @ stream evs = b @ stream evs' \<and>
        (ReadFailed \<notin> set evs \<longrightarrow> ReadFailed \<notin> set evs')
    | FillEof n \<Rightarrow> n < want \<and> (ReadFailed \<notin> set evs \<longrightarrow> n = length (acc @ stream evs))
    | FillFailed \<Rightarrow> ReadFailed \<in> set evs)"
proof (induction evs arbitrary: acc)
  case Nil
  then show ?case by (cases "length acc < want") auto
next
  case (Cons e evs)
  show ?case
  proof (cases "length acc < want")
    case False
    then show ?thesis using Cons.prems by simp
  next
    case True
    show ?thesis
    proof (cases e)
      case (Got c)
      show ?thesis
      proof (cases "length c \<le> want - length acc")
        case le: True
        then have "length (acc @ c) \<le> want" using True by simp
        from Cons.IH[OF this] show ?thesis
          using Got True le by (cases "c = []") (auto split: fill.splits)
      next
        case False
        then have "c \<noteq> []" by auto
        then show ?thesis using Got True False by simp
      qed
    next
      case ReadInterrupted
      then show ?thesis using True Cons.IH[of acc] by (auto split: fill.splits)
    qed (use True in auto)
  qed
qed

lemma fill_buf_prefix:
  assumes "ReadFailed \<notin> set evs" and "stream evs = b @ rest" and "length b = want"
  obtains evs' where "fill_buf want [] evs = Filled b evs'" "stream evs' = rest" "ReadFailed \<notin> set evs'"
proof (cases "fill_buf want [] evs")
  case (Filled x evs')
  then have "b @ rest = x @ stream evs'" "length b = length x" "ReadFailed \<notin> set evs'"
    using fill_buf_stream[of "[]" want evs] assms by simp_all
  then show ?thesis using Filled by (intro that[of evs']) simp_all
next
  case (FillEof n)
  then show ?thesis using fill_buf_stream[of "[]" want evs] assms by simp
next
  case FillFailed
  then show ?thesis using fill_buf_stream[of "[]" want evs] assms by simp
qed

definition request_ok :: "bytes \<Rightarrow> bool" where
  "request_ok p \<longleftrightarrow> p \<noteq> [] \<and> length p \<le> SFTP_MAX_PACKET"

lemma ssh_string_nonempty: "ssh_string v \<noteq> []"
proof -
  have "length (ssh_string v) \<noteq> 0" by simp
  then show ?thesis by (metis list.size(3))
qed

lemma sftp_read_packet_Some:
  assumes "sftp_read_packet evs = Inr (Some (p, evs'))"
  shows "stream evs = ssh_string p @ stream evs'" "request_ok p" "ReadFailed \<notin> set evs \<longrightarrow> ReadFailed \<notin> set evs'"
proof -
  obtain b evs1 where 1: "fill_buf 4 [] evs = Filled b evs1" "fill_buf (unat (u32_from_be_bytes b)) [] evs1 = Filled p evs'"
    "unat (u32_from_be_bytes b) \<noteq> 0" "unat (u32_from_be_bytes b) \<le> SFTP_MAX_PACKET"
    using assms by (auto simp: sftp_read_packet_def Let_def split: fill.splits if_splits)
  have 2: "length b = 4" "stream evs = b @ stream evs1" "ReadFailed \<notin> set evs \<longrightarrow> ReadFailed \<notin> set evs1"
    using fill_buf_stream[of "[]" 4 evs] 1(1) by auto
  have 3: "length p = unat (u32_from_be_bytes b)" "stream evs1 = p @ stream evs'"
    "ReadFailed \<notin> set evs1 \<longrightarrow> ReadFailed \<notin> set evs'"
    using fill_buf_stream[of "[]" "unat (u32_from_be_bytes b)" evs1] 1(2) by auto
  have "u32_to_be_bytes (word_of_nat (length p)) = b" using 2(1) 3(1) by (simp add: u32_to_from_be_bytes)
  then show "stream evs = ssh_string p @ stream evs'" using 2(2) 3(2) by (simp add: ssh_string_def)
  show "request_ok p" using 1(3,4) 3(1) by (auto simp: request_ok_def)
  show "ReadFailed \<notin> set evs \<longrightarrow> ReadFailed \<notin> set evs'" using 2(3) 3(3) by simp
qed

lemma sftp_read_packet_frame:
  assumes "ReadFailed \<notin> set evs" and "stream evs = ssh_string p @ rest" and "request_ok p"
  obtains evs' where "sftp_read_packet evs = Inr (Some (p, evs'))" "stream evs' = rest" "ReadFailed \<notin> set evs'"
proof -
  have len: "length p \<le> u32_max" "length p \<noteq> 0" "length p \<le> SFTP_MAX_PACKET"
    using assms(3) by (auto simp: request_ok_def SFTP_MAX_PACKET_def)
  obtain evs1 where 1: "fill_buf 4 [] evs = Filled (u32_to_be_bytes (word_of_nat (length p))) evs1"
    "stream evs1 = p @ rest" "ReadFailed \<notin> set evs1"
    by (rule fill_buf_prefix[OF assms(1), of "u32_to_be_bytes (word_of_nat (length p))" "p @ rest" 4])
      (use assms(2) in \<open>simp_all add: ssh_string_def\<close>)
  obtain evs2 where 2: "fill_buf (length p) [] evs1 = Filled p evs2" "stream evs2 = rest" "ReadFailed \<notin> set evs2"
    by (rule fill_buf_prefix[OF 1(3,2) refl])
  show ?thesis
    using 1(1) 2 len by (intro that[of evs2]) (simp_all add: sftp_read_packet_def)
qed

lemma sftp_read_packet_None:
  assumes "ReadFailed \<notin> set evs"
  shows "sftp_read_packet evs = Inr None \<longleftrightarrow> stream evs = []"
  using fill_buf_stream[of "[]" 4 evs] assms
  by (auto simp: sftp_read_packet_def Let_def split: fill.splits if_splits)

text \<open>How a stream of framed requests starts, by what \<^verbatim>\<open>read_packet\<close> makes of it.\<close>

definition requests :: "rd_event list \<Rightarrow> bytes list \<Rightarrow> bool" where
  "requests evs reqs \<longleftrightarrow> stream evs = concat (map ssh_string reqs) \<and> list_all request_ok reqs"

lemma requests_refused: "sftp_read_packet evs = Inl x \<Longrightarrow> ReadFailed \<notin> set evs \<Longrightarrow> \<not> requests evs reqs"
proof (cases reqs)
  case Nil
  assume "sftp_read_packet evs = Inl x" "ReadFailed \<notin> set evs"
  then show ?thesis using Nil sftp_read_packet_None[of evs] by (simp add: requests_def)
next
  case (Cons p ps)
  assume a: "sftp_read_packet evs = Inl x" "ReadFailed \<notin> set evs"
  show ?thesis
  proof
    assume "requests evs reqs"
    then show False
      using a Cons sftp_read_packet_frame[OF a(2), of p "concat (map ssh_string ps)"] by (auto simp: requests_def)
  qed
qed

lemma requests_end: "ReadFailed \<notin> set evs \<Longrightarrow> sftp_read_packet evs = Inr None \<Longrightarrow> requests evs reqs \<longleftrightarrow> reqs = []"
  using sftp_read_packet_None[of evs] ssh_string_nonempty by (cases reqs) (auto simp: requests_def)

lemma requests_split:
  assumes "sftp_read_packet evs = Inr (Some (p, evs'))"
  shows "requests evs reqs \<longleftrightarrow> (\<exists>ps. reqs = p # ps \<and> requests evs' ps)"
proof (cases reqs)
  case Nil
  then show ?thesis using sftp_read_packet_Some(1)[OF assms] ssh_string_nonempty[of p] by (auto simp: requests_def)
next
  case (Cons p' ps)
  note q = sftp_read_packet_Some(1,2)[OF assms]
  have "request_ok p' \<Longrightarrow> ssh_string p @ stream evs' = ssh_string p' @ concat (map ssh_string ps) \<longleftrightarrow>
      p = p' \<and> stream evs' = concat (map ssh_string ps)"
    using q(2) string_codec.prefix_free[of p u32_max p' "stream evs'" "concat (map ssh_string ps)"]
    by (auto simp: request_ok_def SFTP_MAX_PACKET_def)
  then show ?thesis using Cons q by (auto simp: requests_def)
qed

text \<open>The helper at the level of requests: the replies to all of them, if each of them has one.\<close>

fun sftp_answers :: "'w fsys \<Rightarrow> bytes list \<Rightarrow> server \<Rightarrow> 'w \<Rightarrow> (bytes list \<times> server \<times> 'w) option" where
  "sftp_answers F [] s w = Some ([], s, w)"
| "sftp_answers F (p # ps) s w =
     (case sftp_handle F p s w of
        Some (Inr (r, s, w)) \<Rightarrow>
          if length r > u32_max then None
          else map_option (\<lambda>(rs, s, w). (r # rs, s, w)) (sftp_answers F ps s w)
      | _ \<Rightarrow> None)"

lemma sftp_loop_refines:
  assumes "ReadFailed \<notin> set evs"
  shows "sftp_loop F (\<lambda>_. True) False s evs out w = Some (SftpExit 0, out', w') \<longleftrightarrow>
    (\<exists>reqs rs s'. requests evs reqs \<and> sftp_answers F reqs s w = Some (rs, s', w') \<and> out' = out @ rs)"
  using assms
proof (induction evs arbitrary: s out w rule: measure_induct_rule[of ev_size])
  case (less evs)
  consider (bad) x where "sftp_read_packet evs = Inl x" | (eof) "sftp_read_packet evs = Inr None"
    | (packet) p evs' where "sftp_read_packet evs = Inr (Some (p, evs'))"
    by (cases "sftp_read_packet evs") force+
  then show ?case
  proof cases
    case bad
    then show ?thesis
      using requests_refused less.prems by (auto simp: sftp_loop.simps[of _ _ _ _ evs] EXIT_VIOLATION_def)
  next
    case eof
    then show ?thesis
      using requests_end[OF less.prems] by (auto simp: sftp_loop.simps[of _ _ _ _ evs])
  next
    case packet
    have rhs: "(\<exists>reqs rs s'. requests evs reqs \<and> sftp_answers F reqs s w = Some (rs, s', w') \<and> out' = out @ rs) \<longleftrightarrow>
        (\<exists>ps rs s'. requests evs' ps \<and> sftp_answers F (p # ps) s w = Some (rs, s', w') \<and> out' = out @ rs)"
      using requests_split[OF packet] by metis
    show ?thesis
    proof (cases "\<exists>rp s1 w1. sftp_handle F p s w = Some (Inr (rp, s1, w1)) \<and> length rp \<le> u32_max")
      case True
      then obtain rp s1 w1 where h: "sftp_handle F p s w = Some (Inr (rp, s1, w1))" "length rp \<le> u32_max" by blast
      have "sftp_loop F (\<lambda>_. True) False s evs out w = sftp_loop F (\<lambda>_. True) False s1 evs' (out @ [rp]) w1"
        using packet h by (simp add: sftp_loop.simps[of _ _ _ _ evs])
      moreover have "ReadFailed \<notin> set evs'" using sftp_read_packet_Some(3)[OF packet] less.prems by simp
      ultimately show ?thesis
        unfolding rhs using less.IH[OF sftp_read_packet_size[OF packet], of s1 "out @ [rp]" w1] h by auto
    next
      case False
      then have "sftp_loop F (\<lambda>_. True) False s evs out w \<noteq> Some (SftpExit 0, out', w')"
        using packet
        by (auto simp: sftp_loop.simps[of _ _ _ _ evs] EXIT_VIOLATION_def
            split: option.splits sum.splits sftp_stop.splits)
      moreover have "sftp_answers F (p # ps) s w = None" for ps
        using False by (auto split: option.splits sum.splits)
      ultimately show ?thesis unfolding rhs by simp
    qed
  qed
qed

section \<open>Replies\<close>

text \<open>A reply carries the identifier of its request and fits in a packet.\<close>

definition reply_to :: "u32 \<Rightarrow> bytes \<Rightarrow> bool" where
  "reply_to ident r \<longleftrightarrow> (\<exists>k b. r = k # u32_to_be_bytes ident @ b) \<and> length r \<le> SFTP_MAX_PACKET"

definition built :: "u32 \<Rightarrow> bytes option \<Rightarrow> bool" where
  "built ident m \<longleftrightarrow> (\<exists>r. m = Some r \<and> reply_to ident r)"

lemma status_message_short: "length (status_message c) \<le> 21"
  by (simp add: status_message_def)

lemma built_status [simp]: "built ident (status_reply ident c)" "built ident (status_of ident x)"
proof -
  show 1: "built ident (status_reply ident c)" for c
    using status_message_short[of c]
    by (simp add: built_def reply_to_def status_reply_def writer_simps SFTP_MAX_PACKET_def)
  then show "built ident (status_of ident x)" by (simp add: status_of_def)
qed

lemma built_attrs [simp]: "built ident (attrs_reply ident m)"
  by (simp add: built_def reply_to_def attrs_reply_def put_attrs_def writer_simps SFTP_MAX_PACKET_def)

lemma built_name: "length path \<le> 4097 \<Longrightarrow> built ident (name_reply ident path)"
  by (simp add: built_def reply_to_def name_reply_def writer_simps SFTP_MAX_PACKET_def)

lemma built_data: "length b \<le> 261120 \<Longrightarrow> built ident (run_writer [put_byte k, put_uint32 ident, put_string b])"
  by (simp add: built_def reply_to_def writer_simps SFTP_MAX_PACKET_def)

lemma built_limits [simp]:
  "built ident (run_writer [put_byte k, put_uint32 ident, put_uint64 a, put_uint64 b, put_uint64 c, put_uint64 d])"
  by (simp add: built_def reply_to_def writer_simps SFTP_MAX_PACKET_def)

definition names_size :: "(bytes \<times> bytes \<times> metadata) list \<Rightarrow> nat" where
  "names_size names = sum_list (map (\<lambda>(n, l, m). 4 + length n + 4 + length l + ATTRS_LEN) names)"

lemma put_names:
  "names_size names \<le> SFTP_MAX_PACKET \<Longrightarrow>
   \<exists>b. fold (\<lambda>op w. op w) (concat (map (\<lambda>(name, long, meta). [put_string name, put_string long] @ put_attrs meta) names))
      (Some buf) = Some (buf @ b) \<and> length b = names_size names"
proof (induction names arbitrary: buf)
  case Nil
  then show ?case by (simp add: names_size_def)
next
  case (Cons x xs)
  obtain n l m where x: "x = (n, l, m)" by (cases x)
  have sz: "length n \<le> u32_max" "length l \<le> u32_max" "names_size xs \<le> SFTP_MAX_PACKET"
    using Cons.prems by (auto simp: x names_size_def SFTP_MAX_PACKET_def)
  let ?a = "ssh_string n @ ssh_string l @ concat (map (\<lambda>f. the (f (Some []))) (put_attrs m))"
  have "fold (\<lambda>op w. op w) (put_string n # put_string l # put_attrs m) (Some buf) = Some (buf @ ?a)"
    using sz by (simp add: writer_simps put_attrs_def)
  moreover have "length ?a = 8 + length n + length l + ATTRS_LEN"
    by (simp add: put_attrs_def writer_simps ATTRS_LEN_def)
  moreover obtain b where "fold (\<lambda>op w. op w) (concat (map (\<lambda>(name, long, meta). [put_string name, put_string long] @
      put_attrs meta) xs)) (Some (buf @ ?a)) = Some ((buf @ ?a) @ b)" "length b = names_size xs"
    using Cons.IH[OF sz(3), of "buf @ ?a"] by blast
  ultimately show ?case by (intro exI[of _ "?a @ b"]) (auto simp: x names_size_def)
qed

lemma built_names:
  assumes "9 + names_size names \<le> SFTP_MAX_PACKET"
  shows "built ident (names_reply ident names)"
proof -
  let ?n = "if length names \<le> u32_max then word_of_nat (length names) else 0 :: u32"
  obtain b where "fold (\<lambda>op w. op w) (concat (map (\<lambda>(name, long, meta). [put_string name, put_string long] @
      put_attrs meta) names)) (Some (FXP_NAME # u32_to_be_bytes ident @ u32_to_be_bytes ?n)) =
      Some ((FXP_NAME # u32_to_be_bytes ident @ u32_to_be_bytes ?n) @ b)" "length b = names_size names"
    using put_names[of names] assms by fastforce
  then show ?thesis
    using assms by (simp add: built_def reply_to_def names_reply_def writer_simps)
qed

lemma gather_names_size:
  "gather_names F now es names sz w = (Inr names', left, w') \<Longrightarrow> sz = 9 + names_size names \<Longrightarrow> sz \<le> SFTP_MAX_PACKET \<Longrightarrow>
   9 + names_size names' \<le> SFTP_MAX_PACKET"
proof (induction F now es names sz w rule: gather_names.induct)
  case (2 F now x rest names sz w)
  then show ?case
    by (auto simp: Let_def names_size_def split: if_splits sum.splits prod.splits)
qed simp

section \<open>The table of handles\<close>

text \<open>A request leaves every open handle on its file, but for the one it closes, and never lets the table
  outgrow its bound.\<close>

definition table_step :: "nat option \<Rightarrow> server \<Rightarrow> server \<Rightarrow> bool" where
  "table_step closing s s' \<longleftrightarrow> srv_cwd s' = srv_cwd s \<and>
     (length (handles s) \<le> MAX_HANDLES \<longrightarrow> length (handles s') \<le> MAX_HANDLES) \<and>
     (\<forall>i h. i < length (handles s) \<longrightarrow> handles s ! i = Some h \<longrightarrow> closing \<noteq> Some i \<longrightarrow>
        i < length (handles s') \<and> (\<exists>h'. handles s' ! i = Some h' \<and> handle_fd h' = handle_fd h))"

lemma table_step_refl [simp]: "table_step c s s"
  by (simp add: table_step_def)

definition answered_ok :: "u32 \<Rightarrow> nat option \<Rightarrow> server \<Rightarrow> 'w answered \<Rightarrow> bool" where
  "answered_ok ident closing s m =
     (case m of Inl e \<Rightarrow> e = Violation | Inr (r, s', w) \<Rightarrow> reply_to ident r \<and> table_step closing s s')"

lemma answered_answer: "built ident m \<Longrightarrow> table_step c s s' \<Longrightarrow> answered_ok ident c s (answer m s' w)"
  by (auto simp: answered_ok_def answer_def built_def)

lemma answered_parsed: "(\<And>x. answered_ok ident c s (k x)) \<Longrightarrow> answered_ok ident c s (parsed p r k)"
  by (cases "p r") (auto simp: parsed_def answered_ok_def)

lemma answered_violation [simp]: "answered_ok ident c s (Inl Violation)"
  by (simp add: answered_ok_def)

lemma answered_status [simp]: "answered_ok ident c s (answer (status_reply ident code) s w)"
  by (simp add: answered_answer)

lemma answered_io [simp]: "answered_ok ident c s (answer_io ident s m)"
  by (simp add: answer_io_def answered_answer split: prod.split)

lemma position_bound: "position P xs = Some i \<Longrightarrow> i < length xs \<and> P (xs ! i)"
proof -
  assume "position P xs = Some i"
  then have i: "i = length (takeWhile (\<lambda>x. \<not> P x) xs)" "i < length xs"
    by (auto simp: position_def Let_def split: if_splits)
  then show ?thesis using nth_length_takeWhile[of "\<lambda>x. \<not> P x" xs] by simp
qed

lemma answered_insert: "answered_ok ident c s (insert_handle F ident h s w)"
proof (cases "position (\<lambda>x. x = None) (handles s)")
  case None
  show ?thesis
    unfolding insert_handle_def Let_def None
    by (auto intro!: answered_answer built_data simp: table_step_def nth_append nth_list_update)
next
  case (Some i)
  have "i < length (handles s)" "handles s ! i = None" using position_bound[OF Some] by simp_all
  then show ?thesis
    unfolding insert_handle_def Let_def Some
    by (auto intro!: answered_answer built_data simp: table_step_def nth_list_update)
qed

lemma file_at_Some: "file_at s hraw = Some (i, f, a, b) \<Longrightarrow> i < length (handles s) \<and> handles s ! i = Some (File f a b)"
  by (auto simp: file_at_def handle_index_def Let_def split: option.splits if_splits handle.splits)

lemma table_step_update:
  "i < length (handles s) \<Longrightarrow> handles s ! i = Some h \<Longrightarrow> handle_fd h' = handle_fd h \<Longrightarrow>
   table_step c s (s\<lparr>handles := (handles s)[i := Some h']\<rparr>)"
  by (auto simp: table_step_def nth_list_update)

lemma answered_open: "answered_ok ident c s (fxp_open F ident r s w)" "answered_ok ident c s (fxp_opendir F ident r s w)"
  unfolding fxp_open_def fxp_opendir_def Let_def
  by (intro answered_parsed; auto simp: answered_insert split: sum.split prod.split)+

lemma answered_close:
  "answered_ok ident (case handle_arg r of Inl _ \<Rightarrow> None | Inr (hraw, _) \<Rightarrow> handle_index s hraw) s (fxp_close F ident r s w)"
proof (cases "handle_arg r")
  case (Inl e)
  then show ?thesis by (simp add: fxp_close_def parsed_def)
next
  case (Inr x)
  obtain hraw r' where x: "x = (hraw, r')" by (cases x)
  have t: "table_step (Some i) s (s\<lparr>handles := (handles s)[i := None]\<rparr>)" for i
    by (auto simp: table_step_def nth_list_update)
  show ?thesis
    unfolding fxp_close_def parsed_def Inr x answer_io_def
    by (auto simp: Let_def intro!: answered_answer t split: option.split handle.split prod.split)
qed

lemma answered_read: "os_limits F \<Longrightarrow> answered_ok ident c s (fxp_read F ident r s w)"
  unfolding fxp_read_def
proof (intro answered_parsed, clarify)
  fix hraw offset len assume os: "os_limits F"
  have "length b \<le> 261120" if "sys_read_at F f (unat (min len MAX_DATA)) offset w = (Inr b, w')" for f b w'
  proof -
    have "length b \<le> unat (min len MAX_DATA)" using os that unfolding os_limits_def by blast
    also have "\<dots> \<le> unat MAX_DATA" by (simp add: word_le_nat_alt[symmetric])
    finally show ?thesis by (simp add: MAX_DATA_def)
  qed
  then show "answered_ok ident c s (case file_at s hraw of None \<Rightarrow> answer (status_reply ident FX_FAILURE) s w
     | Some (i, f, _, _) \<Rightarrow>
         (case sys_read_at F f (unat (min len MAX_DATA)) offset w of
            (Inr b, w) \<Rightarrow>
              if b = [] then answer (status_reply ident FX_EOF) s w
              else answer (run_writer [put_byte FXP_DATA, put_uint32 ident, put_string b]) s w
          | (Inl e, w) \<Rightarrow> answer (status_reply ident (error_code e)) s w))"
    by (auto intro!: answered_answer built_data split: option.split sum.split prod.split)
qed

lemma answered_write: "fxp_write F ident r s w = Some m \<Longrightarrow> answered_ok ident c s m"
  by (auto simp: fxp_write_def intro!: answered_answer table_step_update[where h = "File f a b" for f a b]
      dest!: file_at_Some split: sum.splits option.splits prod.splits) (auto simp: handle_fd_def)

lemma answered_stat: "answered_ok ident c s (case sftp_stat F ident path follow w of (reply, w) \<Rightarrow> answer reply s w)"
  by (auto simp: sftp_stat_def intro!: answered_answer split: prod.splits sum.splits)

lemma answered_fstat: "answered_ok ident c s (fxp_fstat F ident r s w)" "answered_ok ident c s (fxp_fsetstat F ident r s w)"
  unfolding fxp_fstat_def fxp_fsetstat_def
  by (intro answered_parsed; auto intro!: answered_answer split: option.split sum.split prod.split)+

lemma answered_readdir: "answered_ok ident c s (fxp_readdir F ident r s w)"
  unfolding fxp_readdir_def
proof (intro answered_parsed)
  fix hraw
  have "built ident (names_reply ident names)" if "gather_names F now es [] 9 w = (Inr names, left, w')" for now es names left w w'
    by (rule built_names[OF gather_names_size[OF that]]) (simp_all add: names_size_def SFTP_MAX_PACKET_def)
  moreover have "table_step c s (s\<lparr>handles := (handles s)[i := Some (Dir f left)]\<rparr>)"
    if "handle_index s hraw = Some i" "handles s ! i = Some (Dir f es)" for i f es left
    by (rule table_step_update[OF _ that(2)])
      (use that in \<open>auto simp: handle_index_def Let_def handle_fd_def split: if_splits\<close>)
  ultimately show "answered_ok ident c s (case handle_index s hraw of
       None \<Rightarrow> answer (status_reply ident FX_FAILURE) s w
     | Some i \<Rightarrow>
         (case handles s ! i of
            Some (Dir f entries) \<Rightarrow>
              let (t, w) = sys_now F w;
                  now = (case t of None \<Rightarrow> 0 | Some secs \<Rightarrow> min (int secs) (2 ^ 63 - 1));
                  (res, left, w) = gather_names F now entries [] (1 + 4 + 4) w;
                  s = s\<lparr>handles := (handles s)[i := Some (Dir f left)]\<rparr> in
              (case res of
                 Inl code \<Rightarrow> answer (status_reply ident code) s w
               | Inr names \<Rightarrow>
                   if names = [] then answer (status_reply ident FX_EOF) s w
                   else answer (names_reply ident names) s w)
          | _ \<Rightarrow> answer (status_reply ident FX_FAILURE) s w))"
    by (auto simp: Let_def intro!: answered_answer split: option.split handle.split prod.split sum.split)
qed

lemma answered_name:
  assumes "\<And>p w'. m = (Inr p, w') \<Longrightarrow> length p \<le> 4097"
  shows "answered_ok ident c s (answer_name ident s m)"
  using assms by (cases m) (auto simp: answer_name_def intro!: answered_answer built_name split: sum.split)

lemma answered_realpath:
  assumes "os_limits F" and "length (srv_cwd s) \<le> PATH_MAX"
  shows "answered_ok ident c s (answer_name ident s (realpath F path (srv_cwd s) w))"
    "answered_ok ident c s (answer_name ident s (io_then (x, w) (\<lambda>p w. realpath F p (srv_cwd s) w)))"
  using realpath_short[OF _ assms]
  by (auto intro!: answered_name simp: io_then_def PATH_MAX_def split: sum.splits)

lemma answered_extended:
  assumes "os_limits F" and "length (srv_cwd s) \<le> PATH_MAX"
  shows "answered_ok ident c s (fxp_extended F ident r s w)"
  unfolding fxp_extended_def
  by (auto intro!: answered_parsed answered_answer simp: answered_realpath[OF assms] split: sum.split option.split prod.split)

text \<open>The handle a request closes.\<close>

definition closed_by :: "u8 \<Rightarrow> bytes \<Rightarrow> server \<Rightarrow> nat option" where
  "closed_by kind r s =
     (if kind = FXP_CLOSE then (case handle_arg r of Inl _ \<Rightarrow> None | Inr (hraw, _) \<Rightarrow> handle_index s hraw) else None)"

lemma answered_request:
  assumes "os_limits F" and "length (srv_cwd s) \<le> PATH_MAX" and "sftp_request F kind ident r s w = Some m"
  shows "answered_ok ident (closed_by kind r s) s m"
proof (cases "kind = FXP_CLOSE \<or> kind = FXP_WRITE")
  case True
  then show ?thesis
    using assms(3) answered_write[of F ident r s w m "None"] answered_close[where ident = ident and r = r and s = s and F = F and w = w]
    by (auto simp: sftp_request_def closed_by_def fxp_defs)
next
  case False
  have readlink: "answered_ok ident c s (answer_name ident s (sys_readlink F path w))" for c path
  proof (rule answered_name)
    fix p w' assume "sys_readlink F path w = (Inr p, w')"
    then have "length p \<le> PATH_MAX" using assms(1) unfolding os_limits_def by blast
    then show "length p \<le> 4097" by (simp add: PATH_MAX_def)
  qed
  note all = answered_open answered_read[OF assms(1)] answered_stat answered_fstat answered_readdir readlink
    answered_realpath[OF assms(1,2)] answered_extended[OF assms(1,2)]
  show ?thesis
    using False assms(3) unfolding sftp_request_def closed_by_def
    by (auto simp: all intro!: answered_parsed split: if_splits)
qed

lemma sftp_handle_fields:
  assumes "sftp_handle F packet s w = Some (Inr x)"
  obtains kind ident r where "packet = kind # u32_to_be_bytes ident @ r" "sftp_request F kind ident r s w = Some (Inr x)"
  using assms
  by (auto simp: sftp_handle_def rd_bind_Inr_iff rd_return_def byte_codec.dec_iff uint32_codec.dec_iff split: sum.splits intro!: that)

lemma sftp_handle_answered:
  assumes "os_limits F" and "length (srv_cwd s) \<le> PATH_MAX" and "sftp_handle F packet s w = Some (Inr (r, s', w'))"
  obtains kind ident b where "packet = kind # u32_to_be_bytes ident @ b" "reply_to ident r"
    "table_step (closed_by kind b s) s s'"
proof -
  obtain kind ident b where p: "packet = kind # u32_to_be_bytes ident @ b"
    "sftp_request F kind ident b s w = Some (Inr (r, s', w'))"
    by (rule sftp_handle_fields[OF assms(3)])
  have "reply_to ident r \<and> table_step (closed_by kind b s) s s'"
    using answered_request[OF assms(1,2) p(2)] by (simp add: answered_ok_def)
  then show ?thesis using p(1) that by blast
qed

text \<open>A reply answers a request: it has the request's identifier and fits in a packet.\<close>

definition answers :: "bytes \<Rightarrow> bytes \<Rightarrow> bool" where
  "answers p r \<longleftrightarrow> (\<exists>kind ident b. p = kind # u32_to_be_bytes ident @ b \<and> reply_to ident r)"

lemma sftp_answers_replies:
  assumes "os_limits F"
  shows "sftp_answers F reqs s w = Some (rs, s', w') \<Longrightarrow> length (srv_cwd s) \<le> PATH_MAX \<Longrightarrow>
    length (handles s) \<le> MAX_HANDLES \<Longrightarrow> list_all2 answers reqs rs \<and> length (handles s') \<le> MAX_HANDLES"
proof (induction reqs arbitrary: s w rs)
  case Nil
  then show ?case by simp
next
  case (Cons p ps)
  obtain r s1 w1 rs' where h: "sftp_handle F p s w = Some (Inr (r, s1, w1))"
    "sftp_answers F ps s1 w1 = Some (rs', s', w')" "rs = r # rs'"
    using Cons.prems(1) by (auto split: option.splits sum.splits prod.splits if_splits)
  obtain kind ident b where k: "p = kind # u32_to_be_bytes ident @ b" "reply_to ident r"
    "table_step (closed_by kind b s) s s1"
    by (rule sftp_handle_answered[OF assms Cons.prems(2) h(1)])
  have "srv_cwd s1 = srv_cwd s" "length (handles s1) \<le> MAX_HANDLES" using k(3) Cons.prems(3) by (simp_all add: table_step_def)
  then show ?case using Cons.IH[OF h(2)] Cons.prems(2) h(3) k(1,2) by (auto simp: answers_def)
qed

section \<open>Properties\<close>

text \<open>C22 (refinement): the helper is the sequence of its requests. However the pipe cuts the input into reads, and
  however often they are interrupted, the session ends with status 0 exactly when the input is empty, or is an INIT and
  requests, each framed by its length and of at most 256 KiB, that all get a reply; then it has written the VERSION and
  those replies, in their order.\<close>

theorem sftp_serve_refines:
  assumes "ReadFailed \<notin> set evs"
  shows "sftp_serve F (\<lambda>_. True) cwd evs w = Some (SftpExit 0, out, w') \<longleftrightarrow>
    (requests evs [] \<and> out = [] \<and> w' = w) \<or>
    (\<exists>v p reqs rs s'. requests evs (p # reqs) \<and> init_ok p \<and> version_reply = Some v \<and>
       sftp_answers F reqs (server_new cwd) w = Some (rs, s', w') \<and> out = v # rs)"
proof -
  obtain v where v: "version_reply = Some v" "length v \<le> u32_max"
    by (simp add: version_reply_def EXTENSIONS_def writer_simps)
  consider (bad) x where "sftp_read_packet evs = Inl x" | (eof) "sftp_read_packet evs = Inr None"
    | (packet) p evs' where "sftp_read_packet evs = Inr (Some (p, evs'))"
    by (cases "sftp_read_packet evs") force+
  then show ?thesis
  proof cases
    case bad
    then show ?thesis
      using requests_refused[OF bad assms] by (simp add: sftp_serve_def sftp_loop.simps[of _ _ _ _ evs] EXIT_VIOLATION_def)
  next
    case eof
    then show ?thesis
      using requests_end[OF assms eof] by (auto simp: sftp_serve_def sftp_loop.simps[of _ _ _ _ evs])
  next
    case packet
    have nf: "ReadFailed \<notin> set evs'" using sftp_read_packet_Some(3)[OF packet] assms by simp
    have a: "answer version_reply (server_new cwd) w = Inr (v, server_new cwd, w)" unfolding v(1) answer_def by simp
    have "sftp_serve F (\<lambda>_. True) cwd evs w =
        (if init_ok p then sftp_loop F (\<lambda>_. True) False (server_new cwd) evs' [v] w
         else Some (SftpExit EXIT_VIOLATION, [], w))"
      unfolding sftp_serve_def sftp_loop.simps[of _ _ _ _ evs] packet a using v(2) by simp
    then show ?thesis
      unfolding v(1) using sftp_loop_refines[OF nf, of F "server_new cwd" "[v]" w out w'] requests_split[OF packet]
      by (auto simp: EXIT_VIOLATION_def)
  qed
qed


text \<open>No request panics, and a handle stays on its file until it is closed. After any request but the
  CLOSE that names it, an open handle is open at the same index with the same descriptor.\<close>

lemma sftp_handles_stable:
  assumes "os_limits F" and "length (srv_cwd s) \<le> PATH_MAX" and "sftp_handle F (kind # u32_to_be_bytes ident @ b) s w = Some m"
    and "i < length (handles s)" and "handles s ! i = Some h" and "closed_by kind b s \<noteq> Some i"
  shows "case m of
      Inl e \<Rightarrow> e = Violation
    | Inr (r, s', w') \<Rightarrow> i < length (handles s') \<and> (\<exists>h'. handles s' ! i = Some h' \<and> handle_fd h' = handle_fd h)"
proof -
  have "sftp_handle F (kind # u32_to_be_bytes ident @ b) s w = sftp_request F kind ident b s w"
    by (simp add: sftp_handle_def reader_simps rd_return_def)
  then have "answered_ok ident (closed_by kind b s) s m"
    using answered_request[OF assms(1,2)] assms(3) by metis
  then show ?thesis using assms(4-6) by (auto simp: answered_ok_def table_step_def split: sum.splits)
qed

end
