(* ===== verification/SftpFiles.thy ===== *)
theory SftpFiles
  imports SftpSpec
begin

text \<open>
  Files of the SFTP helper: what a WRITE leaves in the file, and that OPEN answers with a handle on the file it opened.
  The file system at the end is a small instance of the system calls, on which the properties of the helper are
  applied.
\<close>

section \<open>Writing\<close>

text \<open>The content of a file after \<open>ys\<close> is written at offset \<open>i\<close>: a gap is filled with zeros, and nothing written
  changes nothing.\<close>

definition patch :: "bytes \<Rightarrow> nat \<Rightarrow> bytes \<Rightarrow> bytes" where
  "patch xs i ys = (if ys = [] then xs else take i (xs @ replicate (i - length xs) 0) @ ys @ drop (i + length ys) xs)"

lemma patch_append: "patch (patch xs i a) (i + length a) b = patch xs i (a @ b)"
proof (cases "a = [] \<or> b = []")
  case True
  then show ?thesis by (auto simp: patch_def)
next
  case False
  let ?h = "take i (xs @ replicate (i - length xs) 0)"
  have h: "length ?h = i" by simp
  have "patch xs i a = ?h @ a @ drop (i + length a) xs" using False by (simp add: patch_def)
  then have "patch (patch xs i a) (i + length a) b = (?h @ a) @ b @ drop (length b) (drop (i + length a) xs)"
    using False h by (simp add: patch_def)
  then show ?thesis using False by (simp add: patch_def add.commute add.left_commute)
qed

text \<open>What the operating system promises of positional writes to one descriptor, whose file has the content
  \<open>content\<close>: a call writes a prefix of its data or nothing, and it is not interrupted for ever.\<close>

definition positional :: "'w fsys \<Rightarrow> fd \<Rightarrow> ('w \<Rightarrow> bytes) \<Rightarrow> bool" where
  "positional F f content \<longleftrightarrow>
     (\<forall>b off w. case sys_write_at F f b off w of
        (Inr n, w') \<Rightarrow> n \<le> length b \<and> content w' = patch (content w) (unat off) (take n b)
      | (Inl e, w') \<Rightarrow> content w' = content w)"

definition calms_down :: "'w fsys \<Rightarrow> fd \<Rightarrow> ('w \<Rightarrow> nat) \<Rightarrow> bool" where
  "calms_down F f alarms \<longleftrightarrow>
     (\<forall>b off w. case sys_write_at F f b off w of
        (Inl e, w') \<Rightarrow> io_kind e = Interrupted \<longrightarrow> alarms w' < alarms w | _ \<Rightarrow> True)"

definition write_result :: "('w \<Rightarrow> bytes) \<Rightarrow> bytes \<Rightarrow> nat \<Rightarrow> bytes \<Rightarrow> bool \<Rightarrow> unit io \<times> bool \<times> 'w \<Rightarrow> bool" where
  "write_result content old off data written = (\<lambda>(res, written', w').
     case res of
       Inr _ \<Rightarrow> content w' = patch old off data \<and> written' = (written \<or> data \<noteq> [])
     | Inl _ \<Rightarrow> (\<exists>k < length data. content w' = patch old off (take k data) \<and> written' = (written \<or> 0 < k)))"

lemma write_tracked_end: "\<not> k < length data \<Longrightarrow> write_tracked F f data off k written w = Some (Inr (), written, w)"
  by (subst write_tracked.simps) simp

lemma write_tracked_overflow:
  "k < length data \<Longrightarrow> unat off + k > u64_max \<Longrightarrow>
   write_tracked F f data (Some off) k written w = Some (Inl \<lparr>io_kind = InvalidInput, raw_os_error = None\<rparr>, written, w)"
  by (subst write_tracked.simps) simp

lemma write_tracked_call:
  "k < length data \<Longrightarrow> \<not> unat off + k > u64_max \<Longrightarrow>
   sys_write_at F f (drop k data) (off + word_of_nat k) w = (res, w') \<Longrightarrow>
   write_tracked F f data (Some off) k written w =
     (case res of
        Inr n \<Rightarrow>
          if n = 0 then Some (Inl \<lparr>io_kind = WriteZero, raw_os_error = None\<rparr>, written, w')
          else write_tracked F f data (Some off) (k + n) True w'
      | Inl e \<Rightarrow>
          if io_kind e = Interrupted then write_tracked F f data (Some off) k written w' else Some (Inl e, written, w'))"
  by (subst write_tracked.simps) (simp split: sum.split)

lemma write_tracked_from:
  assumes "positional F f content" and "calms_down F f alarms"
  shows "k \<le> length data \<Longrightarrow> content w = patch old (unat off) (take k data) \<Longrightarrow> written = (written0 \<or> 0 < k) \<Longrightarrow>
    \<exists>x. write_tracked F f data (Some off) k written w = Some x \<and> write_result content old (unat off) data written0 x"
proof (induction "(length data - k, alarms w)" arbitrary: k w written
    rule: wf_induct_rule[OF wf_lex_prod[OF wf_less_than wf_less_than]])
  case (1 k w written)
  note st = "1.prems"
  have IH: "length data - k' < length data - k \<or> k' = k \<and> alarms w' < alarms w \<Longrightarrow> k' \<le> length data \<Longrightarrow>
      content w' = patch old (unat off) (take k' data) \<Longrightarrow> written' = (written0 \<or> 0 < k') \<Longrightarrow>
      \<exists>x. write_tracked F f data (Some off) k' written' w' = Some x \<and> write_result content old (unat off) data written0 x"
    for k' w' written'
    using "1.hyps"[of k' w' written'] by auto
  show ?case
  proof (cases "k < length data")
    case False
    then show ?thesis using st by (auto simp: write_tracked_end write_result_def)
  next
    case more: True
    have fail: "write_result content old (unat off) data written0 (Inl e, written, w')" if "content w' = content w" for e w'
      using that st more by (auto simp: write_result_def intro!: exI[of _ k])
    show ?thesis
    proof (cases "unat off + k > u64_max")
      case True
      then show ?thesis using write_tracked_overflow[OF more True, of F f written w] fail[of w] by blast
    next
      case False
      then have off: "unat (off + word_of_nat k) = unat off + k" by (simp add: unat_word_ariths unat_of_nat)
      obtain res w' where call: "sys_write_at F f (drop k data) (off + word_of_nat k) w = (res, w')" by fastforce
      note step = write_tracked_call[OF more False call, of written]
      have law: "case res of Inr n \<Rightarrow> n \<le> length (drop k data) \<and>
          content w' = patch (content w) (unat off + k) (take n (drop k data)) | Inl e \<Rightarrow> content w' = content w"
        using assms(1)[unfolded positional_def, rule_format, where b = "drop k data" and off = "off + word_of_nat k" and w = w] call off
        by (simp split: sum.splits)
      show ?thesis
      proof (cases res)
        case (Inl e)
        have "io_kind e = Interrupted \<Longrightarrow> alarms w' < alarms w"
          using assms(2)[unfolded calms_down_def, rule_format, where b = "drop k data" and off = "off + word_of_nat k" and w = w] call Inl by simp
        then show ?thesis using IH[of k w' written] st law fail[of w'] Inl step by auto
      next
        case (Inr n)
        have "take k data @ take n (drop k data) = take (k + n) data" by (simp add: take_add)
        moreover have "length (take k data) = k" using st(1) by simp
        ultimately have "content w' = patch old (unat off) (take (k + n) data)"
          using law Inr st(2) patch_append[of old "unat off" "take k data" "take n (drop k data)"] by simp
        then show ?thesis
          using IH[of "k + n" w' True] law fail[of w'] Inr step st(2) more
          by (cases "n = 0") auto
      qed
    qed
  qed
qed

section \<open>Opening\<close>

lemma position_None: "position P xs = None \<Longrightarrow> x \<in> set xs \<Longrightarrow> \<not> P x"
proof -
  assume a: "position P xs = None" "x \<in> set xs"
  let ?t = "takeWhile (\<lambda>x. \<not> P x) xs"
  have "length xs \<le> length ?t" using a(1) by (auto simp: position_def Let_def split: if_splits)
  then have "?t = xs" using takeWhile_eq_take[of "\<lambda>x. \<not> P x" xs] by simp
  then show ?thesis using a(2) by (metis takeWhile_eq_all_conv)
qed

lemma free_slot:
  assumes "has_free_slot s" and "length (handles s) \<le> MAX_HANDLES"
  obtains i hs where "i < MAX_HANDLES" "i < length hs" "i < length (handles s) \<longrightarrow> handles s ! i = None"
    "insert_handle F ident h s w =
       Inr (FXP_HANDLE # u32_to_be_bytes ident @ ssh_string (u32_to_be_bytes (word_of_nat i)),
            s\<lparr>handles := hs[i := Some h]\<rparr>, w)"
proof (cases "position (\<lambda>x. x = None) (handles s)")
  case None
  then have "None \<notin> set (handles s)" using position_None[OF None, of None] by auto
  then have "length (handles s) < MAX_HANDLES" using assms(1) by (simp add: has_free_slot_def)
  then show ?thesis
    using None by (intro that[of "length (handles s)" "handles s @ [None]"])
      (auto simp: insert_handle_def Let_def answer_def writer_simps MAX_HANDLES_def)
next
  case (Some i)
  then have "i < length (handles s)" "handles s ! i = None" using position_bound[OF Some] by simp_all
  then show ?thesis
    using Some assms(2) by (intro that[of i "handles s"])
      (auto simp: insert_handle_def Let_def answer_def writer_simps MAX_HANDLES_def)
qed

section \<open>Properties\<close>

text \<open>A WRITE returns, and writes what it was given where it was told to. If the system call writes a
  prefix of its data and is not interrupted for ever, the loop ends; when it succeeds the content of the file is the old
  one with the whole of the data at the offset, when it fails a proper prefix of the data is there, and \<^verbatim>\<open>written\<close> is set
  exactly if a byte was written.\<close>

lemma write_tracked_exact:
  assumes "positional F f content" and "calms_down F f alarms"
  shows "\<exists>x. write_tracked F f data (Some off) 0 written w = Some x \<and>
    write_result content (content w) (unat off) data written x"
  by (rule write_tracked_from[OF assms]) (simp_all add: patch_def)

text \<open>The handle that OPEN answers with names the file that was opened. With a free slot and a descriptor
  from the system, the reply carries a string that the table resolves to that descriptor, not yet written to, in a
  slot that was free.\<close>

lemma open_handle_roundtrip:
  assumes "has_free_slot s" and "length (handles s) \<le> MAX_HANDLES"
    and "rd_bind path_arg (\<lambda>path. rd_bind reader_uint32 (\<lambda>pflags. rd_bind read_attrs (\<lambda>attrs.
       rd_return (path, pflags, attrs)))) r = Inr ((path, pflags, attrs), rest)"
    and "sys_open F path (open_flags pflags) (case sa_perm attrs of None \<Rightarrow> 0x1B6 | Some p \<Rightarrow> p AND 0x1FF) w = (Inr f, w')"
  shows "\<exists>i hraw s'. fxp_open F ident r s w = Inr (FXP_HANDLE # u32_to_be_bytes ident @ ssh_string hraw, s', w') \<and>
    file_at s' hraw = Some (i, f, has_bits pflags OPEN_APPEND, False) \<and> (length (handles s) \<le> i \<or> handles s ! i = None)"
proof -
  obtain i hs where i: "i < MAX_HANDLES" "i < length hs" "i < length (handles s) \<longrightarrow> handles s ! i = None"
    "insert_handle F ident (File f (has_bits pflags OPEN_APPEND) False) s w' =
       Inr (FXP_HANDLE # u32_to_be_bytes ident @ ssh_string (u32_to_be_bytes (word_of_nat i)),
            s\<lparr>handles := hs[i := Some (File f (has_bits pflags OPEN_APPEND) False)]\<rparr>, w')"
    by (rule free_slot[OF assms(1,2)])
  have "fxp_open F ident r s w = insert_handle F ident (File f (has_bits pflags OPEN_APPEND) False) s w'"
    using assms(1,3,4) by (simp add: fxp_open_def parsed_def)
  moreover have "file_at (s\<lparr>handles := hs[i := Some (File f a False)]\<rparr>) (u32_to_be_bytes (word_of_nat i)) = Some (i, f, a, False)" for a
    using i(1,2) by (simp add: file_at_def handle_index_def MAX_HANDLES_def)
  ultimately show ?thesis using i(3,4) by (metis not_le_imp_less)
qed

section \<open>Witnesses\<close>

text \<open>A file system with one file whose content is the world, and with \<open>/l\<close> a symbolic link to \<open>/d\<close>.\<close>

definition toy_meta :: "u32 \<Rightarrow> metadata" where
  "toy_meta mode = \<lparr>md_len = 0, md_uid = 0, md_gid = 0, md_mode = mode, md_nlink = 1, md_atime = 0, md_mtime = 0\<rparr>"

definition toy_refused :: "'a io" where
  "toy_refused = Inl \<lparr>io_kind = OtherKind, raw_os_error = None\<rparr>"

definition toy_lstat :: "bytes \<Rightarrow> metadata io" where
  "toy_lstat p =
     (if p = ascii ''/l'' then Inr (toy_meta 0xA1FF)
      else if p = ascii ''/d'' then Inr (toy_meta 0x41ED)
      else if length p > 4096 then toy_refused
      else Inl \<lparr>io_kind = NotFound, raw_os_error = None\<rparr>)"

definition toy_fs :: "bytes fsys" where
  "toy_fs = \<lparr>sys_linux = True, sys_now = \<lambda>w. (None, w), sys_open = \<lambda>p fl m w. (Inr 3, w), sys_close = \<lambda>f w. w,
     sys_read_at = \<lambda>f n off w. (Inr (take n (drop (unat off) w)), w),
     sys_write_at = \<lambda>f b off w. (Inr (length b), patch w (unat off) b),
     sys_write = \<lambda>f b w. (Inr (length b), w @ b),
     sys_fstat = \<lambda>f w. (Inr (toy_meta 0x81A4), w), sys_sync_data = \<lambda>f w. (Inr (), w), sys_sync_all = \<lambda>f w. (Inr (), w),
     sys_ftruncate = \<lambda>f n w. (toy_refused, w), sys_fchown = \<lambda>f u g w. (toy_refused, w), sys_fchmod = \<lambda>f m w. (toy_refused, w),
     sys_futimes = \<lambda>f a m w. (toy_refused, w), sys_stat = \<lambda>p w. (toy_refused, w), sys_lstat = \<lambda>p w. (toy_lstat p, w),
     sys_chown = \<lambda>p u g w. (toy_refused, w), sys_chmod = \<lambda>p m w. (toy_refused, w), sys_utimes = \<lambda>p a m w. (toy_refused, w),
     sys_opendir = \<lambda>p w. (toy_refused, w), sys_entry_meta = \<lambda>e w. (toy_refused, w), sys_mkdir = \<lambda>p m w. (toy_refused, w),
     sys_rmdir = \<lambda>p w. (toy_refused, w), sys_unlink = \<lambda>p w. (toy_refused, w), sys_rename = \<lambda>p q w. (toy_refused, w),
     sys_link = \<lambda>p q w. (toy_refused, w), sys_symlink = \<lambda>p q w. (toy_refused, w),
     sys_readlink = \<lambda>p w. (if p = ascii ''/l'' then Inr (ascii ''/d'') else toy_refused, w)\<rparr>"

lemma toy_limits: "os_limits toy_fs"
proof -
  have "length (ascii ''/l'') = 2" "length (ascii ''/d'') = 2" by code_simp+
  then show ?thesis by (auto simp: os_limits_def toy_fs_def toy_lstat_def toy_refused_def PATH_MAX_def split: if_splits)
qed

lemma toy_positional: "positional toy_fs 3 (\<lambda>w. w)" "calms_down toy_fs 3 (\<lambda>w. 0)"
  by (simp_all add: positional_def calms_down_def toy_fs_def)

lemma write_tracked_exact_witness:
  "\<exists>x. write_tracked toy_fs 3 [7, 8] (Some 1) 0 False [5] = Some x \<and> write_result (\<lambda>w. w) [5] 1 [7, 8] False x"
  using write_tracked_exact[OF toy_positional, of "[7, 8]" 1 False "[5]"] by simp

lemma toy_walk: "realpath toy_fs (ascii ''l/../l/./x'') (ascii ''/'') [] = (Inr (ascii ''/d/x''), [])"
  by code_simp

lemma toy_root: "walked [] (ascii ''/'')"
proof -
  have "ascii ''/'' = [slash]" by code_simp
  then show ?thesis by (simp add: walked_def)
qed

lemma realpath_canonical_witness:
  "\<exists>p w' ds. realpath toy_fs (ascii ''l/../l/./x'') (ascii ''/'') [] = (Inr p, w') \<and> list_all component ds \<and> p = abs_path ds"
  using realpath_canonical[OF toy_walk toy_root] toy_walk by blast

theorem realpath_resolves_witness:
  "\<exists>ds. list_all component ds \<and> ascii ''/d/x'' = abs_path ds \<and>
     (resolved_in toy_lstat ds \<or>
      (\<exists>e. resolved_in toy_lstat (butlast ds) \<and> toy_lstat (ascii ''/d/x'') = Inl e \<and> io_kind e = NotFound))"
proof -
  have st: "fst (sys_lstat toy_fs q v) = toy_lstat q" for q v by (simp add: toy_fs_def)
  show ?thesis by (rule realpath_resolves[OF toy_walk st toy_root resolved_in_Nil])
qed

text \<open>An INIT, then an OPEN of \<open>/f\<close> for writing, cut in the middle of the first length.\<close>

definition toy_fields :: bytes where
  "toy_fields = ssh_string (ascii ''/f'') @ u32_to_be_bytes 2 @ u32_to_be_bytes 0"

definition toy_open :: bytes where
  "toy_open = FXP_OPEN # u32_to_be_bytes 9 @ toy_fields"

definition toy_input :: "rd_event list" where
  "toy_input = (let b = ssh_string [1, 0, 0, 0, 3] @ ssh_string toy_open in [Got (take 2 b), ReadInterrupted, Got (drop 2 b)])"

lemma toy_fields_read:
  "rd_bind path_arg (\<lambda>path. rd_bind reader_uint32 (\<lambda>pflags. rd_bind read_attrs (\<lambda>attrs.
     rd_return (path, pflags, attrs)))) toy_fields =
   Inr ((ascii ''/f'', 2, \<lparr>sa_size = None, sa_owner = None, sa_perm = None, sa_times = None\<rparr>), [])"
proof -
  have f: "ascii ''/f'' \<noteq> []" "length (ascii ''/f'') = 2" by code_simp+
  then have p: "path_arg (ssh_string (ascii ''/f'') @ r) = Inr (ascii ''/f'', r)" for r
    by (simp add: path_arg_def raw_path_arg_def reader_simps rd_return_def SFTP_MAX_PACKET_def)
  have a: "read_attrs (u32_to_be_bytes 0) = Inr (\<lparr>sa_size = None, sa_owner = None, sa_perm = None, sa_times = None\<rparr>, [])"
    by (simp add: read_attrs_def reader_simps rd_if_def has_bits_def)
  show ?thesis unfolding toy_fields_def rd_bind_def[of path_arg] p by (simp add: reader_simps) (simp add: rd_bind_def a rd_return_def)
qed

lemma toy_slot: "has_free_slot (server_new cwd)" "length (handles (server_new cwd)) \<le> MAX_HANDLES"
  by (simp_all add: has_free_slot_def server_new_def MAX_HANDLES_def)

lemma toy_descriptor: "sys_open toy_fs p fl m w = (Inr 3, w)"
  by (simp add: toy_fs_def)

lemma open_handle_roundtrip_witness:
  "\<exists>i hraw s'. fxp_open toy_fs 9 toy_fields (server_new (ascii ''/'')) [] =
       Inr (FXP_HANDLE # u32_to_be_bytes 9 @ ssh_string hraw, s', []) \<and>
     file_at s' hraw = Some (i, 3, has_bits 2 OPEN_APPEND, False)"
  using open_handle_roundtrip[OF toy_slot(1)[of "ascii ''/''"] toy_slot(2)[of "ascii ''/''"] toy_fields_read toy_descriptor,
      where ident = 9] by blast

lemma toy_sftp_session:
  "\<exists>r s'. sftp_answers toy_fs [toy_open] (server_new (ascii ''/'')) [] = Some ([r], s', [])"
proof -
  obtain i hs where "insert_handle toy_fs 9 (File 3 (has_bits 2 OPEN_APPEND) False) (server_new (ascii ''/'')) [] =
      Inr (FXP_HANDLE # u32_to_be_bytes 9 @ ssh_string (u32_to_be_bytes (word_of_nat i)),
        (server_new (ascii ''/''))\<lparr>handles := hs[i := Some (File 3 (has_bits 2 OPEN_APPEND) False)]\<rparr>, [])"
    by (rule free_slot[OF toy_slot])
  then show ?thesis
    by (simp add: toy_open_def sftp_handle_def reader_simps rd_return_def sftp_request_def fxp_defs fxp_open_def parsed_def
        toy_fields_read[unfolded rd_return_def] toy_slot(1) toy_descriptor)
qed


lemma toy_requests: "requests toy_input [[1, 0, 0, 0, 3], toy_open]"
proof -
  have "length (ascii ''/f'') = 2" by code_simp
  then have "length toy_open = 19" by (simp add: toy_open_def toy_fields_def)
  moreover have "stream toy_input = ssh_string [1, 0, 0, 0, 3] @ ssh_string toy_open"
    by (simp add: toy_input_def Let_def ssh_string_nonempty flip: append_assoc)
  ultimately show ?thesis by (auto simp: requests_def request_ok_def SFTP_MAX_PACKET_def)
qed

theorem sftp_serve_refines_witness:
  "\<exists>v r w'. sftp_serve toy_fs (\<lambda>_. True) (ascii ''/'') toy_input [] = Some (SftpExit 0, [v, r], w')"
proof -
  have nf: "ReadFailed \<notin> set toy_input" by (simp add: toy_input_def Let_def)
  obtain r s' where t: "sftp_answers toy_fs [toy_open] (server_new (ascii ''/'')) [] = Some ([r], s', [])"
    using toy_sftp_session by blast
  obtain v where v: "version_reply = Some v" by (simp add: version_reply_def EXTENSIONS_def writer_simps)
  have "init_ok [1, 0, 0, 0, 3]" by code_simp
  then have "sftp_serve toy_fs (\<lambda>_. True) (ascii ''/'') toy_input [] = Some (SftpExit 0, v # [r], [])"
    using sftp_serve_refines[OF nf, of toy_fs "ascii ''/''" "[]" "v # [r]" "[]"] toy_requests t v by blast
  then show ?thesis by blast
qed

lemma sftp_handles_stable_witness:
  "\<exists>s m. sftp_handle toy_fs (FXP_FSTAT # u32_to_be_bytes 1 @ ssh_string [0, 0, 0, 0]) s [] = Some m \<and>
     (case m of Inl e \<Rightarrow> e = Violation
      | Inr (r, s', w') \<Rightarrow> 0 < length (handles s') \<and>
          (\<exists>h'. handles s' ! 0 = Some h' \<and> handle_fd h' = handle_fd (File 3 False False)))"
proof -
  let ?s = "\<lparr>handles = [Some (File 3 False False)], srv_cwd = ascii ''/''\<rparr>"
  have cwd: "length (srv_cwd ?s) \<le> PATH_MAX" by code_simp
  obtain m where m: "sftp_handle toy_fs (FXP_FSTAT # u32_to_be_bytes 1 @ ssh_string [0, 0, 0, 0]) ?s [] = Some m"
    by (auto simp: sftp_handle_def reader_simps rd_return_def sftp_request_def fxp_defs)
  have "closed_by FXP_FSTAT (ssh_string [0, 0, 0, 0]) ?s \<noteq> Some 0" by (simp add: closed_by_def fxp_defs)
  from sftp_handles_stable[OF toy_limits cwd m _ _ this, of "File 3 False False"] m show ?thesis by fastforce
qed

end
