(* ===== verification/Spec2Isabelle.thy ===== *)
theory Spec2Isabelle
  imports Prelude Str Wire Kex Cipher HostKey KeyFile Cert Auth Admission Transport Handshake HandshakeLive Serve Logging Config Startup Keygen
    Session Rekey Pty Exec Reap Pump Channel ChannelInv Drive Sftp RealPath SftpSpec SftpFiles
begin

text \<open>
  A verification development for \<^verbatim>\<open>quantumssh\<close>, an SSH server in Rust with one algorithm profile: the hybrid
  key exchange of ML-KEM-768 and X25519, host keys and certificate authorities of ML-DSA-44 with Ed25519, user keys
  of Ed25519, the ciphers ChaCha20-Poly1305 and AES-256-GCM, one session channel per connection.

  \<^bold>\<open>The program and the theories.\<close> Paths are under \<^verbatim>\<open>src/crates/quantumssh-core/src/\<close>, those of the
  binary under \<^verbatim>\<open>src/crates/quantumssh/src/\<close>. The binary reads its command line and files and starts the accept loop. A connection passes through the
  parts in this order: admission, identification, key exchange, service request, authentication, the channel loop
  with its child and its re-keys.

  \<^item> \<open>Prelude\<close>, \<open>Str\<close>: types, the result type \<open>(error, value) result\<close> and its bind, big-endian integers, the parts
    of the Rust standard library on strings that the sources call (trimming, splitting, lines, UTF-8).
  \<^item> \<open>Wire\<close> is \<^verbatim>\<open>wire.rs\<close>: \<^verbatim>\<open>Reader\<close> as a parser on the remaining bytes, \<^verbatim>\<open>Writer\<close> as a list of puts that is \<open>None\<close>
    where the code panics on a length, packet framing, the identification line. The locales \<open>codec\<close> and
    \<open>canonical_codec\<close> state what the layers above rely on: a value read back is the value written, and it has one
    encoding.
  \<^item> \<open>Kex\<close> is \<^verbatim>\<open>kex.rs\<close>: KEXINIT, negotiation, the hybrid exchange, the exchange hash, key derivation.
  \<^item> \<open>Cipher\<close> is \<^verbatim>\<open>cipher.rs\<close>: the two packet ciphers with their nonces and sequence numbers at their widths.
  \<^item> \<open>HostKey\<close> is \<^verbatim>\<open>composite.rs\<close> and \<^verbatim>\<open>host_key.rs\<close>; \<open>KeyFile\<close> and \<open>Cert\<close> are the key files of \<^verbatim>\<open>auth.rs\<close> and \<^verbatim>\<open>cert.rs\<close>
    and the verification of certificates; \<open>Auth\<close> is the rest of \<^verbatim>\<open>auth.rs\<close>.
  \<^item> \<open>Admission\<close> is \<^verbatim>\<open>admission.rs\<close>, with the interleavings of its guards as a step relation. \<open>Serve\<close> is the accept loop of
    \<^verbatim>\<open>server.rs\<close>: the arms of its \<^verbatim>\<open>select!\<close>, the tasks of the connections, shutdown, drain and abort.
  \<^item> \<open>Transport\<close>, \<open>Handshake\<close> and \<open>HandshakeLive\<close> are the stages of \<^verbatim>\<open>transport.rs\<close> up to authentication, in the order
    \<^verbatim>\<open>run_connection\<close> of \<^verbatim>\<open>server.rs\<close> calls them. The type-state \<^verbatim>\<open>Expect\<close> is a family of records, one per stage.
    The locales \<open>packet_writer\<close> and \<open>packet_reader\<close> are the contract of sending and receiving, interpreted by the
    plaintext, the sealed and the session functions.
  \<^item> \<open>Session\<close> and \<open>Rekey\<close> are the \<^verbatim>\<open>Session\<close> stage: the cancel-safe packet reader, the accounting writer, the
    re-keying sub-machine, its timers and triggers.
  \<^item> \<open>Pty\<close> and \<open>Exec\<close> are the parts of \<^verbatim>\<open>pty.rs\<close> and \<^verbatim>\<open>exec.rs\<close> that compute: terminal modes, environments, the exit mapping,
    the handle on a child and what its tasks may do to it. \<open>Pump\<close> has the loops of the tasks that carry its bytes;
    \<open>Reap\<close> has the registry of unreaped children, the reap tasks and the kill guards, next to the kernel's table of
    processes. The locale \<open>task_move\<close> is what the registry asks of the code that signals a child.
  \<^item> \<open>Channel\<close> is \<^verbatim>\<open>channel.rs\<close> in full, \<open>ChannelInv\<close> its invariants, \<open>Drive\<close> the properties of the whole loop.
  \<^item> \<open>Sftp\<close> is \<^verbatim>\<open>sftp.rs\<close>, the helper process behind the subsystem, over a record \<open>fsys\<close> of the system calls it makes;
    \<open>RealPath\<close>, \<open>SftpSpec\<close> and \<open>SftpFiles\<close> are about its path resolution, its sessions and its files.
  \<^item> The binary: \<open>Config\<close> is \<^verbatim>\<open>config.rs\<close>, the schema and the check of trusted files; \<open>Startup\<close> is \<^verbatim>\<open>main.rs\<close> and the text
    of \<^verbatim>\<open>notify.rs\<close>, from the arguments to the accept loop; \<open>Keygen\<close> is \<^verbatim>\<open>keygen.rs\<close>; \<open>Logging\<close> is \<^verbatim>\<open>log_json.rs\<close>,
    \<^verbatim>\<open>log_fields.rs\<close> and the two layers of the log.

  \<^bold>\<open>State, effects and errors.\<close> State is passed explicitly. Every stage keeps a \<open>trace\<close> of the bytes written, the
  messages sent and the audit events logged; an error carries the trace it ends with, so that what was sent
  before a failure is part of the theorems. A panic of the code (\<^verbatim>\<open>expect\<close>, an overlong length) is the error
  value \<open>Panicked\<close>, which the theorems exclude. The record \<open>env\<close> holds what is outside: the cryptographic
  primitives, the random source, the outcome of writes, the clocks and the sizes of partial reads, each
  indexed by a call counter, so that every theorem holds for every behaviour of them. Cryptographic primitives
  are parameters; \<open>aead_ok\<close>, \<open>sig_ok\<close>, \<open>kem_ok\<close>, \<open>crypto_ok\<close> and \<open>in_place\<close> are the documented facts about them
  (lengths, decryption undoes encryption, a signature of a key verifies under it), and each property that assumes
  them has a witness that instantiates them with computable stand-ins. Integers have the width of the source:
  sequence numbers wrap, counters saturate, windows are compared at 32 and 64 bits.

  \<^bold>\<open>What the theorems show.\<close>
  \<^item> Formats: each parser accepts exactly the encodings of what it returns, packets and streams of packets round-trip
    for both ciphers, generated keys load, no two of fewer than \<open>2 ^ 32\<close> packets share a nonce under one key.
  \<^item> Key exchange: negotiation accepts exactly the profile; the exchange hash determines the transcript; an
    authenticated connection went through one transcript with nothing inserted before the keys.
  \<^item> Authentication: acceptance implies a signature over this session by a key that is listed, or certified by a trusted
    authority for this user now; it ends within twelve packets and every refusal is logged.
  \<^item> Admission: in every interleaving the counters equal what live guards hold and stay within the caps.
  \<^item> Accept loop: with arrivals, errors, panics, cancellations and shutdowns in any order it implements the admission
    protocol; each connection that is over has left its one refusal, or its acceptance and its one close; past the
    deadline the drain ends within a bound.
  \<^item> Session: the packet reader with arbitrary partial reads and cancellations refines the plain one; the re-keying
    machine refines the protocol of RFC 4253 section 9, keeps the session well formed, and completes with a peer that
    follows the protocol.
  \<^item> Channel: flow control as a ledger of bytes, the pairing of exec records, the half-duplex rule, no panic, for all
    states reachable by the loop interleaved with the child's tasks.
  \<^item> Children: in every interleaving with the kernel a signal reaches only an unreaped child of the connection, a kill reaches
    the group before the leader is reaped, a task whose leader has exited ends within six turns, and the pumps
    lose, repeat and reorder no byte and do only what the channel loop is proved against.
  \<^item> SFTP: the session refines the sequence of its requests however the input is cut, each request gets one reply
    with its identifier that fits in a packet, handles stay on their files, REALPATH answers with a normal path
    without symbolic links, a WRITE ends and leaves the data where it was told to.
  \<^item> Start-up: the server serves only with files that passed the check, read where they were checked, and with settings in
    their ranges, and otherwise logs one error and fails; a new host key is written whole or not at all, never wider
    than 0600, and loads at the next start.
  \<^item> Log: a JSON line reads back as its envelope and its fields, and no text forges a line.

  \<^bold>\<open>Loops.\<close> No definition uses fuel: each loop is structural or has a measure (the bytes still wanted, the bytes
  still to send, the attempts left, the symbolic links left). \<open>drive\<close> itself may run forever; it is a step relation, and
  its properties are invariants of reachable states and facts about each way it ends. The write loop of the SFTP helper
  repeats interrupted calls and is a partial function; that it returns is proved from a bound on the interruptions.

  \<^bold>\<open>Not modelled.\<close> The system calls of \<^verbatim>\<open>exec.rs\<close> and \<^verbatim>\<open>pty.rs\<close>, whose outcomes are inputs or the record \<open>os\<close>, opening and
  setting up a terminal and the helper that enters it, the signal handlers and the runtime of \<^verbatim>\<open>main.rs\<close>, the
  datagrams of \<^verbatim>\<open>notify.rs\<close>, what the binary prints, and the fuzzing entry points, which wrap parsers that are modelled. The
  TOML deserialiser and the formatting of \<^verbatim>\<open>tracing\<close> around the human fields are third-party crates.
\<close>

end
